(* ===== verification/Prelude.thy ===== *)
theory Prelude
  imports Main "HOL-Library.Word" "HOL-Library.Monad_Syntax"
begin

text \<open>
  Shared vocabulary of the development.

  A C++ function of the repository may stop the whole process: glog's \<open>CHECK\<close> macros and
  \<open>LOG (FATAL)\<close> abort.  Such a function is modelled with result type \<open>'a run\<close>: \<open>None\<close> is
  "the process aborts", \<open>Some x\<close> is "returns \<open>x\<close>".  A function that reports failure to its
  caller (\<open>return false\<close>, \<open>return nullptr\<close>) returns that failure as an ordinary value, so
  a result of type \<open>'a option run\<close> separates the three outcomes abort (\<open>None\<close>), refusal
  (\<open>Some None\<close>) and success (\<open>Some (Some x)\<close>).  The theory holds this vocabulary, the
  byte-string conversions, and the lemmas on the option monad, lists, maps and words that
  the component theories share.
\<close>

unbundle bit_operations_syntax

type_synonym 'a run = "'a option"
type_synonym byte = "8 word"

text \<open>The C++ unsigned type (32 bit) and \<open>uint64_t\<close>.\<close>

type_synonym uint32 = "32 word"
type_synonym uint64 = "64 word"

named_theorems run_simps \<open>rewriting of aborting computations\<close>
named_theorems inv_intros \<open>preservation of component invariants\<close>

text \<open>\<open>CHECK (b)\<close> continues when the condition holds and aborts otherwise.\<close>

definition CHECK :: "bool \<Rightarrow> unit run" where
  "CHECK b = (if b then Some () else None)"

definition LOG_FATAL :: "'a run" where
  "LOG_FATAL = None"

text \<open>Reading an element of a sequence by index: out of range is a fatal error (protobuf's
  repeated fields check the index, and \<open>std::vector\<close> has no defined behaviour).\<close>

definition at_index :: "'a list \<Rightarrow> nat \<Rightarrow> 'a run" where
  "at_index xs i = (if i < length xs then Some (xs ! i) else None)"

text \<open>Byte strings: \<open>std::string\<close> is \<open>string\<close>, one \<open>char\<close> per byte.\<close>

definition char_of_byte :: "byte \<Rightarrow> char" where
  "char_of_byte b = char_of (unat b)"

definition byte_of_char :: "char \<Rightarrow> byte" where
  "byte_of_char c = of_nat (of_char c)"

definition string_of_bytes :: "byte list \<Rightarrow> string" where
  "string_of_bytes = map char_of_byte"

definition bytes_of_string :: "string \<Rightarrow> byte list" where
  "bytes_of_string = map byte_of_char"

subsection \<open>The option monad\<close>

lemma CHECK_simps [simp, run_simps]:
  "CHECK True = Some ()" "CHECK False = None"
  by (simp_all add: CHECK_def)

lemma CHECK_eq_Some [simp, run_simps]: "CHECK b = Some u \<longleftrightarrow> b"
  by (simp add: CHECK_def)

lemma CHECK_eq_None [simp, run_simps]: "CHECK b = None \<longleftrightarrow> \<not> b"
  by (simp add: CHECK_def)

lemma bind_CHECK [run_simps]:
  "Option.bind (CHECK b) f = (if b then f () else None)"
  by (simp add: CHECK_def)

lemma at_index_Some [simp]: "at_index xs i = Some x \<longleftrightarrow> i < length xs \<and> xs ! i = x"
  by (auto simp: at_index_def)

lemma at_index_in [run_simps]: "i < length xs \<Longrightarrow> at_index xs i = Some (xs ! i)"
  by (simp add: at_index_def)

lemma at_index_None [simp]: "at_index xs i = None \<longleftrightarrow> length xs \<le> i"
  by (auto simp: at_index_def)

lemmas bind_Some_iff = Option.bind_eq_Some_conv

lemma bind_SomeE:
  assumes "Option.bind x f = Some y"
  obtains a where "x = Some a" "f a = Some y"
  using assms by (cases x) auto

lemma run_total: "(\<exists>y. x = Some y) \<longleftrightarrow> x \<noteq> None"
  by auto

subsection \<open>Bytes and characters\<close>

lemma byte_of_char_of_byte [simp]: "byte_of_char (char_of_byte b) = b"
proof -
  have "unat b < 256"
    using unsigned_less [of b, where ?'a = nat] by simp
  then show ?thesis
    by (simp add: byte_of_char_def char_of_byte_def)
qed

lemma char_of_byte_of_char [simp]: "char_of_byte (byte_of_char c) = c"
proof -
  have "of_char c < (256::nat)"
    using nat_of_char_less_256 [of c] by simp
  then show ?thesis
    by (simp add: byte_of_char_def char_of_byte_def unat_of_nat)
qed

lemma bytes_of_string_of_bytes [simp]: "bytes_of_string (string_of_bytes bs) = bs"
  by (induction bs) (simp_all add: bytes_of_string_def string_of_bytes_def)

lemma string_of_bytes_of_string [simp]: "string_of_bytes (bytes_of_string s) = s"
  by (induction s) (simp_all add: bytes_of_string_def string_of_bytes_def)

lemma length_string_of_bytes [simp]: "length (string_of_bytes bs) = length bs"
  by (simp add: string_of_bytes_def)

lemma length_bytes_of_string [simp]: "length (bytes_of_string s) = length s"
  by (simp add: bytes_of_string_def)

lemma string_of_bytes_inject [simp]: "string_of_bytes a = string_of_bytes b \<longleftrightarrow> a = b"
  by (metis bytes_of_string_of_bytes)

lemma push_bit_or_eq_add:
  fixes hi lo :: "'a :: semiring_bit_operations"
  assumes "take_bit n lo = lo"
  shows "push_bit n hi OR lo = push_bit n hi + lo"
proof -
  have "push_bit n hi AND take_bit n lo = 0"
    by (rule bit_eqI) (auto simp: bit_simps)
  with assms show ?thesis
    by (simp add: disjunctive_add_eq_or)
qed

lemma unat_ucast_32_64 [simp]: "unat (ucast (n :: uint32) :: uint64) = unat n"
  by transfer simp

text \<open>Conversion of an unsigned 32-bit value to \<open>int\<close>: the small values are kept.\<close>

lemma unat_less_iff_uint: "unat w < k \<longleftrightarrow> uint w < int k"
  by transfer (simp add: nat_less_iff)

lemma sint_nonneg: "0 \<le> sint (w :: uint32) \<Longrightarrow> sint w = uint w"
proof -
  assume "0 \<le> sint w"
  moreover have "sint w < 2 ^ LENGTH(32)"
    by (rule order.strict_trans2 [OF sint_less]) simp
  ultimately have "take_bit LENGTH(32) (sint w) = sint w"
    by (rule take_bit_int_eq_self)
  then show "sint w = uint w"
    by (rule sym [OF trans [OF uint_sint]])
qed

lemma sint_small: "uint (w :: uint32) < 2 ^ 31 \<Longrightarrow> sint w = uint w"
proof -
  assume "uint w < 2 ^ 31"
  moreover have "- (2 ^ 31) \<le> uint w"
    by (rule order_trans [of _ 0]) simp_all
  ultimately have "signed_take_bit 31 (uint w) = uint w"
    by (intro signed_take_bit_int_eq_self)
  then show ?thesis
    by (simp add: sint_uint)
qed

lemma sint_range_iff: "k \<le> 2 ^ 31 \<Longrightarrow> 0 \<le> sint (w :: uint32) \<and> sint w < int k \<longleftrightarrow> unat w < k"
  using sint_nonneg [of w] sint_small [of w] by (auto simp: unat_less_iff_uint)

subsection \<open>Lists\<close>

lemma length_Suc_0_conv: "length xs = Suc 0 \<longleftrightarrow> (\<exists>a. xs = [a])"
  by (cases xs) auto

lemma length_2_conv: "length xs = 2 \<longleftrightarrow> (\<exists>a b. xs = [a, b])"
proof
  assume "length xs = 2"
  then obtain a ys where "xs = a # ys" and "length ys = Suc 0"
    by (cases xs) auto
  then show "\<exists>a b. xs = [a, b]"
    by (auto simp: length_Suc_0_conv)
qed auto

lemma those_map_Some:
  "(\<And>x. x \<in> set xs \<Longrightarrow> f x = Some (h x)) \<Longrightarrow> those (map f xs) = Some (map h xs)"
  by (induction xs) simp_all

lemma concat_rows:
  "concat (map (\<lambda>r. map (\<lambda>c. f (k * r + c)) [0..<k]) [0..<n]) = map f [0..<k * n]"
proof (induction n)
  case (Suc n)
  have "map (\<lambda>c. f (k * n + c)) [0..<k] = map f [k * n..<k * n + k]"
    by (rule nth_equalityI) simp_all
  moreover have "[0..<k * Suc n] = [0..<k * n] @ [k * n..<k * n + k]"
    using upt_add_eq_append [of 0 "k * n" k] by (simp add: add.commute)
  ultimately show ?case
    using Suc by simp
qed simp

end
