(* ===== verification/Uint256.thy ===== *)
theory Uint256
  imports Prelude
begin

text \<open>
  The 256-bit values of \<open>src/xayautil/uint256.hpp\<close> and \<open>uint256.cpp\<close>: block hashes, txids,
  channel ids.  A value is its array of bytes, most significant first; a well-formed value
  has 32 bytes.  Conversion to and from hexadecimal strings, the null value and the ordering
  are modelled; the lemmas show that hex conversion is a round trip, that \<open>FromHex\<close>
  accepts exactly the strings it should, and that the byte-wise ordering is the numeric one.
\<close>

type_synonym uint256 = "byte list"

definition NUM_BYTES :: nat where
  "NUM_BYTES = 256 div 8"

definition wf_uint256 :: "uint256 \<Rightarrow> bool" where
  "wf_uint256 d \<longleftrightarrow> length d = NUM_BYTES"

text \<open>\<open>sprintf ("%02x")\<close> of one byte.\<close>

definition hex_digit :: "nat \<Rightarrow> char" where
  "hex_digit n = ''0123456789abcdef'' ! n"

definition hex_byte :: "byte \<Rightarrow> string" where
  "hex_byte b = [hex_digit (unat b div 16), hex_digit (unat b mod 16)]"

definition ToHex :: "uint256 \<Rightarrow> string" where
  "ToHex d = concat (map hex_byte d)"

definition ParseHexDigit :: "char \<Rightarrow> nat option" where
  "ParseHexDigit digit =
     (let c = of_char digit :: nat in
      if of_char (CHR ''0'') \<le> c \<and> c \<le> of_char (CHR ''9'') then Some (c - of_char (CHR ''0''))
      else if of_char (CHR ''a'') \<le> c \<and> c \<le> of_char (CHR ''f'')
        then Some (10 + (c - of_char (CHR ''a'')))
      else if of_char (CHR ''A'') \<le> c \<and> c \<le> of_char (CHR ''F'')
        then Some (10 + (c - of_char (CHR ''A'')))
      else None)"

text \<open>The loop of \<open>FromHex\<close> over pairs of digits; the caller has checked the length.\<close>

fun FromHex_loop :: "string \<Rightarrow> byte list option" where
  "FromHex_loop (h # l # rest) =
     do {
       hi \<leftarrow> ParseHexDigit h;
       lo \<leftarrow> ParseHexDigit l;
       bs \<leftarrow> FromHex_loop rest;
       Some ((push_bit 4 (of_nat hi) OR of_nat lo) # bs)
     }"
| "FromHex_loop _ = Some []"

definition FromHex :: "string \<Rightarrow> uint256 option" where
  "FromHex hex = (if length hex \<noteq> NUM_BYTES * 2 then None else FromHex_loop hex)"

definition FromBlob :: "byte list \<Rightarrow> uint256" where
  "FromBlob blob = take NUM_BYTES blob"

definition GetBinaryString :: "uint256 \<Rightarrow> string" where
  "GetBinaryString d = string_of_bytes d"

definition IsNull :: "uint256 \<Rightarrow> bool" where
  "IsNull d = list_all (\<lambda>v. v = 0) d"

definition SetNull :: uint256 where
  "SetNull = replicate NUM_BYTES 0"

text \<open>\<open>operator<\<close>: \<open>std::array\<close> compares lexicographically.\<close>

fun uint256_less :: "uint256 \<Rightarrow> uint256 \<Rightarrow> bool" where
  "uint256_less [] ys = (ys \<noteq> [])"
| "uint256_less (x # xs) [] = False"
| "uint256_less (x # xs) (y # ys) = (x < y \<or> x = y \<and> uint256_less xs ys)"

text \<open>The number that a big-endian byte array stands for.\<close>

fun big_endian_value :: "byte list \<Rightarrow> nat" where
  "big_endian_value [] = 0"
| "big_endian_value (b # bs) = unat b * 256 ^ length bs + big_endian_value bs"

subsection \<open>Hexadecimal conversion\<close>

lemma unat_byte_bound: "unat (b :: byte) < 256"
  using unsigned_less [of b, where ?'a = nat] by simp

lemma hex_digit_cases:
  assumes "n < (16 :: nat)"
  shows "n \<in> {0, 1, 2, 3, 4, 5, 6, 7, 8, 9, 10, 11, 12, 13, 14, 15}"
  using assms by simp presburger

lemma ParseHexDigit_hex_digit: "n < 16 \<Longrightarrow> ParseHexDigit (hex_digit n) = Some n"
  by (drule hex_digit_cases) (elim insertE emptyE; simp add: ParseHexDigit_def hex_digit_def)

lemma ParseHexDigit_bound: "ParseHexDigit c = Some n \<Longrightarrow> n < 16"
  by (auto simp: ParseHexDigit_def Let_def split: if_splits)

lemma nibbles_byte:
  assumes "hi < 16" and "lo < 16"
  shows "unat (push_bit 4 (of_nat hi :: byte) OR of_nat lo) = 16 * hi + lo"
proof -
  have "push_bit 4 hi OR lo = 16 * hi + lo"
    using assms push_bit_or_eq_add [of 4 lo hi]
    by (simp add: take_bit_nat_eq_self push_bit_eq_mult)
  then have "push_bit 4 (of_nat hi :: byte) OR of_nat lo = of_nat (16 * hi + lo)"
    by (metis of_nat_or_eq of_nat_push_bit)
  moreover have "unat (of_nat (16 * hi + lo) :: byte) = 16 * hi + lo"
    using assms by (simp only: unat_of_nat) simp
  ultimately show ?thesis
    by (simp only:)
qed

lemma FromHex_loop_ToHex: "FromHex_loop (ToHex d) = Some d"
proof (induction d)
  case Nil
  then show ?case by (simp add: ToHex_def)
next
  case (Cons b d)
  have "unat b div 16 < 16"
    using unat_byte_bound [of b] by linarith
  moreover from this have "push_bit 4 (of_nat (unat b div 16)) OR of_nat (unat b mod 16) = b"
    by (simp add: word_unat_eq_iff nibbles_byte del: of_nat_mod of_nat_div)
  ultimately show ?case
    using Cons by (simp add: ToHex_def hex_byte_def ParseHexDigit_hex_digit)
qed

lemma length_ToHex: "length (ToHex d) = 2 * length d"
  by (induction d) (simp_all add: ToHex_def hex_byte_def)

lemma FromHex_loop_length: "FromHex_loop s = Some d \<Longrightarrow> length d = length s div 2"
  by (induction s arbitrary: d rule: FromHex_loop.induct) (auto simp: bind_Some_iff)

text \<open>Every accepted digit is, up to the case of the letters, the digit that is printed.\<close>

definition lower_hex :: "char \<Rightarrow> char" where
  "lower_hex c = (let n = of_char c :: nat in if 65 \<le> n \<and> n \<le> 70 then char_of (n + 32) else c)"

lemma hex_digit_ParseHexDigit:
  assumes "ParseHexDigit c = Some n"
  shows "hex_digit n = lower_hex c"
proof -
  define k :: nat where "k = of_char c"
  from assms have "k \<in> {48..57} \<union> {97..102} \<union> {65..70}"
    by (auto simp: ParseHexDigit_def Let_def k_def split: if_splits)
  then have "k \<in> {48,49,50,51,52,53,54,55,56,57,97,98,99,100,101,102,65,66,67,68,69,70}"
    by simp presburger
  then have "(of_char (hex_digit n) :: nat) = of_char (lower_hex c)"
    using assms
    by (elim insertE emptyE;
        simp add: ParseHexDigit_def lower_hex_def hex_digit_def k_def [symmetric])
  then show ?thesis
    by (simp only: of_char_eq_iff)
qed

lemma ToHex_FromHex_loop:
  "FromHex_loop s = Some d \<Longrightarrow> even (length s) \<Longrightarrow> ToHex d = map lower_hex s"
proof (induction s arbitrary: d rule: FromHex_loop.induct)
  case (1 h l rest)
  then obtain hi lo bs where p: "ParseHexDigit h = Some hi" "ParseHexDigit l = Some lo"
    and "FromHex_loop rest = Some bs" and d: "d = (push_bit 4 (of_nat hi) OR of_nat lo) # bs"
    by (auto simp: bind_Some_iff)
  then have "ToHex bs = map lower_hex rest"
    using "1.prems" "1.IH" [OF p] by simp
  moreover have "hex_byte (push_bit 4 (of_nat hi) OR of_nat lo) = [lower_hex h, lower_hex l]"
    using p [THEN ParseHexDigit_bound] p [THEN hex_digit_ParseHexDigit]
    by (simp add: hex_byte_def nibbles_byte)
  ultimately show ?case
    by (simp add: d ToHex_def)
qed (simp_all add: ToHex_def)

lemma FromHex_wf: "FromHex s = Some d \<Longrightarrow> wf_uint256 d"
  by (auto simp: FromHex_def wf_uint256_def dest: FromHex_loop_length split: if_splits)

lemma FromHex_ToHex [simp]: "wf_uint256 d \<Longrightarrow> FromHex (ToHex d) = Some d"
  by (simp add: FromHex_def wf_uint256_def length_ToHex FromHex_loop_ToHex)

lemma ToHex_inject: "ToHex a = ToHex b \<Longrightarrow> a = b"
  by (metis FromHex_loop_ToHex option.inject)

lemma IsNull_SetNull [simp]: "IsNull SetNull" "wf_uint256 SetNull"
  by (simp_all add: IsNull_def SetNull_def wf_uint256_def list_all_iff)

lemma IsNull_iff: "wf_uint256 d \<Longrightarrow> IsNull d \<longleftrightarrow> d = SetNull"
  by (auto simp: IsNull_def SetNull_def wf_uint256_def list_all_iff intro: replicate_eqI)

subsection \<open>Ordering\<close>

lemma big_endian_value_bound: "big_endian_value bs < 256 ^ length bs"
proof (induction bs)
  case (Cons b bs)
  have "big_endian_value (b # bs) < (unat b + 1) * 256 ^ length bs"
    using Cons by (simp add: algebra_simps)
  also have "\<dots> \<le> 256 * 256 ^ length bs"
    using unat_byte_bound [of b] by (intro mult_le_mono1) simp
  finally show ?case
    by (simp only: length_Cons power_Suc)
qed simp

lemma uint256_less_numeric:
  "length a = length b \<Longrightarrow> uint256_less a b \<longleftrightarrow> big_endian_value a < big_endian_value b"
proof (induction a b rule: uint256_less.induct)
  case (3 x xs y ys)
  let ?m = "256 ^ length ys :: nat"
  have len: "length xs = length ys"
    using "3.prems" by simp
  have bx: "big_endian_value xs < ?m" and b2: "big_endian_value ys < ?m"
    using big_endian_value_bound [of xs] big_endian_value_bound [of ys] len by simp_all
  consider "x < y" | "x = y" | "y < x"
    by (rule linorder_cases)
  then show ?case
  proof cases
    case 1
    then have "(unat x + 1) * ?m \<le> unat y * ?m"
      by (intro mult_le_mono1) (simp add: word_less_nat_alt)
    with 1 bx len show ?thesis by simp
  next
    case 2
    with 3 len show ?thesis by simp
  next
    case 3
    then have "(unat y + 1) * ?m \<le> unat x * ?m"
      by (intro mult_le_mono1) (simp add: word_less_nat_alt)
    with 3 b2 len show ?thesis by auto
  qed
qed auto

subsection \<open>Properties\<close>

lemma ParseHexDigit_lower: "ParseHexDigit (lower_hex c) = ParseHexDigit c"
  by (auto simp: ParseHexDigit_def lower_hex_def Let_def of_char_of)

lemma FromHex_loop_lower: "FromHex_loop (map lower_hex s) = FromHex_loop s"
  by (induction s rule: FromHex_loop.induct) (simp_all add: ParseHexDigit_lower cong: Option.bind_cong)

text \<open>\<open>FromHex\<close> accepts exactly the hex texts of 256-bit values, with letters of either case:
  it yields \<open>d\<close> if and only if \<open>d\<close> has 32 bytes and the text, with its letters A to F turned to
  lower case, is \<open>ToHex d\<close>.\<close>

theorem FromHex_iff:
  "FromHex s = Some d \<longleftrightarrow> wf_uint256 d \<and> map lower_hex s = ToHex d"
proof
  assume s: "FromHex s = Some d"
  then have "FromHex_loop s = Some d" "length s = 2 * NUM_BYTES"
    by (auto simp: FromHex_def split: if_splits)
  then show "wf_uint256 d \<and> map lower_hex s = ToHex d"
    using FromHex_wf [OF s] ToHex_FromHex_loop [of s d] by simp
next
  assume d: "wf_uint256 d \<and> map lower_hex s = ToHex d"
  then have "length s = 2 * NUM_BYTES"
    using length_ToHex [of d] by (metis length_map wf_uint256_def)
  then show "FromHex s = Some d"
    using d FromHex_ToHex [of d] FromHex_loop_lower [of s]
    by (auto simp: FromHex_def split: if_splits)
qed

text \<open>The comparison of two 256-bit values is the comparison of the numbers whose big-endian
  bytes they hold.\<close>

theorem uint256_order_numeric:
  "wf_uint256 a \<Longrightarrow> wf_uint256 b \<Longrightarrow> uint256_less a b \<longleftrightarrow> big_endian_value a < big_endian_value b"
  by (rule uint256_less_numeric) (simp add: wf_uint256_def)

theorem uint256_order_numeric_witness:
  "uint256_less (replicate 31 0 @ [5]) (replicate 30 0 @ [1, 0]) \<longleftrightarrow>
   big_endian_value (replicate 31 0 @ [5]) < big_endian_value (replicate 30 0 @ [1, 0])"
  by (rule uint256_order_numeric) (simp_all add: wf_uint256_def NUM_BYTES_def)

end
