(* ===== verification/Channel_Protos.thy ===== *)
theory Channel_Protos
  imports Uint256
begin

text \<open>
  The protocol buffers of the game channels (\<open>src/gamechannel/proto/\<close>) and the checks on their
  version and unknown fields (\<open>src/gamechannel/protoversion.cpp\<close>).  A message is a record: an
  optional field is an \<open>option\<close>, a repeated one a list, and a flag records whether the parser
  kept fields it does not know.  An accessor of an unset field yields the default value, as the
  generated C++ classes do.  \<open>HasAnyUnknownFields\<close> uses protobuf's reflection; the tree of a
  message's unknown-field flags stands for what reflection shows of it.

  Parsing and serialising itself is protobuf's code and a parameter of the theories that use it.
\<close>

record channel_participant =
  cp_unknown :: bool
  cp_name :: "string option"
  cp_address :: "string option"

record channel_metadata =
  cm_unknown :: bool
  participants :: "channel_participant list"
  cm_reinit :: "string option"
  cm_custom :: "string option"

record signed_data =
  sd_unknown :: bool
  sd_data :: "string option"
  signatures :: "string list"
  for_testing_version :: "string option"

record state_transition =
  st_unknown :: bool
  st_move :: "string option"
  st_new_state :: "signed_data option"

record state_proof =
  sp_unknown :: bool
  sp_initial_state :: "signed_data option"
  transitions :: "state_transition list"

text \<open>Accessors: the default of an unset field is the empty string or the empty message.\<close>

definition bytes_value :: "string option \<Rightarrow> string" where
  "bytes_value v = (case v of None \<Rightarrow> [] | Some s \<Rightarrow> s)"

definition empty_signed_data :: signed_data where
  "empty_signed_data =
     \<lparr>sd_unknown = False, sd_data = None, signatures = [], for_testing_version = None\<rparr>"

definition data :: "signed_data \<Rightarrow> string" where
  "data sd = bytes_value (sd_data sd)"

definition move :: "state_transition \<Rightarrow> string" where
  "move t = bytes_value (st_move t)"

definition new_state :: "state_transition \<Rightarrow> signed_data" where
  "new_state t = (case st_new_state t of None \<Rightarrow> empty_signed_data | Some s \<Rightarrow> s)"

definition initial_state :: "state_proof \<Rightarrow> signed_data" where
  "initial_state p = (case sp_initial_state p of None \<Rightarrow> empty_signed_data | Some s \<Rightarrow> s)"

definition address :: "channel_participant \<Rightarrow> string" where
  "address p = bytes_value (cp_address p)"

definition participant_name :: "channel_participant \<Rightarrow> string" where
  "participant_name p = bytes_value (cp_name p)"

definition reinit :: "channel_metadata \<Rightarrow> string" where
  "reinit m = bytes_value (cm_reinit m)"

subsection \<open>Unknown fields\<close>

text \<open>What reflection shows of a message: whether it has unknown fields, and the messages nested
  in its fields, in the order of the fields.\<close>

datatype message = Message (unknown_fields: bool) (nested: "message list")

primrec HasAnyUnknownFields :: "message \<Rightarrow> bool" where
  "HasAnyUnknownFields (Message u ms) \<longleftrightarrow> (if u then True else list_ex id (map HasAnyUnknownFields ms))"

definition reflect_signed_data :: "signed_data \<Rightarrow> message" where
  "reflect_signed_data sd = Message (sd_unknown sd) []"

definition reflect_transition :: "state_transition \<Rightarrow> message" where
  "reflect_transition t =
     Message (st_unknown t) (case st_new_state t of None \<Rightarrow> [] | Some s \<Rightarrow> [reflect_signed_data s])"

definition reflect_proof :: "state_proof \<Rightarrow> message" where
  "reflect_proof p =
     Message (sp_unknown p)
       ((case sp_initial_state p of None \<Rightarrow> [] | Some s \<Rightarrow> [reflect_signed_data s])
        @ map reflect_transition (transitions p))"

subsection \<open>Versions\<close>

datatype ChannelProtoVersion = ORIGINAL

fun CheckProtoVersion_SignedData :: "ChannelProtoVersion \<Rightarrow> signed_data \<Rightarrow> bool" where
  "CheckProtoVersion_SignedData ORIGINAL msg \<longleftrightarrow> for_testing_version msg = None"

definition CheckProtoVersion_StateProof :: "ChannelProtoVersion \<Rightarrow> state_proof \<Rightarrow> bool" where
  "CheckProtoVersion_StateProof version msg \<longleftrightarrow>
     (if \<not> CheckProtoVersion_SignedData version (initial_state msg) then False
      else list_all (\<lambda>t. CheckProtoVersion_SignedData version (new_state t)) (transitions msg))"

definition CheckVersionedProto_StateProof ::
    "(channel_metadata \<Rightarrow> ChannelProtoVersion) \<Rightarrow> channel_metadata \<Rightarrow> state_proof \<Rightarrow> bool" where
  "CheckVersionedProto_StateProof GetProtoVersion meta msg \<longleftrightarrow>
     (if HasAnyUnknownFields (reflect_proof msg) then False
      else if \<not> CheckProtoVersion_StateProof (GetProtoVersion meta) msg then False else True)"

definition CheckVersionedProto_SignedData ::
    "(channel_metadata \<Rightarrow> ChannelProtoVersion) \<Rightarrow> channel_metadata \<Rightarrow> signed_data \<Rightarrow> bool" where
  "CheckVersionedProto_SignedData GetProtoVersion meta msg \<longleftrightarrow>
     (if HasAnyUnknownFields (reflect_signed_data msg) then False
      else if \<not> CheckProtoVersion_SignedData (GetProtoVersion meta) msg then False else True)"

text \<open>The messages of a proof that is accepted carry no unknown field and no field of another
  version, anywhere.\<close>

definition plain_signed_data :: "signed_data \<Rightarrow> bool" where
  "plain_signed_data sd \<longleftrightarrow> \<not> sd_unknown sd \<and> for_testing_version sd = None"

definition plain_transition :: "state_transition \<Rightarrow> bool" where
  "plain_transition t \<longleftrightarrow> \<not> st_unknown t \<and> plain_signed_data (new_state t)"

definition plain_proof :: "state_proof \<Rightarrow> bool" where
  "plain_proof p \<longleftrightarrow> \<not> sp_unknown p \<and> plain_signed_data (initial_state p) \<and>
     (\<forall>t\<in>set (transitions p). plain_transition t)"

lemma plain_empty [simp]: "plain_signed_data empty_signed_data"
  by (simp add: plain_signed_data_def empty_signed_data_def)

lemma unknown_signed_data [simp]: "HasAnyUnknownFields (reflect_signed_data sd) = sd_unknown sd"
  by (simp add: reflect_signed_data_def)

lemma version_cases [simp]: "CheckProtoVersion_SignedData v sd \<longleftrightarrow> for_testing_version sd = None"
  by (cases v) simp

lemma unknown_transition [simp]:
  "HasAnyUnknownFields (reflect_transition t) \<longleftrightarrow> st_unknown t \<or> sd_unknown (new_state t)"
  by (auto simp: reflect_transition_def new_state_def empty_signed_data_def split: option.split)

lemma CheckVersionedProto_plain:
  "CheckVersionedProto_StateProof v meta p \<longleftrightarrow> plain_proof p"
  by (auto simp: CheckVersionedProto_StateProof_def CheckProtoVersion_StateProof_def reflect_proof_def
      plain_proof_def plain_transition_def plain_signed_data_def initial_state_def empty_signed_data_def
      list_all_iff list_ex_iff split: option.split)

end
