(* ===== verification/Board_Rules.thy ===== *)
theory Board_Rules
  imports Channel_Protos
begin

text \<open>
  The interface between the game-channel framework and the rules of a game:
  \<open>src/gamechannel/boardrules.hpp\<close> as a record of functions, and its implementation for states
  and moves that are protocol buffers, \<open>src/gamechannel/protoboard.tpp\<close>.

  A parsed board state of type \<open>'ps\<close> stands for an instance of \<open>ParsedBoardState\<close>; parsing,
  \<open>WhoseTurn\<close>, \<open>TurnCount\<close> and \<open>ApplyMove\<close> may abort.  The RPC client that \<open>ApplyMove\<close> receives
  is not used by any rules in the repository and has no counterpart.

  The locale \<open>board_equality\<close> is the contract on which state proofs rest: the parsed states that
  a state string is \<open>Equals\<close> to are those it parses to.  Protocol-buffer rules fulfil it whatever
  the codec is (the interpretation at the end).
\<close>

record 'ps board_rules =
  ParseState :: "uint256 \<Rightarrow> channel_metadata \<Rightarrow> string \<Rightarrow> 'ps option run"
  GetProtoVersion :: "channel_metadata \<Rightarrow> ChannelProtoVersion"
  Equals :: "'ps \<Rightarrow> string \<Rightarrow> bool"
  WhoseTurn :: "'ps \<Rightarrow> int run"
  TurnCount :: "'ps \<Rightarrow> uint32 run"
  ApplyMove :: "'ps \<Rightarrow> string \<Rightarrow> string option run"

definition NO_TURN :: int where
  "NO_TURN = -1"

subsection \<open>Rules on protocol buffers\<close>

text \<open>The parsed state holds the channel ID and metadata it was parsed for.\<close>

record 's proto_board_state =
  pbs_id :: uint256
  pbs_meta :: channel_metadata
  pbs_state :: 's

text \<open>What a game supplies: the protobuf codec of its messages and the methods it overrides.\<close>

record ('s, 'm) proto_game =
  parse_state :: "string \<Rightarrow> 's option"
  serialise_state :: "'s \<Rightarrow> string"
  parse_move :: "string \<Rightarrow> 'm option"
  reflect_state :: "'s \<Rightarrow> message"
  reflect_move :: "'m \<Rightarrow> message"
  game_IsValid :: "channel_metadata \<Rightarrow> 's \<Rightarrow> bool run"
  game_WhoseTurn :: "channel_metadata \<Rightarrow> 's \<Rightarrow> int run"
  game_TurnCount :: "channel_metadata \<Rightarrow> 's \<Rightarrow> uint32 run"
  game_ApplyMoveProto :: "channel_metadata \<Rightarrow> 's \<Rightarrow> 'm \<Rightarrow> 's option run"
  game_ProtoVersion :: "channel_metadata \<Rightarrow> ChannelProtoVersion"

definition EqualsProto :: "'s \<Rightarrow> 's \<Rightarrow> bool" where
  "EqualsProto state other \<longleftrightarrow> state = other"

definition ProtoBoardState_Equals :: "('s, 'm) proto_game \<Rightarrow> 's proto_board_state \<Rightarrow> string \<Rightarrow> bool" where
  "ProtoBoardState_Equals game p other =
     (case parse_state game other of
        None \<Rightarrow> False
      | Some po \<Rightarrow>
          if HasAnyUnknownFields (reflect_state game po) then False
          else EqualsProto (pbs_state p) po)"

definition ProtoBoardState_ApplyMove ::
    "('s, 'm) proto_game \<Rightarrow> 's proto_board_state \<Rightarrow> string \<Rightarrow> string option run" where
  "ProtoBoardState_ApplyMove game p mv =
     (case parse_move game mv of
        None \<Rightarrow> Some None
      | Some pm \<Rightarrow>
          if HasAnyUnknownFields (reflect_move game pm) then Some None
          else do {
            pn \<leftarrow> game_ApplyMoveProto game (pbs_meta p) (pbs_state p) pm;
            (case pn of None \<Rightarrow> Some None | Some s \<Rightarrow> Some (Some (serialise_state game s)))
          })"

definition ProtoBoardRules_ParseState ::
    "('s, 'm) proto_game \<Rightarrow> uint256 \<Rightarrow> channel_metadata \<Rightarrow> string \<Rightarrow> 's proto_board_state option run" where
  "ProtoBoardRules_ParseState game channelId meta s =
     (case parse_state game s of
        None \<Rightarrow> Some None
      | Some p \<Rightarrow>
          if HasAnyUnknownFields (reflect_state game p) then Some None
          else do {
            valid \<leftarrow> game_IsValid game meta p;
            if \<not> valid then Some None
            else Some (Some \<lparr>pbs_id = channelId, pbs_meta = meta, pbs_state = p\<rparr>)
          })"

definition ProtoBoardRules :: "('s, 'm) proto_game \<Rightarrow> 's proto_board_state board_rules" where
  "ProtoBoardRules game =
     \<lparr>ParseState = ProtoBoardRules_ParseState game,
      GetProtoVersion = game_ProtoVersion game,
      Equals = ProtoBoardState_Equals game,
      WhoseTurn = (\<lambda>p. game_WhoseTurn game (pbs_meta p) (pbs_state p)),
      TurnCount = (\<lambda>p. game_TurnCount game (pbs_meta p) (pbs_state p)),
      ApplyMove = ProtoBoardState_ApplyMove game\<rparr>"

subsection \<open>The contract of equality\<close>

locale board_equality =
  fixes rules :: "'ps board_rules"
  assumes Equals_refl: "ParseState rules cid meta s = Some (Some p) \<Longrightarrow> Equals rules p s"
    and Equals_parse: "ParseState rules cid meta s = Some (Some p) \<Longrightarrow> Equals rules p s' \<Longrightarrow>
      ParseState rules cid meta s' = Some (Some p)"
begin

lemma Equals_iff:
  assumes "ParseState rules cid meta s = Some (Some p)"
  shows "Equals rules p s' \<longleftrightarrow> ParseState rules cid meta s' = Some (Some p)"
  using assms Equals_parse Equals_refl by blast

end

lemma ParseState_iff:
  "ParseState (ProtoBoardRules game) cid meta s = Some (Some p) \<longleftrightarrow>
     (\<exists>st. parse_state game s = Some st \<and> \<not> HasAnyUnknownFields (reflect_state game st) \<and>
       game_IsValid game meta st = Some True \<and> p = \<lparr>pbs_id = cid, pbs_meta = meta, pbs_state = st\<rparr>)"
  by (auto simp: ProtoBoardRules_def ProtoBoardRules_ParseState_def bind_Some_iff split: option.splits if_splits)

lemma Equals_iff_parse:
  "Equals (ProtoBoardRules game) p s \<longleftrightarrow>
     parse_state game s = Some (pbs_state p) \<and> \<not> HasAnyUnknownFields (reflect_state game (pbs_state p))"
  by (auto simp: ProtoBoardRules_def ProtoBoardState_Equals_def EqualsProto_def split: option.splits)

interpretation proto_equality: board_equality "ProtoBoardRules game" for game
proof
  fix cid meta s p
  assume p: "ParseState (ProtoBoardRules game) cid meta s = Some (Some p)"
  then show "Equals (ProtoBoardRules game) p s"
    unfolding ParseState_iff Equals_iff_parse by force
  fix s'
  assume "Equals (ProtoBoardRules game) p s'"
  with p show "ParseState (ProtoBoardRules game) cid meta s' = Some (Some p)"
    unfolding ParseState_iff Equals_iff_parse by force
qed

end
