(* ===== verification/Base64.thy ===== *)
theory Base64
  imports Prelude
begin

text \<open>
  Base64 as in \<open>src/xayautil/base64.cpp\<close>.  The block coder is OpenSSL's (\<open>EVP_EncodeBlock\<close> and
  \<open>EVP_DecodeBlock\<close>) and a parameter: encoding yields the encoded characters, decoding the bytes
  including those that belong to padding, or nothing on an error.  What is OpenSSL's documented
  behaviour is the locale \<open>evp_base64\<close>: four characters per started group of three bytes, padding
  only at the end, and decoding yields the data again with a zero byte for every padding
  character.
\<close>

definition EncodeBase64 :: "(string \<Rightarrow> string) \<Rightarrow> string \<Rightarrow> string run" where
  "EncodeBase64 evp dat =
     (let bufSize = 3 + 2 * length dat; encoded = evp dat in
      do {
        CHECK (length encoded + 1 \<le> bufSize);
        Some (filter (\<lambda>c. c \<noteq> CHR 0x0A) encoded)
      })"

text \<open>The loop that counts padding; \<open>None\<close> where it finds padding in the middle.\<close>

fun count_padding :: "string \<Rightarrow> nat \<Rightarrow> nat option" where
  "count_padding [] padding = Some padding"
| "count_padding (c # cs) padding =
     (if c \<noteq> CHR ''='' then
        if padding > 0 then None else count_padding cs padding
      else count_padding cs (Suc padding))"

definition DecodeBase64 :: "(string \<Rightarrow> string option) \<Rightarrow> string \<Rightarrow> string option run" where
  "DecodeBase64 evp encoded =
     (if length encoded mod 4 \<noteq> 0 then Some None
      else
        case count_padding encoded 0 of
          None \<Rightarrow> Some None
        | Some padding \<Rightarrow>
            if padding \<ge> 4 then Some None
            else
              let outputSize = length encoded div 4 * 3 in
              case evp encoded of
                None \<Rightarrow> Some None
              | Some dat \<Rightarrow>
                  do {
                    CHECK (length dat = outputSize);
                    if length dat = 0 then do { CHECK (padding = 0); Some (Some dat) }
                    else do {
                      CHECK (padding < length dat);
                      Some (Some (take (length dat - padding) dat))
                    }
                  })"

text \<open>The number of padding characters for \<open>n\<close> bytes.\<close>

definition padding_for :: "nat \<Rightarrow> nat" where
  "padding_for n = (3 - n mod 3) mod 3"

locale evp_base64 =
  fixes evp_encode :: "string \<Rightarrow> string" and evp_decode :: "string \<Rightarrow> string option"
  assumes encode_shape: "\<exists>body. evp_encode dat = body @ replicate (padding_for (length dat)) (CHR ''='') \<and>
      CHR ''='' \<notin> set body \<and> CHR 0x0A \<notin> set body \<and>
      length (evp_encode dat) = (length dat + 2) div 3 * 4"
    and decode_encode: "evp_decode (evp_encode dat) = Some (dat @ replicate (padding_for (length dat)) (CHR 0x00))"

lemma count_padding_plain: "CHR ''='' \<notin> set body \<Longrightarrow> count_padding (body @ cs) 0 = count_padding cs 0"
  by (induction body) auto

lemma count_padding_replicate: "count_padding (replicate n (CHR ''='')) k = Some (n + k)"
  by (induction n arbitrary: k) simp_all

lemma padding_total: "length dat + padding_for (length dat) = (length dat + 2) div 3 * 3"
proof -
  have "length dat mod 3 = 0 \<or> length dat mod 3 = 1 \<or> length dat mod 3 = 2"
    by presburger
  then show ?thesis
    unfolding padding_for_def by (elim disjE) (simp_all, presburger+)
qed

context evp_base64
begin

lemma Encode_total: "EncodeBase64 evp_encode dat = Some (evp_encode dat)"
proof -
  obtain body where body: "evp_encode dat = body @ replicate (padding_for (length dat)) (CHR ''='')"
    "CHR 0x0A \<notin> set body" "length (evp_encode dat) = (length dat + 2) div 3 * 4"
    using encode_shape by blast
  have "filter (\<lambda>c. c \<noteq> CHR 0x0A) (evp_encode dat) = evp_encode dat"
    using body(2) unfolding body(1) by (auto simp: filter_id_conv)
  moreover have "length (evp_encode dat) + 1 \<le> 3 + 2 * length dat"
    unfolding body(3) by presburger
  ultimately show ?thesis
    by (simp add: EncodeBase64_def Let_def)
qed

lemma Decode_Encode: "Option.bind (EncodeBase64 evp_encode dat) (DecodeBase64 evp_decode) = Some (Some dat)"
proof -
  let ?k = "padding_for (length dat)" and ?e = "evp_encode dat"
  obtain body where body: "?e = body @ replicate ?k (CHR ''='')" "CHR ''='' \<notin> set body"
    "length ?e = (length dat + 2) div 3 * 4"
    using encode_shape by blast
  have pad: "count_padding ?e 0 = Some ?k"
    using count_padding_plain [OF body(2), of "replicate ?k (CHR ''='')"] count_padding_replicate [of ?k 0]
    by (simp add: body(1))
  have k: "?k < 4" "dat \<noteq> [] \<Longrightarrow> ?k < length dat + ?k" "dat = [] \<Longrightarrow> ?k = 0"
    by (auto simp: padding_for_def intro: order.strict_trans1 [OF mod_le_divisor])
  have "length dat + ?k = length ?e div 4 * 3"
    using padding_total [of dat] body(3) by simp
  then show ?thesis
    using pad k body(3) decode_encode [of dat]
    by (cases "dat = []") (simp_all add: Encode_total DecodeBase64_def Let_def bind_CHECK)
qed

end

subsection \<open>The block coder of RFC 4648\<close>

text \<open>The standard block coder: groups of three bytes to four characters of the base64 alphabet, the
  padding character standing for zero when decoding.\<close>

definition b64_alphabet :: string where
  "b64_alphabet = ''ABCDEFGHIJKLMNOPQRSTUVWXYZabcdefghijklmnopqrstuvwxyz0123456789+/''"

definition b64_char :: "nat \<Rightarrow> char" where
  "b64_char n = b64_alphabet ! n"

definition b64_index :: "char \<Rightarrow> nat option" where
  "b64_index c =
     (if c = CHR ''='' then Some 0
      else map_of (zip b64_alphabet [0..<64]) c)"

fun encode_groups :: "nat list \<Rightarrow> string" where
  "encode_groups [] = []"
| "encode_groups [a] = [b64_char (a div 4), b64_char (a mod 4 * 16), CHR ''='', CHR ''='']"
| "encode_groups [a, b] =
     [b64_char (a div 4), b64_char (a mod 4 * 16 + b div 16), b64_char (b mod 16 * 4), CHR ''='']"
| "encode_groups (a # b # c # ds) =
     b64_char (a div 4) # b64_char (a mod 4 * 16 + b div 16) # b64_char (b mod 16 * 4 + c div 64)
     # b64_char (c mod 64) # encode_groups ds"

fun decode_groups :: "string \<Rightarrow> nat list option" where
  "decode_groups [] = Some []"
| "decode_groups (w # x # y # z # rest) =
     do {
       w \<leftarrow> b64_index w; x \<leftarrow> b64_index x; y \<leftarrow> b64_index y; z \<leftarrow> b64_index z;
       ds \<leftarrow> decode_groups rest;
       Some ([w * 4 + x div 16, x mod 16 * 16 + y div 4, y mod 4 * 64 + z] @ ds)
     }"
| "decode_groups _ = None"

definition rfc_encode :: "string \<Rightarrow> string" where
  "rfc_encode dat = encode_groups (map of_char dat)"

definition rfc_decode :: "string \<Rightarrow> string option" where
  "rfc_decode enc = map_option (map char_of) (decode_groups enc)"

lemma b64_table:
  assumes "n < 64"
  shows "b64_index (b64_char n) = Some n \<and> b64_char n \<noteq> CHR ''='' \<and> b64_char n \<noteq> CHR 0x0A"
proof -
  have "list_all (\<lambda>n. b64_index (b64_char n) = Some n \<and> b64_char n \<noteq> CHR ''='' \<and> b64_char n \<noteq> CHR 0x0A) [0..<64]"
    by code_simp
  then show ?thesis
    using assms by (simp add: list_all_iff del: upt_rec_numeral)
qed

lemma b64_index_pad: "b64_index (CHR ''='') = Some 0"
  by (simp add: b64_index_def)

lemma padding_for_step: "padding_for (Suc (Suc (Suc n))) = padding_for n"
  by (simp add: padding_for_def)

lemma sextets:
  fixes a b :: nat
  assumes "a < 256"
  shows "a div 4 < 64" "a mod 64 < 64" "a mod 16 * 4 < 64" "a mod 4 * 16 < 64"
    "b < 256 \<Longrightarrow> a mod 4 * 16 + b div 16 < 64" "b < 256 \<Longrightarrow> a mod 16 * 4 + b div 64 < 64"
proof -
  show "a div 4 < 64" "a mod 64 < 64" "a mod 16 * 4 < 64" "a mod 4 * 16 < 64"
    using assms by simp_all
  assume "b < 256"
  then have "b div 16 < 16" "b div 64 < 4"
    by simp_all
  moreover have "a mod 4 < 4" "a mod 16 < 16"
    by simp_all
  ultimately show "a mod 4 * 16 + b div 16 < 64" "a mod 16 * 4 + b div 64 < 64"
    by linarith+
qed

lemma decode_encode_groups:
  "\<forall>a\<in>set ds. a < 256 \<Longrightarrow> decode_groups (encode_groups ds) = Some (ds @ replicate (padding_for (length ds)) 0)"
proof (induction ds rule: encode_groups.induct)
  case (4 a b c ds)
  then have "a < 256" "b < 256" "c < 256"
    by auto
  with 4 show ?case
    by (simp add: b64_table padding_for_step)
qed (auto simp: b64_table b64_index_pad padding_for_def numeral_2_eq_2)

lemma encode_groups_shape:
  "\<forall>a\<in>set ds. a < 256 \<Longrightarrow>
    \<exists>body. encode_groups ds = body @ replicate (padding_for (length ds)) (CHR ''='') \<and>
      CHR ''='' \<notin> set body \<and> CHR 0x0A \<notin> set body \<and> length (encode_groups ds) = (length ds + 2) div 3 * 4"
proof (induction ds rule: encode_groups.induct)
  case (2 a)
  have "a < 256"
    using 2 by simp
  then have "b64_char (a div 4) \<noteq> CHR ''=''" "b64_char (a div 4) \<noteq> CHR 0x0A"
      "b64_char (a mod 4 * 16) \<noteq> CHR ''=''" "b64_char (a mod 4 * 16) \<noteq> CHR 0x0A"
    by (simp_all add: b64_table)
  then show ?case
    by (intro exI [of _ "[b64_char (a div 4), b64_char (a mod 4 * 16)]"])
      (auto simp: padding_for_def numeral_2_eq_2)
next
  case (3 a b)
  have ab: "a < 256" "b < 256"
    using 3 by simp_all
  note n = sextets(1,5) [OF ab(1)] sextets(3) [OF ab(2)]
  have "b64_char (a div 4) \<noteq> CHR ''=''" "b64_char (a div 4) \<noteq> CHR 0x0A"
      "b64_char (a mod 4 * 16 + b div 16) \<noteq> CHR ''=''" "b64_char (a mod 4 * 16 + b div 16) \<noteq> CHR 0x0A"
      "b64_char (b mod 16 * 4) \<noteq> CHR ''=''" "b64_char (b mod 16 * 4) \<noteq> CHR 0x0A"
    using b64_table [OF n(1)] b64_table [OF n(2) [OF ab(2)]] b64_table [OF n(3)] by simp_all
  then show ?case
    by (intro exI [of _ "[b64_char (a div 4), b64_char (a mod 4 * 16 + b div 16), b64_char (b mod 16 * 4)]"])
      (auto simp: padding_for_def)
next
  case (4 a b c ds)
  then obtain body where body: "encode_groups ds = body @ replicate (padding_for (length ds)) (CHR ''='')"
    "CHR ''='' \<notin> set body" "CHR 0x0A \<notin> set body" "length (encode_groups ds) = (length ds + 2) div 3 * 4"
    by auto
  have abc: "a < 256" "b < 256" "c < 256"
    using 4 by auto
  note n = sextets(1) [OF abc(1)] sextets(5) [OF abc(1,2)] sextets(6) [OF abc(2,3)] sextets(2) [OF abc(3)]
  let ?h = "[b64_char (a div 4), b64_char (a mod 4 * 16 + b div 16), b64_char (b mod 16 * 4 + c div 64),
      b64_char (c mod 64)]"
  have "CHR ''='' \<notin> set (?h @ body)" "CHR 0x0A \<notin> set (?h @ body)"
    using body(2,3) b64_table [OF n(1)] b64_table [OF n(2)] b64_table [OF n(3)] b64_table [OF n(4)] by auto
  moreover have "encode_groups (a # b # c # ds)
      = (?h @ body) @ replicate (padding_for (length (a # b # c # ds))) (CHR ''='')"
    by (simp add: body(1) padding_for_step)
  moreover have "length (encode_groups (a # b # c # ds)) = (length (a # b # c # ds) + 2) div 3 * 4"
    by (simp add: body(4)) presburger
  ultimately show ?case
    by blast
qed (simp add: padding_for_def)

interpretation rfc: evp_base64 rfc_encode rfc_decode
proof
  fix dat :: string
  have small: "\<forall>a\<in>set (map of_char dat). a < (256 :: nat)"
    by auto
  show "\<exists>body. rfc_encode dat = body @ replicate (padding_for (length dat)) (CHR ''='') \<and>
      CHR ''='' \<notin> set body \<and> CHR 0x0A \<notin> set body \<and> length (rfc_encode dat) = (length dat + 2) div 3 * 4"
    using encode_groups_shape [OF small] by (simp add: rfc_encode_def)
  have "map char_of (map of_char dat) = dat"
    by (induction dat) simp_all
  then show "rfc_decode (rfc_encode dat) = Some (dat @ replicate (padding_for (length dat)) (CHR 0x00))"
    using decode_encode_groups [OF small] by (simp add: rfc_encode_def rfc_decode_def map_replicate char_of_def)
qed

subsection \<open>Property\<close>

text \<open>Encoding never aborts and decoding the encoded text yields the data again, for every block
  coder with OpenSSL's documented behaviour.\<close>

theorem Base64_roundtrip:
  "evp_base64 evp_encode evp_decode \<Longrightarrow>
    Option.bind (EncodeBase64 evp_encode dat) (DecodeBase64 evp_decode) = Some (Some dat)"
  by (rule evp_base64.Decode_Encode)

theorem Base64_roundtrip_witness:
  "Option.bind (EncodeBase64 rfc_encode ''foobar'') (DecodeBase64 rfc_decode) = Some (Some ''foobar'')"
  by (rule Base64_roundtrip) (rule rfc.evp_base64_axioms)

end
