(* ===== verification/Signatures.thy ===== *)
theory Signatures
  imports Board_Rules Base64
begin

text \<open>
  Signatures on the states of a channel: \<open>src/gamechannel/signatures.cpp\<close> and
  \<open>src/xayagame/signatures.cpp\<close>.  The services around them are parameters, collected in the
  record \<open>channel_env\<close>: SHA-256, OpenSSL's base64 coder, the \<open>verifymessage\<close> call of Xaya Core
  (the address that made a valid signature, or nothing) and the \<open>signmessage\<close> call of the wallet
  (nothing when it throws).

  The lemmas show which participants \<open>VerifyParticipantSignatures\<close> reports, and, in the locale
  \<open>signing\<close>, that what the wallet signs is verified as the signer's.
\<close>

record channel_env =
  env_sha :: "string \<Rightarrow> uint256"
  env_encode :: "string \<Rightarrow> string"
  env_decode :: "string \<Rightarrow> string option"
  env_verifymessage :: "string \<Rightarrow> string \<Rightarrow> string option"
  env_signmessage :: "string \<Rightarrow> string \<Rightarrow> string option"

definition VerifyMessage :: "channel_env \<Rightarrow> string \<Rightarrow> string \<Rightarrow> string" where
  "VerifyMessage rpc msg sig =
     (case env_verifymessage rpc msg sig of None \<Rightarrow> ''invalid'' | Some addr \<Rightarrow> addr)"

definition GetChannelSignatureMessage ::
    "channel_env \<Rightarrow> uint256 \<Rightarrow> channel_metadata \<Rightarrow> string \<Rightarrow> string \<Rightarrow> string run" where
  "GetChannelSignatureMessage env channelId meta topic dat =
     do {
       CHECK (CHR 0x00 \<notin> set topic);
       b \<leftarrow> EncodeBase64 (env_encode env) (reinit meta);
       Some (ToHex (env_sha env
         (GetBinaryString channelId @ b @ [CHR 0x00] @ topic @ [CHR 0x00] @ dat)))
     }"

definition VerifyParticipantSignatures ::
    "channel_env \<Rightarrow> uint256 \<Rightarrow> channel_metadata \<Rightarrow> string \<Rightarrow> signed_data \<Rightarrow> int set run" where
  "VerifyParticipantSignatures env channelId meta topic sd =
     do {
       msg \<leftarrow> GetChannelSignatureMessage env channelId meta topic (data sd);
       addresses \<leftarrow> those (map (\<lambda>sig. map_option (VerifyMessage env msg) (EncodeBase64 (env_encode env) sig))
                            (signatures sd));
       Some (set (filter (\<lambda>i. address (participants meta ! nat i) \<in> set addresses)
               [0..int (length (participants meta)) - 1]))
     }"

definition SignDataForParticipant ::
    "channel_env \<Rightarrow> uint256 \<Rightarrow> channel_metadata \<Rightarrow> string \<Rightarrow> int \<Rightarrow> signed_data \<Rightarrow> signed_data option run" where
  "SignDataForParticipant env channelId meta topic index sd =
     do {
       CHECK (index \<ge> 0);
       CHECK (index < int (length (participants meta)));
       let addr = address (participants meta ! nat index);
       msg \<leftarrow> GetChannelSignatureMessage env channelId meta topic (data sd);
       (case env_signmessage env addr msg of
          None \<Rightarrow> Some None
        | Some sig \<Rightarrow>
            do {
              decoded \<leftarrow> DecodeBase64 (env_decode env) sig;
              (case decoded of
                 None \<Rightarrow> LOG_FATAL
               | Some raw \<Rightarrow> Some (Some (sd\<lparr>signatures := signatures sd @ [raw]\<rparr>)))
            })
     }"

subsection \<open>Who signed\<close>

text \<open>The participants that have a valid signature among those given, when base64 works.\<close>

definition signers :: "channel_env \<Rightarrow> uint256 \<Rightarrow> channel_metadata \<Rightarrow> string \<Rightarrow> signed_data \<Rightarrow> int set" where
  "signers env cid meta topic sd =
     {i. 0 \<le> i \<and> i < int (length (participants meta)) \<and>
       (\<exists>sig\<in>set (signatures sd). address (participants meta ! nat i)
          = VerifyMessage env (the (GetChannelSignatureMessage env cid meta topic (data sd))) (env_encode env sig))}"

locale channel_services = evp_base64 "env_encode env" "env_decode env" for env :: channel_env
begin

lemma Message_total:
  "CHR 0x00 \<notin> set topic \<Longrightarrow> \<exists>msg. GetChannelSignatureMessage env cid meta topic dat = Some msg"
  by (simp add: GetChannelSignatureMessage_def bind_CHECK Encode_total)

lemma Verify_signers:
  assumes "CHR 0x00 \<notin> set topic"
  shows "VerifyParticipantSignatures env cid meta topic sd = Some (signers env cid meta topic sd)"
proof -
  obtain msg where msg: "GetChannelSignatureMessage env cid meta topic (data sd) = Some msg"
    using Message_total [OF assms] by blast
  have "those (map (\<lambda>sig. map_option (VerifyMessage env msg) (EncodeBase64 (env_encode env) sig)) (signatures sd))
    = Some (map (\<lambda>sig. VerifyMessage env msg (env_encode env sig)) (signatures sd))"
    by (rule those_map_Some) (simp add: Encode_total)
  then show ?thesis
    by (auto simp: VerifyParticipantSignatures_def msg signers_def)
qed

end

lemma signers_range: "signers env cid meta topic sd \<subseteq> {0..<int (length (participants meta))}"
  by (auto simp: signers_def)

lemma VerifyParticipantSignatures_range:
  "VerifyParticipantSignatures env cid meta topic sd = Some S \<Longrightarrow> S \<subseteq> {0..<int (length (participants meta))}"
  by (auto simp: VerifyParticipantSignatures_def bind_Some_iff)

text \<open>The law of the wallet: a signature made for an address is one that \<open>verifymessage\<close>
  attributes to that address, and it is base64 text as the wallet encodes it.\<close>

locale signing = channel_services env for env :: channel_env +
  assumes sign_verify: "env_signmessage env addr msg = Some sig \<Longrightarrow>
      \<exists>raw. sig = env_encode env raw \<and> env_verifymessage env msg sig = Some addr"
begin

lemma Sign_result:
  assumes "0 \<le> i" "i < int (length (participants meta))" "CHR 0x00 \<notin> set topic"
  shows "SignDataForParticipant env cid meta topic i sd = Some None \<or>
    (\<exists>raw. SignDataForParticipant env cid meta topic i sd = Some (Some (sd\<lparr>signatures := signatures sd @ [raw]\<rparr>)) \<and>
      i \<in> signers env cid meta topic (sd\<lparr>signatures := signatures sd @ [raw]\<rparr>))"
proof -
  let ?addr = "address (participants meta ! nat i)"
  obtain msg where msg: "GetChannelSignatureMessage env cid meta topic (data sd) = Some msg"
    using Message_total [OF assms(3)] by blast
  show ?thesis
  proof (cases "env_signmessage env ?addr msg")
    case None
    then show ?thesis
      using assms msg by (simp add: SignDataForParticipant_def bind_CHECK Let_def)
  next
    case (Some sig)
    then obtain raw where raw: "sig = env_encode env raw" "env_verifymessage env msg sig = Some ?addr"
      using sign_verify by blast
    have "DecodeBase64 (env_decode env) sig = Some (Some raw)"
      using Decode_Encode [of raw] by (simp add: Encode_total raw(1))
    moreover have "data (sd\<lparr>signatures := signatures sd @ [raw]\<rparr>) = data sd"
      by (simp add: data_def)
    ultimately show ?thesis
      using assms msg Some raw
      by (auto simp: SignDataForParticipant_def bind_CHECK Let_def signers_def VerifyMessage_def)
  qed
qed

end

subsection \<open>A simulated wallet\<close>

text \<open>Signatures that name the signer and the message: an instance of the laws.\<close>

definition mock_env :: channel_env where
  "mock_env =
     \<lparr>env_sha = (\<lambda>s. replicate 32 1),
      env_encode = rfc_encode, env_decode = rfc_decode,
      env_verifymessage = (\<lambda>msg sig. rfc_decode sig),
      env_signmessage = (\<lambda>addr msg. if length addr mod 3 = 0 then Some (rfc_encode addr) else None)\<rparr>"

interpretation mock: signing mock_env
proof
  have eq: "env_encode mock_env = rfc_encode" "env_decode mock_env = rfc_decode"
    by (simp_all add: mock_env_def)
  show "\<exists>body. env_encode mock_env dat = body @ replicate (padding_for (length dat)) CHR ''='' \<and>
      CHR ''='' \<notin> set body \<and> CHR 0x0A \<notin> set body \<and>
      length (env_encode mock_env dat) = (length dat + 2) div 3 * 4" for dat
    unfolding eq by (rule rfc.encode_shape)
  show "env_decode mock_env (env_encode mock_env dat) = Some (dat @ replicate (padding_for (length dat)) CHR 0x00)" for dat
    unfolding eq by (rule rfc.decode_encode)
  show "\<exists>raw. sig = env_encode mock_env raw \<and> env_verifymessage mock_env msg sig = Some addr"
    if "env_signmessage mock_env addr msg = Some sig" for addr msg sig
    using that rfc.decode_encode [of addr] by (auto simp: mock_env_def padding_for_def split: if_splits)
qed

end
