(* ===== verification/State_Proof.thy ===== *)
theory State_Proof
  imports Signatures
begin

text \<open>
  State proofs, \<open>src/gamechannel/stateproof.cpp\<close>: verification of a single transition and of a
  proof, and the extension of a proof by a move of one's own.

  The specification of a valid proof is declarative: \<open>state_chain\<close> is the relation "this list of
  transitions leads from one parsed state to another, each move signed by the player whose turn
  it was"; a proof is valid when it starts at the reinit state or bears the signatures of all
  participants.  The lemmas show that \<open>VerifyStateProof\<close> decides exactly this, that the end
  state of a valid proof is a valid state, and that \<open>ExtendStateProof\<close> turns a valid proof into a
  valid proof of the successor state.
\<close>

definition ExtraVerifyStateTransition ::
    "channel_env \<Rightarrow> 'ps board_rules \<Rightarrow> uint256 \<Rightarrow> channel_metadata \<Rightarrow> 'ps \<Rightarrow> state_transition \<Rightarrow>
     (int set \<times> 'ps) option run" where
  "ExtraVerifyStateTransition rpc rules channelId meta oldState transition =
     do {
       turn \<leftarrow> WhoseTurn rules oldState;
       if turn = NO_TURN then Some None
       else do {
         applied \<leftarrow> ApplyMove rules oldState (move transition);
         (case applied of
            None \<Rightarrow> Some None
          | Some newState \<Rightarrow>
              do {
                parsed \<leftarrow> ParseState rules channelId meta newState;
                (case parsed of
                   None \<Rightarrow> LOG_FATAL
                 | Some parsedNew \<Rightarrow>
                     if \<not> Equals rules parsedNew (data (new_state transition)) then Some None
                     else do {
                       sigs \<leftarrow> VerifyParticipantSignatures rpc channelId meta ''state'' (new_state transition);
                       if turn \<notin> sigs then Some None else Some (Some (sigs, parsedNew))
                     })
              })
       }
     }"

definition VerifyStateTransition ::
    "channel_env \<Rightarrow> 'ps board_rules \<Rightarrow> uint256 \<Rightarrow> channel_metadata \<Rightarrow> string \<Rightarrow> state_transition \<Rightarrow> bool run" where
  "VerifyStateTransition rpc rules channelId meta oldState transition =
     do {
       parsedOld \<leftarrow> ParseState rules channelId meta oldState;
       (case parsedOld of
          None \<Rightarrow> Some False
        | Some p \<Rightarrow>
            do {
              res \<leftarrow> ExtraVerifyStateTransition rpc rules channelId meta p transition;
              Some (res \<noteq> None)
            })
     }"

text \<open>The loop of \<open>VerifyStateProof\<close>: the collected signatures and the end state.\<close>

fun VerifyStateProof_loop ::
    "channel_env \<Rightarrow> 'ps board_rules \<Rightarrow> uint256 \<Rightarrow> channel_metadata \<Rightarrow> state_transition list \<Rightarrow>
     int set \<Rightarrow> 'ps \<Rightarrow> string \<Rightarrow> (int set \<times> string) option run" where
  "VerifyStateProof_loop rpc rules channelId meta [] sigs parsed endState = Some (Some (sigs, endState))"
| "VerifyStateProof_loop rpc rules channelId meta (t # ts) sigs parsed endState =
     do {
       res \<leftarrow> ExtraVerifyStateTransition rpc rules channelId meta parsed t;
       (case res of
          None \<Rightarrow> Some None
        | Some (newSigs, parsedNew) \<Rightarrow>
            VerifyStateProof_loop rpc rules channelId meta ts (sigs \<union> newSigs) parsedNew (data (new_state t)))
     }"

definition VerifyStateProof ::
    "channel_env \<Rightarrow> 'ps board_rules \<Rightarrow> uint256 \<Rightarrow> channel_metadata \<Rightarrow> string \<Rightarrow> state_proof \<Rightarrow> string option run" where
  "VerifyStateProof rpc rules channelId meta reinitState proof =
     do {
       sigs \<leftarrow> VerifyParticipantSignatures rpc channelId meta ''state'' (initial_state proof);
       parsedInit \<leftarrow> ParseState rules channelId meta (data (initial_state proof));
       (case parsedInit of
          None \<Rightarrow> Some None
        | Some parsed \<Rightarrow>
            let foundOnChain = Equals rules parsed reinitState in
            do {
              res \<leftarrow> VerifyStateProof_loop rpc rules channelId meta (transitions proof) sigs parsed
                       (data (initial_state proof));
              (case res of
                 None \<Rightarrow> Some None
               | Some (allSigs, endState) \<Rightarrow>
                   if foundOnChain then Some (Some endState)
                   else if list_all (\<lambda>i. i \<in> allSigs) [0..int (length (participants meta)) - 1]
                   then Some (Some endState) else Some None)
            })
     }"

definition UnverifiedProofEndState :: "state_proof \<Rightarrow> string" where
  "UnverifiedProofEndState proof =
     (if transitions proof = [] then data (initial_state proof)
      else data (new_state (last (transitions proof))))"

text \<open>The loop of \<open>ExtendStateProof\<close> from the last transition backwards: \<open>earlier\<close> are the
  transitions before the current one, in reverse order.  The result is the trailing part that
  is kept.\<close>

fun minimal_suffix ::
    "channel_env \<Rightarrow> uint256 \<Rightarrow> channel_metadata \<Rightarrow> int set \<Rightarrow> state_transition list \<Rightarrow>
     state_transition \<Rightarrow> state_transition list \<Rightarrow> state_transition list run" where
  "minimal_suffix rpc channelId meta sigs earlier begin after =
     do {
       newSigs \<leftarrow> VerifyParticipantSignatures rpc channelId meta ''state'' (new_state begin);
       let allSigs = sigs \<union> newSigs;
       CHECK (card allSigs \<le> length (participants meta));
       if card allSigs = length (participants meta) then Some (begin # after)
       else
         case earlier of
           [] \<Rightarrow> Some (begin # after)
         | b # bs \<Rightarrow> minimal_suffix rpc channelId meta allSigs bs b (begin # after)
     }"

definition empty_transition :: state_transition where
  "empty_transition = \<lparr>st_unknown = False, st_move = None, st_new_state = None\<rparr>"

definition proof_of :: "state_transition list \<Rightarrow> state_proof" where
  "proof_of ts =
     \<lparr>sp_unknown = False, sp_initial_state = Some (new_state (hd ts)), transitions = tl ts\<rparr>"

definition ExtendStateProof ::
    "channel_env \<Rightarrow> 'ps board_rules \<Rightarrow> uint256 \<Rightarrow> channel_metadata \<Rightarrow> state_proof \<Rightarrow> string \<Rightarrow>
     state_proof option run" where
  "ExtendStateProof env rules channelId meta oldProof mv =
     do {
       let oldState = UnverifiedProofEndState oldProof;
       parsed \<leftarrow> ParseState rules channelId meta oldState;
       (case parsed of
          None \<Rightarrow> LOG_FATAL
        | Some parsedOld \<Rightarrow>
            do {
              turn \<leftarrow> WhoseTurn rules parsedOld;
              if turn = NO_TURN then Some None
              else do {
                applied \<leftarrow> ApplyMove rules parsedOld mv;
                (case applied of
                   None \<Rightarrow> Some None
                 | Some newState \<Rightarrow>
                     do {
                       signed \<leftarrow> SignDataForParticipant env channelId meta ''state'' turn
                                   (empty_signed_data\<lparr>sd_data := Some newState\<rparr>);
                       (case signed of
                          None \<Rightarrow> Some None
                        | Some ns \<Rightarrow>
                            let trans = \<lparr>st_unknown = False, st_move = Some mv, st_new_state = Some ns\<rparr>;
                                first = empty_transition\<lparr>st_new_state := Some (initial_state oldProof)\<rparr>
                            in do {
                              kept \<leftarrow> minimal_suffix env channelId meta {}
                                        (rev (first # transitions oldProof)) trans [];
                              Some (Some (proof_of kept))
                            })
                     })
              }
            })
     }"

subsection \<open>Specification\<close>

text \<open>A transition is correct when the player whose turn it is made a valid move, the claimed new
  state is the result, and that player signed it.\<close>

inductive valid_transition ::
    "channel_env \<Rightarrow> 'ps board_rules \<Rightarrow> uint256 \<Rightarrow> channel_metadata \<Rightarrow> 'ps \<Rightarrow> state_transition \<Rightarrow> int set \<Rightarrow> 'ps \<Rightarrow> bool"
  for env rules cid meta where
  transition: "WhoseTurn rules p = Some turn \<Longrightarrow> turn \<noteq> NO_TURN \<Longrightarrow>
    ApplyMove rules p (move t) = Some (Some s') \<Longrightarrow> ParseState rules cid meta s' = Some (Some p') \<Longrightarrow>
    Equals rules p' (data (new_state t)) \<Longrightarrow>
    VerifyParticipantSignatures env cid meta ''state'' (new_state t) = Some sigs \<Longrightarrow> turn \<in> sigs \<Longrightarrow>
    valid_transition env rules cid meta p t sigs p'"

inductive state_chain ::
    "channel_env \<Rightarrow> 'ps board_rules \<Rightarrow> uint256 \<Rightarrow> channel_metadata \<Rightarrow> 'ps \<Rightarrow> state_transition list \<Rightarrow> int set \<Rightarrow> 'ps \<Rightarrow> bool"
  for env rules cid meta where
  nil: "state_chain env rules cid meta p [] {} p"
| cons: "valid_transition env rules cid meta p t sigs p' \<Longrightarrow> state_chain env rules cid meta p' ts S q \<Longrightarrow>
    state_chain env rules cid meta p (t # ts) (sigs \<union> S) q"

inductive_simps state_chain_Nil: "state_chain env rules cid meta p [] S q"
inductive_cases state_chain_ConsE: "state_chain env rules cid meta p (t # ts) S q"

definition all_participants :: "channel_metadata \<Rightarrow> int set" where
  "all_participants meta = {0..<int (length (participants meta))}"

text \<open>A valid proof of an end state.\<close>

definition valid_proof ::
    "channel_env \<Rightarrow> 'ps board_rules \<Rightarrow> uint256 \<Rightarrow> channel_metadata \<Rightarrow> string \<Rightarrow> state_proof \<Rightarrow> 'ps \<Rightarrow> bool" where
  "valid_proof env rules cid meta reinitState proof q \<longleftrightarrow>
     (\<exists>p sigs S.
        VerifyParticipantSignatures env cid meta ''state'' (initial_state proof) = Some sigs \<and>
        ParseState rules cid meta (data (initial_state proof)) = Some (Some p) \<and>
        state_chain env rules cid meta p (transitions proof) S q \<and>
        (Equals rules p reinitState \<or> all_participants meta \<subseteq> sigs \<union> S))"

subsection \<open>Verification decides the specification\<close>

lemma ExtraVerify_iff:
  "ExtraVerifyStateTransition env rules cid meta p t = Some (Some (sigs, p')) \<longleftrightarrow>
    valid_transition env rules cid meta p t sigs p'"
  by (auto simp: ExtraVerifyStateTransition_def bind_Some_iff LOG_FATAL_def valid_transition.simps
      split: option.splits if_splits)

lemma Verify_loop_iff:
  "VerifyStateProof_loop env rules cid meta ts sigs p e = Some (Some (allSigs, e')) \<longleftrightarrow>
    (\<exists>S q. state_chain env rules cid meta p ts S q \<and> allSigs = sigs \<union> S \<and>
      e' = (if ts = [] then e else data (new_state (last ts))))"
proof (induction ts arbitrary: sigs p e)
  case Nil
  then show ?case
    by (auto simp: state_chain_Nil)
next
  case (Cons t ts)
  have "VerifyStateProof_loop env rules cid meta (t # ts) sigs p e = Some (Some (allSigs, e')) \<longleftrightarrow>
    (\<exists>s1 p1. valid_transition env rules cid meta p t s1 p1 \<and>
      VerifyStateProof_loop env rules cid meta ts (sigs \<union> s1) p1 (data (new_state t)) = Some (Some (allSigs, e')))"
    by (auto simp: bind_Some_iff ExtraVerify_iff [symmetric] split: option.splits)
  also have "\<dots> \<longleftrightarrow> (\<exists>S q. state_chain env rules cid meta p (t # ts) S q \<and> allSigs = sigs \<union> S \<and>
      e' = data (new_state (last (t # ts))))"
    unfolding Cons.IH by (auto simp: Un_assoc intro: state_chain.cons elim!: state_chain_ConsE) 
  finally show ?case
    by simp
qed

lemma VerifyStateProof_iff:
  "VerifyStateProof env rules cid meta reinitState proof = Some (Some e) \<longleftrightarrow>
    (\<exists>q. valid_proof env rules cid meta reinitState proof q) \<and> e = UnverifiedProofEndState proof"
proof -
  have all: "list_all (\<lambda>i. i \<in> S) [0..int (length (participants meta)) - 1] \<longleftrightarrow> all_participants meta \<subseteq> S" for S
    by (auto simp: list_all_iff all_participants_def)
  have "VerifyStateProof env rules cid meta reinitState proof = Some (Some e) \<longleftrightarrow>
    (\<exists>sigs p allSigs. VerifyParticipantSignatures env cid meta ''state'' (initial_state proof) = Some sigs \<and>
      ParseState rules cid meta (data (initial_state proof)) = Some (Some p) \<and>
      VerifyStateProof_loop env rules cid meta (transitions proof) sigs p (data (initial_state proof))
        = Some (Some (allSigs, e)) \<and>
      (Equals rules p reinitState \<or> all_participants meta \<subseteq> allSigs))"
    unfolding VerifyStateProof_def Let_def all
    by (auto split: Option.bind_split option.split)
  then show ?thesis
    unfolding Verify_loop_iff valid_proof_def UnverifiedProofEndState_def by blast
qed

subsection \<open>Appending to a chain\<close>

lemma state_chain_append:
  "state_chain env rules cid meta p ts S q \<Longrightarrow> state_chain env rules cid meta q us T r \<Longrightarrow>
    state_chain env rules cid meta p (ts @ us) (S \<union> T) r"
proof (induction rule: state_chain.induct)
  case (cons p t sigs p' ts S q)
  then have "state_chain env rules cid meta p (t # (ts @ us)) (sigs \<union> (S \<union> T)) r"
    by (intro state_chain.cons) auto
  then show ?case
    by (simp add: Un_assoc)
qed simp

lemma state_chain_single:
  "valid_transition env rules cid meta p t sigs p' \<Longrightarrow> state_chain env rules cid meta p [t] sigs p'"
  using state_chain.cons [OF _ state_chain.nil] by fastforce

lemma state_chain_split:
  assumes "state_chain env rules cid meta p (ts @ us) S r"
  shows "\<exists>T U q. state_chain env rules cid meta p ts T q \<and> state_chain env rules cid meta q us U r \<and> S = T \<union> U"
  using assms
proof (induction ts arbitrary: p S)
  case Nil
  then show ?case
    using state_chain.nil by fastforce
next
  case (Cons t ts)
  from Cons.prems obtain sigs p' S' where t: "valid_transition env rules cid meta p t sigs p'"
    and "state_chain env rules cid meta p' (ts @ us) S' r" and S: "S = sigs \<union> S'"
    by (auto elim: state_chain_ConsE)
  then obtain T U q where "state_chain env rules cid meta p' ts T q" "state_chain env rules cid meta q us U r"
    "S' = T \<union> U"
    using Cons.IH by blast
  then show ?case
    using state_chain.cons [OF t] S by (metis Un_assoc)
qed

text \<open>A chain does not go backwards: what is parsed from the end of a chain.\<close>

context board_equality
begin

lemma chain_parses:
  assumes "state_chain env rules cid meta p ts S q" "ParseState rules cid meta s = Some (Some p)"
  shows "ParseState rules cid meta (if ts = [] then s else data (new_state (last ts))) = Some (Some q)"
  using assms
proof (induction arbitrary: s rule: state_chain.induct)
  case (cons p t sigs p' ts S q)
  from cons.hyps(1) have "ParseState rules cid meta (data (new_state t)) = Some (Some p')"
    by cases (auto intro: Equals_parse)
  from cons.IH [OF this] show ?case
    by (cases ts) simp_all
qed simp

lemma proof_end_parses:
  assumes "valid_proof env rules cid meta reinitState proof q"
  shows "ParseState rules cid meta (UnverifiedProofEndState proof) = Some (Some q)"
  using assms chain_parses [of env cid meta _ "transitions proof" _ q "data (initial_state proof)"]
  by (auto simp: valid_proof_def UnverifiedProofEndState_def)

lemma valid_proof_unique:
  "valid_proof env rules cid meta reinitState proof q \<Longrightarrow> valid_proof env rules cid meta reinitState proof q' \<Longrightarrow> q = q'"
  by (metis proof_end_parses option.inject)

text \<open>The tail of a chain of signed states, from any of its states on, is a chain again.\<close>

lemma chain_suffix:
  assumes "state_chain env rules cid meta p (ts @ t # us) S q"
  shows "\<exists>p' T. ParseState rules cid meta (data (new_state t)) = Some (Some p') \<and>
    state_chain env rules cid meta p' us T q \<and> T \<subseteq> S"
proof -
  obtain T U p1 where U: "state_chain env rules cid meta p1 (t # us) U q" "S = T \<union> U"
    using state_chain_split [OF assms] by blast
  from U(1) show ?thesis
  proof (rule state_chain_ConsE)
    fix sigs p' S'
    assume "U = sigs \<union> S'" "valid_transition env rules cid meta p1 t sigs p'" "state_chain env rules cid meta p' us S' q"
    moreover from this(2) have "ParseState rules cid meta (data (new_state t)) = Some (Some p')"
      by cases (auto intro: Equals_parse)
    ultimately show ?thesis
      using U(2) by blast
  qed
qed

end

subsection \<open>The minimal suffix\<close>

text \<open>The transitions that \<open>ExtendStateProof\<close> works on, as one list: the result is a suffix of it,
  and either it is the whole list or its signatures cover all participants.\<close>

definition transition_signers ::
    "channel_env \<Rightarrow> uint256 \<Rightarrow> channel_metadata \<Rightarrow> state_transition list \<Rightarrow> int set" where
  "transition_signers env cid meta ts = (\<Union>t\<in>set ts. signers env cid meta ''state'' (new_state t))"

lemma transition_signers_range:
  "signers env cid meta ''state'' sd \<union> transition_signers env cid meta ts \<subseteq> all_participants meta"
  by (auto simp: transition_signers_def all_participants_def signers_def)

context channel_services
begin

lemma state_signers: "VerifyParticipantSignatures env cid meta ''state'' sd = Some (signers env cid meta ''state'' sd)"
  by (rule Verify_signers) simp

lemma minimal_suffix_spec:
  assumes "sigs = transition_signers env cid meta after"
  shows "\<exists>pre kept. minimal_suffix env cid meta sigs earlier b after = Some kept \<and>
    rev earlier @ b # after = pre @ kept \<and> kept \<noteq> [] \<and> length after < length kept \<and>
    (pre = [] \<or> transition_signers env cid meta kept = all_participants meta)"
  using assms
proof (induction earlier arbitrary: sigs b after)
  case Nil
  let ?all = "sigs \<union> signers env cid meta ''state'' (new_state b)"
  have "?all \<subseteq> all_participants meta"
    using transition_signers_range [of env cid meta "new_state b" after] Nil by blast
  then have "card ?all \<le> length (participants meta)"
    using card_mono [of "all_participants meta" ?all] by (simp add: all_participants_def)
  then have "minimal_suffix env cid meta sigs [] b after = Some (b # after)"
    by (simp add: state_signers bind_CHECK Let_def)
  then show ?case
    by (intro exI [of _ "[]"] exI [of _ "b # after"]) simp
next
  case (Cons a earlier)
  let ?all = "sigs \<union> signers env cid meta ''state'' (new_state b)"
  have all: "?all = transition_signers env cid meta (b # after)"
    using Cons.prems by (auto simp: transition_signers_def)
  have sub: "?all \<subseteq> all_participants meta"
    using transition_signers_range [of env cid meta "new_state b" after] Cons.prems by blast
  then have le: "card ?all \<le> length (participants meta)"
    using card_mono [of "all_participants meta" ?all] by (simp add: all_participants_def)
  show ?case
  proof (cases "card ?all = length (participants meta)")
    case True
    then have "?all = all_participants meta"
      using sub by (intro card_subset_eq) (simp_all add: all_participants_def)
    moreover have "minimal_suffix env cid meta sigs (a # earlier) b after = Some (b # after)"
      using True by (simp add: state_signers bind_CHECK Let_def)
    ultimately show ?thesis
      using all by (intro exI [of _ "rev (a # earlier)"] exI [of _ "b # after"]) simp
  next
    case False
    then have "minimal_suffix env cid meta sigs (a # earlier) b after
      = minimal_suffix env cid meta ?all earlier a (b # after)"
      using le by (simp add: state_signers bind_CHECK Let_def)
    then show ?thesis
      using Cons.IH [OF all, of a] by (fastforce simp: all)
  qed
qed

lemma chain_signers:
  "state_chain env rules cid meta p ts S q \<Longrightarrow> S = transition_signers env cid meta ts"
proof (induction rule: state_chain.induct)
  case (cons p t sigs p' ts S q)
  from cons.hyps(1) have "sigs = signers env cid meta ''state'' (new_state t)"
    by cases (simp add: state_signers)
  with cons.IH show ?case
    by (simp add: transition_signers_def)
qed (simp add: transition_signers_def)

end

subsection \<open>Extending a proof\<close>

lemma ExtendStateProof_cases:
  assumes "ExtendStateProof env rules cid meta old mv = Some (Some new)"
  obtains q turn s' ns kept where
    "ParseState rules cid meta (UnverifiedProofEndState old) = Some (Some q)"
    "WhoseTurn rules q = Some turn" "turn \<noteq> NO_TURN" "ApplyMove rules q mv = Some (Some s')"
    "SignDataForParticipant env cid meta ''state'' turn (empty_signed_data\<lparr>sd_data := Some s'\<rparr>) = Some (Some ns)"
    "minimal_suffix env cid meta {} (rev (empty_transition\<lparr>st_new_state := Some (initial_state old)\<rparr> # transitions old))
       \<lparr>st_unknown = False, st_move = Some mv, st_new_state = Some ns\<rparr> [] = Some kept"
    "new = proof_of kept"
  using assms
  by (auto simp: ExtendStateProof_def Let_def LOG_FATAL_def split: Option.bind_splits option.splits if_splits)

locale proof_extension = board_equality rules + signing env
  for rules :: "'ps board_rules" and env :: channel_env
begin

lemma own_transition:
  assumes "WhoseTurn rules q = Some turn" "turn \<noteq> NO_TURN" "ApplyMove rules q mv = Some (Some s')"
    and "SignDataForParticipant env cid meta ''state'' turn (empty_signed_data\<lparr>sd_data := Some s'\<rparr>) = Some (Some ns)"
    and "ParseState rules cid meta s' = Some (Some q')"
    and "t = \<lparr>st_unknown = False, st_move = Some mv, st_new_state = Some ns\<rparr>"
  shows "valid_transition env rules cid meta q t (signers env cid meta ''state'' ns) q'" "data ns = s'"
proof -
  have range: "0 \<le> turn" "turn < int (length (participants meta))"
    using assms(4) by (auto simp: SignDataForParticipant_def bind_CHECK split: if_splits)
  then have "turn \<in> signers env cid meta ''state'' ns" and ns: "sd_data ns = Some s'"
    using Sign_result [OF range, of "''state''" cid "empty_signed_data\<lparr>sd_data := Some s'\<rparr>"] assms(4)
    by auto
  then show dat: "data ns = s'"
    by (simp add: data_def bytes_value_def)
  show "valid_transition env rules cid meta q t (signers env cid meta ''state'' ns) q'"
    using assms(1-3,5) Equals_refl [OF assms(5)] dat \<open>turn \<in> _\<close> state_signers
    by (intro valid_transition.transition [where s' = s'])
      (auto simp: assms(6) move_def new_state_def bytes_value_def)
qed

lemma suffix_valid:
  assumes old: "valid_proof env rules cid meta reinitState old q"
    and t: "valid_transition env rules cid meta q t sigs q'"
    and split: "empty_transition\<lparr>st_new_state := Some (initial_state old)\<rparr> # transitions old @ [t] = pre @ kept"
      "kept \<noteq> []"
    and all: "pre = [] \<or> transition_signers env cid meta kept = all_participants meta"
  shows "valid_proof env rules cid meta reinitState (proof_of kept) q'"
proof -
  let ?first = "empty_transition\<lparr>st_new_state := Some (initial_state old)\<rparr>"
  obtain p S where p: "ParseState rules cid meta (data (initial_state old)) = Some (Some p)"
    and chain: "state_chain env rules cid meta p (transitions old) S q"
    and signed: "Equals rules p reinitState \<or> all_participants meta \<subseteq> signers env cid meta ''state'' (initial_state old) \<union> S"
    using old by (auto simp: valid_proof_def state_signers)
  have chain': "state_chain env rules cid meta p (transitions old @ [t]) (S \<union> sigs) q'"
    using chain state_chain_single [OF t] by (rule state_chain_append)
  have first: "new_state ?first = initial_state old"
    by (simp add: new_state_def)
  show ?thesis
  proof (cases pre)
    case Nil
    then have "kept = ?first # transitions old @ [t]"
      using split by simp
    then have "initial_state (proof_of kept) = initial_state old" "transitions (proof_of kept) = transitions old @ [t]"
      using first by (simp_all add: proof_of_def initial_state_def)
    then show ?thesis
      using p chain' signed by (auto simp: valid_proof_def state_signers)
  next
    case (Cons a pre')
    obtain b us where kept: "kept = b # us"
      using split(2) by (cases kept) auto
    have eq: "transitions old @ [t] = pre' @ b # us"
      using split(1) Cons kept by simp
    obtain p' T where p': "ParseState rules cid meta (data (new_state b)) = Some (Some p')"
        "state_chain env rules cid meta p' us T q'"
      using chain_suffix [OF chain' [unfolded eq]] by blast
    have "all_participants meta = signers env cid meta ''state'' (new_state b) \<union> T"
      using all Cons kept chain_signers [OF p'(2)] by (simp add: transition_signers_def)
    then show ?thesis
      using p' by (auto simp: valid_proof_def state_signers kept proof_of_def initial_state_def)
  qed
qed

lemma Extend_valid:
  assumes old: "valid_proof env rules cid meta reinitState old q"
    and ext: "ExtendStateProof env rules cid meta old mv = Some (Some new)"
    and res: "ApplyMove rules q mv = Some (Some s')" "ParseState rules cid meta s' = Some (Some q')"
  shows "valid_proof env rules cid meta reinitState new q'" "UnverifiedProofEndState new = s'"
proof -
  from ext obtain turn ns kept where turn: "WhoseTurn rules q = Some turn" "turn \<noteq> NO_TURN"
    and sign: "SignDataForParticipant env cid meta ''state'' turn (empty_signed_data\<lparr>sd_data := Some s'\<rparr>) = Some (Some ns)"
    and kept: "minimal_suffix env cid meta {} (rev (empty_transition\<lparr>st_new_state := Some (initial_state old)\<rparr> # transitions old))
       \<lparr>st_unknown = False, st_move = Some mv, st_new_state = Some ns\<rparr> [] = Some kept"
    and new: "new = proof_of kept"
    using res(1) proof_end_parses [OF old] by (auto elim!: ExtendStateProof_cases)
  define t where "t = \<lparr>st_unknown = False, st_move = Some mv, st_new_state = Some ns\<rparr>"
  note own = own_transition [OF turn res(1) sign res(2) t_def]
  obtain pre where pre: "empty_transition\<lparr>st_new_state := Some (initial_state old)\<rparr> # transitions old @ [t] = pre @ kept"
    "kept \<noteq> []" "pre = [] \<or> transition_signers env cid meta kept = all_participants meta"
    using minimal_suffix_spec [of "{}" cid meta "[]"
        "rev (empty_transition\<lparr>st_new_state := Some (initial_state old)\<rparr> # transitions old)" t] kept
    by (auto simp: t_def transition_signers_def)
  show "valid_proof env rules cid meta reinitState new q'"
    unfolding new by (rule suffix_valid [OF old own(1) pre])
  have "last kept = t"
    using arg_cong [OF pre(1), of last] pre(2) by simp
  then show "UnverifiedProofEndState new = s'"
    using pre(2) own(2) by (cases kept)
      (auto simp: new UnverifiedProofEndState_def proof_of_def initial_state_def t_def new_state_def last_tl
        split: if_splits)
qed

end

subsection \<open>Property\<close>


end
