(* ===== verification/Coord.thy ===== *)
theory Coord
  imports Prelude "HOL-Library.Signed_Division"
begin

text \<open>
  Coordinates on the 8x8 board of Xayaships, \<open>src/ships/coord.hpp\<close> and \<open>coord.cpp\<close>.  Rows and
  columns are C++ ints that may lie outside of the board.  The lemmas relate linear indices
  and coordinates: an index gives a coordinate on the board exactly when it is between 0
  and 63, and then \<open>GetIndex\<close> gives the index back.
\<close>

datatype Direction = LEFT | RIGHT | UP | DOWN

definition SIDE :: int where
  "SIDE = 8"

definition CELLS :: int where
  "CELLS = SIDE ^ 2"

record coord =
  row :: int
  column :: int

text \<open>Unary minus on directions.\<close>

fun Direction_inverse :: "Direction \<Rightarrow> Direction" where
  "Direction_inverse LEFT = RIGHT"
| "Direction_inverse RIGHT = LEFT"
| "Direction_inverse UP = DOWN"
| "Direction_inverse DOWN = UP"

text \<open>The constructor from a linear index; C++ division and remainder truncate.\<close>

definition Coord_of_index :: "int \<Rightarrow> coord" where
  "Coord_of_index ind = \<lparr>row = ind sdiv SIDE, column = ind smod SIDE\<rparr>"

definition Coord_IsOnBoard :: "coord \<Rightarrow> bool" where
  "Coord_IsOnBoard c =
     (if row c < 0 \<or> row c \<ge> SIDE then False
      else if column c < 0 \<or> column c \<ge> SIDE then False
      else True)"

definition Coord_GetIndex :: "coord \<Rightarrow> int run" where
  "Coord_GetIndex c =
     do {
       CHECK (Coord_IsOnBoard c);
       let res = row c * SIDE + column c;
       CHECK (res \<ge> 0);
       CHECK (res < CELLS);
       Some res
     }"

fun Coord_plus :: "coord \<Rightarrow> Direction \<Rightarrow> coord" where
  "Coord_plus c LEFT = \<lparr>row = row c, column = column c - 1\<rparr>"
| "Coord_plus c RIGHT = \<lparr>row = row c, column = column c + 1\<rparr>"
| "Coord_plus c UP = \<lparr>row = row c - 1, column = column c\<rparr>"
| "Coord_plus c DOWN = \<lparr>row = row c + 1, column = column c\<rparr>"

definition Coord_minus :: "coord \<Rightarrow> Direction \<Rightarrow> coord" where
  "Coord_minus c d = Coord_plus c (Direction_inverse d)"

subsection \<open>Indices and coordinates\<close>

lemma IsOnBoard_iff:
  "Coord_IsOnBoard c \<longleftrightarrow> 0 \<le> row c \<and> row c < 8 \<and> 0 \<le> column c \<and> column c < 8"
  by (auto simp: Coord_IsOnBoard_def SIDE_def)

lemma GetIndex_on_board:
  "Coord_IsOnBoard c \<Longrightarrow> Coord_GetIndex c = Some (row c * 8 + column c)"
  by (simp add: Coord_GetIndex_def IsOnBoard_iff bind_CHECK SIDE_def CELLS_def Let_def)

lemma GetIndex_off_board: "\<not> Coord_IsOnBoard c \<Longrightarrow> Coord_GetIndex c = None"
  by (simp add: Coord_GetIndex_def bind_CHECK)

lemma GetIndex_range: "Coord_GetIndex c = Some i \<Longrightarrow> 0 \<le> i \<and> i < 64"
  by (auto simp: Coord_GetIndex_def bind_CHECK SIDE_def CELLS_def Let_def split: if_splits)

lemma index_split: "(i :: int) sdiv 8 * 8 + i smod 8 = i"
  by (rule sdiv_mult_smod_eq)

lemma Coord_of_index_negative: "i < 0 \<Longrightarrow> row (Coord_of_index i) < 0 \<or> column (Coord_of_index i) < 0"
  using index_split [of i] by (auto simp: Coord_of_index_def SIDE_def)

lemma Coord_of_index_nonneg:
  "0 \<le> i \<Longrightarrow> Coord_of_index i = \<lparr>row = i div 8, column = i mod 8\<rparr>"
  by (simp add: Coord_of_index_def SIDE_def signed_divide_int_def signed_modulo_int_def
      sgn_if minus_div_mult_eq_mod)

lemma Coord_of_index_on_board: "Coord_IsOnBoard (Coord_of_index i) \<longleftrightarrow> 0 \<le> i \<and> i < 64"
proof (cases "0 \<le> i")
  case True
  then show ?thesis
    by (auto simp: IsOnBoard_iff Coord_of_index_nonneg)
next
  case False
  then show ?thesis
    using Coord_of_index_negative [of i] by (auto simp: IsOnBoard_iff)
qed

lemma GetIndex_of_index: "0 \<le> i \<Longrightarrow> i < 64 \<Longrightarrow> Coord_GetIndex (Coord_of_index i) = Some i"
  using GetIndex_on_board [OF Coord_of_index_on_board [of i, THEN iffD2]]
  by (simp add: Coord_of_index_nonneg)

lemma Coord_of_GetIndex:
  assumes "Coord_GetIndex c = Some i"
  shows "Coord_of_index i = c"
proof -
  have "Coord_IsOnBoard c"
    using assms GetIndex_off_board by fastforce
  with assms show ?thesis
    by (auto simp: GetIndex_on_board IsOnBoard_iff Coord_of_index_nonneg)
qed

lemma GetIndex_eq_Some_iff:
  "Coord_GetIndex c = Some i \<longleftrightarrow> 0 \<le> i \<and> i < 64 \<and> c = Coord_of_index i"
  by (metis Coord_of_GetIndex GetIndex_of_index GetIndex_range)

lemma Direction_inverse_involution [simp]: "Direction_inverse (Direction_inverse d) = d"
  by (cases d) simp_all

lemma Coord_plus_minus [simp]:
  "Coord_minus (Coord_plus c d) d = c" "Coord_plus (Coord_minus c d) d = c"
  by (cases d; simp add: Coord_minus_def)+

subsection \<open>Indices\<close>

text \<open>\<open>Coord::GetIndex\<close> and the constructor from an index are inverse: \<open>GetIndex\<close> returns an
  index exactly on the coordinates of the board, the index lies in 0 to 63, and it is the one
  index from which the coordinate is built; off the board \<open>GetIndex\<close> aborts.\<close>

theorem GetIndex_inverse:
  "(Coord_GetIndex c = Some i \<longleftrightarrow> 0 \<le> i \<and> i < 64 \<and> c = Coord_of_index i) \<and>
   (Coord_GetIndex c = None \<longleftrightarrow> \<not> Coord_IsOnBoard c)"
proof
  show "Coord_GetIndex c = Some i \<longleftrightarrow> 0 \<le> i \<and> i < 64 \<and> c = Coord_of_index i"
    by (rule GetIndex_eq_Some_iff)
  show "Coord_GetIndex c = None \<longleftrightarrow> \<not> Coord_IsOnBoard c"
    using GetIndex_on_board [of c] GetIndex_off_board [of c] by fastforce
qed

end
