(* ===== verification/Grid.thy ===== *)
theory Grid
  imports Coord
begin

text \<open>
  The bit-vector boards of Xayaships, \<open>src/ships/grid.hpp\<close> and \<open>grid.cpp\<close>: a grid is a 64-bit
  word with one bit per cell.  Modelled are reading and setting cells, counting, the
  little-endian blob that is hashed, the text form and its parser, and the two checks of a
  revealed position: against the answers given, and of the placement of the ships.

  The lemmas show the grid to be a set of cells (\<open>cells\<close>), that counting computes the
  cardinality, that text and blob are faithful encodings, and that the placement check runs
  without aborting.  That an accepted placement has exactly \<open>TotalShipCells\<close> cells is
  shown in theory \<open>Fleet\<close>.
\<close>

record grid =
  bits :: uint64

definition AVAILABLE_SHIPS :: "(nat \<times> nat) list" where
  "AVAILABLE_SHIPS = [(2, 4), (3, 2), (4, 1)]"

definition Grid_Get :: "grid \<Rightarrow> coord \<Rightarrow> bool run" where
  "Grid_Get g c = do { i \<leftarrow> Coord_GetIndex c; Some (drop_bit (nat i) (bits g) mod 2 > 0) }"

definition Grid_Set :: "grid \<Rightarrow> coord \<Rightarrow> grid run" where
  "Grid_Set g c =
     do {
       i \<leftarrow> Coord_GetIndex c;
       let mask = push_bit (nat i) 1;
       CHECK (bits g AND mask = 0);
       Some (g\<lparr>bits := bits g OR mask\<rparr>)
     }"

text \<open>The loops of \<open>ToString\<close> over the rows and the columns of a row.\<close>

definition Grid_ToString_row :: "grid \<Rightarrow> int \<Rightarrow> string run" where
  "Grid_ToString_row g r =
     those (map (\<lambda>c. map_option (\<lambda>b. if b then CHR ''x'' else CHR ''.'')
                       (Grid_Get g \<lparr>row = r, column = c\<rparr>)) [0..SIDE - 1])"

definition Grid_ToString :: "grid \<Rightarrow> string run" where
  "Grid_ToString g =
     map_option (\<lambda>rows. concat (map (\<lambda>r. r @ [CHR 0x0A]) rows))
       (those (map (Grid_ToString_row g) [0..SIDE - 1]))"

text \<open>The parsing loop; \<open>next\<close> is the index of the next cell.  The result is the final value
  of \<open>next\<close> with the grid, \<open>Some None\<close> where the loop returns false.\<close>

fun FromString_loop :: "string \<Rightarrow> int \<Rightarrow> grid \<Rightarrow> (int \<times> grid) option run" where
  "FromString_loop [] next g = Some (Some (next, g))"
| "FromString_loop (c # cs) next g =
     (if c = CHR '' '' \<or> c = CHR 0x0A then FromString_loop cs next g
      else if next \<ge> CELLS then Some None
      else if c = CHR ''.'' then FromString_loop cs (next + 1) g
      else if c = CHR ''x'' then
        do { g' \<leftarrow> Grid_Set g (Coord_of_index next); FromString_loop cs (next + 1) g' }
      else Some None)"

definition Grid_FromString :: "string \<Rightarrow> grid option run" where
  "Grid_FromString str =
     do {
       res \<leftarrow> FromString_loop str 0 \<lparr>bits = 0\<rparr>;
       (case res of
          None \<Rightarrow> Some None
        | Some (next, g) \<Rightarrow>
            if next < CELLS then Some None
            else do { CHECK (next = CELLS); Some (Some g) })
     }"

function CountOnes_loop :: "uint64 \<Rightarrow> int \<Rightarrow> int" where
  "CountOnes_loop remaining res =
     (if remaining > 0
      then CountOnes_loop (drop_bit 1 remaining) (res + uint (remaining mod 2))
      else res)"
  by pat_completeness auto
termination
proof (relation "measure (\<lambda>(w, _). unat w)")
  fix w :: uint64 and res :: int
  assume "0 < w"
  then have "unat w div 2 < unat w"
    by (simp add: word_less_nat_alt)
  then show "((drop_bit 1 w, res + uint (w mod 2)), w, res)
      \<in> measure (\<lambda>(w, _). unat w)"
    by (simp add: drop_bit_eq_div unat_div)
qed simp

declare CountOnes_loop.simps [simp del]

definition Grid_CountOnes :: "grid \<Rightarrow> int" where
  "Grid_CountOnes g = CountOnes_loop (bits g) 0"

fun Blob_loop :: "nat \<Rightarrow> uint64 \<Rightarrow> string \<times> uint64" where
  "Blob_loop 0 remaining = ([], remaining)"
| "Blob_loop (Suc n) remaining =
     (let (res, rem) = Blob_loop n (drop_bit 8 remaining)
      in (char_of_byte (ucast (remaining AND 0xFF)) # res, rem))"

definition Grid_Blob :: "grid \<Rightarrow> string run" where
  "Grid_Blob g =
     (let (res, remaining) = Blob_loop 8 (bits g)
      in do { CHECK (remaining = 0); Some res })"

definition Grid_TotalShipCells :: int where
  "Grid_TotalShipCells = int (sum_list (map (\<lambda>(sz, number). sz * number) AVAILABLE_SHIPS))"

definition VerifyPositionForAnswers :: "grid \<Rightarrow> grid \<Rightarrow> grid \<Rightarrow> bool run" where
  "VerifyPositionForAnswers position targeted hits =
     do {
       CHECK (bits hits AND bits targeted = bits hits);
       Some (bits position AND bits targeted = bits hits)
     }"

text \<open>A cell outside the board has no ship; on the board \<open>Get\<close> cannot abort.\<close>

definition HasShip :: "grid \<Rightarrow> coord \<Rightarrow> bool" where
  "HasShip g c = (if \<not> Coord_IsOnBoard c then False else Grid_Get g c = Some True)"

text \<open>Distance to the border in a direction, the bound of the walk along a ship.\<close>

fun to_border :: "Direction \<Rightarrow> coord \<Rightarrow> nat" where
  "to_border LEFT c = nat (column c + 1)"
| "to_border RIGHT c = nat (SIDE - column c)"
| "to_border UP c = nat (row c + 1)"
| "to_border DOWN c = nat (SIDE - row c)"

text \<open>The loop of \<open>CheckShip\<close>: the size and the first cell behind the ship, \<open>None\<close> where it
  returns false.\<close>

function CheckShip_walk ::
    "grid \<Rightarrow> coord \<Rightarrow> Direction \<Rightarrow> Direction \<Rightarrow> nat \<Rightarrow> (nat \<times> coord) option" where
  "CheckShip_walk g c dir otherDir sz =
     (if HasShip g c then
        if HasShip g (Coord_minus c otherDir) \<or> HasShip g (Coord_plus c otherDir) then None
        else CheckShip_walk g (Coord_plus c dir) dir otherDir (Suc sz)
      else Some (sz, c))"
  by pat_completeness auto
termination
proof (relation "measure (\<lambda>(g, c, dir, _). to_border dir c)")
  fix g c dir otherDir and sz :: nat
  assume "HasShip g c"
  then have "Coord_IsOnBoard c"
    by (simp add: HasShip_def split: if_splits)
  then show "((g, Coord_plus c dir, dir, otherDir, Suc sz), g, c, dir, otherDir, sz)
      \<in> measure (\<lambda>(g, c, dir, _). to_border dir c)"
    by (cases dir) (auto simp: IsOnBoard_iff SIDE_def)
qed simp

declare CheckShip_walk.simps [simp del]

definition CheckShip :: "grid \<Rightarrow> coord \<Rightarrow> Direction \<Rightarrow> Direction \<Rightarrow> nat option run" where
  "CheckShip g c dir otherDir =
     do {
       CHECK (HasShip g c);
       if HasShip g (Coord_minus c dir)
          \<or> HasShip g (Coord_minus (Coord_minus c dir) otherDir)
          \<or> HasShip g (Coord_plus (Coord_minus c dir) otherDir)
       then Some None
       else (case CheckShip_walk g c dir otherDir 0 of
               None \<Rightarrow> Some None
             | Some (sz, e) \<Rightarrow>
                 if HasShip g (Coord_minus e otherDir) \<or> HasShip g (Coord_plus e otherDir)
                 then Some None else Some (Some sz))
     }"

text \<open>\<open>++foundShips[size]\<close> on the map of counts.\<close>

fun count_ship :: "nat \<Rightarrow> (nat \<times> nat) list \<Rightarrow> (nat \<times> nat) list" where
  "count_ship k [] = [(k, 1)]"
| "count_ship k ((k', n) # m) = (if k = k' then (k', Suc n) # m else (k', n) # count_ship k m)"

text \<open>The direction of the ship that starts at a cell, with the orthogonal one.\<close>

definition ship_direction :: "grid \<Rightarrow> coord \<Rightarrow> Direction \<times> Direction" where
  "ship_direction g c =
     (if HasShip g (Coord_plus c DOWN) then (DOWN, RIGHT) else (RIGHT, DOWN))"

fun FindShips_loop :: "grid \<Rightarrow> int list \<Rightarrow> (nat \<times> nat) list \<Rightarrow> (nat \<times> nat) list option run" where
  "FindShips_loop position [] foundShips = Some (Some foundShips)"
| "FindShips_loop position (i # is) foundShips =
     (let c = Coord_of_index i in
      do {
        here \<leftarrow> Grid_Get position c;
        if \<not> here then FindShips_loop position is foundShips
        else if HasShip position (Coord_plus c UP) \<or> HasShip position (Coord_plus c LEFT)
        then FindShips_loop position is foundShips
        else
          (let (dir, otherDir) = ship_direction position c in
           do {
             checked \<leftarrow> CheckShip position c dir otherDir;
             (case checked of
                None \<Rightarrow> Some None
              | Some sz \<Rightarrow> FindShips_loop position is (count_ship sz foundShips))
           })
      })"

definition VerifyPositionOfShips :: "grid \<Rightarrow> bool run" where
  "VerifyPositionOfShips position =
     do {
       found \<leftarrow> FindShips_loop position [0..CELLS - 1] [];
       (case found of
          None \<Rightarrow> Some False
        | Some foundShips \<Rightarrow>
            Some (list_all (\<lambda>(sz, number). map_of foundShips sz = Some number) AVAILABLE_SHIPS
                  \<and> length AVAILABLE_SHIPS = length foundShips))
     }"

text \<open>The abstract value of a grid: its set of cells.\<close>

definition cells :: "grid \<Rightarrow> nat set" where
  "cells g = {i. bit (bits g) i}"

subsection \<open>A grid is a set of cells\<close>

lemma cells_bound: "i \<in> cells g \<Longrightarrow> i < 64"
  using bit_imp_le_length [of "bits g" i] by (simp add: cells_def)

lemma finite_cells [simp]: "finite (cells g)"
  by (rule finite_subset [of _ "{..<64}"]) (auto dest: cells_bound)

lemma cells_inject: "cells g = cells h \<Longrightarrow> g = h"
  by (cases g, cases h) (auto simp: cells_def intro: bit_word_eqI)

lemma cells_and: "cells \<lparr>bits = a AND b\<rparr> = cells \<lparr>bits = a\<rparr> \<inter> cells \<lparr>bits = b\<rparr>"
  by (auto simp: cells_def bit_simps)

lemma cells_eq_iff: "cells \<lparr>bits = a\<rparr> = cells \<lparr>bits = b\<rparr> \<longleftrightarrow> a = b"
  using cells_inject [of "\<lparr>bits = a\<rparr>" "\<lparr>bits = b\<rparr>"] by auto

text \<open>The check against the answers: the hits are the occupied ones of the targeted cells.\<close>

lemma VerifyPositionForAnswers_cells:
  assumes "cells hits \<subseteq> cells targeted"
  shows "VerifyPositionForAnswers g targeted hits = Some (cells g \<inter> cells targeted = cells hits)"
proof -
  have "cells hits \<inter> cells targeted = cells hits"
    using assms by blast
  then have "bits hits AND bits targeted = bits hits"
    using cells_and [of "bits hits" "bits targeted"] cells_eq_iff [of "bits hits AND bits targeted" "bits hits"]
    by (cases hits; cases targeted) simp
  then show ?thesis
    using cells_and [of "bits g" "bits targeted"] cells_eq_iff [of "bits g AND bits targeted" "bits hits"]
    by (cases g; cases hits; cases targeted) (simp add: VerifyPositionForAnswers_def bind_CHECK)
qed

lemma drop_bit_mod_2: "drop_bit n (w :: uint64) mod 2 > 0 \<longleftrightarrow> bit w n"
  by (simp add: bit_iff_odd_drop_bit odd_iff_mod_2_eq_one word_neq_0_conv [symmetric]
      del: word_neq_0_conv)

lemma Get_index: "i < 64 \<Longrightarrow> Grid_Get g (Coord_of_index (int i)) = Some (i \<in> cells g)"
  by (simp add: Grid_Get_def GetIndex_of_index cells_def drop_bit_mod_2)

lemma Get_off_board: "\<not> Coord_IsOnBoard c \<Longrightarrow> Grid_Get g c = None"
  by (simp add: Grid_Get_def GetIndex_off_board)

lemma on_board_index:
  assumes "Coord_IsOnBoard c"
  obtains i :: nat where "i < 64" and "c = Coord_of_index (int i)"
proof -
  obtain k where "Coord_GetIndex c = Some k"
    using assms GetIndex_on_board by blast
  then show thesis
    using that [of "nat k"] by (auto simp: GetIndex_eq_Some_iff)
qed

lemma HasShip_index: "i < 64 \<Longrightarrow> HasShip g (Coord_of_index (int i)) \<longleftrightarrow> i \<in> cells g"
  by (simp add: HasShip_def Coord_of_index_on_board Get_index)

lemma HasShip_on_board: "HasShip g c \<Longrightarrow> Coord_IsOnBoard c"
  by (simp add: HasShip_def split: if_splits)

lemma Set_eq:
  assumes "i < 64" and "i \<notin> cells g"
  shows "Grid_Set g (Coord_of_index (int i)) = Some \<lparr>bits = bits g OR push_bit i 1\<rparr>"
proof -
  have "bits g AND push_bit i 1 = 0"
    using assms(2) by (intro bit_word_eqI) (auto simp: bit_simps cells_def)
  then show ?thesis
    using assms by (cases g) (simp add: Grid_Set_def GetIndex_of_index Let_def bind_CHECK)
qed

lemma cells_insert: "i < 64 \<Longrightarrow> cells \<lparr>bits = w OR push_bit i 1\<rparr> = insert i (cells \<lparr>bits = w\<rparr>)"
  by (auto simp: cells_def bit_simps)

lemma Set_fresh:
  assumes "i < 64" and "i \<notin> cells g"
  shows "\<exists>g'. Grid_Set g (Coord_of_index (int i)) = Some g' \<and> cells g' = insert i (cells g)"
  using Set_eq [OF assms] cells_insert [OF assms(1), of "bits g"] by (cases g) simp

lemma Set_twice:
  assumes "i < 64" and "i \<in> cells g"
  shows "Grid_Set g (Coord_of_index (int i)) = None"
proof -
  have "bit (bits g AND push_bit i 1) i"
    using assms by (simp add: bit_simps cells_def)
  then have "bits g AND push_bit i 1 \<noteq> 0"
    by auto
  then show ?thesis
    using assms by (simp add: Grid_Set_def GetIndex_of_index Let_def bind_CHECK)
qed

subsection \<open>Counting\<close>

lemma card_bits_step:
  "card {i. bit (w :: uint64) i} = of_bool (odd w) + card {i. bit (drop_bit 1 w) i}"
proof -
  have fin: "finite {i. bit (drop_bit 1 w) i}"
    by (rule finite_subset [of _ "{..<64}"]) (auto dest: bit_imp_le_length)
  have "{i. bit w i} = (if odd w then {0} else {}) \<union> Suc ` {i. bit (drop_bit 1 w) i}"
    (is "?A = ?B")
  proof (rule set_eqI)
    fix i
    show "i \<in> ?A \<longleftrightarrow> i \<in> ?B"
      by (cases i) (auto simp: bit_0 bit_drop_bit_eq)
  qed
  then show ?thesis
    using fin by (simp add: card_image card_insert_if)
qed

lemma CountOnes_loop_card: "CountOnes_loop w res = res + int (card {i. bit w i})"
proof (induction w res rule: CountOnes_loop.induct)
  case (1 w res)
  have "uint (w mod 2) = of_bool (odd w)"
    by (simp add: odd_iff_mod_2_eq_one even_iff_mod_2_eq_zero)
  with 1 card_bits_step [of w] show ?case
    by (cases "w = 0") (auto simp: CountOnes_loop.simps [of w res] CountOnes_loop.simps [of 0]
        word_neq_0_conv)
qed

lemma CountOnes_card: "Grid_CountOnes g = int (card (cells g))"
  by (simp add: Grid_CountOnes_def CountOnes_loop_card cells_def)

lemma CountOnes_bound: "Grid_CountOnes g \<le> 64"
proof -
  have "card (cells g) \<le> card {..<64 :: nat}"
    by (intro card_mono) (auto dest: cells_bound)
  then show ?thesis
    by (simp add: CountOnes_card)
qed

subsection \<open>Blob\<close>

lemma Blob_loop_eq:
  "Blob_loop n w = (map (\<lambda>i. char_of_byte (ucast (drop_bit (8 * i) w))) [0..<n], drop_bit (8 * n) w)"
proof (induction n arbitrary: w)
  case 0
  then show ?case by simp
next
  case (Suc n)
  have "w AND 0xFF = take_bit 8 w"
    by (simp add: take_bit_eq_mask mask_eq_exp_minus_1)
  then have "ucast (w AND 0xFF) = (ucast w :: byte)"
    by (intro bit_word_eqI) (simp add: bit_simps)
  with Suc show ?case
    by (simp add: upt_conv_Cons map_Suc_upt [symmetric] drop_bit_drop_bit ac_simps del: upt_Suc)
qed

lemma Blob_total: "Grid_Blob g = Some (fst (Blob_loop 8 (bits g)))"
proof -
  have "drop_bit 64 (bits g) = 0"
    by (rule bit_word_eqI) (simp add: bit_simps)
  then show ?thesis
    by (simp add: Grid_Blob_def Blob_loop_eq bind_CHECK)
qed

lemma length_Blob: "Grid_Blob g = Some s \<Longrightarrow> length s = 8"
  by (auto simp: Blob_total Blob_loop_eq)

lemma Blob_inject:
  assumes "Grid_Blob g = Grid_Blob h"
  shows "g = h"
proof -
  have bytes: "(ucast (drop_bit (8 * i) (bits g)) :: byte) = ucast (drop_bit (8 * i) (bits h))"
    if "i < 8" for i
  proof -
    have "\<forall>i\<in>{0..<8}. char_of_byte (ucast (drop_bit (8 * i) (bits g)))
      = char_of_byte (ucast (drop_bit (8 * i) (bits h)))"
      using assms by (simp add: Blob_total Blob_loop_eq del: upt_rec_numeral upt_Suc)
    then have "char_of_byte (ucast (drop_bit (8 * i) (bits g)))
      = char_of_byte (ucast (drop_bit (8 * i) (bits h)))"
      using that by simp
    then show ?thesis
      by (metis byte_of_char_of_byte)
  qed
  have "bits g = bits h"
  proof (rule bit_word_eqI)
    fix n assume "n < LENGTH(64)"
    then have "n div 8 < 8"
      by simp
    from bytes [OF this] have "bit (ucast (drop_bit (8 * (n div 8)) (bits g)) :: byte) (n mod 8)
      = bit (ucast (drop_bit (8 * (n div 8)) (bits h)) :: byte) (n mod 8)"
      by (rule arg_cong)
    then show "bit (bits g) n = bit (bits h) n"
      by (simp add: bit_simps)
  qed
  then show ?thesis
    by (cases g, cases h) simp
qed

subsection \<open>Text form\<close>

definition cell_char :: "bool \<Rightarrow> char" where
  "cell_char b = (if b then CHR ''x'' else CHR ''.'')"

lemma coord_row_column: "c < 8 \<Longrightarrow> \<lparr>row = int r, column = int c\<rparr> = Coord_of_index (int (8 * r + c))"
  by (simp add: Coord_of_index_nonneg)

lemma upto_SIDE: "[0..SIDE - 1] = map int [0..<8]"
  by (simp add: SIDE_def upto.simps upt_rec)

lemma ToString_row_eq:
  assumes "r < 8"
  shows "Grid_ToString_row g (int r) = Some (map (\<lambda>c. cell_char (8 * r + c \<in> cells g)) [0..<8])"
proof -
  have "Grid_Get g \<lparr>row = int r, column = int c\<rparr> = Some (8 * r + c \<in> cells g)" if "c < 8" for c
    using assms that coord_row_column [OF that, of r] Get_index [of "8 * r + c" g] by simp
  then show ?thesis
    unfolding Grid_ToString_row_def upto_SIDE map_map
    by (intro those_map_Some) (auto simp: cell_char_def)
qed

lemma ToString_eq:
  "Grid_ToString g = Some (concat (map (\<lambda>r. map (\<lambda>c. cell_char (8 * r + c \<in> cells g)) [0..<8]
     @ [CHR 0x0A]) [0..<8]))"
proof -
  have "those (map (Grid_ToString_row g) (map int [0..<8]))
    = Some (map (\<lambda>r. map (\<lambda>c. cell_char (8 * r + c \<in> cells g)) [0..<8]) [0..<8])"
    unfolding map_map by (intro those_map_Some) (simp add: ToString_row_eq)
  then show ?thesis
    by (simp add: Grid_ToString_def upto_SIDE comp_def del: upt_rec_numeral upt_Suc)
qed

lemma FromString_loop_filter:
  "FromString_loop s n g = FromString_loop (filter (\<lambda>c. c \<noteq> CHR '' '' \<and> c \<noteq> CHR 0x0A) s) n g"
  by (induction s n g rule: FromString_loop.induct)
    (auto cong: Option.bind_cong)

lemma FromString_loop_cells:
  assumes "n + length bs \<le> 64" and "\<And>i. i \<in> cells g \<Longrightarrow> i < n"
  shows "\<exists>g'. FromString_loop (map cell_char bs) (int n) g = Some (Some (int (n + length bs), g')) \<and>
    cells g' = cells g \<union> {n + i |i. i < length bs \<and> bs ! i}"
  using assms
proof (induction bs arbitrary: n g)
  case Nil
  then show ?case by simp
next
  case (Cons b bs)
  have n: "n < 64" "int n < CELLS"
    using Cons.prems by (simp_all add: CELLS_def SIDE_def)
  obtain h where h: "cells h = cells g \<union> (if b then {n} else {})"
    and step: "FromString_loop (map cell_char (b # bs)) (int n) g
      = FromString_loop (map cell_char bs) (int (Suc n)) h"
  proof (cases b)
    case True
    obtain g' where "Grid_Set g (Coord_of_index (int n)) = Some g'" "cells g' = insert n (cells g)"
      using Set_fresh [of n g] n Cons.prems(2) by blast
    then show thesis
      using that [of g'] True n by (simp add: cell_char_def add.commute)
  next
    case False
    then show thesis
      using that [of g] n by (simp add: cell_char_def add.commute)
  qed
  have "i < Suc n" if "i \<in> cells h" for i
    using that h Cons.prems(2) by (auto split: if_splits intro: less_SucI)
  then obtain g' where "FromString_loop (map cell_char bs) (int (Suc n)) h
      = Some (Some (int (Suc n + length bs), g'))"
    and g': "cells g' = cells h \<union> {Suc n + i |i. i < length bs \<and> bs ! i}"
    using Cons.IH [of "Suc n" h] Cons.prems(1) by auto
  moreover have "{n + i |i. i < length (b # bs) \<and> (b # bs) ! i}
    = (if b then {n} else {}) \<union> {Suc n + i |i. i < length bs \<and> bs ! i}"
    by (auto simp: less_Suc_eq_0_disj)
  ultimately show ?case
    using step h by auto
qed

lemma FromString_ToString: "Option.bind (Grid_ToString g) Grid_FromString = Some (Some g)"
proof -
  let ?bs = "map (\<lambda>i. i \<in> cells g) [0..<64]"
  have cc: "filter (\<lambda>c. c \<noteq> CHR '' '' \<and> c \<noteq> CHR 0x0A) (map (\<lambda>c. cell_char (P c)) xs)
    = map (\<lambda>c. cell_char (P c)) xs" for P and xs :: "nat list"
    by (simp add: filter_map comp_def cell_char_def)
  have "filter (\<lambda>c. c \<noteq> CHR '' '' \<and> c \<noteq> CHR 0x0A) (the (Grid_ToString g))
    = concat (map (\<lambda>r. map (\<lambda>c. cell_char (8 * r + c \<in> cells g)) [0..<8]) [0..<8])"
    by (simp add: ToString_eq filter_concat comp_def cc del: upt_rec_numeral upt_Suc filter_map)
  also have "\<dots> = map cell_char ?bs"
    using concat_rows [of "\<lambda>i. cell_char (i \<in> cells g)" 8 8] by (simp del: upt_rec_numeral upt_Suc)
  finally have "filter (\<lambda>c. c \<noteq> CHR '' '' \<and> c \<noteq> CHR 0x0A) (the (Grid_ToString g)) = map cell_char ?bs" .
  then have "FromString_loop (the (Grid_ToString g)) 0 \<lparr>bits = 0\<rparr>
    = FromString_loop (map cell_char ?bs) (int 0) \<lparr>bits = 0\<rparr>"
    by (subst FromString_loop_filter) (simp del: upt_rec_numeral upt_Suc)
  moreover have "cells \<lparr>bits = 0\<rparr> = {}"
    by (simp add: cells_def)
  moreover have "{0 + i |i. i < length ?bs \<and> ?bs ! i} = cells g"
    using cells_bound [of _ g] by (auto simp del: upt_rec_numeral upt_Suc)
  ultimately obtain g' where "FromString_loop (the (Grid_ToString g)) 0 \<lparr>bits = 0\<rparr>
      = Some (Some (int 64, g'))"
    and "cells g' = cells g"
    using FromString_loop_cells [of 0 ?bs "\<lparr>bits = 0\<rparr>"]
    by (auto simp del: upt_rec_numeral upt_Suc map_map)
  moreover from this(2) have "g' = g"
    by (rule cells_inject)
  ultimately show ?thesis
    by (simp add: ToString_eq Grid_FromString_def CELLS_def SIDE_def bind_CHECK
        del: upt_rec_numeral upt_Suc)
qed

subsection \<open>Properties\<close>

text \<open>Printing a grid never aborts, and parsing the printed text yields the same grid.\<close>

theorem ToString_FromString_roundtrip:
  "Option.bind (Grid_ToString g) Grid_FromString = Some (Some g)"
  by (rule FromString_ToString)

text \<open>The shift loop of \<open>CountOnes\<close> computes the number of cells that \<open>Get\<close> reports as set.\<close>

theorem CountOnes_counts_cells:
  "Grid_CountOnes g = int (card {i. i < 64 \<and> Grid_Get g (Coord_of_index (int i)) = Some True})"
proof -
  have "{i. i < 64 \<and> Grid_Get g (Coord_of_index (int i)) = Some True} = cells g"
    using cells_bound by (auto simp: Get_index)
  then show ?thesis
    by (simp add: CountOnes_card)
qed

text \<open>The blob that is hashed for a position commitment always exists, has eight bytes and
  determines the position, so a commitment is to one position only (up to hash collisions).\<close>

theorem Blob_commits:
  "(\<exists>s. Grid_Blob g = Some s \<and> length s = 8) \<and> (Grid_Blob g = Grid_Blob h \<longleftrightarrow> g = h)"
proof -
  have "\<exists>s. Grid_Blob g = Some s"
    by (simp add: Blob_total)
  then show ?thesis
    using length_Blob Blob_inject by blast
qed

end
