(* ===== verification/Fleet.thy ===== *)
theory Fleet
  imports Grid
begin

text \<open>
  What \<open>VerifyPositionOfShips\<close> of \<open>src/ships/grid.cpp\<close> decides.  A fleet is a finite set of
  ships, each a head cell, a direction (right or down) and a length.  It is legal for a board
  when its ships cover exactly the occupied cells, no two of them overlap, no occupied cell
  outside of a ship touches it, not even diagonally, and there are four ships of size two,
  two of size three and one of size four.  The main lemma is that the code accepts a board
  exactly when it has a legal fleet; in particular an accepted board has
  \<open>TotalShipCells\<close> occupied cells, which is what the rules for winning a game rest on.
\<close>

type_synonym ship = "coord \<times> Direction \<times> nat"

text \<open>The cell \<open>j\<close> steps from a cell in a direction.\<close>

fun along :: "coord \<Rightarrow> Direction \<Rightarrow> int \<Rightarrow> coord" where
  "along c LEFT j = \<lparr>row = row c, column = column c - j\<rparr>"
| "along c RIGHT j = \<lparr>row = row c, column = column c + j\<rparr>"
| "along c UP j = \<lparr>row = row c - j, column = column c\<rparr>"
| "along c DOWN j = \<lparr>row = row c + j, column = column c\<rparr>"

definition ship_cells :: "ship \<Rightarrow> coord set" where
  "ship_cells = (\<lambda>(s, d, n). {along s d (int j) |j. j < n})"

definition occupied :: "grid \<Rightarrow> coord set" where
  "occupied g = {c. HasShip g c}"

text \<open>Two cells touch when they differ by at most one in the row and in the column.\<close>

definition touching :: "coord \<Rightarrow> coord \<Rightarrow> bool" where
  "touching a b \<longleftrightarrow> \<bar>row a - row b\<bar> \<le> 1 \<and> \<bar>column a - column b\<bar> \<le> 1"

definition isolated :: "coord set \<Rightarrow> coord set \<Rightarrow> bool" where
  "isolated S A \<longleftrightarrow> (\<forall>a\<in>A. \<forall>b\<in>S. touching a b \<longrightarrow> b \<in> A)"

definition ships_of_size :: "ship set \<Rightarrow> nat \<Rightarrow> ship set" where
  "ships_of_size F k = {s \<in> F. snd (snd s) = k}"

definition legal_fleet :: "coord set \<Rightarrow> ship set \<Rightarrow> bool" where
  "legal_fleet S F \<longleftrightarrow>
     finite F \<and> S = (\<Union>s\<in>F. ship_cells s) \<and>
     (\<forall>s\<in>F. fst (snd s) \<in> {RIGHT, DOWN} \<and> snd (snd s) \<in> {2, 3, 4} \<and> isolated S (ship_cells s)) \<and>
     (\<forall>s\<in>F. \<forall>t\<in>F. s \<noteq> t \<longrightarrow> ship_cells s \<inter> ship_cells t = {}) \<and>
     card (ships_of_size F 2) = 4 \<and> card (ships_of_size F 3) = 2 \<and> card (ships_of_size F 4) = 1"

text \<open>The cells at which the search of the code starts a ship.\<close>

definition is_head :: "grid \<Rightarrow> coord \<Rightarrow> bool" where
  "is_head g c \<longleftrightarrow> HasShip g c \<and> \<not> HasShip g (Coord_plus c UP) \<and> \<not> HasShip g (Coord_plus c LEFT)"

definition ship_at :: "grid \<Rightarrow> coord \<Rightarrow> nat option" where
  "ship_at g c =
     (case CheckShip g c (fst (ship_direction g c)) (snd (ship_direction g c)) of
        Some (Some n) \<Rightarrow> Some n | _ \<Rightarrow> None)"

definition head_list :: "grid \<Rightarrow> coord list" where
  "head_list g = filter (is_head g) (map (\<lambda>i. Coord_of_index (int i)) [0..<64])"

subsection \<open>Moving along a line\<close>

lemma along_0 [simp]: "along c d 0 = c"
  by (cases d) simp_all

lemma along_along [simp]: "along (along c d i) d j = along c d (i + j)"
  by (cases d) simp_all

lemma Coord_plus_along: "Coord_plus c d = along c d 1"
  by (cases d) simp_all

lemma Coord_minus_along: "Coord_minus c d = along c d (-1)"
  by (cases d) (simp_all add: Coord_minus_def)

lemma along_inject [simp]: "along c d i = along c d j \<longleftrightarrow> i = j"
  by (cases d) (auto simp: coord.splits)

lemma card_ship_cells: "card (ship_cells (s, d, n)) = n"
proof -
  have "ship_cells (s, d, n) = (\<lambda>j. along s d (int j)) ` {..<n}"
    by (auto simp: ship_cells_def)
  then show ?thesis
    by (simp add: card_image inj_on_def)
qed

lemma finite_ship_cells [simp]: "finite (ship_cells t)"
  by (cases t) (simp add: ship_cells_def)

subsection \<open>The walk along a ship\<close>

lemma CheckShip_walk_sound:
  assumes "CheckShip_walk g c d e k = Some (n, t)"
  shows "\<exists>m. n = k + m \<and> t = along c d (int m) \<and> \<not> HasShip g t \<and>
    (\<forall>j<m. HasShip g (along c d (int j)) \<and> \<not> HasShip g (Coord_minus (along c d (int j)) e)
      \<and> \<not> HasShip g (Coord_plus (along c d (int j)) e))"
  using assms
proof (induction g c d e k rule: CheckShip_walk.induct)
  case (1 g c d e k)
  show ?case
  proof (cases "HasShip g c")
    case False
    with "1.prems" show ?thesis
      by (intro exI [of _ 0]) (simp add: CheckShip_walk.simps [of g c])
  next
    case True
    with "1.prems" have side: "\<not> (HasShip g (Coord_minus c e) \<or> HasShip g (Coord_plus c e))"
      and rest: "CheckShip_walk g (along c d 1) d e (Suc k) = Some (n, t)"
      by (auto simp: CheckShip_walk.simps [of g c] Coord_plus_along split: if_splits)
    from "1.IH" [OF True side] rest obtain m where m: "n = Suc k + m"
      "t = along c d (1 + int m)" "\<not> HasShip g t"
      "\<forall>j<m. HasShip g (along c d (1 + int j)) \<and> \<not> HasShip g (Coord_minus (along c d (1 + int j)) e)
        \<and> \<not> HasShip g (Coord_plus (along c d (1 + int j)) e)"
      by (auto simp: Coord_plus_along)
    with True side show ?thesis
      by (intro exI [of _ "Suc m"]) (auto simp: less_Suc_eq_0_disj)
  qed
qed

lemma CheckShip_walk_complete:
  assumes "\<And>j. j < m \<Longrightarrow> HasShip g (along c d (int j)) \<and> \<not> HasShip g (Coord_minus (along c d (int j)) e)
      \<and> \<not> HasShip g (Coord_plus (along c d (int j)) e)"
    and "\<not> HasShip g (along c d (int m))"
  shows "CheckShip_walk g c d e k = Some (k + m, along c d (int m))"
  using assms
proof (induction m arbitrary: c k)
  case 0
  then show ?case
    by (simp add: CheckShip_walk.simps [of g c])
next
  case (Suc m)
  have "CheckShip_walk g (along c d 1) d e (Suc k) = Some (Suc k + m, along (along c d 1) d (int m))"
  proof (rule Suc.IH)
    fix j assume "j < m"
    then show "HasShip g (along (along c d 1) d (int j)) \<and>
        \<not> HasShip g (Coord_minus (along (along c d 1) d (int j)) e) \<and>
        \<not> HasShip g (Coord_plus (along (along c d 1) d (int j)) e)"
      using Suc.prems(1) [of "Suc j"] by simp
  qed (use Suc.prems(2) in simp)
  moreover have "HasShip g c" "\<not> HasShip g (Coord_minus c e)" "\<not> HasShip g (Coord_plus c e)"
    using Suc.prems(1) [of 0] by simp_all
  ultimately show ?case
    by (simp add: CheckShip_walk.simps [of g c] Coord_plus_along)
qed


subsection \<open>What an accepted ship is\<close>

lemma bind_CheckShip:
  assumes "HasShip g c"
  shows "CheckShip g c d e = Some (Some n) \<longleftrightarrow>
    \<not> HasShip g (along c d (-1)) \<and> \<not> HasShip g (along (along c d (-1)) e (-1)) \<and>
    \<not> HasShip g (along (along c d (-1)) e 1) \<and>
    CheckShip_walk g c d e 0 = Some (n, along c d (int n)) \<and>
    \<not> HasShip g (along (along c d (int n)) e (-1)) \<and> \<not> HasShip g (along (along c d (int n)) e 1)"
  using assms
  by (auto simp: CheckShip_def bind_CHECK Coord_plus_along Coord_minus_along
      split: option.splits dest: CheckShip_walk_sound)

lemma CheckShip_result: "HasShip g c \<Longrightarrow> \<exists>r. CheckShip g c d e = Some r"
  by (auto simp: CheckShip_def bind_CHECK split: option.splits)

text \<open>The cells around a ship: those at positions \<open>-1\<close> to \<open>n\<close> of the two neighbouring lines, and
  the two cells before and behind it.\<close>

definition clear_ship :: "grid \<Rightarrow> coord \<Rightarrow> Direction \<Rightarrow> Direction \<Rightarrow> nat \<Rightarrow> bool" where
  "clear_ship g c d e n \<longleftrightarrow>
     (\<forall>j<n. HasShip g (along c d (int j))) \<and>
     \<not> HasShip g (along c d (-1)) \<and> \<not> HasShip g (along c d (int n)) \<and>
     (\<forall>j\<in>{-1..int n}. \<not> HasShip g (along (along c d j) e (-1)) \<and> \<not> HasShip g (along (along c d j) e 1))"

lemma CheckShip_iff_clear:
  assumes "HasShip g c"
  shows "CheckShip g c d e = Some (Some n) \<longleftrightarrow> clear_ship g c d e n"
proof
  assume "CheckShip g c d e = Some (Some n)"
  with assms have chk: "\<not> HasShip g (along c d (-1))" "\<not> HasShip g (along (along c d (-1)) e (-1))"
      "\<not> HasShip g (along (along c d (-1)) e 1)" "CheckShip_walk g c d e 0 = Some (n, along c d (int n))"
      "\<not> HasShip g (along (along c d (int n)) e (-1))" "\<not> HasShip g (along (along c d (int n)) e 1)"
    by (simp_all add: bind_CheckShip)
  from CheckShip_walk_sound [OF chk(4)] have w: "\<not> HasShip g (along c d (int n))"
      "\<forall>j<n. HasShip g (along c d (int j)) \<and> \<not> HasShip g (along (along c d (int j)) e (-1))
        \<and> \<not> HasShip g (along (along c d (int j)) e 1)"
    by (auto simp: Coord_plus_along Coord_minus_along)
  have "\<not> HasShip g (along (along c d j) e (-1)) \<and> \<not> HasShip g (along (along c d j) e 1)"
    if j: "j \<in> {-1..int n}" for j
  proof -
    have "j = -1 \<or> j = int n \<or> j = int (nat j) \<and> nat j < n"
      using j by auto
    then show ?thesis
      using chk w by (elim disjE conjE) (simp, simp, metis)
  qed
  with chk w show "clear_ship g c d e n"
    by (simp add: clear_ship_def)
next
  assume clear: "clear_ship g c d e n"
  then have "CheckShip_walk g c d e 0 = Some (0 + n, along c d (int n))"
    by (intro CheckShip_walk_complete) (simp_all add: clear_ship_def Coord_plus_along Coord_minus_along)
  with assms clear show "CheckShip g c d e = Some (Some n)"
    by (simp add: bind_CheckShip clear_ship_def)
qed

lemma mem_ship_cells: "x \<in> ship_cells (c, d, n) \<longleftrightarrow> (\<exists>j. 0 \<le> j \<and> j < int n \<and> x = along c d j)"
proof
  assume "\<exists>j. 0 \<le> j \<and> j < int n \<and> x = along c d j"
  then obtain j where "0 \<le> j" "j < int n" "x = along c d j"
    by blast
  then show "x \<in> ship_cells (c, d, n)"
    by (auto simp: ship_cells_def intro!: exI [of _ "nat j"])
qed (auto simp: ship_cells_def)

lemma mem_ship_RIGHT:
  "x \<in> ship_cells (c, RIGHT, n) \<longleftrightarrow> row x = row c \<and> column c \<le> column x \<and> column x < column c + int n"
  by (cases x; cases c) (auto simp: mem_ship_cells intro!: exI [of _ "column x - column c"])

lemma mem_ship_DOWN:
  "x \<in> ship_cells (c, DOWN, n) \<longleftrightarrow> column x = column c \<and> row c \<le> row x \<and> row x < row c + int n"
  by (cases x; cases c) (auto simp: mem_ship_cells intro!: exI [of _ "row x - row c"])

lemma ship_cells_head: "0 < n \<Longrightarrow> c \<in> ship_cells (c, d, n)"
  by (auto simp: mem_ship_cells intro!: exI [of _ 0])

text \<open>Being clear all around is being isolated.\<close>

lemma clear_ship_isolated:
  assumes "0 < n" and "(d, e) \<in> {(DOWN, RIGHT), (RIGHT, DOWN)}"
  shows "clear_ship g c d e n \<longleftrightarrow>
    ship_cells (c, d, n) \<subseteq> occupied g \<and> isolated (occupied g) (ship_cells (c, d, n))"
    (is "?L \<longleftrightarrow> ?sub \<and> ?iso")
proof (intro iffI conjI)
  assume clear: ?L
  then show ?sub
    by (auto simp: clear_ship_def occupied_def ship_cells_def)
  show ?iso
    unfolding isolated_def
  proof (intro ballI impI, rule ccontr)
    fix a b
    assume a: "a \<in> ship_cells (c, d, n)" and b: "b \<in> occupied g" "touching a b" "b \<notin> ship_cells (c, d, n)"
    define j where "j = (if d = DOWN then row b - row c else column b - column c)"
    define k where "k = (if d = DOWN then column b - column c else row b - row c)"
    have bjk: "b = along (along c d j) e k"
      using assms(2) by (cases b; cases c) (auto simp: j_def k_def)
    have "-1 \<le> j" "j \<le> int n" "k \<in> {-1, 0, 1}" "k = 0 \<Longrightarrow> j = -1 \<or> j = int n"
      using assms(2) a b(2,3)
      by (auto simp: j_def k_def touching_def mem_ship_RIGHT mem_ship_DOWN)
    then have "\<not> HasShip g b"
      using clear unfolding bjk clear_ship_def by auto
    with b(1) show False
      by (simp add: occupied_def)
  qed
next
  assume R: "?sub \<and> ?iso"
  have free: "\<not> HasShip g b" if "touching a b" "a \<in> ship_cells (c, d, n)" "b \<notin> ship_cells (c, d, n)" for a b
    using R that by (auto simp: isolated_def occupied_def)
  have side: "\<not> HasShip g (along (along c d j) e k)"
    if "-1 \<le> j" "j \<le> int n" "k = 1 \<or> k = -1 \<or> k = 0 \<and> (j = -1 \<or> j = int n)" for j k
  proof (rule free)
    let ?i = "if j < 0 then 0 else if j = int n then j - 1 else j"
    show "along c d ?i \<in> ship_cells (c, d, n)"
      using that assms(1) unfolding mem_ship_cells by (intro exI [of _ ?i]) auto
    show "touching (along c d ?i) (along (along c d j) e k)"
      using assms(2) that by (auto simp: touching_def)
    show "along (along c d j) e k \<notin> ship_cells (c, d, n)"
      using assms that by (auto simp: mem_ship_RIGHT mem_ship_DOWN)
  qed
  have "HasShip g (along c d (int j))" if "j < n" for j
    using R that by (auto simp: occupied_def mem_ship_cells subset_iff)
  then show ?L
    using side [of _ 1] side [of _ "-1"] side [of "-1" 0] side [of "int n" 0] by (auto simp: clear_ship_def)
qed

subsection \<open>The search for ships\<close>

lemma CheckShip_ship_at:
  assumes "is_head g c"
  shows "CheckShip g c (fst (ship_direction g c)) (snd (ship_direction g c)) = Some (ship_at g c)"
  using assms CheckShip_result [of g c] by (auto simp: is_head_def ship_at_def split: option.splits)

lemma ship_direction_cases: "ship_direction g c \<in> {(DOWN, RIGHT), (RIGHT, DOWN)}"
  by (simp add: ship_direction_def)

lemma ship_at_iff:
  assumes "is_head g c"
  shows "ship_at g c = Some n \<longleftrightarrow> 0 < n \<and>
    ship_cells (c, fst (ship_direction g c), n) \<subseteq> occupied g \<and>
    isolated (occupied g) (ship_cells (c, fst (ship_direction g c), n))"
proof -
  let ?d = "fst (ship_direction g c)" and ?e = "snd (ship_direction g c)"
  have c: "HasShip g c"
    using assms by (simp add: is_head_def)
  have "ship_at g c = Some n \<longleftrightarrow> clear_ship g c ?d ?e n"
    using CheckShip_ship_at [OF assms] CheckShip_iff_clear [OF c, of ?d ?e n] by auto
  moreover have "\<not> clear_ship g c ?d ?e 0"
    using c by (simp add: clear_ship_def)
  ultimately show ?thesis
    using clear_ship_isolated [of n ?d ?e g c] ship_direction_cases [of g c] by (cases "n = 0") auto
qed

lemma FindShips_loop_step:
  assumes "i < 64"
  shows "FindShips_loop g (int i # is) m =
    (let c = Coord_of_index (int i) in
     if is_head g c then
       (case ship_at g c of None \<Rightarrow> Some None | Some n \<Rightarrow> FindShips_loop g is (count_ship n m))
     else FindShips_loop g is m)"
proof -
  have "Grid_Get g (Coord_of_index (int i)) = Some (HasShip g (Coord_of_index (int i)))"
    using assms by (simp add: Get_index HasShip_index)
  then show ?thesis
    using CheckShip_ship_at [of g "Coord_of_index (int i)"]
    by (auto simp: is_head_def Let_def split: prod.splits)
qed

lemma FindShips_loop_eq:
  assumes "\<And>i. i \<in> set js \<Longrightarrow> i < 64"
    and "hs = filter (is_head g) (map (\<lambda>i. Coord_of_index (int i)) js)"
  shows "FindShips_loop g (map int js) m =
    Some (if \<exists>c\<in>set hs. ship_at g c = None then None
          else Some (fold count_ship (map (\<lambda>c. the (ship_at g c)) hs) m))"
  using assms
proof (induction js arbitrary: m hs)
  case Nil
  then show ?case by simp
next
  case (Cons i js)
  let ?hs = "filter (is_head g) (map (\<lambda>i. Coord_of_index (int i)) js)"
  have IH: "FindShips_loop g (map int js) m =
    Some (if \<exists>c\<in>set ?hs. ship_at g c = None then None
          else Some (fold count_ship (map (\<lambda>c. the (ship_at g c)) ?hs) m))" for m
    using Cons.IH Cons.prems(1) by simp
  have i: "i < 64"
    using Cons.prems(1) by simp
  show ?case
  proof (cases "is_head g (Coord_of_index (int i))")
    case False
    with IH Cons.prems(2) i show ?thesis
      by (simp add: FindShips_loop_step [OF i] Let_def del: FindShips_loop.simps)
  next
    case True
    then have "hs = Coord_of_index (int i) # ?hs"
      using Cons.prems(2) by simp
    with IH True show ?thesis
      by (cases "ship_at g (Coord_of_index (int i))")
        (simp_all add: FindShips_loop_step [OF i] Let_def del: FindShips_loop.simps)
  qed
qed

lemma upto_CELLS: "[0..CELLS - 1] = map int [0..<64]"
  by (rule nth_equalityI) (simp_all add: CELLS_def SIDE_def nth_upto del: upt_rec_numeral upt_Suc)

lemma FindShips_heads:
  "FindShips_loop g [0..CELLS - 1] [] =
    Some (if \<exists>c\<in>set (head_list g). ship_at g c = None then None
          else Some (fold count_ship (map (\<lambda>c. the (ship_at g c)) (head_list g)) []))"
  unfolding upto_CELLS by (rule FindShips_loop_eq) (simp_all add: head_list_def del: upt_rec_numeral upt_Suc)

lemma set_head_list: "set (head_list g) = {c. is_head g c}"
proof -
  have "c \<in> (\<lambda>i. Coord_of_index (int i)) ` {0..<64}" if "is_head g c" for c
    using that HasShip_on_board [of g c] by (auto simp: is_head_def elim!: on_board_index)
  then show ?thesis
    by (auto simp: head_list_def simp del: upt_rec_numeral upt_Suc)
qed

lemma Coord_of_index_inj: "inj_on (\<lambda>i. Coord_of_index (int i)) {0..<64}"
proof (rule inj_onI)
  fix i j :: nat
  assume ij: "i \<in> {0..<64}" "j \<in> {0..<64}" "Coord_of_index (int i) = Coord_of_index (int j)"
  then have "Coord_GetIndex (Coord_of_index (int i)) = Coord_GetIndex (Coord_of_index (int j))"
    by simp
  then show "i = j"
    using ij(1,2) by (simp add: GetIndex_of_index)
qed

lemma distinct_head_list: "distinct (head_list g)"
  using Coord_of_index_inj
  by (simp add: head_list_def distinct_map distinct_filter del: upt_rec_numeral upt_Suc)

subsection \<open>The counts\<close>

lemma map_of_count_ship:
  "map_of (count_ship k m) = (map_of m)(k \<mapsto> (case map_of m k of None \<Rightarrow> 1 | Some n \<Rightarrow> Suc n))"
  by (induction k m rule: count_ship.induct) (auto simp: fun_eq_iff)

lemma keys_count_ship:
  "map fst (count_ship k m) = (if k \<in> fst ` set m then map fst m else map fst m @ [k])"
  by (induction k m rule: count_ship.induct) auto

lemma map_of_counts:
  "map_of (fold count_ship ks m) k =
    (if count_list ks k = 0 then map_of m k
     else Some (count_list ks k + (case map_of m k of None \<Rightarrow> 0 | Some n \<Rightarrow> n)))"
  by (induction ks arbitrary: m) (auto simp: map_of_count_ship split: option.splits)

lemma keys_counts:
  assumes "distinct (map fst m)"
  shows "distinct (map fst (fold count_ship ks m)) \<and>
    fst ` set (fold count_ship ks m) = fst ` set m \<union> set ks"
  using assms
proof (induction ks arbitrary: m)
  case (Cons k ks)
  have "distinct (map fst (count_ship k m))"
    using Cons.prems keys_count_ship [of k m] by simp
  moreover have "fst ` set (count_ship k m) = insert k (fst ` set m)"
    using arg_cong [OF keys_count_ship [of k m], of set] by (auto split: if_splits simp del: set_map simp flip: set_map)
  ultimately show ?case
    using Cons.IH [of "count_ship k m"] by auto
qed simp

lemma length_counts: "length (fold count_ship ks []) = card (set ks)"
proof -
  have "distinct (map fst (fold count_ship ks []))" "fst ` set (fold count_ship ks []) = set ks"
    using keys_counts [of "[]" ks] by simp_all
  then show ?thesis
    by (metis distinct_card length_map set_map)
qed

lemma set_three_iff: "{a, b, c} \<subseteq> set ks \<Longrightarrow> distinct [a, b, c] \<Longrightarrow> set ks = {a, b, c} \<longleftrightarrow> card (set ks) = 3"
  using card_subset_eq [of "set ks" "{a, b, c}"] by auto

lemma Verify_counts:
  assumes "ks = map (\<lambda>c. the (ship_at g c)) (head_list g)"
  shows "VerifyPositionOfShips g = Some
     ((\<forall>c. is_head g c \<longrightarrow> ship_at g c \<noteq> None) \<and>
      (count_list ks 2 = 4 \<and> count_list ks 3 = 2 \<and> count_list ks 4 = 1) \<and> set ks = {2, 3, 4})"
    (is "_ = Some (_ \<and> ?N \<and> _)")
proof -
  have set3: "set ks = {2, 3, 4} \<longleftrightarrow> card (set ks) = 3"
    if "count_list ks 2 = 4" "count_list ks 3 = 2" "count_list ks 4 = 1"
  proof (rule set_three_iff)
    show "{2, 3, 4} \<subseteq> set ks"
      using that count_notin [of 2 ks] count_notin [of 3 ks] count_notin [of 4 ks] by fastforce
  qed simp
  have "VerifyPositionOfShips g = Some
     ((\<forall>c. is_head g c \<longrightarrow> ship_at g c \<noteq> None) \<and>
      ?N \<and> card (set ks) = 3)"
    unfolding VerifyPositionOfShips_def FindShips_heads assms [symmetric]
    by (simp add: set_head_list AVAILABLE_SHIPS_def map_of_counts length_counts)
      (auto simp: numeral_3_eq_3)
  moreover have "?N \<and> card (set ks) = 3 \<longleftrightarrow> ?N \<and> set ks = {2, 3, 4}"
    using set3 by blast
  ultimately show ?thesis
    by (simp only: conj_assoc)
qed

subsection \<open>The ships of a board\<close>

text \<open>The fleet that the search finds.\<close>

definition fleet_of :: "grid \<Rightarrow> ship set" where
  "fleet_of g = {(c, fst (ship_direction g c), n) |c n. is_head g c \<and> ship_at g c = Some n}"

lemma isolated_connected:
  assumes "ship_cells (c, d, n) \<subseteq> S" "isolated S A" "x \<in> A" "x \<in> ship_cells (c, d, n)"
  shows "ship_cells (c, d, n) \<subseteq> A"
proof -
  obtain j where j: "j < n" "x = along c d (int j)"
    using assms(4) by (auto simp: ship_cells_def)
  have step: "along c d k \<in> A" if "along c d i \<in> A" "\<bar>i - k\<bar> = 1" "0 \<le> k" "k < int n" for i k
  proof -
    have "touching (along c d i) (along c d k)"
      using that(2) by (cases d) (auto simp: touching_def)
    moreover have "along c d k \<in> S"
      using assms(1) that(3,4) by (auto simp: mem_ship_cells subset_iff)
    ultimately show ?thesis
      using assms(2) that(1) by (auto simp: isolated_def)
  qed
  have up: "along c d (int (j + i)) \<in> A" if "j + i < n" for i
    using that
  proof (induction i)
    case (Suc i)
    then show ?case
      using step [of "int (j + i)" "int (j + Suc i)"] by simp
  qed (use assms(3) j in simp)
  have down: "along c d (int (j - i)) \<in> A" if "i \<le> j" for i
    using that
  proof (induction i)
    case (Suc i)
    then show ?case
      using step [of "int (j - i)" "int (j - Suc i)"] j(1) by simp
  qed (use assms(3) j in simp)
  have "along c d (int k) \<in> A" if "k < n" for k
    using up [of "k - j"] down [of "j - k"] that by (cases "j \<le> k") auto
  then show ?thesis
    by (auto simp: ship_cells_def)
qed

lemma head_of_ship:
  assumes "d \<in> {RIGHT, DOWN}" "ship_cells (c, d, n) \<subseteq> occupied g"
    and "x \<in> ship_cells (c, d, n)" "is_head g x"
  shows "x = c"
proof (rule ccontr)
  assume "x \<noteq> c"
  from assms(3) obtain j where j: "j < n" "x = along c d (int j)"
    by (auto simp: ship_cells_def)
  with \<open>x \<noteq> c\<close> have "0 < j"
    by (cases j) auto
  with j have "along c d (int j - 1) \<in> ship_cells (c, d, n)"
    by (auto simp: mem_ship_cells intro!: exI [of _ "int j - 1"])
  then have "HasShip g (along c d (int j - 1))"
    using assms(2) by (auto simp: occupied_def)
  with assms(1,4) j(2) show False
    by (auto simp: is_head_def add_diff_eq)
qed

lemma fleet_of_ship:
  assumes "(c, d, n) \<in> fleet_of g"
  shows "is_head g c" "d = fst (ship_direction g c)" "ship_at g c = Some n" "0 < n"
    "ship_cells (c, d, n) \<subseteq> occupied g" "isolated (occupied g) (ship_cells (c, d, n))" "d \<in> {RIGHT, DOWN}"
  using assms ship_direction_cases [of g c] by (auto simp: fleet_of_def ship_at_iff)

lemma fleet_of_finite: "finite (fleet_of g)"
proof -
  have "fleet_of g \<subseteq> (\<lambda>c. (c, fst (ship_direction g c), the (ship_at g c))) ` set (head_list g)"
    by (auto simp: fleet_of_def set_head_list)
  then show ?thesis
    by (rule finite_subset) simp
qed

lemma fleet_of_disjoint:
  assumes "s \<in> fleet_of g" "t \<in> fleet_of g" "ship_cells s \<inter> ship_cells t \<noteq> {}"
  shows "s = t"
proof -
  obtain c d n c' d' n' where st: "s = (c, d, n)" "t = (c', d', n')"
    by (metis prod_cases3)
  note s = fleet_of_ship [OF assms(1) [unfolded st]] and t = fleet_of_ship [OF assms(2) [unfolded st]]
  obtain x where "x \<in> ship_cells (c, d, n)" "x \<in> ship_cells (c', d', n')"
    using assms(3) st by auto
  then have "ship_cells (c', d', n') \<subseteq> ship_cells (c, d, n)"
    using isolated_connected [OF t(5) s(6)] by blast
  then have "c' = c"
    using head_of_ship [OF s(7,5)] t(1) ship_cells_head [OF t(4)] by blast
  then show ?thesis
    using s t st by simp
qed

lemma fleet_of_covers:
  assumes "\<And>c. is_head g c \<Longrightarrow> ship_at g c \<noteq> None"
  shows "occupied g = (\<Union>s\<in>fleet_of g. ship_cells s)"
proof (intro equalityI subsetI)
  fix x assume "x \<in> occupied g"
  then show "x \<in> (\<Union>s\<in>fleet_of g. ship_cells s)"
  proof (induction "nat (row x + column x)" arbitrary: x rule: less_induct)
    case less
    show ?case
    proof (cases "is_head g x")
      case True
      then obtain n where "ship_at g x = Some n"
        using assms [OF True] by auto
      then have s: "(x, fst (ship_direction g x), n) \<in> fleet_of g"
        using True by (auto simp: fleet_of_def)
      show ?thesis
        by (rule UN_I [OF s]) (rule ship_cells_head [OF fleet_of_ship(4) [OF s]])
    next
      case False
      then have "along x UP 1 \<in> occupied g \<or> along x LEFT 1 \<in> occupied g"
        using less.prems unfolding is_head_def occupied_def Coord_plus_along by blast
      then obtain y where y: "y \<in> occupied g" "y = along x UP 1 \<or> y = along x LEFT 1"
        by blast
      have "0 \<le> row y" "0 \<le> column y"
        using y(1) HasShip_on_board [of g y] by (simp_all add: occupied_def IsOnBoard_iff)
      then have xy: "touching y x" "nat (row y + column y) < nat (row x + column x)"
        using y(2) by (auto simp: touching_def)
      obtain c d n where s: "(c, d, n) \<in> fleet_of g" "y \<in> ship_cells (c, d, n)"
        using less.hyps [OF xy(2) y(1)] by auto
      then have "x \<in> ship_cells (c, d, n)"
        using fleet_of_ship(6) [OF s(1)] xy(1) less.prems unfolding isolated_def by blast
      then show ?thesis
        using s(1) by blast
    qed
  qed
next
  fix x assume "x \<in> (\<Union>s\<in>fleet_of g. ship_cells s)"
  then obtain c d n where "(c, d, n) \<in> fleet_of g" "x \<in> ship_cells (c, d, n)"
    by auto
  then show "x \<in> occupied g"
    using fleet_of_ship(5) by blast
qed

lemma legal_fleet_ship:
  assumes "legal_fleet (occupied g) F" "(c, d, n) \<in> F"
  shows "is_head g c" "d = fst (ship_direction g c)" "ship_at g c = Some n"
proof -
  have d: "d \<in> {RIGHT, DOWN}" and n: "2 \<le> n"
    and iso: "isolated (occupied g) (ship_cells (c, d, n))" and sub: "ship_cells (c, d, n) \<subseteq> occupied g"
    using assms by (auto simp: legal_fleet_def)
  have c: "c \<in> ship_cells (c, d, n)"
    using n by (intro ship_cells_head) simp
  have free: "\<not> HasShip g x" if "touching c x" "x \<notin> ship_cells (c, d, n)" for x
    using iso that c by (auto simp: isolated_def occupied_def)
  have "\<not> HasShip g (along c UP 1)" "\<not> HasShip g (along c LEFT 1)"
    by (rule free; use d in \<open>auto simp: touching_def mem_ship_RIGHT mem_ship_DOWN\<close>)+
  then show head: "is_head g c"
    using c sub by (auto simp: is_head_def occupied_def Coord_plus_along)
  show dir: "d = fst (ship_direction g c)"
  proof (cases "d = DOWN")
    case True
    then have "along c DOWN 1 \<in> ship_cells (c, d, n)"
      using n by (simp add: mem_ship_DOWN)
    then show ?thesis
      using True sub by (auto simp: ship_direction_def occupied_def Coord_plus_along)
  next
    case False
    then have "\<not> HasShip g (along c DOWN 1)"
      by (intro free) (use d in \<open>auto simp: touching_def mem_ship_RIGHT\<close>)
    then show ?thesis
      using False d by (auto simp: ship_direction_def Coord_plus_along)
  qed
  show "ship_at g c = Some n"
    using head sub iso n unfolding dir by (simp add: ship_at_iff)
qed

lemma legal_fleet_unique:
  assumes "legal_fleet (occupied g) F"
  shows "F = fleet_of g" and "is_head g c \<Longrightarrow> ship_at g c \<noteq> None"
proof -
  have heads: "\<exists>d n. (c, d, n) \<in> F" if c: "is_head g c" for c
  proof -
    have "c \<in> (\<Union>s\<in>F. ship_cells s)"
      using assms c by (auto simp: legal_fleet_def is_head_def occupied_def)
    then obtain c0 d n where s: "(c0, d, n) \<in> F" "c \<in> ship_cells (c0, d, n)"
      by auto
    moreover have "d \<in> {RIGHT, DOWN}" "ship_cells (c0, d, n) \<subseteq> occupied g"
      using assms s(1) by (auto simp: legal_fleet_def)
    ultimately show ?thesis
      using head_of_ship c by blast
  qed
  show "F = fleet_of g"
  proof (intro equalityI subsetI)
    fix s assume "s \<in> F"
    then show "s \<in> fleet_of g"
      using legal_fleet_ship [OF assms] by (cases s) (auto simp: fleet_of_def)
  next
    fix s assume "s \<in> fleet_of g"
    then obtain c d n where s: "s = (c, d, n)" "is_head g c" "d = fst (ship_direction g c)" "ship_at g c = Some n"
      by (auto simp: fleet_of_def)
    then obtain d' n' where "(c, d', n') \<in> F"
      using heads by blast
    then show "s \<in> F"
      using legal_fleet_ship [OF assms] s by fastforce
  qed
  show "ship_at g c \<noteq> None" if "is_head g c"
    using heads [OF that] legal_fleet_ship [OF assms] by force
qed

lemma ships_of_size_fleet:
  "card (ships_of_size (fleet_of g) k) = card {c. is_head g c \<and> ship_at g c = Some k}"
proof -
  have "ships_of_size (fleet_of g) k
    = (\<lambda>c. (c, fst (ship_direction g c), k)) ` {c. is_head g c \<and> ship_at g c = Some k}"
    by (auto simp: ships_of_size_def fleet_of_def)
  then show ?thesis
    by (simp add: card_image inj_on_def)
qed

lemma count_heads:
  assumes "\<And>c. is_head g c \<Longrightarrow> ship_at g c \<noteq> None"
  shows "count_list (map (\<lambda>c. the (ship_at g c)) (head_list g)) k = card (ships_of_size (fleet_of g) k)"
proof -
  have "count_list (map (\<lambda>c. the (ship_at g c)) (head_list g)) k
    = length (filter (\<lambda>c. k = the (ship_at g c)) (head_list g))"
    by (induction "head_list g" arbitrary: g; simp add: count_list_eq_length_filter filter_map comp_def)
  also have "\<dots> = card (set (filter (\<lambda>c. k = the (ship_at g c)) (head_list g)))"
    by (rule distinct_card [symmetric]) (simp add: distinct_head_list)
  also have "set (filter (\<lambda>c. k = the (ship_at g c)) (head_list g)) = {c. is_head g c \<and> ship_at g c = Some k}"
    using assms by (auto simp: set_head_list)
  finally show ?thesis
    by (simp add: ships_of_size_fleet)
qed

lemma Verify_iff_fleet_of: "VerifyPositionOfShips g = Some (legal_fleet (occupied g) (fleet_of g))"
proof -
  let ?ks = "map (\<lambda>c. the (ship_at g c)) (head_list g)"
  have "(\<forall>c. is_head g c \<longrightarrow> ship_at g c \<noteq> None) \<and>
      (count_list ?ks 2 = 4 \<and> count_list ?ks 3 = 2 \<and> count_list ?ks 4 = 1) \<and> set ?ks = {2, 3, 4}
    \<longleftrightarrow> legal_fleet (occupied g) (fleet_of g)" (is "?all \<and> ?counts \<and> ?sizes \<longleftrightarrow> ?legal")
  proof (intro iffI)
    assume A: "?all \<and> ?counts \<and> ?sizes"
    then have all: "\<And>c. is_head g c \<Longrightarrow> ship_at g c \<noteq> None"
      by blast
    have "n \<in> {2, 3, 4}" if "(c, d, n) \<in> fleet_of g" for c d n
      using A fleet_of_ship(1,3) [OF that] by (force simp: set_head_list)
    then have "\<forall>s\<in>fleet_of g. fst (snd s) \<in> {RIGHT, DOWN} \<and> snd (snd s) \<in> {2, 3, 4} \<and>
        isolated (occupied g) (ship_cells s)"
      using fleet_of_ship(6,7) [of _ _ _ g] by (metis prod.collapse)
    moreover have "\<forall>s\<in>fleet_of g. \<forall>t\<in>fleet_of g. s \<noteq> t \<longrightarrow> ship_cells s \<inter> ship_cells t = {}"
      using fleet_of_disjoint [of _ g] by blast
    ultimately show ?legal
      using A fleet_of_covers [OF all] fleet_of_finite [of g]
      unfolding legal_fleet_def by (simp add: count_heads [OF all])
  next
    assume L: ?legal
    note all = legal_fleet_unique(2) [OF L]
    have "n \<in> {2, 3, 4}" if "is_head g c" "ship_at g c = Some n" for c n
      using L that by (auto simp: legal_fleet_def fleet_of_def)
    then have "the (ship_at g c) \<in> {2, 3, 4}" if "is_head g c" for c
      using all [OF that] that by fastforce
    then have "set ?ks \<subseteq> {2, 3, 4}"
      by (auto simp: set_head_list)
    moreover have counts: ?counts
      using L by (simp add: count_heads [OF all] legal_fleet_def)
    moreover from counts have "{2, 3, 4} \<subseteq> set ?ks"
      using count_notin [of 2 ?ks] count_notin [of 3 ?ks] count_notin [of 4 ?ks] by fastforce
    ultimately show "?all \<and> ?counts \<and> ?sizes"
      using all by blast
  qed
  then show ?thesis
    using Verify_counts [OF refl, of g] by simp
qed

lemma legal_fleet_card:
  assumes "legal_fleet S F"
  shows "card S = 18"
proof -
  have fin: "finite F" and S: "S = (\<Union>s\<in>F. ship_cells s)"
    using assms by (auto simp: legal_fleet_def)
  have sizes: "F = ships_of_size F 2 \<union> ships_of_size F 3 \<union> ships_of_size F 4"
    using assms by (auto simp: legal_fleet_def ships_of_size_def)
  have "card S = (\<Sum>s\<in>F. card (ship_cells s))"
    unfolding S using assms fin by (intro card_UN_disjoint) (auto simp: legal_fleet_def)
  also have "\<dots> = (\<Sum>s\<in>F. snd (snd s))"
    by (rule sum.cong) (auto simp: card_ship_cells)
  also have "\<dots> = (\<Sum>s\<in>ships_of_size F 2. snd (snd s)) + (\<Sum>s\<in>ships_of_size F 3. snd (snd s))
      + (\<Sum>s\<in>ships_of_size F 4. snd (snd s))"
    using fin by (subst sizes, subst sum.union_disjoint; (subst sum.union_disjoint)?)
      (auto simp: ships_of_size_def)
  also have "\<dots> = 2 * 4 + 3 * 2 + 4 * 1"
  proof -
    have "(\<Sum>s\<in>ships_of_size F k. snd (snd s)) = k * card (ships_of_size F k)" for k
      by (simp add: ships_of_size_def)
    then show ?thesis
      using assms by (simp add: legal_fleet_def)
  qed
  finally show ?thesis
    by simp
qed

lemma occupied_cells: "card (occupied g) = card (cells g)"
proof -
  have "occupied g = (\<lambda>i. Coord_of_index (int i)) ` cells g"
  proof (intro equalityI subsetI)
    fix c assume c: "c \<in> occupied g"
    then obtain i where "i < 64" "c = Coord_of_index (int i)"
      using HasShip_on_board [of g c] by (auto simp: occupied_def elim: on_board_index)
    with c show "c \<in> (\<lambda>i. Coord_of_index (int i)) ` cells g"
      by (simp add: occupied_def HasShip_index)
  qed (auto simp: occupied_def HasShip_index cells_bound)
  moreover have "inj_on (\<lambda>i. Coord_of_index (int i)) (cells g)"
    by (rule inj_on_subset [OF Coord_of_index_inj]) (auto dest: cells_bound)
  ultimately show ?thesis
    by (simp add: card_image)
qed

lemma TotalShipCells_value: "Grid_TotalShipCells = 18"
  by (simp add: Grid_TotalShipCells_def AVAILABLE_SHIPS_def)

lemma Verify_card:
  assumes "VerifyPositionOfShips g = Some True"
  shows "Grid_CountOnes g = Grid_TotalShipCells"
  using assms legal_fleet_card occupied_cells [of g]
  by (auto simp: Verify_iff_fleet_of CountOnes_card TotalShipCells_value)

lemma VerifyPositionOfShips_total: "VerifyPositionOfShips g \<noteq> None"
  by (simp add: Verify_iff_fleet_of)

subsection \<open>Properties\<close>

text \<open>C38. \<open>VerifyPositionOfShips\<close> never aborts, and it accepts a board exactly when the occupied
  cells are those of a legal fleet: straight ships that neither overlap nor touch, four of
  size two, two of size three and one of size four.\<close>

theorem VerifyPositionOfShips_legal:
  "VerifyPositionOfShips g = Some (\<exists>F. legal_fleet (occupied g) F)"
  using legal_fleet_unique(1) [of g] Verify_iff_fleet_of [of g] by auto

text \<open>An accepted position has exactly \<open>TotalShipCells\<close> occupied cells, so a player all of whose
  cells were hit has \<open>TotalShipCells\<close> hits, the count that decides the game.\<close>

theorem VerifyPositionOfShips_count:
  "VerifyPositionOfShips g = Some True \<Longrightarrow> Grid_CountOnes g = Grid_TotalShipCells"
  by (rule Verify_card)

theorem VerifyPositionOfShips_count_witness:
  "VerifyPositionOfShips \<lparr>bits = 0x6F007700DB\<rparr> = Some True \<and>
   Grid_CountOnes \<lparr>bits = 0x6F007700DB\<rparr> = Grid_TotalShipCells"
proof
  show "VerifyPositionOfShips \<lparr>bits = 0x6F007700DB\<rparr> = Some True"
    by code_simp
  then show "Grid_CountOnes \<lparr>bits = 0x6F007700DB\<rparr> = Grid_TotalShipCells"
    by (rule VerifyPositionOfShips_count)
qed

end
