(* ===== verification/Xaya_Random.thy ===== *)
theory Xaya_Random
  imports Uint256 "HOL-Library.Multiset"
begin

text \<open>
  The deterministic generator of \<open>src/xayautil/random.cpp\<close>.  Its state is a 256-bit seed and
  the index of the next byte to hand out; when the bytes run out, the seed is replaced by
  its SHA-256 hash.  SHA-256 is OpenSSL's (\<open>src/xayautil/hash.cpp\<close> only feeds it the bytes),
  so the digest function \<open>sha\<close> is a parameter of every definition that hashes.

  \<open>NextInt\<close> draws until a value falls below a multiple of the bound, a loop without a bound
  on its iterations: it is a \<open>partial_function\<close>, \<open>None\<close> being "aborts or never returns".
  The lemmas show its range, exactly when it returns, and what \<open>SelectByWeight\<close> and
  \<open>Shuffle\<close> do with it.
\<close>

record random =
  rnd_seed :: uint256
  nextIndex :: nat

definition wf_random :: "random \<Rightarrow> bool" where
  "wf_random r \<longleftrightarrow> wf_uint256 (rnd_seed r) \<and> \<not> IsNull (rnd_seed r) \<and> nextIndex r < NUM_BYTES"

definition Random_Seed :: "uint256 \<Rightarrow> random" where
  "Random_Seed s = \<lparr>rnd_seed = s, nextIndex = 0\<rparr>"

text \<open>Moving an instance: the target gets the state, the source is left unseeded.\<close>

definition Random_move :: "random \<Rightarrow> random \<times> random" where
  "Random_move other = (\<lparr>rnd_seed = rnd_seed other, nextIndex = nextIndex other\<rparr>,
     other\<lparr>rnd_seed := SetNull\<rparr>)"

definition Random_BranchOff :: "(string \<Rightarrow> uint256) \<Rightarrow> random \<Rightarrow> string \<Rightarrow> random run" where
  "Random_BranchOff sha r key =
     do {
       CHECK (\<not> IsNull (rnd_seed r));
       CHECK (nextIndex r < NUM_BYTES);
       Some (Random_Seed (sha (GetBinaryString (rnd_seed r) @ [char_of (nextIndex r)] @ key)))
     }"

definition Next_uchar :: "(string \<Rightarrow> uint256) \<Rightarrow> random \<Rightarrow> (byte \<times> random) run" where
  "Next_uchar sha r =
     do {
       CHECK (\<not> IsNull (rnd_seed r));
       CHECK (nextIndex r < NUM_BYTES);
       res \<leftarrow> at_index (rnd_seed r) (nextIndex r);
       Some (res,
         if Suc (nextIndex r) = NUM_BYTES
         then \<lparr>rnd_seed = sha (GetBinaryString (rnd_seed r)), nextIndex = 0\<rparr>
         else r\<lparr>nextIndex := Suc (nextIndex r)\<rparr>)
     }"

definition Next_bool :: "(string \<Rightarrow> uint256) \<Rightarrow> random \<Rightarrow> (bool \<times> random) run" where
  "Next_bool sha r = do { (b, r') \<leftarrow> Next_uchar sha r; Some (b AND 1 \<noteq> 0, r') }"

definition CombineHalfInts ::
    "(random \<Rightarrow> ('h :: len word \<times> random) run) \<Rightarrow> nat \<Rightarrow> random \<Rightarrow> ('t :: len word \<times> random) run" where
  "CombineHalfInts next halfBits r =
     do {
       (hi, r1) \<leftarrow> next r;
       (lo, r2) \<leftarrow> next r1;
       Some (push_bit halfBits (ucast hi) OR ucast lo, r2)
     }"

definition Next_uint16 :: "(string \<Rightarrow> uint256) \<Rightarrow> random \<Rightarrow> (16 word \<times> random) run" where
  "Next_uint16 sha = CombineHalfInts (Next_uchar sha) 8"

definition Next_uint32 :: "(string \<Rightarrow> uint256) \<Rightarrow> random \<Rightarrow> (uint32 \<times> random) run" where
  "Next_uint32 sha = CombineHalfInts (Next_uint16 sha) 16"

definition Next_uint64 :: "(string \<Rightarrow> uint256) \<Rightarrow> random \<Rightarrow> (uint64 \<times> random) run" where
  "Next_uint64 sha = CombineHalfInts (Next_uint32 sha) 32"

text \<open>The bound \<open>m\<close> of \<open>NextInt\<close>: the largest multiple of \<open>n\<close> that is representable.\<close>

definition NextInt_limit :: "uint32 \<Rightarrow> uint64" where
  "NextInt_limit n = ((- 1) div ucast n) * ucast n"

partial_function (option) NextInt_loop ::
    "(string \<Rightarrow> uint256) \<Rightarrow> uint32 \<Rightarrow> random \<Rightarrow> (uint32 \<times> random) option" where
  "NextInt_loop sha n r =
     do {
       p \<leftarrow> Next_uint64 sha r;
       (if fst p < NextInt_limit n then Some (ucast (fst p mod ucast n), snd p)
        else NextInt_loop sha n (snd p))
     }"

declare NextInt_loop.simps [code]

definition NextInt :: "(string \<Rightarrow> uint256) \<Rightarrow> uint32 \<Rightarrow> random \<Rightarrow> (uint32 \<times> random) run" where
  "NextInt sha n r = do { CHECK (0 < n); NextInt_loop sha n r }"

definition ProbabilityRoll ::
    "(string \<Rightarrow> uint256) \<Rightarrow> uint32 \<Rightarrow> uint32 \<Rightarrow> random \<Rightarrow> (bool \<times> random) run" where
  "ProbabilityRoll sha numer denom r =
     do { (val, r') \<leftarrow> NextInt sha denom r; Some (val < numer, r') }"

fun SelectByWeight_loop :: "uint32 list \<Rightarrow> uint32 \<Rightarrow> nat \<Rightarrow> nat run" where
  "SelectByWeight_loop [] roll i = LOG_FATAL"
| "SelectByWeight_loop (w # ws) roll i =
     (if roll < w then Some i else SelectByWeight_loop ws (roll - w) (Suc i))"

definition SelectByWeight ::
    "(string \<Rightarrow> uint256) \<Rightarrow> uint32 list \<Rightarrow> random \<Rightarrow> (nat \<times> random) run" where
  "SelectByWeight sha weights r =
     (let totalWeights = sum_list (map ucast weights) :: uint64 in
      do {
        CHECK (totalWeights \<le> 2 ^ 32 - 1);
        (roll, r') \<leftarrow> NextInt sha (ucast totalWeights) r;
        i \<leftarrow> SelectByWeight_loop weights roll 0;
        Some (i, r')
      })"

text \<open>\<open>Shuffle\<close>: the element at \<open>i\<close> is swapped with a random one at or after \<open>i\<close>.\<close>

definition swap_at :: "nat \<Rightarrow> nat \<Rightarrow> 'a list \<Rightarrow> 'a list" where
  "swap_at i j xs = xs[i := xs ! j, j := xs ! i]"

function Shuffle_loop ::
    "(string \<Rightarrow> uint256) \<Rightarrow> nat \<Rightarrow> 'a list \<Rightarrow> random \<Rightarrow> ('a list \<times> random) run" where
  "Shuffle_loop sha i xs r =
     (if Suc i < length xs then
        do {
          (k, r') \<leftarrow> NextInt sha (of_nat (length xs - i)) r;
          (let j = i + unat k; ys = (if i \<noteq> j then swap_at i j xs else xs)
           in Shuffle_loop sha (Suc i) ys r')
        }
      else Some (xs, r))"
  by pat_completeness auto
termination
  by (relation "measure (\<lambda>(sha, i, xs, r). length xs - i)") (auto simp: swap_at_def)

declare Shuffle_loop.simps [simp del]

definition Shuffle :: "(string \<Rightarrow> uint256) \<Rightarrow> 'a list \<Rightarrow> random \<Rightarrow> ('a list \<times> random) run" where
  "Shuffle sha xs r = Shuffle_loop sha 0 xs r"

text \<open>When the drawing loop of \<open>NextInt\<close> stops: some draw is below the limit, and no earlier
  one aborts.\<close>

inductive NextInt_stops :: "(string \<Rightarrow> uint256) \<Rightarrow> uint32 \<Rightarrow> random \<Rightarrow> bool" for sha n where
  accept: "Next_uint64 sha r = Some (x, r') \<Longrightarrow> x < NextInt_limit n \<Longrightarrow> NextInt_stops sha n r"
| reject: "Next_uint64 sha r = Some (x, r') \<Longrightarrow> \<not> x < NextInt_limit n \<Longrightarrow>
     NextInt_stops sha n r' \<Longrightarrow> NextInt_stops sha n r"

subsection \<open>Byte stream\<close>

lemma Random_move_stream:
  "Next_uchar sha (fst (Random_move r)) = Next_uchar sha r \<and> Next_uchar sha (snd (Random_move r)) = None"
  by (cases r) (simp add: Random_move_def Next_uchar_def bind_CHECK)

lemma Next_uchar_total:
  "wf_random r \<Longrightarrow> \<exists>b r'. Next_uchar sha r = Some (b, r') \<and> b = rnd_seed r ! nextIndex r"
  by (simp add: Next_uchar_def wf_random_def wf_uint256_def at_index_in)

lemma Next_uchar_wf:
  assumes "wf_random r" and "Next_uchar sha r = Some (b, r')"
    and "\<And>s. wf_uint256 (sha s) \<and> \<not> IsNull (sha s)"
  shows "wf_random r'"
  using assms
  by (auto simp: Next_uchar_def wf_random_def bind_Some_iff NUM_BYTES_def split: if_splits)

lemma CombineHalfInts_total:
  assumes "\<And>r. wf_random r \<Longrightarrow> \<exists>h r'. next r = Some (h, r') \<and> wf_random r'" and "wf_random r"
  shows "\<exists>h r'. CombineHalfInts next k r = Some (h, r') \<and> wf_random r'"
proof -
  obtain hi r1 where "next r = Some (hi, r1)" "wf_random r1"
    using assms by blast
  moreover obtain lo r2 where "next r1 = Some (lo, r2)" "wf_random r2"
    using assms(1) \<open>wf_random r1\<close> by blast
  ultimately show ?thesis
    by (simp add: CombineHalfInts_def)
qed

lemma Next_uint64_total:
  assumes "wf_random r" and sha: "\<And>s. wf_uint256 (sha s) \<and> \<not> IsNull (sha s)"
  shows "\<exists>x r'. Next_uint64 sha r = Some (x, r') \<and> wf_random r'"
proof -
  have "\<exists>h r'. Next_uchar sha r = Some (h, r') \<and> wf_random r'" if "wf_random r" for r
    using Next_uchar_total [OF that, of sha] Next_uchar_wf [OF that, of sha] sha by blast
  then show ?thesis
    unfolding Next_uint64_def Next_uint32_def Next_uint16_def
    by (intro CombineHalfInts_total assms(1))
qed

subsection \<open>NextInt\<close>

lemma mod_ucast_less:
  assumes "0 < (n :: uint32)"
  shows "(ucast (x mod ucast n :: uint64) :: uint32) < n"
proof -
  have "unat (x mod ucast n) < unat n"
    using assms by (simp add: unat_mod word_less_nat_alt)
  moreover have "unat n < 2 ^ 32"
    using unsigned_less [of n, where ?'a = nat] by simp
  ultimately have "unat (ucast (x mod ucast n) :: uint32) = unat (x mod ucast n)"
    by (simp add: unsigned_ucast_eq take_bit_nat_eq_self)
  with \<open>unat (x mod ucast n) < unat n\<close> show ?thesis
    by (simp add: word_less_nat_alt)
qed

lemma NextInt_loop_less:
  assumes "NextInt_loop sha n r = Some (v, r')" and "0 < n"
  shows "v < n"
proof (rule NextInt_loop.raw_induct [where P = "\<lambda>sha n r p. 0 < n \<longrightarrow> fst p < n", OF _ assms(1),
    simplified, rule_format, OF _ assms(2)])
qed (auto simp: bind_Some_iff mod_ucast_less split: if_splits)

lemma NextInt_range: "NextInt sha n r = Some (v, r') \<Longrightarrow> v < n"
  by (auto simp: NextInt_def bind_CHECK intro: NextInt_loop_less split: if_splits)

lemma NextInt_loop_stops:
  assumes "NextInt_loop sha n r = Some p"
  shows "NextInt_stops sha n r"
proof (rule NextInt_loop.raw_induct [where P = "\<lambda>sha n r p. NextInt_stops sha n r", OF _ assms])
  fix f sha n r and p :: "uint32 \<times> random"
  assume IH: "\<And>sha n r p. f sha n r = Some p \<Longrightarrow> NextInt_stops sha n r"
    and eq: "Option.bind (Next_uint64 sha r) (\<lambda>p. if fst p < NextInt_limit n
      then Some (ucast (fst p mod ucast n), snd p) else f sha n (snd p)) = Some p"
  then obtain x r' where "Next_uint64 sha r = Some (x, r')"
    and "x < NextInt_limit n \<or> \<not> x < NextInt_limit n \<and> f sha n r' = Some p"
    by (auto simp: bind_Some_iff split: if_splits)
  then show "NextInt_stops sha n r"
    by (auto intro: NextInt_stops.intros dest: IH)
qed

lemma NextInt_stops_Some: "NextInt_stops sha n r \<Longrightarrow> \<exists>p. NextInt_loop sha n r = Some p"
  by (induction rule: NextInt_stops.induct) (subst NextInt_loop.simps, simp)+

lemma NextInt_returns_iff:
  "(\<exists>p. NextInt sha n r = Some p) \<longleftrightarrow> 0 < n \<and> NextInt_stops sha n r"
  by (auto simp: NextInt_def bind_CHECK dest: NextInt_loop_stops NextInt_stops_Some
      split: if_splits)

subsection \<open>SelectByWeight\<close>

lemma unat_sum_weights:
  assumes "length ws < 2 ^ 32"
  shows "unat (sum_list (map ucast (ws :: uint32 list)) :: uint64) = sum_list (map unat ws)"
proof -
  have "sum_list (map unat ws) \<le> length ws * (2 ^ 32 - 1)"
  proof (induction ws)
    case (Cons w ws)
    have "unat w \<le> 2 ^ 32 - 1"
      using unsigned_less [of w, where ?'a = nat] by simp
    with Cons show ?case by simp
  qed simp
  also have "\<dots> < 2 ^ 64"
    using assms by simp
  finally have "sum_list (map unat ws) < 2 ^ 64" .
  then show ?thesis
  proof (induction ws)
    case (Cons w ws)
    then have "unat (sum_list (map ucast ws) :: uint64) = sum_list (map unat ws)"
      by simp
    with Cons.prems show ?case
      by (simp add: unat_word_ariths)
  qed simp
qed

lemma SelectByWeight_loop_spec:
  assumes "unat roll < sum_list (map unat ws)"
  shows "\<exists>j < length ws. SelectByWeight_loop ws roll i = Some (i + j) \<and>
    sum_list (map unat (take j ws)) \<le> unat roll \<and>
    unat roll < sum_list (map unat (take (Suc j) ws))"
  using assms
proof (induction ws arbitrary: roll i)
  case (Cons w ws)
  show ?case
  proof (cases "roll < w")
    case True
    then show ?thesis
      by (intro exI [of _ 0]) (simp add: word_less_nat_alt)
  next
    case False
    then have sub: "unat (roll - w) = unat roll - unat w" and le: "unat w \<le> unat roll"
      by (simp_all add: unat_sub word_le_nat_alt not_less)
    with Cons.prems have "unat (roll - w) < sum_list (map unat ws)"
      by simp
    then obtain j where "j < length ws" "SelectByWeight_loop ws (roll - w) (Suc i) = Some (Suc i + j)"
      "sum_list (map unat (take j ws)) \<le> unat (roll - w)"
      "unat (roll - w) < sum_list (map unat (take (Suc j) ws))"
      using Cons.IH by blast
    with False sub le show ?thesis
      by (intro exI [of _ "Suc j"]) auto
  qed
qed simp

subsection \<open>Shuffle\<close>

lemma swap_at_perm: "i < length xs \<Longrightarrow> j < length xs \<Longrightarrow> mset (swap_at i j xs) = mset xs"
  by (simp add: swap_at_def mset_swap)

lemma Shuffle_loop_perm: "Shuffle_loop sha i xs r = Some (ys, r') \<Longrightarrow> mset ys = mset xs"
proof (induction sha i xs r rule: Shuffle_loop.induct)
  case (1 sha i xs r)
  show ?case
  proof (cases "Suc i < length xs")
    case False
    with "1.prems" show ?thesis
      by (simp add: Shuffle_loop.simps [of sha i])
  next
    case True
    then obtain k s where k: "NextInt sha (of_nat (length xs - i)) r = Some (k, s)"
      and rest: "Shuffle_loop sha (Suc i) (if i \<noteq> i + unat k then swap_at i (i + unat k) xs else xs) s
        = Some (ys, r')"
      using "1.prems" by (auto simp: Shuffle_loop.simps [of sha i] bind_Some_iff Let_def)
    have "unat k < unat (of_nat (length xs - i) :: uint32)"
      using NextInt_range [OF k] by (simp add: word_less_nat_alt)
    also have "\<dots> \<le> length xs - i"
      by (simp only: unat_of_nat) simp
    finally have "mset (if i \<noteq> i + unat k then swap_at i (i + unat k) xs else xs) = mset xs"
      using True by (simp add: swap_at_perm)
    with "1.IH" [OF True k refl refl refl rest] show ?thesis
      by simp
  qed
qed

subsection \<open>Properties\<close>

text \<open>\<open>NextInt\<close> yields a number below its bound, and it returns exactly when the bound is
  positive and the stream reaches an accepted draw; its only other outcomes are an abort of the
  byte stream and drawing forever.\<close>

theorem NextInt_correct:
  "(\<exists>v r'. NextInt sha n r = Some (v, r') \<and> v < n) \<longleftrightarrow> 0 < n \<and> NextInt_stops sha n r"
  using NextInt_returns_iff [of sha n r] NextInt_range [of sha n r] by auto

text \<open>\<open>SelectByWeight\<close> never runs past its weights: with a total weight of at most \<open>2^32 - 1\<close>
  and a draw \<open>roll\<close> below the total, it returns the one index whose interval of cumulated
  weights holds the draw.\<close>

theorem SelectByWeight_interval:
  assumes "length ws < 2 ^ 32" "sum_list (map unat ws) \<le> 2 ^ 32 - 1"
    and "NextInt sha (of_nat (sum_list (map unat ws))) r = Some (roll, r')"
  shows "\<exists>j < length ws. SelectByWeight sha ws r = Some (j, r') \<and>
    sum_list (map unat (take j ws)) \<le> unat roll \<and> unat roll < sum_list (map unat (take (Suc j) ws))"
proof -
  let ?t = "sum_list (map ucast ws) :: uint64"
  have t: "unat ?t = sum_list (map unat ws)"
    using assms(1) by (rule unat_sum_weights)
  then have ucast: "ucast ?t = (of_nat (sum_list (map unat ws)) :: uint32)"
    by (simp add: word_unat_eq_iff unsigned_ucast_eq unat_of_nat take_bit_eq_mod)
  have small: "?t \<le> 2 ^ 32 - 1"
    using assms(2) by (simp add: word_le_nat_alt t)
  have "unat roll < unat (of_nat (sum_list (map unat ws)) :: uint32)"
    using NextInt_range [OF assms(3)] by (simp add: word_less_nat_alt)
  also have "\<dots> = sum_list (map unat ws)"
    using assms(2) by (simp add: unat_of_nat)
  finally obtain j where "j < length ws" "SelectByWeight_loop ws roll 0 = Some (0 + j)"
    "sum_list (map unat (take j ws)) \<le> unat roll" "unat roll < sum_list (map unat (take (Suc j) ws))"
    using SelectByWeight_loop_spec by blast
  then show ?thesis
    using small assms(3) by (auto simp: SelectByWeight_def Let_def bind_CHECK ucast)
qed

theorem SelectByWeight_interval_witness:
  "\<exists>j < length [1 :: uint32, 3, 2].
    SelectByWeight (\<lambda>_. replicate 32 1) [1, 3, 2] (Random_Seed (replicate 32 1))
      = Some (j, (Random_Seed (replicate 32 1))\<lparr>nextIndex := 8\<rparr>) \<and>
    sum_list (map unat (take j [1 :: uint32, 3, 2])) \<le> unat (5 :: uint32) \<and>
    unat (5 :: uint32) < sum_list (map unat (take (Suc j) [1 :: uint32, 3, 2]))"
proof (rule SelectByWeight_interval)
  show "NextInt (\<lambda>_. replicate 32 1) (of_nat (sum_list (map unat [1 :: uint32, 3, 2])))
      (Random_Seed (replicate 32 1)) = Some (5, (Random_Seed (replicate 32 1))\<lparr>nextIndex := 8\<rparr>)"
    by code_simp
qed simp_all

text \<open>A shuffle that returns leaves a permutation of the elements.\<close>

theorem Shuffle_permutes:
  "Shuffle sha xs r = Some (ys, r') \<Longrightarrow> mset ys = mset xs"
  unfolding Shuffle_def by (rule Shuffle_loop_perm)


theorem Shuffle_permutes_witness:
  "mset (fst (the (Shuffle (\<lambda>_. replicate 32 1) [1 :: nat, 2, 3] (Random_Seed (replicate 32 1)))))
    = mset [1, 2, 3]"
proof -
  have "Shuffle (\<lambda>_. replicate 32 1) [1 :: nat, 2, 3] (Random_Seed (replicate 32 1))
    = Some ([3, 1, 2], (Random_Seed (replicate 32 1))\<lparr>nextIndex := 16\<rparr>)"
    by code_simp
  then show ?thesis
    using Shuffle_permutes [of "\<lambda>_. replicate 32 1" "[1 :: nat, 2, 3]" "Random_Seed (replicate 32 1)"]
    by simp
qed

end
