(* ===== verification/Board.thy ===== *)
theory Board
  imports Fleet Xaya_Random Board_Rules
begin

text \<open>
  The board rules of Xayaships, \<open>src/ships/board.cpp\<close>: the state of a game as the protocol buffer
  of \<open>src/ships/proto/boardstate.proto\<close>, the phase it is in, its validity, whose turn it is, the
  turn count, and the five moves.  SHA-256 is a parameter (\<open>sha\<close>).

  An in-place move returns the new state, \<open>Some None\<close> where the code returns false, and \<open>None\<close>
  where a \<open>CHECK\<close> fails.  Numbers keep their width: \<open>turn\<close>, \<open>current_shot\<close> and \<open>winner\<close> are
  32-bit words, boards 64-bit words, and the turn count is computed modulo \<open>2^32\<close>.
\<close>

record known_ships =
  ks_unknown :: bool
  ks_guessed :: "uint64 option"
  ks_hits :: "uint64 option"

record board_state =
  bs_unknown :: bool
  bs_turn :: "uint32 option"
  position_hashes :: "string list"
  bs_seed_hash_0 :: "string option"
  bs_seed_1 :: "string option"
  known_ships :: "known_ships list"
  bs_current_shot :: "uint32 option"
  positions :: "uint64 list"
  bs_winner :: "uint32 option"

definition guessed :: "known_ships \<Rightarrow> uint64" where
  "guessed k = (case ks_guessed k of None \<Rightarrow> 0 | Some w \<Rightarrow> w)"

definition hits :: "known_ships \<Rightarrow> uint64" where
  "hits k = (case ks_hits k of None \<Rightarrow> 0 | Some w \<Rightarrow> w)"

definition turn :: "board_state \<Rightarrow> uint32" where
  "turn pb = (case bs_turn pb of None \<Rightarrow> 0 | Some t \<Rightarrow> t)"

definition current_shot :: "board_state \<Rightarrow> uint32" where
  "current_shot pb = (case bs_current_shot pb of None \<Rightarrow> 0 | Some t \<Rightarrow> t)"

subsection \<open>Moves\<close>

record position_commitment_move =
  pc_position_hash :: "string option"
  pc_seed_hash :: "string option"
  pc_seed :: "string option"

record seed_reveal_move =
  sr_seed :: "string option"

record shot_move =
  sh_location :: "uint32 option"

datatype ReplyType = REPLY_INVALID | HIT | MISS

record reply_move =
  rm_reply :: "ReplyType option"

record position_reveal_move =
  pr_position :: "uint64 option"
  pr_salt :: "string option"

datatype move_case =
  MOVE_NOT_SET
| PositionCommitment position_commitment_move
| SeedReveal seed_reveal_move
| Shot shot_move
| Reply reply_move
| PositionReveal position_reveal_move

text \<open>A parsed move, with the flag that the message or one nested in it has unknown fields.\<close>

record board_move =
  bm_unknown :: bool
  bm_nested_unknown :: bool
  bm_case :: move_case

subsection \<open>Phases\<close>

datatype Phase =
  INVALID | FIRST_COMMITMENT | SECOND_COMMITMENT | FIRST_REVEAL_SEED | SHOOT | ANSWER
| SECOND_REVEAL_POSITION | FINISHED

definition GetPhase :: "board_state \<Rightarrow> Phase" where
  "GetPhase pb =
     (if bs_winner pb \<noteq> None then FINISHED
      else if length (position_hashes pb) = 0 then FIRST_COMMITMENT
      else if length (position_hashes pb) = 1 then SECOND_COMMITMENT
      else if length (position_hashes pb) \<noteq> 2 then INVALID
      else if length (known_ships pb) = 0 then FIRST_REVEAL_SEED
      else if length (known_ships pb) \<noteq> 2 then INVALID
      else if length (positions pb) = 2 then SECOND_REVEAL_POSITION
      else if length (positions pb) \<noteq> 0 then INVALID
      else if bs_current_shot pb \<noteq> None then ANSWER
      else SHOOT)"

text \<open>\<open>IsValid\<close> of a state of a channel with the given number of participants.\<close>

definition IsValid :: "channel_metadata \<Rightarrow> board_state \<Rightarrow> bool run" where
  "IsValid meta pb =
     (if length (participants meta) = 1 then Some True
      else do {
        CHECK (length (participants meta) = 2);
        let phase = GetPhase pb;
        if phase = INVALID then Some False
        else if bs_turn pb = None \<or> phase = FINISHED
        then Some (bs_turn pb = None \<and> phase = FINISHED)
        else
          let t = sint (turn pb) in
          if t < 0 \<or> t > 1 then Some False
          else
            case phase of
              FIRST_COMMITMENT \<Rightarrow> Some (t = 0)
            | FIRST_REVEAL_SEED \<Rightarrow> Some (t = 0)
            | SECOND_COMMITMENT \<Rightarrow> Some (t = 1)
            | SHOOT \<Rightarrow> Some True
            | ANSWER \<Rightarrow> Some True
            | SECOND_REVEAL_POSITION \<Rightarrow>
                do {
                  CHECK (length (positions pb) = 2);
                  own \<leftarrow> at_index (positions pb) (nat t);
                  other \<leftarrow> at_index (positions pb) (nat (1 - t));
                  Some (\<not> (own \<noteq> 0 \<or> other = 0))
                }
            | _ \<Rightarrow> LOG_FATAL
      })"

definition Ships_WhoseTurn :: "channel_metadata \<Rightarrow> board_state \<Rightarrow> int run" where
  "Ships_WhoseTurn meta pb =
     (if length (participants meta) = 1 then Some NO_TURN
      else if bs_turn pb = None then Some NO_TURN
      else
        let res = sint (turn pb) in
        do { CHECK (res \<ge> 0); CHECK (res \<le> 1); Some res })"

text \<open>The sum of all guesses, in unsigned arithmetic, and the number of revealed positions: the
  loop variable is an \<open>int\<close>, so only the low 32 bits of a position are compared with zero.\<close>

definition count_shots :: "board_state \<Rightarrow> uint32" where
  "count_shots pb =
     fold (\<lambda>known shots. shots + word_of_int (Grid_CountOnes \<lparr>bits = guessed known\<rparr>)) (known_ships pb) 0"

definition count_reveals :: "board_state \<Rightarrow> uint32 \<Rightarrow> uint32" where
  "count_reveals pb cnt =
     fold (\<lambda>p cnt. if (ucast p :: uint32) \<noteq> 0 then cnt + 1 else cnt) (positions pb) cnt"

definition Ships_TurnCount :: "channel_metadata \<Rightarrow> board_state \<Rightarrow> uint32 run" where
  "Ships_TurnCount meta pb =
     (if length (participants meta) = 1 then Some 0
      else
        let shots = count_shots pb in
        case GetPhase pb of
          FIRST_COMMITMENT \<Rightarrow> Some 1
        | SECOND_COMMITMENT \<Rightarrow> Some 2
        | FIRST_REVEAL_SEED \<Rightarrow> Some 3
        | SHOOT \<Rightarrow> Some (4 + 2 * shots)
        | ANSWER \<Rightarrow> Some (4 + 2 * shots - 1)
        | INVALID \<Rightarrow> LOG_FATAL
        | _ \<Rightarrow>
            let cnt = 4 + 2 * shots;
                cnt = (if bs_current_shot pb \<noteq> None then cnt - 1 else cnt)
            in Some (count_reveals pb cnt))"

subsection \<open>Applying moves\<close>

definition CheckHashValue :: "uint256 \<Rightarrow> string \<Rightarrow> bool" where
  "CheckHashValue actual expected =
     (if length expected \<noteq> NUM_BYTES then False else GetBinaryString actual = expected)"

definition ApplyPositionCommitment ::
    "position_commitment_move \<Rightarrow> Phase \<Rightarrow> board_state \<Rightarrow> board_state option run" where
  "ApplyPositionCommitment mv phase newState =
     (if length (bytes_value (pc_position_hash mv)) \<noteq> NUM_BYTES then Some None
      else if phase = FIRST_COMMITMENT then
        if length (bytes_value (pc_seed_hash mv)) \<noteq> NUM_BYTES then Some None
        else if pc_seed mv \<noteq> None then Some None
        else
          let hashes = position_hashes newState @ [bytes_value (pc_position_hash mv)] in
          do {
            CHECK (length hashes = 1);
            Some (Some (newState\<lparr>bs_turn := Some 1, position_hashes := hashes,
              bs_seed_hash_0 := Some (bytes_value (pc_seed_hash mv))\<rparr>))
          }
      else if phase = SECOND_COMMITMENT then
        if pc_seed_hash mv \<noteq> None then Some None
        else if length (bytes_value (pc_seed mv)) > NUM_BYTES then Some None
        else
          let hashes = position_hashes newState @ [bytes_value (pc_position_hash mv)] in
          do {
            CHECK (length hashes = 2);
            Some (Some (newState\<lparr>bs_turn := Some 0, position_hashes := hashes,
              bs_seed_1 := Some (bytes_value (pc_seed mv))\<rparr>))
          }
      else Some None)"

definition fresh_known_ships :: known_ships where
  "fresh_known_ships = \<lparr>ks_unknown = False, ks_guessed = Some 0, ks_hits = Some 0\<rparr>"

definition ApplySeedReveal ::
    "(string \<Rightarrow> uint256) \<Rightarrow> seed_reveal_move \<Rightarrow> Phase \<Rightarrow> board_state \<Rightarrow> board_state option run" where
  "ApplySeedReveal sha mv phase newState =
     (let seed = bytes_value (sr_seed mv) in
      if phase \<noteq> FIRST_REVEAL_SEED then Some None
      else if length seed > NUM_BYTES then Some None
      else if \<not> CheckHashValue (sha seed) (bytes_value (bs_seed_hash_0 newState)) then Some None
      else do {
        (bit, _) \<leftarrow> Next_bool sha (Random_Seed (sha (seed @ bytes_value (bs_seed_1 newState))));
        Some (Some (newState\<lparr>bs_turn := Some (if bit then 1 else 0),
          bs_seed_hash_0 := None, bs_seed_1 := None,
          known_ships := known_ships newState @ [fresh_known_ships, fresh_known_ships]\<rparr>))
      })"

definition ApplyShot :: "shot_move \<Rightarrow> Phase \<Rightarrow> board_state \<Rightarrow> board_state option run" where
  "ApplyShot mv phase newState =
     (if phase \<noteq> SHOOT then Some None
      else
        case sh_location mv of
          None \<Rightarrow> Some None
        | Some location \<Rightarrow>
            let target = Coord_of_index (sint location) in
            if \<not> Coord_IsOnBoard target then Some None
            else
              let otherPlayer = sint (1 - turn newState) in
              do {
                CHECK (otherPlayer \<ge> 0);
                CHECK (otherPlayer \<le> 1);
                known \<leftarrow> at_index (known_ships newState) (nat otherPlayer);
                already \<leftarrow> Grid_Get \<lparr>bits = guessed known\<rparr> target;
                if already then Some None
                else do {
                  g \<leftarrow> Grid_Set \<lparr>bits = guessed known\<rparr> target;
                  ind \<leftarrow> Coord_GetIndex target;
                  Some (Some (newState\<lparr>bs_turn := Some (word_of_int otherPlayer),
                    bs_current_shot := Some (word_of_int ind),
                    known_ships := (known_ships newState)[nat otherPlayer := known\<lparr>ks_guessed := Some (bits g)\<rparr>]\<rparr>))
                }
              })"

definition ApplyReply :: "reply_move \<Rightarrow> Phase \<Rightarrow> board_state \<Rightarrow> board_state option run" where
  "ApplyReply mv phase newState =
     (if phase \<noteq> ANSWER then Some None
      else
        case rm_reply mv of
          None \<Rightarrow> Some None
        | Some reply \<Rightarrow>
            do {
              CHECK (bs_current_shot newState \<noteq> None);
              let target = Coord_of_index (sint (current_shot newState));
              if \<not> Coord_IsOnBoard target then Some None
              else
                let cleared = newState\<lparr>bs_current_shot := None\<rparr>; t = unat (turn newState) in
                case reply of
                  HIT \<Rightarrow>
                    do {
                      known \<leftarrow> at_index (known_ships cleared) t;
                      already \<leftarrow> Grid_Get \<lparr>bits = hits known\<rparr> target;
                      if already then Some None
                      else do {
                        g \<leftarrow> Grid_Set \<lparr>bits = hits known\<rparr> target;
                        Some (Some (cleared\<lparr>
                          known_ships := (known_ships cleared)[t := known\<lparr>ks_hits := Some (bits g)\<rparr>],
                          bs_turn := Some (1 - turn newState)\<rparr>))
                      }
                    }
                | MISS \<Rightarrow> Some (Some cleared)
                | REPLY_INVALID \<Rightarrow> Some None
            })"

text \<open>The decision of \<open>ApplyPositionReveal\<close> after the position is recorded: who has won, if
  anyone; \<open>Some None\<close> where the answers on record are inconsistent and the move is refused.\<close>

definition reveal_winner ::
    "Phase \<Rightarrow> grid \<Rightarrow> board_state \<Rightarrow> int \<Rightarrow> uint32 option option run" where
  "reveal_winner phase g newState otherPlayer =
     do {
       fleet \<leftarrow> VerifyPositionOfShips g;
       lost \<leftarrow>
         (if \<not> fleet then Some (Some True)
          else do {
            known \<leftarrow> at_index (known_ships newState) (unat (turn newState));
            if hits known AND NOT (guessed known) \<noteq> 0 then Some None
            else do {
              ok \<leftarrow> VerifyPositionForAnswers g \<lparr>bits = guessed known\<rparr> \<lparr>bits = hits known\<rparr>;
              Some (Some (\<not> ok))
            }
          });
       (case lost of
          None \<Rightarrow> Some None
        | Some True \<Rightarrow> Some (Some (Some (word_of_int otherPlayer)))
        | Some False \<Rightarrow>
            if phase = SECOND_REVEAL_POSITION then Some (Some (Some (turn newState)))
            else do {
              other \<leftarrow> at_index (known_ships newState) (nat otherPlayer);
              Some (Some (if Grid_CountOnes \<lparr>bits = hits other\<rparr> \<ge> Grid_TotalShipCells
                          then Some (turn newState) else None))
            })
     }"

definition ApplyPositionReveal ::
    "(string \<Rightarrow> uint256) \<Rightarrow> position_reveal_move \<Rightarrow> Phase \<Rightarrow> board_state \<Rightarrow> board_state option run" where
  "ApplyPositionReveal sha mv phase newState =
     (if phase \<notin> {SHOOT, ANSWER, SECOND_REVEAL_POSITION} then Some None
      else
        case pr_position mv of
          None \<Rightarrow> Some None
        | Some position \<Rightarrow>
            if length (bytes_value (pr_salt mv)) > NUM_BYTES then Some None
            else
              let t = unat (turn newState) in
              do {
                blob \<leftarrow> Grid_Blob \<lparr>bits = position\<rparr>;
                hash \<leftarrow> at_index (position_hashes newState) t;
                if \<not> CheckHashValue (sha (blob @ bytes_value (pr_salt mv))) hash then Some None
                else
                  let ps = (if positions newState = [] then [0, 0] else positions newState) in
                  do {
                    CHECK (length ps = 2);
                    old \<leftarrow> at_index ps t;
                    CHECK (old = 0);
                    let recorded = newState\<lparr>positions := ps[t := position],
                          position_hashes := (position_hashes newState)[t := []]\<rparr>;
                    let otherPlayer = sint (1 - turn newState);
                    CHECK (otherPlayer \<ge> 0);
                    CHECK (otherPlayer \<le> 1);
                    winner \<leftarrow> reveal_winner phase \<lparr>bits = position\<rparr> recorded otherPlayer;
                    (case winner of
                       None \<Rightarrow> Some None
                     | Some (Some w) \<Rightarrow>
                         Some (Some (recorded\<lparr>bs_winner := Some w, bs_turn := None,
                           position_hashes := map (\<lambda>_. []) (position_hashes recorded)\<rparr>))
                     | Some None \<Rightarrow>
                         do {
                           CHECK (phase \<noteq> SECOND_REVEAL_POSITION);
                           Some (Some (recorded\<lparr>bs_turn := Some (word_of_int otherPlayer)\<rparr>))
                         })
                  }
              })"

definition ApplyMoveProto ::
    "(string \<Rightarrow> uint256) \<Rightarrow> channel_metadata \<Rightarrow> board_state \<Rightarrow> board_move \<Rightarrow> board_state option run" where
  "ApplyMoveProto sha meta pb mv =
     do {
       t \<leftarrow> Ships_WhoseTurn meta pb;
       CHECK (t \<noteq> NO_TURN);
       let phase = GetPhase pb;
       case bm_case mv of
         PositionCommitment m \<Rightarrow> ApplyPositionCommitment m phase pb
       | SeedReveal m \<Rightarrow> ApplySeedReveal sha m phase pb
       | Shot m \<Rightarrow> ApplyShot m phase pb
       | Reply m \<Rightarrow> ApplyReply m phase pb
       | PositionReveal m \<Rightarrow> ApplyPositionReveal sha m phase pb
       | MOVE_NOT_SET \<Rightarrow> Some None
     }"

definition InitialBoardState :: board_state where
  "InitialBoardState =
     \<lparr>bs_unknown = False, bs_turn = Some 0, position_hashes = [], bs_seed_hash_0 = None,
      bs_seed_1 = None, known_ships = [], bs_current_shot = None, positions = [], bs_winner = None\<rparr>"

subsection \<open>Invariant\<close>

text \<open>The states of a game that starts from \<open>InitialBoardState\<close>: per phase, which fields are set, that
  it is the right player's turn, and that the answers on record are consistent.\<close>

definition player_turn :: "board_state \<Rightarrow> bool" where
  "player_turn pb \<longleftrightarrow> bs_turn pb = Some 0 \<or> bs_turn pb = Some 1"

definition known_ok :: "board_state \<Rightarrow> bool" where
  "known_ok pb \<longleftrightarrow> length (known_ships pb) = 2 \<and> (\<forall>k\<in>set (known_ships pb). hits k AND NOT (guessed k) = 0)"

definition shot_ok :: "board_state \<Rightarrow> bool" where
  "shot_ok pb \<longleftrightarrow>
     (let s = unat (current_shot pb); k = known_ships pb ! unat (turn pb)
      in s < 64 \<and> bit (guessed k) s \<and> \<not> bit (hits k) s)"

definition untouched :: "board_state \<Rightarrow> bool" where
  "untouched pb \<longleftrightarrow> known_ships pb = [] \<and> positions pb = [] \<and> bs_current_shot pb = None"

definition board_inv :: "board_state \<Rightarrow> bool" where
  "board_inv pb \<longleftrightarrow>
     (case GetPhase pb of
        INVALID \<Rightarrow> False
      | FIRST_COMMITMENT \<Rightarrow> bs_turn pb = Some 0 \<and> untouched pb
      | SECOND_COMMITMENT \<Rightarrow> bs_turn pb = Some 1 \<and> untouched pb
      | FIRST_REVEAL_SEED \<Rightarrow> bs_turn pb = Some 0 \<and> untouched pb
      | SHOOT \<Rightarrow> player_turn pb \<and> known_ok pb
      | ANSWER \<Rightarrow> player_turn pb \<and> known_ok pb \<and> shot_ok pb
      | SECOND_REVEAL_POSITION \<Rightarrow>
          player_turn pb \<and> known_ok pb \<and>
          positions pb ! unat (turn pb) = 0 \<and> positions pb ! unat (1 - turn pb) \<noteq> 0
      | FINISHED \<Rightarrow>
          bs_turn pb = None \<and> (bs_winner pb = Some 0 \<or> bs_winner pb = Some 1) \<and>
          known_ok pb \<and> length (positions pb) = 2)"

text \<open>A game: the states reached from the initial one by accepted moves.\<close>

inductive board_reachable :: "(string \<Rightarrow> uint256) \<Rightarrow> channel_metadata \<Rightarrow> board_state \<Rightarrow> bool"
  for sha meta where
  start: "board_reachable sha meta InitialBoardState"
| step: "board_reachable sha meta pb \<Longrightarrow> bs_turn pb \<noteq> None \<Longrightarrow>
    ApplyMoveProto sha meta pb mv = Some (Some pb') \<Longrightarrow> board_reachable sha meta pb'"

lemma phase_iffs:
  "GetPhase pb = FINISHED \<longleftrightarrow> bs_winner pb \<noteq> None"
  "GetPhase pb = FIRST_COMMITMENT \<longleftrightarrow> bs_winner pb = None \<and> position_hashes pb = []"
  "GetPhase pb = SECOND_COMMITMENT \<longleftrightarrow> bs_winner pb = None \<and> length (position_hashes pb) = 1"
  "GetPhase pb = FIRST_REVEAL_SEED \<longleftrightarrow>
     bs_winner pb = None \<and> length (position_hashes pb) = 2 \<and> known_ships pb = []"
  "GetPhase pb = SECOND_REVEAL_POSITION \<longleftrightarrow>
     bs_winner pb = None \<and> length (position_hashes pb) = 2 \<and> length (known_ships pb) = 2 \<and>
     length (positions pb) = 2"
  "GetPhase pb = ANSWER \<longleftrightarrow>
     bs_winner pb = None \<and> length (position_hashes pb) = 2 \<and> length (known_ships pb) = 2 \<and>
     positions pb = [] \<and> bs_current_shot pb \<noteq> None"
  "GetPhase pb = SHOOT \<longleftrightarrow>
     bs_winner pb = None \<and> length (position_hashes pb) = 2 \<and> length (known_ships pb) = 2 \<and>
     positions pb = [] \<and> bs_current_shot pb = None"
  by (auto simp: GetPhase_def)

lemma board_inv_phase:
  assumes "board_inv pb"
  shows "GetPhase pb = FIRST_COMMITMENT \<Longrightarrow> bs_turn pb = Some 0 \<and> untouched pb"
    and "GetPhase pb = SECOND_COMMITMENT \<Longrightarrow> bs_turn pb = Some 1 \<and> untouched pb"
    and "GetPhase pb = FIRST_REVEAL_SEED \<Longrightarrow> bs_turn pb = Some 0 \<and> untouched pb"
    and "GetPhase pb = SHOOT \<Longrightarrow> player_turn pb \<and> known_ok pb"
    and "GetPhase pb = ANSWER \<Longrightarrow> player_turn pb \<and> known_ok pb \<and> shot_ok pb"
    and "GetPhase pb = SECOND_REVEAL_POSITION \<Longrightarrow> player_turn pb \<and> known_ok pb \<and>
      positions pb ! unat (turn pb) = 0 \<and> positions pb ! unat (1 - turn pb) \<noteq> 0"
    and "GetPhase pb = FINISHED \<Longrightarrow> bs_turn pb = None \<and> (bs_winner pb = Some 0 \<or> bs_winner pb = Some 1) \<and>
      known_ok pb \<and> length (positions pb) = 2"
    and "GetPhase pb \<noteq> INVALID"
  using assms by (auto simp: board_inv_def)

lemma board_inv_initial [inv_intros]: "board_inv InitialBoardState"
  by (simp add: board_inv_def GetPhase_def InitialBoardState_def untouched_def)

lemma inv_turn_cases:
  assumes "board_inv pb" "bs_turn pb \<noteq> None"
  shows "bs_turn pb = Some 0 \<or> bs_turn pb = Some 1"
  using assms by (auto simp: board_inv_def player_turn_def split: Phase.splits)

lemma inv_turn_word:
  assumes "board_inv pb" "bs_turn pb \<noteq> None"
  shows "turn pb = 0 \<or> turn pb = 1"
  using inv_turn_cases [OF assms] by (auto simp: turn_def)

text \<open>Every state of the invariant is valid, and reading it does not abort.\<close>

lemma board_inv_valid:
  assumes "board_inv pb" "length (participants meta) = 2"
  shows "IsValid meta pb = Some True"
proof (cases "GetPhase pb")
  case SECOND_REVEAL_POSITION
  then have "length (positions pb) = 2"
    by (simp add: phase_iffs)
  moreover have "player_turn pb" "positions pb ! unat (turn pb) = 0" "positions pb ! unat (1 - turn pb) \<noteq> 0"
    using board_inv_phase(6) [OF assms(1) SECOND_REVEAL_POSITION] by simp_all
  ultimately show ?thesis
    using SECOND_REVEAL_POSITION assms(2)
    by (auto simp: IsValid_def bind_CHECK Let_def player_turn_def turn_def at_index_def)
qed (use assms board_inv_phase [OF assms(1)] in
    \<open>auto simp: IsValid_def bind_CHECK Let_def player_turn_def turn_def\<close>)

lemma board_inv_WhoseTurn:
  assumes "board_inv pb" "length (participants meta) = 2"
  shows "Ships_WhoseTurn meta pb = Some (case bs_turn pb of None \<Rightarrow> NO_TURN | Some t \<Rightarrow> uint t)"
  using assms inv_turn_cases [OF assms(1)]
  by (auto simp: Ships_WhoseTurn_def bind_CHECK Let_def turn_def split: option.splits)

lemma NO_TURN_neq [simp]: "uint t \<noteq> NO_TURN" "NO_TURN \<noteq> uint t"
proof -
  have "0 \<le> uint t"
    by simp
  then show "uint t \<noteq> NO_TURN"
    unfolding NO_TURN_def by linarith
  then show "NO_TURN \<noteq> uint t"
    by simp
qed

subsection \<open>Commitments and seed\<close>

lemma commitment_total:
  "ApplyPositionCommitment mv (GetPhase pb) pb \<noteq> None"
  by (auto simp: ApplyPositionCommitment_def bind_CHECK Let_def phase_iffs)

lemma commitment_effect:
  assumes "ApplyPositionCommitment mv (GetPhase pb) pb = Some (Some pb')" "board_inv pb"
  shows "GetPhase pb = FIRST_COMMITMENT \<and> GetPhase pb' = SECOND_COMMITMENT \<and> board_inv pb' \<or>
    GetPhase pb = SECOND_COMMITMENT \<and> GetPhase pb' = FIRST_REVEAL_SEED \<and> board_inv pb'"
proof -
  have "GetPhase pb = FIRST_COMMITMENT \<or> GetPhase pb = SECOND_COMMITMENT"
    using assms(1) by (auto simp: ApplyPositionCommitment_def split: if_splits)
  then show ?thesis
  proof
    assume ph: "GetPhase pb = FIRST_COMMITMENT"
    then have "untouched pb" "bs_winner pb = None" "position_hashes pb = []"
      using board_inv_phase(1) [OF assms(2)] by (auto simp: phase_iffs)
    then have "GetPhase pb' = SECOND_COMMITMENT" "bs_turn pb' = Some 1 \<and> untouched pb'"
      using assms(1) by (auto simp: ph ApplyPositionCommitment_def Let_def bind_CHECK untouched_def phase_iffs
          split: if_splits)
    then show ?thesis
      using ph by (simp add: board_inv_def)
  next
    assume ph: "GetPhase pb = SECOND_COMMITMENT"
    then have "untouched pb" "bs_winner pb = None" "length (position_hashes pb) = 1"
      using board_inv_phase(2) [OF assms(2)] by (auto simp: phase_iffs)
    then have "GetPhase pb' = FIRST_REVEAL_SEED" "bs_turn pb' = Some 0 \<and> untouched pb'"
      using assms(1) by (auto simp: ph ApplyPositionCommitment_def Let_def bind_CHECK untouched_def phase_iffs
          split: if_splits)
    then show ?thesis
      using ph by (simp add: board_inv_def)
  qed
qed

text \<open>The law of the hash function that the draw of the first player relies on: 32 bytes, not all
  of them zero.\<close>

definition good_hash :: "(string \<Rightarrow> uint256) \<Rightarrow> bool" where
  "good_hash sha \<longleftrightarrow> (\<forall>s. wf_uint256 (sha s) \<and> \<not> IsNull (sha s))"

lemma Next_bool_seeded:
  assumes "good_hash sha"
  shows "\<exists>b r. Next_bool sha (Random_Seed (sha s)) = Some (b, r)"
proof -
  have "wf_random (Random_Seed (sha s))"
    using assms by (simp add: wf_random_def Random_Seed_def good_hash_def NUM_BYTES_def)
  then show ?thesis
    using Next_uchar_total [of "Random_Seed (sha s)" sha]
    by (auto simp: Next_bool_def wf_random_def Random_Seed_def)
qed

lemma seed_reveal_total: "good_hash sha \<Longrightarrow> ApplySeedReveal sha mv ph pb \<noteq> None"
  using Next_bool_seeded [of sha "bytes_value (sr_seed mv) @ bytes_value (bs_seed_1 pb)"]
  by (auto simp: ApplySeedReveal_def Let_def)

lemma seed_reveal_effect:
  assumes "ApplySeedReveal sha mv (GetPhase pb) pb = Some (Some pb')" "board_inv pb"
  shows "GetPhase pb = FIRST_REVEAL_SEED \<and> GetPhase pb' = SHOOT \<and> board_inv pb' \<and> count_shots pb' = 0"
proof -
  have ph: "GetPhase pb = FIRST_REVEAL_SEED"
    using assms(1) by (auto simp: ApplySeedReveal_def Let_def split: if_splits)
  then have pb: "untouched pb" "bs_winner pb = None" "length (position_hashes pb) = 2"
    using board_inv_phase(3) [OF assms(2)] by (auto simp: phase_iffs)
  obtain t where t: "t = 0 \<or> t = 1" and pb': "pb' = pb\<lparr>bs_turn := Some t, bs_seed_hash_0 := None,
      bs_seed_1 := None, known_ships := [fresh_known_ships, fresh_known_ships]\<rparr>"
    using assms(1) pb(1)
    by (fastforce simp: ApplySeedReveal_def Let_def untouched_def bind_Some_iff split: if_splits)
  have "GetPhase pb' = SHOOT"
    using pb by (simp add: pb' phase_iffs untouched_def)
  moreover have "player_turn pb' \<and> known_ok pb'" "count_shots pb' = 0"
    using t by (auto simp: pb' player_turn_def known_ok_def fresh_known_ships_def hits_def guessed_def
        count_shots_def Grid_CountOnes_def CountOnes_loop.simps)
  ultimately show ?thesis
    using ph by (simp add: board_inv_def)
qed

subsection \<open>Shots and replies\<close>

lemma subset_cells: "h AND NOT g = 0 \<longleftrightarrow> cells \<lparr>bits = h\<rparr> \<subseteq> cells \<lparr>bits = g\<rparr>"
proof -
  have "h AND NOT g = 0 \<longleftrightarrow> (\<forall>i. bit h i \<longrightarrow> bit g i)"
    using bit_imp_le_length [of h] by (auto simp: bit_eq_iff bit_simps)
  then show ?thesis
    by (auto simp: cells_def)
qed

lemma CountOnes_insert:
  "i < 64 \<Longrightarrow> i \<notin> cells \<lparr>bits = w\<rparr> \<Longrightarrow>
    Grid_CountOnes \<lparr>bits = w OR 2 ^ i\<rparr> = Grid_CountOnes \<lparr>bits = w\<rparr> + 1"
  using cells_insert [of i w] by (simp add: CountOnes_card)

lemma target_on_board: "Coord_IsOnBoard (Coord_of_index (sint (l :: uint32))) \<longleftrightarrow> unat l < 64"
  using sint_range_iff [of 64 l] by (simp add: Coord_of_index_on_board)

lemma target_facts:
  assumes "unat (l :: uint32) < 64"
  shows "sint l = uint l" "Coord_IsOnBoard (Coord_of_index (uint l))"
    "Coord_GetIndex (Coord_of_index (uint l)) = Some (uint l)"
    "Grid_Get g (Coord_of_index (uint l)) = Some (unat l \<in> cells g)"
    "unat l \<notin> cells g \<Longrightarrow> Grid_Set g (Coord_of_index (uint l)) = Some \<lparr>bits = bits g OR 2 ^ unat l\<rparr>"
proof -
  have l: "uint l < 64" "0 \<le> uint l"
    using assms by (simp_all add: unat_less_iff_uint)
  show "sint l = uint l"
    using sint_small [of l] l by simp
  show "Coord_IsOnBoard (Coord_of_index (uint l))" "Coord_GetIndex (Coord_of_index (uint l)) = Some (uint l)"
    using l by (simp_all add: Coord_of_index_on_board GetIndex_of_index)
  show "Grid_Get g (Coord_of_index (uint l)) = Some (unat l \<in> cells g)"
    using Get_index [OF assms] by simp
  show "Grid_Set g (Coord_of_index (uint l)) = Some \<lparr>bits = bits g OR 2 ^ unat l\<rparr>" if "unat l \<notin> cells g"
    using Set_eq [OF assms that] by simp
qed

lemma shot_eq:
  assumes "GetPhase pb = SHOOT" "player_turn pb" "known_ships pb = [k0, k1]"
  shows "ApplyShot mv SHOOT pb =
    (case sh_location mv of
       None \<Rightarrow> Some None
     | Some l \<Rightarrow>
         let k = (if turn pb = 0 then k1 else k0) in
         if 64 \<le> unat l \<or> unat l \<in> cells \<lparr>bits = guessed k\<rparr> then Some None
         else Some (Some (pb\<lparr>bs_turn := Some (1 - turn pb), bs_current_shot := Some l,
           known_ships := (let k' = k\<lparr>ks_guessed := Some (guessed k OR 2 ^ unat l)\<rparr>
                           in if turn pb = 0 then [k0, k'] else [k', k1])\<rparr>)))"
proof (cases "sh_location mv")
  case None
  then show ?thesis
    by (simp add: ApplyShot_def)
next
  case (Some l)
  show ?thesis
  proof (cases "unat l < 64")
    case False
    with Some show ?thesis
      by (simp add: ApplyShot_def target_on_board)
  next
    case True
    have "word_of_int (int (unat l)) = l"
      by simp
    then have "ApplyShot mv SHOOT pb =
      (let t = nat (sint (1 - turn pb)) in
       if unat l \<in> cells \<lparr>bits = guessed (known_ships pb ! t)\<rparr> then Some None
       else Some (Some (pb\<lparr>bs_turn := Some (1 - turn pb), bs_current_shot := Some l,
         known_ships := (known_ships pb)[t := (known_ships pb ! t)\<lparr>ks_guessed :=
           Some (guessed (known_ships pb ! t) OR 2 ^ unat l)\<rparr>]\<rparr>)))"
      using assms(2,3) Some
      by (auto simp: ApplyShot_def Let_def bind_CHECK at_index_def player_turn_def turn_def
          target_facts [OF True])
    then show ?thesis
      using assms(2,3) True Some by (auto simp: Let_def player_turn_def turn_def)
  qed
qed

lemma inv_known_pair:
  assumes "known_ok pb"
  obtains k0 k1 where "known_ships pb = [k0, k1]"
    "cells \<lparr>bits = hits k0\<rparr> \<subseteq> cells \<lparr>bits = guessed k0\<rparr>" "cells \<lparr>bits = hits k1\<rparr> \<subseteq> cells \<lparr>bits = guessed k1\<rparr>"
  using assms by (auto simp: known_ok_def length_2_conv subset_cells)

lemma shot_total: "board_inv pb \<Longrightarrow> ApplyShot mv (GetPhase pb) pb \<noteq> None"
proof (cases "GetPhase pb = SHOOT")
  case True
  assume "board_inv pb"
  then have "player_turn pb" "known_ok pb"
    using board_inv_phase(4) True by auto
  then obtain k0 k1 where "known_ships pb = [k0, k1]"
    using inv_known_pair by metis
  then show ?thesis
    using shot_eq [OF True \<open>player_turn pb\<close>, of k0 k1 mv] True by (auto simp: Let_def split: option.splits)
qed (simp add: ApplyShot_def)

lemma shot_effect:
  assumes "ApplyShot mv (GetPhase pb) pb = Some (Some pb')" "board_inv pb"
  shows "GetPhase pb = SHOOT \<and> GetPhase pb' = ANSWER \<and> board_inv pb' \<and> count_shots pb' = count_shots pb + 1"
proof -
  have ph: "GetPhase pb = SHOOT"
    using assms(1) by (auto simp: ApplyShot_def split: if_splits)
  then have pt: "player_turn pb" and ko: "known_ok pb"
    using board_inv_phase(4) [OF assms(2)] by auto
  from ko obtain k0 k1 where k: "known_ships pb = [k0, k1]"
    and sub: "cells \<lparr>bits = hits k0\<rparr> \<subseteq> cells \<lparr>bits = guessed k0\<rparr>"
      "cells \<lparr>bits = hits k1\<rparr> \<subseteq> cells \<lparr>bits = guessed k1\<rparr>"
    by (rule inv_known_pair)
  define q where "q = (if turn pb = 0 then k1 else k0)"
  obtain l where loc: "sh_location mv = Some l"
    using assms(1) ph by (auto simp: ApplyShot_def split: option.splits)
  then have l: "unat l < 64" "unat l \<notin> cells \<lparr>bits = guessed q\<rparr>"
    and pb': "pb' = pb\<lparr>bs_turn := Some (1 - turn pb), bs_current_shot := Some l,
      known_ships := (let k' = q\<lparr>ks_guessed := Some (guessed q OR 2 ^ unat l)\<rparr>
                      in if turn pb = 0 then [k0, k'] else [k', k1])\<rparr>"
    using assms(1) shot_eq [OF ph pt k, of mv] unfolding q_def [symmetric] ph
    by (auto simp: Let_def split: if_splits)
  have g': "cells \<lparr>bits = guessed q OR 2 ^ unat l\<rparr> = insert (unat l) (cells \<lparr>bits = guessed q\<rparr>)"
    using cells_insert [OF l(1), of "guessed q"] by simp
  have ph': "GetPhase pb' = ANSWER"
    using ph by (simp add: pb' phase_iffs Let_def)
  have "known_ok pb'"
    using sub g' by (auto simp: known_ok_def pb' Let_def subset_cells q_def guessed_def hits_def)
  moreover have "player_turn pb'"
    using pt by (auto simp: pb' player_turn_def turn_def)
  moreover have "shot_ok pb'"
    using pt l g' sub by (auto simp: shot_ok_def pb' Let_def player_turn_def turn_def current_shot_def
        guessed_def hits_def q_def cells_def subset_iff)
  moreover have "count_shots pb' = count_shots pb + 1"
    using pt k l CountOnes_insert [OF l]
    by (auto simp: count_shots_def pb' Let_def q_def guessed_def player_turn_def turn_def)
  ultimately show ?thesis
    using ph ph' by (simp add: board_inv_def)
qed

lemma reply_eq:
  assumes "GetPhase pb = ANSWER" "player_turn pb" "known_ships pb = [k0, k1]" "shot_ok pb"
  shows "ApplyReply mv ANSWER pb =
    Some (case rm_reply mv of
       None \<Rightarrow> None
     | Some REPLY_INVALID \<Rightarrow> None
     | Some MISS \<Rightarrow> Some (pb\<lparr>bs_current_shot := None\<rparr>)
     | Some HIT \<Rightarrow>
         let k = (if turn pb = 0 then k0 else k1);
             k' = k\<lparr>ks_hits := Some (hits k OR 2 ^ unat (current_shot pb))\<rparr>
         in Some (pb\<lparr>bs_current_shot := None, bs_turn := Some (1 - turn pb),
              known_ships := (if turn pb = 0 then [k', k1] else [k0, k'])\<rparr>))"
proof -
  have s: "unat (current_shot pb) < 64" "\<not> bit (hits (known_ships pb ! unat (turn pb))) (unat (current_shot pb))"
    using assms(4) by (simp_all add: shot_ok_def Let_def)
  have shot: "bs_current_shot pb \<noteq> None"
    using assms(1) by (simp add: phase_iffs)
  show ?thesis
  proof (cases "rm_reply mv = Some HIT")
    case False
    then show ?thesis
      using shot by (cases "rm_reply mv"; cases "the (rm_reply mv)")
        (auto simp: ApplyReply_def Let_def bind_CHECK target_facts [OF s(1)])
  next
    case True
    then show ?thesis
      using shot s(2) assms(2,3) by (auto simp: ApplyReply_def Let_def bind_CHECK target_facts [OF s(1)]
          player_turn_def turn_def at_index_def cells_def)
  qed
qed

lemma reply_total: "board_inv pb \<Longrightarrow> ApplyReply mv (GetPhase pb) pb \<noteq> None"
proof (cases "GetPhase pb = ANSWER")
  case True
  assume "board_inv pb"
  then have "player_turn pb" "known_ok pb" "shot_ok pb"
    using board_inv_phase(5) True by auto
  then obtain k0 k1 where "known_ships pb = [k0, k1]"
    using inv_known_pair by metis
  then show ?thesis
    using reply_eq [OF True \<open>player_turn pb\<close> _ \<open>shot_ok pb\<close>, of k0 k1 mv] True by simp
qed (simp add: ApplyReply_def)

lemma reply_effect:
  assumes "ApplyReply mv (GetPhase pb) pb = Some (Some pb')" "board_inv pb"
  shows "GetPhase pb = ANSWER \<and> GetPhase pb' = SHOOT \<and> board_inv pb' \<and> count_shots pb' = count_shots pb"
proof -
  have ph: "GetPhase pb = ANSWER"
    using assms(1) by (auto simp: ApplyReply_def split: if_splits)
  then have pt: "player_turn pb" and ko: "known_ok pb" and so: "shot_ok pb"
    using board_inv_phase(5) [OF assms(2)] by auto
  from ko obtain k0 k1 where k: "known_ships pb = [k0, k1]"
    and sub: "cells \<lparr>bits = hits k0\<rparr> \<subseteq> cells \<lparr>bits = guessed k0\<rparr>"
      "cells \<lparr>bits = hits k1\<rparr> \<subseteq> cells \<lparr>bits = guessed k1\<rparr>"
    by (rule inv_known_pair)
  define s where "s = unat (current_shot pb)"
  define q where "q = (if turn pb = 0 then k0 else k1)"
  have s: "s < 64" "s \<in> cells \<lparr>bits = guessed q\<rparr>"
    using so pt k by (auto simp: shot_ok_def Let_def s_def q_def player_turn_def turn_def cells_def)
  note eq = reply_eq [OF ph pt k so, of mv, folded s_def q_def]
  consider (miss) "pb' = pb\<lparr>bs_current_shot := None\<rparr>"
    | (hit) "pb' = pb\<lparr>bs_current_shot := None, bs_turn := Some (1 - turn pb),
        known_ships := (let q' = q\<lparr>ks_hits := Some (hits q OR 2 ^ s)\<rparr>
                        in if turn pb = 0 then [q', k1] else [k0, q'])\<rparr>"
    using assms(1) eq unfolding ph by (auto simp: Let_def split: option.splits ReplyType.splits)
  then show ?thesis
  proof cases
    case miss
    then have "GetPhase pb' = SHOOT" "player_turn pb'" "known_ok pb'" "count_shots pb' = count_shots pb"
      using ph pt ko by (auto simp: phase_iffs player_turn_def known_ok_def count_shots_def)
    then show ?thesis
      using ph by (simp add: board_inv_def)
  next
    case hit
    have "cells \<lparr>bits = hits q OR 2 ^ s\<rparr> = insert s (cells \<lparr>bits = hits q\<rparr>)"
      using cells_insert [OF s(1), of "hits q"] by simp
    then have "known_ok pb'"
      using sub s(2) by (auto simp: known_ok_def hit Let_def subset_cells q_def guessed_def hits_def)
    moreover have "GetPhase pb' = SHOOT" "player_turn pb'" "count_shots pb' = count_shots pb"
      using ph pt k by (auto simp: hit phase_iffs player_turn_def turn_def count_shots_def Let_def q_def guessed_def)
    ultimately show ?thesis
      using ph by (simp add: board_inv_def)
  qed
qed

subsection \<open>Revealing the position\<close>

lemma accepted_position_nonzero:
  assumes "VerifyPositionOfShips \<lparr>bits = p\<rparr> = Some True"
  shows "p \<noteq> 0"
  using Verify_card [OF assms] by (auto simp: TotalShipCells_value Grid_CountOnes_def CountOnes_loop.simps)

lemma reveal_winner_eq:
  assumes "known_ships pb = [k0, k1]" "turn pb = 0 \<or> turn pb = 1"
    and "hits (known_ships pb ! unat (turn pb)) AND NOT (guessed (known_ships pb ! unat (turn pb))) = 0"
  shows "reveal_winner ph g pb (sint (1 - turn pb)) =
    (let k = known_ships pb ! unat (turn pb) in
     Some (Some
      (if VerifyPositionOfShips g = Some True \<and> cells g \<inter> cells \<lparr>bits = guessed k\<rparr> = cells \<lparr>bits = hits k\<rparr>
       then if ph = SECOND_REVEAL_POSITION \<or>
               Grid_CountOnes \<lparr>bits = hits (known_ships pb ! unat (1 - turn pb))\<rparr> \<ge> Grid_TotalShipCells
            then Some (turn pb) else None
       else Some (1 - turn pb))))"
proof -
  let ?k = "known_ships pb ! unat (turn pb)"
  obtain b where b: "VerifyPositionOfShips g = Some b"
    using VerifyPositionOfShips_total [of g] by auto
  have "VerifyPositionForAnswers g \<lparr>bits = guessed ?k\<rparr> \<lparr>bits = hits ?k\<rparr>
    = Some (cells g \<inter> cells \<lparr>bits = guessed ?k\<rparr> = cells \<lparr>bits = hits ?k\<rparr>)"
    using assms(3) by (intro VerifyPositionForAnswers_cells) (simp add: subset_cells)
  then show ?thesis
    using assms b by (auto simp: reveal_winner_def Let_def at_index_def)
qed

text \<open>The rule of the game for a revealed position: a player whose position is not a legal fleet or
  contradicts the answers given loses; otherwise the first to reveal wins when all ships of the
  opponent have been hit, and the second one to reveal wins.\<close>

definition reveal_result :: "Phase \<Rightarrow> board_state \<Rightarrow> uint64 \<Rightarrow> uint32 option" where
  "reveal_result ph pb p =
     (let g = \<lparr>bits = p\<rparr>; own = known_ships pb ! unat (turn pb); opp = known_ships pb ! unat (1 - turn pb) in
      if (\<exists>F. legal_fleet (occupied g) F) \<and> cells g \<inter> cells \<lparr>bits = guessed own\<rparr> = cells \<lparr>bits = hits own\<rparr>
      then if ph = SECOND_REVEAL_POSITION \<or> card (cells \<lparr>bits = hits opp\<rparr>) \<ge> 18
           then Some (turn pb) else None
      else Some (1 - turn pb))"

definition position_revealed :: "board_state \<Rightarrow> uint64 \<Rightarrow> board_state" where
  "position_revealed pb p =
     pb\<lparr>positions := (if positions pb = [] then [0, 0] else positions pb)[unat (turn pb) := p],
        position_hashes := (position_hashes pb)[unat (turn pb) := []]\<rparr>"

definition reveal_done :: "Phase \<Rightarrow> board_state \<Rightarrow> uint64 \<Rightarrow> board_state" where
  "reveal_done ph pb p =
     (case reveal_result ph pb p of
        Some w \<Rightarrow> (position_revealed pb p)\<lparr>bs_winner := Some w, bs_turn := None,
          position_hashes := map (\<lambda>_. []) (position_hashes pb)\<rparr>
      | None \<Rightarrow> (position_revealed pb p)\<lparr>bs_turn := Some (1 - turn pb)\<rparr>)"

text \<open>A reveal is refused when it is not the time for it, or it does not open the commitment.\<close>

definition reveal_accepted :: "(string \<Rightarrow> uint256) \<Rightarrow> position_reveal_move \<Rightarrow> board_state \<Rightarrow> bool" where
  "reveal_accepted sha mv pb \<longleftrightarrow>
     GetPhase pb \<in> {SHOOT, ANSWER, SECOND_REVEAL_POSITION} \<and>
     (case pr_position mv of
        None \<Rightarrow> False
      | Some p \<Rightarrow> length (bytes_value (pr_salt mv)) \<le> NUM_BYTES \<and>
          (\<exists>blob. Grid_Blob \<lparr>bits = p\<rparr> = Some blob \<and>
            CheckHashValue (sha (blob @ bytes_value (pr_salt mv))) (position_hashes pb ! unat (turn pb))))"

lemma reveal_phase_facts:
  assumes "board_inv pb" "GetPhase pb \<in> {SHOOT, ANSWER, SECOND_REVEAL_POSITION}"
  shows "player_turn pb" "known_ok pb" "bs_winner pb = None" "length (position_hashes pb) = 2"
    "length (if positions pb = [] then [0, 0] else positions pb) = 2"
    "(if positions pb = [] then [0, 0] else positions pb) ! unat (turn pb) = 0"
    "turn pb = 0 \<or> turn pb = 1"
proof -
  show "player_turn pb" "known_ok pb"
    using assms board_inv_phase [OF assms(1)] by auto
  then show t: "turn pb = 0 \<or> turn pb = 1"
    by (auto simp: player_turn_def turn_def)
  show "bs_winner pb = None" "length (position_hashes pb) = 2"
    "length (if positions pb = [] then [0, 0] else positions pb) = 2"
    using assms(2) by (auto simp: phase_iffs)
  show "(if positions pb = [] then [0, 0] else positions pb) ! unat (turn pb) = 0"
    using assms(2) t board_inv_phase(6) [OF assms(1)] by (auto simp: phase_iffs)
qed

lemma reveal_eq:
  assumes "board_inv pb"
  shows "ApplyPositionReveal sha mv (GetPhase pb) pb =
    Some (if reveal_accepted sha mv pb then Some (reveal_done (GetPhase pb) pb (the (pr_position mv))) else None)"
proof (cases "GetPhase pb \<in> {SHOOT, ANSWER, SECOND_REVEAL_POSITION}")
  case False
  then show ?thesis
    by (simp add: ApplyPositionReveal_def reveal_accepted_def)
next
  case True
  note facts = reveal_phase_facts [OF assms True]
  obtain k0 k1 where k: "known_ships pb = [k0, k1]"
    and sub: "cells \<lparr>bits = hits k0\<rparr> \<subseteq> cells \<lparr>bits = guessed k0\<rparr>"
      "cells \<lparr>bits = hits k1\<rparr> \<subseteq> cells \<lparr>bits = guessed k1\<rparr>"
    using facts(2) by (rule inv_known_pair)
  have winner: "reveal_winner (GetPhase pb) \<lparr>bits = p\<rparr> (position_revealed pb p) (sint (1 - turn pb))
    = Some (Some (reveal_result (GetPhase pb) pb p))" for p
  proof -
    have same: "known_ships (position_revealed pb p) = known_ships pb" "turn (position_revealed pb p) = turn pb"
      by (simp_all add: position_revealed_def turn_def)
    have "hits (known_ships pb ! unat (turn pb)) AND NOT (guessed (known_ships pb ! unat (turn pb))) = 0"
      using facts(7) k sub by (auto simp: subset_cells)
    then have "reveal_winner (GetPhase pb) \<lparr>bits = p\<rparr> (position_revealed pb p) (sint (1 - turn (position_revealed pb p))) =
      Some (Some (reveal_result (GetPhase pb) pb p))"
      using reveal_winner_eq [of "position_revealed pb p" k0 k1 "GetPhase pb" "\<lparr>bits = p\<rparr>"] facts(7) k
        legal_fleet_unique(1) [of "\<lparr>bits = p\<rparr>"] Verify_iff_fleet_of [of "\<lparr>bits = p\<rparr>"]
      unfolding same reveal_result_def Let_def CountOnes_card TotalShipCells_value
      by (auto simp del: One_nat_def)
    then show ?thesis
      by (simp only: same)
  qed
  have other: "sint (1 - turn pb) \<ge> 0" "sint (1 - turn pb) \<le> 1" "word_of_int (sint (1 - turn pb)) = 1 - turn pb"
    using facts(7) by auto
  have t: "unat (turn pb) < 2"
    using facts(7) by auto
  show ?thesis
  proof (cases "pr_position mv")
    case None
    then show ?thesis
      using True by (simp add: ApplyPositionReveal_def reveal_accepted_def)
  next
    case (Some p)
    obtain blob where blob: "Grid_Blob \<lparr>bits = p\<rparr> = Some blob"
      by (simp add: Blob_total)
    show ?thesis
    proof (cases "length (bytes_value (pr_salt mv)) \<le> NUM_BYTES \<and>
        CheckHashValue (sha (blob @ bytes_value (pr_salt mv))) (position_hashes pb ! unat (turn pb))")
      case False
      then show ?thesis
        using True Some blob facts(4) t
        by (auto simp: ApplyPositionReveal_def reveal_accepted_def at_index_def Let_def)
    next
      case ok: True
      have not2: "reveal_result SECOND_REVEAL_POSITION pb p \<noteq> None"
        by (simp add: reveal_result_def Let_def)
      have "ApplyPositionReveal sha mv (GetPhase pb) pb =
        Option.bind (reveal_winner (GetPhase pb) \<lparr>bits = p\<rparr> (position_revealed pb p) (sint (1 - turn pb)))
          (\<lambda>winner. case winner of None \<Rightarrow> Some None
             | Some (Some w) \<Rightarrow> Some (Some ((position_revealed pb p)\<lparr>bs_winner := Some w, bs_turn := None,
                 position_hashes := map (\<lambda>_. []) (position_hashes (position_revealed pb p))\<rparr>))
             | Some None \<Rightarrow> Option.bind (CHECK (GetPhase pb \<noteq> SECOND_REVEAL_POSITION))
                 (\<lambda>_. Some (Some ((position_revealed pb p)\<lparr>bs_turn := Some (word_of_int (sint (1 - turn pb)))\<rparr>))))"
        using True Some blob ok facts(4,5,6) t other
        unfolding ApplyPositionReveal_def position_revealed_def Let_def
        by (simp add: at_index_in bind_CHECK)
      also have "\<dots> = Some (Some (reveal_done (GetPhase pb) pb p))"
        unfolding winner other using not2
        by (auto simp: reveal_done_def position_revealed_def bind_CHECK map_replicate_const split: option.splits)
      finally show ?thesis
        using True Some blob ok by (simp add: reveal_accepted_def)
    qed
  qed
qed

lemma reveal_result_winner: "turn pb = 0 \<or> turn pb = 1 \<Longrightarrow> reveal_result ph pb p = Some w \<Longrightarrow> w = 0 \<or> w = 1"
  by (auto simp: reveal_result_def Let_def split: if_splits)

lemma reveal_result_None:
  assumes "reveal_result ph pb p = None"
  shows "ph \<noteq> SECOND_REVEAL_POSITION" "p \<noteq> 0"
proof -
  show "ph \<noteq> SECOND_REVEAL_POSITION"
    using assms by (auto simp: reveal_result_def Let_def split: if_splits)
  have "\<exists>F. legal_fleet (occupied \<lparr>bits = p\<rparr>) F"
    using assms by (auto simp: reveal_result_def Let_def split: if_splits)
  then have "VerifyPositionOfShips \<lparr>bits = p\<rparr> = Some True"
    using legal_fleet_unique(1) by (auto simp: Verify_iff_fleet_of)
  then show "p \<noteq> 0"
    by (rule accepted_position_nonzero)
qed

lemma reveal_effect:
  assumes "ApplyPositionReveal sha mv (GetPhase pb) pb = Some (Some pb')" "board_inv pb"
  shows "\<exists>p. pr_position mv = Some p \<and> GetPhase pb \<in> {SHOOT, ANSWER, SECOND_REVEAL_POSITION} \<and>
    board_inv pb' \<and> pb' = reveal_done (GetPhase pb) pb p \<and>
    (GetPhase pb' = FINISHED \<or> GetPhase pb \<noteq> SECOND_REVEAL_POSITION \<and> GetPhase pb' = SECOND_REVEAL_POSITION)"
proof -
  have acc: "reveal_accepted sha mv pb" and pb': "pb' = reveal_done (GetPhase pb) pb (the (pr_position mv))"
    using assms(1) reveal_eq [OF assms(2), of sha mv] by (auto split: if_splits)
  then obtain p where p: "pr_position mv = Some p" and ph: "GetPhase pb \<in> {SHOOT, ANSWER, SECOND_REVEAL_POSITION}"
    by (auto simp: reveal_accepted_def split: option.splits)
  note facts = reveal_phase_facts [OF assms(2) ph]
  show ?thesis
  proof (cases "reveal_result (GetPhase pb) pb p")
    case None
    have "positions pb = []"
      using ph reveal_result_None(1) [OF None] by (auto simp: phase_iffs)
    then have "GetPhase pb' = SECOND_REVEAL_POSITION" "player_turn pb'" "known_ok pb'"
        "positions pb' ! unat (turn pb') = 0" "positions pb' ! unat (1 - turn pb') \<noteq> 0"
      using facts None p reveal_result_None(2) [OF None]
      by (auto simp: pb' reveal_done_def position_revealed_def phase_iffs player_turn_def known_ok_def turn_def)
    then show ?thesis
      using p ph pb' reveal_result_None(1) [OF None] by (simp add: board_inv_def)
  next
    case (Some w)
    have "GetPhase pb' = FINISHED" "bs_turn pb' = None" "bs_winner pb' = Some 0 \<or> bs_winner pb' = Some 1"
        "known_ok pb'" "length (positions pb') = 2"
      using facts Some p reveal_result_winner [OF facts(7) Some]
      by (auto simp: pb' reveal_done_def position_revealed_def phase_iffs known_ok_def)
    then show ?thesis
      using p ph pb' by (simp add: board_inv_def)
  qed
qed

subsection \<open>Every move\<close>

lemma move_total:
  assumes "good_hash sha" "board_inv pb" "length (participants meta) = 2" "bs_turn pb \<noteq> None"
  shows "ApplyMoveProto sha meta pb mv \<noteq> None"
proof -
  obtain t where "bs_turn pb = Some t"
    using assms(4) by auto
  then show ?thesis
    using assms commitment_total [of _ pb] seed_reveal_total [OF assms(1)] shot_total [OF assms(2)]
      reply_total [OF assms(2)] reveal_eq [OF assms(2)]
    by (auto simp: ApplyMoveProto_def board_inv_WhoseTurn bind_CHECK Let_def split: move_case.splits)
qed

text \<open>The effect of an accepted move, by its kind.\<close>

lemma move_cases:
  assumes "ApplyMoveProto sha meta pb mv = Some (Some pb')"
  obtains m where "bm_case mv = PositionCommitment m" "ApplyPositionCommitment m (GetPhase pb) pb = Some (Some pb')"
  | m where "bm_case mv = SeedReveal m" "ApplySeedReveal sha m (GetPhase pb) pb = Some (Some pb')"
  | m where "bm_case mv = Shot m" "ApplyShot m (GetPhase pb) pb = Some (Some pb')"
  | m where "bm_case mv = Reply m" "ApplyReply m (GetPhase pb) pb = Some (Some pb')"
  | m where "bm_case mv = PositionReveal m" "ApplyPositionReveal sha m (GetPhase pb) pb = Some (Some pb')"
  using assms by (auto simp: ApplyMoveProto_def bind_Some_iff Let_def split: move_case.splits)

lemma move_inv [inv_intros]:
  assumes "ApplyMoveProto sha meta pb mv = Some (Some pb')" "board_inv pb"
  shows "board_inv pb'"
  using assms(1)
proof (cases rule: move_cases)
  case (1 m)
  then show ?thesis using commitment_effect assms(2) by blast
next
  case (2 m)
  then show ?thesis using seed_reveal_effect assms(2) by blast
next
  case (3 m)
  then show ?thesis using shot_effect assms(2) by blast
next
  case (4 m)
  then show ?thesis using reply_effect assms(2) by blast
next
  case (5 m)
  then show ?thesis using reveal_effect assms(2) by blast
qed

lemma reachable_inv: "board_reachable sha meta pb \<Longrightarrow> board_inv pb"
  by (induction rule: board_reachable.induct) (auto intro: inv_intros)

subsection \<open>Turn count\<close>

lemma TurnCount_phase:
  assumes "length (participants meta) = 2"
  shows "GetPhase pb = FIRST_COMMITMENT \<Longrightarrow> Ships_TurnCount meta pb = Some 1"
    "GetPhase pb = SECOND_COMMITMENT \<Longrightarrow> Ships_TurnCount meta pb = Some 2"
    "GetPhase pb = FIRST_REVEAL_SEED \<Longrightarrow> Ships_TurnCount meta pb = Some 3"
    "GetPhase pb = SHOOT \<Longrightarrow> Ships_TurnCount meta pb = Some (4 + 2 * count_shots pb)"
    "GetPhase pb = ANSWER \<Longrightarrow> Ships_TurnCount meta pb = Some (4 + 2 * count_shots pb - 1)"
  using assms by (simp_all add: Ships_TurnCount_def Let_def)

lemma TurnCount_play:
  assumes "length (participants meta) = 2" "GetPhase pb \<in> {SHOOT, ANSWER, SECOND_REVEAL_POSITION, FINISHED}"
  shows "Ships_TurnCount meta pb = Some
    (count_reveals pb (4 + 2 * count_shots pb - (if bs_current_shot pb \<noteq> None then 1 else 0)))"
proof -
  have "GetPhase pb = SHOOT \<Longrightarrow> positions pb = [] \<and> bs_current_shot pb = None"
    "GetPhase pb = ANSWER \<Longrightarrow> positions pb = [] \<and> bs_current_shot pb \<noteq> None"
    by (simp_all add: phase_iffs)
  then show ?thesis
    using assms by (auto simp: Ships_TurnCount_def Let_def count_reveals_def)
qed

text \<open>A revealed position counts as a turn only through its low 32 bits.\<close>

definition uncounted_reveal :: "board_move \<Rightarrow> bool" where
  "uncounted_reveal mv \<longleftrightarrow>
     (case bm_case mv of
        PositionReveal m \<Rightarrow> (case pr_position m of Some p \<Rightarrow> (ucast p :: uint32) = 0 | None \<Rightarrow> False)
      | _ \<Rightarrow> False)"

lemma count_reveals_revealed:
  assumes "length (if positions pb = [] then [0, 0] else positions pb) = 2"
    "(if positions pb = [] then [0, 0] else positions pb) ! unat (turn pb) = 0" "turn pb = 0 \<or> turn pb = 1"
  shows "count_reveals (reveal_done ph pb p) c = count_reveals pb c + (if (ucast p :: uint32) \<noteq> 0 then 1 else 0)"
proof -
  let ?ps = "if positions pb = [] then [0, 0] else positions pb"
  have "positions (reveal_done ph pb p) = ?ps[unat (turn pb) := p]"
    by (simp add: reveal_done_def position_revealed_def split: option.split)
  then have new: "count_reveals (reveal_done ph pb p) c = count_reveals (pb\<lparr>positions := ?ps[unat (turn pb) := p]\<rparr>) c"
    by (simp add: count_reveals_def)
  have old: "count_reveals pb c = count_reveals (pb\<lparr>positions := ?ps\<rparr>) c"
    by (simp add: count_reveals_def)
  obtain a b where ab: "?ps = [a, b]"
    using length_2_conv [THEN iffD1, OF assms(1)] by (elim exE)
  from assms(3) show ?thesis
  proof
    assume "turn pb = 0"
    moreover from this have "a = 0"
      using assms(2) unfolding ab by simp
    ultimately show ?thesis
      unfolding new old ab by (simp add: count_reveals_def)
  next
    assume "turn pb = 1"
    moreover from this have "b = 0"
      using assms(2) unfolding ab by simp
    ultimately show ?thesis
      unfolding new old ab by (simp add: count_reveals_def)
  qed
qed

lemma TurnCount_move:
  assumes "ApplyMoveProto sha meta pb mv = Some (Some pb')" "board_inv pb" "length (participants meta) = 2"
  shows "\<exists>n. Ships_TurnCount meta pb = Some n \<and>
    Ships_TurnCount meta pb' = Some (if uncounted_reveal mv then n else n + 1)"
proof -
  note tc = TurnCount_phase [OF assms(3)]
  show ?thesis
    using assms(1)
  proof (cases rule: move_cases)
    case (1 m)
    then show ?thesis
      using commitment_effect [OF 1(2) assms(2)] tc by (auto simp: uncounted_reveal_def)
  next
    case (2 m)
    then show ?thesis
      using seed_reveal_effect [OF 2(2) assms(2)] tc by (auto simp: uncounted_reveal_def)
  next
    case (3 m)
    then show ?thesis
      using shot_effect [OF 3(2) assms(2)] tc by (auto simp: uncounted_reveal_def)
  next
    case (4 m)
    then show ?thesis
      using reply_effect [OF 4(2) assms(2)] tc by (auto simp: uncounted_reveal_def)
  next
    case (5 m)
    then obtain p where p: "pr_position m = Some p"
      and ph: "GetPhase pb \<in> {SHOOT, ANSWER, SECOND_REVEAL_POSITION}"
        "GetPhase pb' = FINISHED \<or> GetPhase pb' = SECOND_REVEAL_POSITION"
      and pb': "pb' = reveal_done (GetPhase pb) pb p"
      using reveal_effect [OF 5(2) assms(2)] by blast
    have same: "count_shots pb' = count_shots pb" "bs_current_shot pb' = bs_current_shot pb"
      by (simp_all add: pb' reveal_done_def position_revealed_def count_shots_def split: option.split)
    show ?thesis
      using TurnCount_play [OF assms(3), of pb] TurnCount_play [OF assms(3), of pb'] ph 5(1) p
        count_reveals_revealed [OF reveal_phase_facts(5,6,7) [OF assms(2) ph(1)], of "GetPhase pb" p]
      unfolding pb' [symmetric] same by (auto simp: uncounted_reveal_def)
  qed
qed

text \<open>The turn count stays far below the range of its type.\<close>

lemma TurnCount_bound:
  assumes "board_inv pb" "length (participants meta) = 2"
  shows "\<exists>n. Ships_TurnCount meta pb = Some n \<and> 1 \<le> unat n \<and> unat n \<le> 262"
proof (cases "GetPhase pb \<in> {SHOOT, ANSWER, SECOND_REVEAL_POSITION, FINISHED}")
  case False
  then show ?thesis
    using board_inv_phase(8) [OF assms(1)] TurnCount_phase(1-3) [OF assms(2), of pb]
    by (cases "GetPhase pb") simp_all
next
  case True
  then have "known_ok pb" and pos: "length (positions pb) \<le> 2"
    using board_inv_phase [OF assms(1)] by (auto simp: phase_iffs)
  then obtain k0 k1 where k: "known_ships pb = [k0, k1]"
    using inv_known_pair by metis
  define s where "s = nat (Grid_CountOnes \<lparr>bits = guessed k0\<rparr> + Grid_CountOnes \<lparr>bits = guessed k1\<rparr>)"
  have s: "s \<le> 128" "count_shots pb = of_nat s"
    using CountOnes_bound [of "\<lparr>bits = guessed k0\<rparr>"] CountOnes_bound [of "\<lparr>bits = guessed k1\<rparr>"]
    by (simp_all add: s_def k count_shots_def CountOnes_card nat_add_distrib)
  define b where "b = 4 + 2 * s - (if bs_current_shot pb \<noteq> None then 1 else 0)"
  have b: "1 \<le> b" "b \<le> 260" "4 + 2 * count_shots pb - (if bs_current_shot pb \<noteq> None then 1 else 0) = of_nat b"
    using s by (auto simp: b_def of_nat_diff)
  have "\<exists>m. b \<le> m \<and> m \<le> b + length (positions pb) \<and> count_reveals pb (of_nat b) = of_nat m"
  proof -
    have "\<exists>m. b \<le> m \<and> m \<le> b + length ps \<and>
      fold (\<lambda>p cnt. if (ucast p :: uint32) \<noteq> 0 then cnt + 1 else cnt) (ps :: uint64 list) (of_nat b) = (of_nat m :: uint32)"
      for ps b
    proof (induction ps arbitrary: b)
      case (Cons p ps)
      show ?case
        using Cons.IH [of b] Cons.IH [of "Suc b"]
        by (cases "(ucast p :: uint32) = 0") (auto simp: add.commute intro: le_SucI Suc_leD)
    qed auto
    then show ?thesis
      by (simp add: count_reveals_def)
  qed
  then obtain m where m: "b \<le> m" "m \<le> b + length (positions pb)" "count_reveals pb (of_nat b) = of_nat m"
    by blast
  moreover from m have "m \<le> 262"
    using b(2) pos by simp
  then have "unat (of_nat m :: uint32) = m"
    by (simp add: unat_of_nat)
  ultimately show ?thesis
    using TurnCount_play [OF assms(2) True] b \<open>m \<le> 262\<close> by simp
qed

text \<open>A sequence of moves, all of them accepted.\<close>

fun play :: "(string \<Rightarrow> uint256) \<Rightarrow> channel_metadata \<Rightarrow> board_state \<Rightarrow> board_move list \<Rightarrow> board_state option" where
  "play sha meta pb [] = Some pb"
| "play sha meta pb (mv # mvs) =
     (case ApplyMoveProto sha meta pb mv of Some (Some pb') \<Rightarrow> play sha meta pb' mvs | _ \<Rightarrow> None)"

lemma play_inv: "play sha meta pb mvs = Some pb' \<Longrightarrow> board_inv pb \<Longrightarrow> board_inv pb'"
  by (induction mvs arbitrary: pb) (auto split: option.splits dest: move_inv)

lemma finished_no_move:
  assumes "length (participants meta) = 2" "bs_turn pb = None"
  shows "ApplyMoveProto sha meta pb mv = None"
  using assms by (simp add: ApplyMoveProto_def Ships_WhoseTurn_def bind_CHECK)

lemma play_length:
  assumes "play sha meta pb mvs = Some pb'" "board_inv pb" "length (participants meta) = 2"
    "Ships_TurnCount meta pb = Some n" "Ships_TurnCount meta pb' = Some n'"
  shows "unat n + length mvs \<le> unat n' + length (filter uncounted_reveal mvs)"
  using assms
proof (induction mvs arbitrary: pb n)
  case (Cons mv mvs)
  then obtain pb1 where step: "ApplyMoveProto sha meta pb mv = Some (Some pb1)"
    and rest: "play sha meta pb1 mvs = Some pb'"
    by (auto split: option.splits)
  have inv1: "board_inv pb1"
    using step Cons.prems(2) by (rule move_inv)
  have tc1: "Ships_TurnCount meta pb1 = Some (if uncounted_reveal mv then n else n + 1)"
    using TurnCount_move [OF step Cons.prems(2,3)] Cons.prems(4) by auto
  have n: "unat n \<le> 262"
    using TurnCount_bound [OF Cons.prems(2,3)] Cons.prems(4) by auto
  then have "unat (n + 1) = unat n + 1"
    by (simp add: unat_word_ariths)
  with Cons.IH [OF rest inv1 Cons.prems(3) tc1 Cons.prems(5)] show ?case
    by (auto split: if_splits)
qed simp

text \<open>There are at most two reveals in a game: after the first one only a second one is possible, and
  after that one the game is finished.\<close>

lemma play_reveals:
  assumes "play sha meta pb mvs = Some pb'" "board_inv pb" "length (participants meta) = 2"
  shows "length (filter uncounted_reveal mvs) \<le>
    (if GetPhase pb = FINISHED then 0 else if GetPhase pb = SECOND_REVEAL_POSITION then 1 else 2)"
  using assms
proof (induction mvs arbitrary: pb)
  case (Cons mv mvs)
  then obtain pb1 where step: "ApplyMoveProto sha meta pb mv = Some (Some pb1)"
    and rest: "play sha meta pb1 mvs = Some pb'"
    by (auto split: option.splits)
  have inv1: "board_inv pb1"
    using step Cons.prems(2) by (rule move_inv)
  have notfin: "GetPhase pb \<noteq> FINISHED"
    using step finished_no_move [OF Cons.prems(3), of pb sha mv] board_inv_phase(7) [OF Cons.prems(2)] by auto
  have IH: "length (filter uncounted_reveal mvs) \<le>
      (if GetPhase pb1 = FINISHED then 0 else if GetPhase pb1 = SECOND_REVEAL_POSITION then 1 else 2)"
    using Cons.IH [OF rest inv1 Cons.prems(3)] .
  show ?case
    using step
  proof (cases rule: move_cases)
    case (1 m)
    then show ?thesis
      using commitment_effect [OF 1(2) Cons.prems(2)] IH by (auto simp: uncounted_reveal_def [of mv])
  next
    case (2 m)
    then show ?thesis
      using seed_reveal_effect [OF 2(2) Cons.prems(2)] IH by (auto simp: uncounted_reveal_def [of mv])
  next
    case (3 m)
    then show ?thesis
      using shot_effect [OF 3(2) Cons.prems(2)] IH by (auto simp: uncounted_reveal_def [of mv])
  next
    case (4 m)
    then show ?thesis
      using reply_effect [OF 4(2) Cons.prems(2)] IH by (auto simp: uncounted_reveal_def [of mv])
  next
    case (5 m)
    then have "GetPhase pb1 = FINISHED \<or> GetPhase pb \<noteq> SECOND_REVEAL_POSITION \<and> GetPhase pb1 = SECOND_REVEAL_POSITION"
      using reveal_effect [OF 5(2) Cons.prems(2)] by blast
    then show ?thesis
      using IH notfin by auto
  qed
qed simp

lemma play_bounded:
  assumes "play sha meta pb mvs = Some pb'" "board_inv pb" "length (participants meta) = 2"
  shows "length mvs \<le> 263"
proof -
  obtain n n' where "Ships_TurnCount meta pb = Some n" "1 \<le> unat n"
    "Ships_TurnCount meta pb' = Some n'" "unat n' \<le> 262"
    using TurnCount_bound [OF assms(2,3)] TurnCount_bound [OF play_inv [OF assms(1,2)] assms(3)] by auto
  moreover have "length (filter uncounted_reveal mvs) \<le> 2"
    using play_reveals [OF assms] by (auto split: if_splits)
  ultimately show ?thesis
    using play_length [OF assms, of n n'] by linarith
qed

subsection \<open>Properties\<close>

text \<open>A channel of two players and a hash function with the law, for the witnesses.\<close>

definition example_meta :: channel_metadata where
  "example_meta =
     \<lparr>cm_unknown = False,
      participants = [\<lparr>cp_unknown = False, cp_name = Some ''a'', cp_address = Some ''addr a''\<rparr>,
                      \<lparr>cp_unknown = False, cp_name = Some ''b'', cp_address = Some ''addr b''\<rparr>],
      cm_reinit = Some [], cm_custom = None\<rparr>"

definition example_sha :: "string \<Rightarrow> uint256" where
  "example_sha s = replicate 32 1"

lemma example_facts:
  "length (participants example_meta) = 2" "good_hash example_sha"
  by (simp_all add: example_meta_def good_hash_def example_sha_def wf_uint256_def NUM_BYTES_def IsNull_def list_all_iff)

definition plain_move :: "move_case \<Rightarrow> board_move" where
  "plain_move c = \<lparr>bm_unknown = False, bm_nested_unknown = False, bm_case = c\<rparr>"

definition example_opening :: "board_move list" where
  "example_opening =
     (let h = string_of_bytes (replicate 32 1) in
      map plain_move
       [PositionCommitment \<lparr>pc_position_hash = Some h, pc_seed_hash = Some h, pc_seed = None\<rparr>,
        PositionCommitment \<lparr>pc_position_hash = Some h, pc_seed_hash = None, pc_seed = Some ''x''\<rparr>,
        SeedReveal \<lparr>sr_seed = Some ''y''\<rparr>])"

lemma play_reachable:
  assumes "play sha meta pb mvs = Some pb'" "board_reachable sha meta pb" "length (participants meta) = 2"
  shows "board_reachable sha meta pb'"
  using assms
proof (induction mvs arbitrary: pb)
  case (Cons mv mvs)
  then obtain pb1 where step: "ApplyMoveProto sha meta pb mv = Some (Some pb1)"
    and rest: "play sha meta pb1 mvs = Some pb'"
    by (auto split: option.splits)
  have "bs_turn pb \<noteq> None"
    using step finished_no_move [OF Cons.prems(3), of pb sha mv] by auto
  then show ?case
    using Cons.IH [OF rest] Cons.prems step board_reachable.step by blast
qed simp

text \<open>C19. Every state that a game reaches from the initial board state by accepted moves is valid, it
  is the turn of one of the two players or nobody's, and it is nobody's turn exactly when the game
  has a winner, who is one of the two players.\<close>

theorem reachable_board_valid:
  assumes "board_reachable sha meta pb" "length (participants meta) = 2"
  shows "IsValid meta pb = Some True \<and> Ships_WhoseTurn meta pb \<in> {Some NO_TURN, Some 0, Some 1} \<and>
    (Ships_WhoseTurn meta pb = Some NO_TURN \<longleftrightarrow> bs_winner pb \<noteq> None) \<and>
    bs_winner pb \<in> {None, Some 0, Some 1}"
proof -
  have inv: "board_inv pb"
    using assms(1) by (rule reachable_inv)
  have "bs_turn pb \<noteq> None \<Longrightarrow> bs_turn pb = Some 0 \<or> bs_turn pb = Some 1"
    by (rule inv_turn_cases [OF inv])
  moreover have "bs_turn pb = None \<longleftrightarrow> bs_winner pb \<noteq> None" "bs_winner pb \<in> {None, Some 0, Some 1}"
    using inv board_inv_phase(7) [OF inv] phase_iffs(1) [of pb]
    by (auto simp: board_inv_def player_turn_def split: Phase.splits)
  ultimately show ?thesis
    using board_inv_valid [OF inv assms(2)] board_inv_WhoseTurn [OF inv assms(2)]
    by (cases "bs_turn pb") (auto simp: NO_TURN_def)
qed

theorem reachable_board_valid_witness:
  "IsValid example_meta InitialBoardState = Some True"
  using reachable_board_valid [OF board_reachable.start example_facts(1)] by blast

text \<open>C18. In a game that is not over, applying any move never aborts the process: a move is either
  refused or leads to a valid state.\<close>

theorem ApplyMoveProto_safe:
  assumes "good_hash sha" "board_reachable sha meta pb" "length (participants meta) = 2" "bs_winner pb = None"
  shows "ApplyMoveProto sha meta pb mv = Some None \<or>
    (\<exists>pb'. ApplyMoveProto sha meta pb mv = Some (Some pb') \<and> IsValid meta pb' = Some True)"
proof -
  have inv: "board_inv pb"
    using assms(2) by (rule reachable_inv)
  then have "bs_turn pb \<noteq> None"
    using assms(4) by (auto simp: board_inv_def player_turn_def phase_iffs split: Phase.splits)
  then obtain r where "ApplyMoveProto sha meta pb mv = Some r"
    using move_total [OF assms(1) inv assms(3)] by blast
  then show ?thesis
    using move_inv [OF _ inv] board_inv_valid [OF _ assms(3)] by (cases r) auto
qed

theorem ApplyMoveProto_safe_witness:
  "ApplyMoveProto example_sha example_meta InitialBoardState (plain_move MOVE_NOT_SET) = Some None \<or>
   (\<exists>pb'. ApplyMoveProto example_sha example_meta InitialBoardState (plain_move MOVE_NOT_SET) = Some (Some pb')
     \<and> IsValid example_meta pb' = Some True)"
  by (rule ApplyMoveProto_safe [OF example_facts(2) board_reachable.start example_facts(1)])
    (simp add: InitialBoardState_def)

text \<open>An accepted move increases the turn count by one, with no wrap-around, the one exception
  being a revealed position whose low 32 bits are all zero, which leaves it unchanged.\<close>

theorem TurnCount_increases:
  assumes "board_reachable sha meta pb" "length (participants meta) = 2"
    "ApplyMoveProto sha meta pb mv = Some (Some pb')"
  shows "\<exists>n n'. Ships_TurnCount meta pb = Some n \<and> Ships_TurnCount meta pb' = Some n' \<and>
    unat n' = unat n + (if uncounted_reveal mv then 0 else 1)"
proof -
  have inv: "board_inv pb"
    using assms(1) by (rule reachable_inv)
  obtain n where n: "Ships_TurnCount meta pb = Some n" "unat n \<le> 262"
    using TurnCount_bound [OF inv assms(2)] by blast
  moreover from n(2) have "unat (n + 1) = unat n + 1"
    by (simp add: unat_word_ariths)
  ultimately show ?thesis
    using TurnCount_move [OF assms(3) inv assms(2)] by auto
qed

theorem TurnCount_increases_witness:
  "\<exists>n n'. Ships_TurnCount example_meta InitialBoardState = Some n \<and>
    Ships_TurnCount example_meta (the (play example_sha example_meta InitialBoardState [hd example_opening])) = Some n' \<and>
    unat n' = unat n + (if uncounted_reveal (hd example_opening) then 0 else 1)"
proof (rule TurnCount_increases [OF board_reachable.start example_facts(1)])
  show "ApplyMoveProto example_sha example_meta InitialBoardState (hd example_opening) =
    Some (Some (the (play example_sha example_meta InitialBoardState [hd example_opening])))"
    by code_simp
qed

text \<open>The exception is real: a player can commit to the empty position and reveal it after the
  opening, and the turn count of the finished game is that of the state before.\<close>

theorem TurnCount_stuck_reveal:
  "\<exists>pb pb'. play example_sha example_meta InitialBoardState example_opening = Some pb \<and>
    ApplyMoveProto example_sha example_meta pb
      (plain_move (PositionReveal \<lparr>pr_position = Some 0, pr_salt = None\<rparr>)) = Some (Some pb') \<and>
    pb' \<noteq> pb \<and> Ships_TurnCount example_meta pb = Ships_TurnCount example_meta pb'"
proof -
  let ?pb = "the (play example_sha example_meta InitialBoardState example_opening)"
  let ?mv = "plain_move (PositionReveal \<lparr>pr_position = Some 0, pr_salt = None\<rparr>)"
  let ?pb' = "the (the (ApplyMoveProto example_sha example_meta ?pb ?mv))"
  have "play example_sha example_meta InitialBoardState example_opening = Some ?pb"
    by code_simp
  moreover have "ApplyMoveProto example_sha example_meta ?pb ?mv = Some (Some ?pb')"
    by code_simp
  moreover have "bs_turn ?pb' \<noteq> bs_turn ?pb"
    by code_simp
  then have "?pb' \<noteq> ?pb"
    by (rule contrapos_nn) (rule arg_cong)
  moreover have "Ships_TurnCount example_meta ?pb = Ships_TurnCount example_meta ?pb'"
    by code_simp
  ultimately show ?thesis
    by (intro exI conjI)
qed

text \<open>C20. Revealing a position decides the game by its rules.  A reveal that does not open the
  commitment, or comes in the wrong phase, is refused.  An accepted one is recorded, and its outcome
  is that of \<open>reveal_result\<close>: the player loses with an illegal fleet or wrong answers, otherwise
  the first one to reveal wins exactly if all ships of the opponent have been hit, and else the
  opponent has to reveal and wins with a correct position.\<close>

theorem ApplyPositionReveal_decides:
  assumes "board_reachable sha meta pb"
  shows "ApplyPositionReveal sha mv (GetPhase pb) pb =
    Some (if reveal_accepted sha mv pb then Some (reveal_done (GetPhase pb) pb (the (pr_position mv))) else None)"
  using reveal_eq [OF reachable_inv [OF assms]] .

theorem ApplyPositionReveal_decides_witness:
  "ApplyPositionReveal example_sha \<lparr>pr_position = Some 0, pr_salt = None\<rparr> (GetPhase InitialBoardState) InitialBoardState =
    Some (if reveal_accepted example_sha \<lparr>pr_position = Some 0, pr_salt = None\<rparr> InitialBoardState
      then Some (reveal_done (GetPhase InitialBoardState) InitialBoardState 0) else None)"
  using ApplyPositionReveal_decides [OF board_reachable.start [of example_sha example_meta],
      of "\<lparr>pr_position = Some 0, pr_salt = None\<rparr>"] by simp

text \<open>C21. Games are finite: no sequence of accepted moves from the initial state is longer than
  263.\<close>

theorem game_length_bounded:
  assumes "length (participants meta) = 2" "play sha meta InitialBoardState mvs = Some pb"
  shows "length mvs \<le> 263"
  using assms(2) board_inv_initial assms(1) by (rule play_bounded)

theorem game_length_bounded_witness: "length example_opening \<le> 263"
proof (rule game_length_bounded [OF example_facts(1)])
  show "play example_sha example_meta InitialBoardState example_opening =
    Some (the (play example_sha example_meta InitialBoardState example_opening))"
    by code_simp
qed

definition odd_state :: board_state where
  "odd_state = InitialBoardState\<lparr>bs_turn := Some 1, position_hashes := [string_of_bytes (replicate 32 1)],
     known_ships := [fresh_known_ships]\<rparr>"

text \<open>Validity of a state alone does not protect later steps: a state that both players could sign,
  with one commitment and a single entry of known ships, is valid, the second commitment is
  accepted in it, and the resulting state is invalid.\<close>

theorem valid_state_invalid_successor:
  "\<exists>pb'. IsValid example_meta odd_state = Some True \<and>
    ApplyMoveProto example_sha example_meta odd_state (example_opening ! 1) = Some (Some pb') \<and>
    IsValid example_meta pb' = Some False"
proof -
  let ?pb' = "the (the (ApplyMoveProto example_sha example_meta odd_state (example_opening ! 1)))"
  have "IsValid example_meta odd_state = Some True"
    by code_simp
  moreover have "ApplyMoveProto example_sha example_meta odd_state (example_opening ! 1) = Some (Some ?pb')"
    by code_simp
  moreover have "IsValid example_meta ?pb' = Some False"
    by code_simp
  ultimately show ?thesis
    by blast
qed

end
