(* ===== verification/Ships_Codec.thy ===== *)
theory Ships_Codec
  imports Board
begin

text \<open>
  A codec for the protocol buffers of Xayaships.  Serialising and parsing messages is protobuf's
  code and a parameter of the board rules; what the rules rely on is that a serialised state parses
  to the same state.  This theory has a codec with that property, made of varints, tagged optional
  fields and length-prefixed strings and lists, and serves to instantiate the parameter.
\<close>

type_synonym 'a decoder = "string \<Rightarrow> ('a \<times> string) option"

named_theorems codec \<open>decoding what was encoded\<close>

fun enc_nat :: "nat \<Rightarrow> string" where
  "enc_nat n = (if n < 128 then [char_of n] else char_of (128 + n mod 128) # enc_nat (n div 128))"

declare enc_nat.simps [simp del]

fun dec_nat :: "nat decoder" where
  "dec_nat [] = None"
| "dec_nat (c # cs) =
     (if of_char c < (128 :: nat) then Some (of_char c, cs)
      else do { (n, rest) \<leftarrow> dec_nat cs; Some (of_char c - 128 + 128 * n, rest) })"

lemma dec_enc_nat [codec]: "dec_nat (enc_nat n @ r) = Some (n, r)"
proof (induction n rule: enc_nat.induct)
  case (1 n)
  show ?case
  proof (cases "n < 128")
    case True
    then show ?thesis
      by (simp add: enc_nat.simps [of n])
  next
    case False
    have "128 + n mod 128 < 256"
      by (simp add: add.commute)
    then have "of_char (char_of (128 + n mod 128) :: char) = 128 + n mod 128"
      by simp
    with False 1 show ?thesis
      by (simp add: enc_nat.simps [of n])
  qed
qed

definition enc_str :: "string \<Rightarrow> string" where
  "enc_str s = enc_nat (length s) @ s"

definition dec_str :: "string decoder" where
  "dec_str s = do { (n, r) \<leftarrow> dec_nat s; if n \<le> length r then Some (take n r, drop n r) else None }"

lemma dec_enc_str [codec]: "dec_str (enc_str s @ r) = Some (s, r)"
  by (simp add: enc_str_def dec_str_def codec)

definition enc_bool :: "bool \<Rightarrow> string" where
  "enc_bool b = enc_nat (of_bool b)"

definition dec_bool :: "bool decoder" where
  "dec_bool s = do { (n, r) \<leftarrow> dec_nat s; Some (n \<noteq> 0, r) }"

lemma dec_enc_bool [codec]: "dec_bool (enc_bool b @ r) = Some (b, r)"
  by (simp add: enc_bool_def dec_bool_def codec)

definition enc_word :: "'a :: len word \<Rightarrow> string" where
  "enc_word w = enc_nat (unat w)"

definition dec_word :: "'a :: len word decoder" where
  "dec_word s = do { (n, r) \<leftarrow> dec_nat s; Some (of_nat n, r) }"

lemma dec_enc_word [codec]: "dec_word (enc_word w @ r) = Some (w, r)"
  by (simp add: enc_word_def dec_word_def codec)

definition enc_opt :: "('a \<Rightarrow> string) \<Rightarrow> 'a option \<Rightarrow> string" where
  "enc_opt e v = (case v of None \<Rightarrow> enc_nat 0 | Some x \<Rightarrow> enc_nat 1 @ e x)"

definition dec_opt :: "'a decoder \<Rightarrow> 'a option decoder" where
  "dec_opt d s =
     do { (n, r) \<leftarrow> dec_nat s; if n = 0 then Some (None, r) else do { (x, r') \<leftarrow> d r; Some (Some x, r') } }"

lemma dec_enc_opt [codec]:
  assumes "\<And>x r. d (e x @ r) = Some (x, r)"
  shows "dec_opt d (enc_opt e v @ r) = Some (v, r)"
  by (cases v) (simp_all add: enc_opt_def dec_opt_def codec assms)

fun dec_many :: "'a decoder \<Rightarrow> nat \<Rightarrow> 'a list decoder" where
  "dec_many d 0 s = Some ([], s)"
| "dec_many d (Suc n) s = do { (x, r) \<leftarrow> d s; (xs, r') \<leftarrow> dec_many d n r; Some (x # xs, r') }"

definition enc_list :: "('a \<Rightarrow> string) \<Rightarrow> 'a list \<Rightarrow> string" where
  "enc_list e xs = enc_nat (length xs) @ concat (map e xs)"

definition dec_list :: "'a decoder \<Rightarrow> 'a list decoder" where
  "dec_list d s = do { (n, r) \<leftarrow> dec_nat s; dec_many d n r }"

lemma dec_enc_list [codec]:
  assumes "\<And>x r. d (e x @ r) = Some (x, r)"
  shows "dec_list d (enc_list e xs @ r) = Some (xs, r)"
proof -
  have "dec_many d (length xs) (concat (map e xs) @ r) = Some (xs, r)"
    by (induction xs) (simp_all add: assms)
  then show ?thesis
    by (simp add: enc_list_def dec_list_def codec)
qed

subsection \<open>Board states and moves\<close>

definition enc_known :: "known_ships \<Rightarrow> string" where
  "enc_known k = enc_bool (ks_unknown k) @ enc_opt enc_word (ks_guessed k) @ enc_opt enc_word (ks_hits k)"

definition dec_known :: "known_ships decoder" where
  "dec_known s =
     do {
       (u, r1) \<leftarrow> dec_bool s; (g, r2) \<leftarrow> dec_opt dec_word r1; (h, r3) \<leftarrow> dec_opt dec_word r2;
       Some (\<lparr>ks_unknown = u, ks_guessed = g, ks_hits = h\<rparr>, r3)
     }"

lemma dec_enc_known [codec]: "dec_known (enc_known k @ r) = Some (k, r)"
  by (simp add: enc_known_def dec_known_def codec)

definition ser_board_state :: "board_state \<Rightarrow> string" where
  "ser_board_state s =
     enc_bool (bs_unknown s) @ enc_opt enc_word (bs_turn s) @ enc_list enc_str (position_hashes s)
     @ enc_opt enc_str (bs_seed_hash_0 s) @ enc_opt enc_str (bs_seed_1 s)
     @ enc_list enc_known (known_ships s) @ enc_opt enc_word (bs_current_shot s)
     @ enc_list enc_word (positions s) @ enc_opt enc_word (bs_winner s)"

definition par_board_state :: "string \<Rightarrow> board_state option" where
  "par_board_state s =
     do {
       (u, r) \<leftarrow> dec_bool s; (t, r) \<leftarrow> dec_opt dec_word r; (ph, r) \<leftarrow> dec_list dec_str r;
       (sh, r) \<leftarrow> dec_opt dec_str r; (s1, r) \<leftarrow> dec_opt dec_str r;
       (ks, r) \<leftarrow> dec_list dec_known r; (cs, r) \<leftarrow> dec_opt dec_word r;
       (ps, r) \<leftarrow> dec_list dec_word r; (w, r) \<leftarrow> dec_opt dec_word r;
       if r = [] then
         Some \<lparr>bs_unknown = u, bs_turn = t, position_hashes = ph, bs_seed_hash_0 = sh, bs_seed_1 = s1,
           known_ships = ks, bs_current_shot = cs, positions = ps, bs_winner = w\<rparr>
       else None
     }"

lemma par_ser_board_state: "par_board_state (ser_board_state s) = Some s"
proof -
  have "dec_opt dec_word (enc_opt enc_word (bs_winner s)) = Some (bs_winner s, [])"
    using dec_enc_opt [of dec_word enc_word "bs_winner s" "[]"] by (simp add: codec)
  then show ?thesis
    by (simp add: par_board_state_def ser_board_state_def codec)
qed

text \<open>The moves: the case by its number.\<close>

definition par_board_move :: "string \<Rightarrow> board_move option" where
  "par_board_move s =
     do {
       (n, r) \<leftarrow> dec_nat s;
       map_option (\<lambda>c. \<lparr>bm_unknown = False, bm_nested_unknown = False, bm_case = c\<rparr>)
         (if n = 0 then Some MOVE_NOT_SET
          else if n = 1 then
            do { (a, r) \<leftarrow> dec_opt dec_str r; (b, r) \<leftarrow> dec_opt dec_str r; (c, r) \<leftarrow> dec_opt dec_str r;
                 Some (PositionCommitment \<lparr>pc_position_hash = a, pc_seed_hash = b, pc_seed = c\<rparr>) }
          else if n = 2 then do { (a, r) \<leftarrow> dec_opt dec_str r; Some (SeedReveal \<lparr>sr_seed = a\<rparr>) }
          else if n = 3 then do { (a, r) \<leftarrow> dec_opt dec_word r; Some (Shot \<lparr>sh_location = a\<rparr>) }
          else if n = 4 then
            do { (a, r) \<leftarrow> dec_opt dec_nat r;
                 Some (Reply \<lparr>rm_reply = map_option (\<lambda>k. if k = 1 then HIT else if k = 2 then MISS
                   else REPLY_INVALID) a\<rparr>) }
          else if n = 5 then
            do { (a, r) \<leftarrow> dec_opt dec_word r; (b, r) \<leftarrow> dec_opt dec_str r;
                 Some (PositionReveal \<lparr>pr_position = a, pr_salt = b\<rparr>) }
          else None)
     }"

end
