(* ===== verification/Ships_Rules.thy ===== *)
theory Ships_Rules
  imports State_Proof Ships_Codec
begin

text \<open>
  Xayaships as rules of a game channel: the record of \<open>ProtoBoardRules<ShipsBoardState>\<close>
  (\<open>src/ships/board.hpp\<close>), with SHA-256 and the protobuf codec as parameters.

  The locale \<open>board_progress\<close> extends the contract of equality by what makes state proofs safe
  to verify: on the good states nothing aborts, and a move leads to a good state again.  Ships
  fulfil it on the states of the invariant of theory \<open>Board\<close>, for every codec that parses
  what it serialises.
\<close>

record ships_codec =
  sc_parse_state :: "string \<Rightarrow> board_state option"
  sc_serialise_state :: "board_state \<Rightarrow> string"
  sc_parse_move :: "string \<Rightarrow> board_move option"

definition reflect_board_state :: "board_state \<Rightarrow> message" where
  "reflect_board_state s =
     Message (bs_unknown s) (map (\<lambda>k. Message (ks_unknown k) []) (known_ships s))"

definition reflect_board_move :: "board_move \<Rightarrow> message" where
  "reflect_board_move m =
     Message (bm_unknown m) (if bm_case m = MOVE_NOT_SET then [] else [Message (bm_nested_unknown m) []])"

definition ShipsBoardRules_GetProtoVersion :: "channel_metadata \<Rightarrow> ChannelProtoVersion" where
  "ShipsBoardRules_GetProtoVersion m = ORIGINAL"

definition ships_game :: "(string \<Rightarrow> uint256) \<Rightarrow> ships_codec \<Rightarrow> (board_state, board_move) proto_game" where
  "ships_game sha cd =
     \<lparr>parse_state = sc_parse_state cd, serialise_state = sc_serialise_state cd, parse_move = sc_parse_move cd,
      reflect_state = reflect_board_state, reflect_move = reflect_board_move,
      game_IsValid = IsValid, game_WhoseTurn = Ships_WhoseTurn, game_TurnCount = Ships_TurnCount,
      game_ApplyMoveProto = ApplyMoveProto sha, game_ProtoVersion = ShipsBoardRules_GetProtoVersion\<rparr>"

definition ShipsBoardRules ::
    "(string \<Rightarrow> uint256) \<Rightarrow> ships_codec \<Rightarrow> board_state proto_board_state board_rules" where
  "ShipsBoardRules sha cd = ProtoBoardRules (ships_game sha cd)"

subsection \<open>The contract of progress\<close>

locale board_progress = board_equality rules for rules :: "'ps board_rules" +
  fixes good :: "uint256 \<Rightarrow> channel_metadata \<Rightarrow> 'ps \<Rightarrow> bool"
  assumes parse_total: "length (participants meta) = 2 \<Longrightarrow> \<exists>r. ParseState rules cid meta s = Some r"
    and good_turn: "good cid meta p \<Longrightarrow> \<exists>t. WhoseTurn rules p = Some t \<and> (t = NO_TURN \<or> 0 \<le> t \<and> t < 2)"
    and good_count: "good cid meta p \<Longrightarrow> \<exists>n. TurnCount rules p = Some n"
    and good_move: "good cid meta p \<Longrightarrow> WhoseTurn rules p = Some t \<Longrightarrow> t \<noteq> NO_TURN \<Longrightarrow>
      ApplyMove rules p mv = Some None \<or>
      (\<exists>s' p'. ApplyMove rules p mv = Some (Some s') \<and> ParseState rules cid meta s' = Some (Some p') \<and>
        good cid meta p')"

locale safe_channel = board_progress rules good + channel_services env
  for rules :: "'ps board_rules" and good and env :: channel_env
begin

lemma transition_safe:
  assumes "good cid meta p"
  shows "ExtraVerifyStateTransition env rules cid meta p t = Some None \<or>
    (\<exists>sigs p'. ExtraVerifyStateTransition env rules cid meta p t = Some (Some (sigs, p')) \<and> good cid meta p')"
proof -
  obtain turn where turn: "WhoseTurn rules p = Some turn"
    using good_turn [OF assms] by blast
  show ?thesis
  proof (cases "turn = NO_TURN")
    case False
    then show ?thesis
      using good_move [OF assms turn False, of "move t"] turn state_signers [of cid meta "new_state t"]
      by (auto simp: ExtraVerifyStateTransition_def)
  qed (simp add: ExtraVerifyStateTransition_def turn)
qed

lemma loop_safe: "good cid meta p \<Longrightarrow> \<exists>r. VerifyStateProof_loop env rules cid meta ts sigs p e = Some r"
proof (induction ts arbitrary: sigs p e)
  case (Cons t ts)
  then show ?case
    using transition_safe [OF Cons.prems, of t] by auto
qed simp

lemma chain_good: "state_chain env rules cid meta p ts S q \<Longrightarrow> good cid meta p \<Longrightarrow> good cid meta q"
proof (induction rule: state_chain.induct)
  case (cons p t sigs p' ts S q)
  then show ?case
    using transition_safe [OF cons.prems, of t] by (auto simp: ExtraVerify_iff [symmetric])
qed

lemma Verify_total:
  assumes "length (participants meta) = 2"
    and "\<And>p. ParseState rules cid meta (data (initial_state proof)) = Some (Some p) \<Longrightarrow> good cid meta p"
  shows "\<exists>r. VerifyStateProof env rules cid meta reinitState proof = Some r"
proof -
  obtain r where r: "ParseState rules cid meta (data (initial_state proof)) = Some r"
    using parse_total [OF assms(1)] by blast
  show ?thesis
  proof (cases r)
    case None
    then show ?thesis
      by (simp add: VerifyStateProof_def state_signers r)
  next
    case (Some p)
    then obtain l where "VerifyStateProof_loop env rules cid meta (transitions proof)
        (signers env cid meta ''state'' (initial_state proof)) p (data (initial_state proof)) = Some l"
      using loop_safe [OF assms(2)] r by blast
    then show ?thesis
      using r Some by (cases l) (auto simp: VerifyStateProof_def state_signers Let_def)
  qed
qed

lemma Verify_good:
  assumes "VerifyStateProof env rules cid meta reinitState proof = Some (Some e)"
    and "\<And>p. ParseState rules cid meta (data (initial_state proof)) = Some (Some p) \<Longrightarrow> good cid meta p"
  shows "\<exists>q. ParseState rules cid meta e = Some (Some q) \<and> good cid meta q"
proof -
  obtain q where q: "valid_proof env rules cid meta reinitState proof q" and e: "e = UnverifiedProofEndState proof"
    using assms(1) by (auto simp: VerifyStateProof_iff)
  then have "good cid meta q"
    using assms(2) chain_good by (auto simp: valid_proof_def)
  then show ?thesis
    using proof_end_parses [OF q] e by blast
qed

end

subsection \<open>Ships fulfil the contract\<close>

definition plain_board :: "board_state \<Rightarrow> bool" where
  "plain_board s \<longleftrightarrow> \<not> HasAnyUnknownFields (reflect_board_state s)"

definition ships_good :: "uint256 \<Rightarrow> channel_metadata \<Rightarrow> board_state proto_board_state \<Rightarrow> bool" where
  "ships_good cid meta p \<longleftrightarrow>
     pbs_id p = cid \<and> pbs_meta p = meta \<and> length (participants meta) = 2 \<and>
     board_inv (pbs_state p) \<and> plain_board (pbs_state p)"

lemma plain_board_iff: "plain_board s \<longleftrightarrow> \<not> bs_unknown s \<and> (\<forall>k\<in>set (known_ships s). \<not> ks_unknown k)"
  by (auto simp: plain_board_def reflect_board_state_def list_ex_iff)

lemma plain_board_update:
  "plain_board s \<Longrightarrow> ks_unknown k = ks_unknown (known_ships s ! i) \<Longrightarrow> i < length (known_ships s) \<Longrightarrow>
    plain_board (s\<lparr>known_ships := (known_ships s)[i := k]\<rparr>)"
  by (auto simp: plain_board_iff dest!: set_update_subset_insert [THEN subsetD])

text \<open>Moves neither add unknown fields nor look at them.\<close>

lemma plain_board_move:
  assumes "ApplyMoveProto sha meta s mv = Some (Some s')" "plain_board s" "board_inv s"
  shows "plain_board s'"
  using assms(1)
proof (cases rule: move_cases)
  case (1 m)
  then show ?thesis
    using assms(2) by (auto simp: ApplyPositionCommitment_def Let_def bind_CHECK plain_board_iff split: if_splits)
next
  case (2 m)
  then show ?thesis
    using assms(2) by (auto simp: ApplySeedReveal_def Let_def bind_Some_iff plain_board_iff fresh_known_ships_def
        split: if_splits)
next
  case (3 m)
  then show ?thesis
    using assms(2) by (auto simp: ApplyShot_def Let_def bind_Some_iff plain_board_iff
        split: if_splits option.splits dest!: set_update_subset_insert [THEN subsetD])
next
  case (4 m)
  then show ?thesis
    using assms(2) by (auto simp: ApplyReply_def Let_def bind_Some_iff plain_board_iff
        split: if_splits option.splits ReplyType.splits dest!: set_update_subset_insert [THEN subsetD])
next
  case (5 m)
  then show ?thesis
    using assms(2) reveal_effect [OF 5(2) assms(3)]
    by (auto simp: reveal_done_def position_revealed_def plain_board_iff split: option.splits)
qed

definition good_codec :: "ships_codec \<Rightarrow> bool" where
  "good_codec cd \<longleftrightarrow> (\<forall>s. sc_parse_state cd (sc_serialise_state cd s) = Some s)"

lemma IsValid_total: "length (participants meta) = 2 \<Longrightarrow> \<exists>b. IsValid meta s = Some b"
proof -
  assume two: "length (participants meta) = 2"
  have idx: "GetPhase s = SECOND_REVEAL_POSITION \<Longrightarrow> length (positions s) = 2"
    by (simp add: phase_iffs)
  show ?thesis
  proof (cases "GetPhase s")
    case SECOND_REVEAL_POSITION
    then show ?thesis
      using two idx by (auto simp: IsValid_def bind_CHECK Let_def at_index_def)
  qed (use two in \<open>auto simp: IsValid_def bind_CHECK Let_def\<close>)
qed

lemma ships_rules_simps:
  "WhoseTurn (ShipsBoardRules sha cd) p = Ships_WhoseTurn (pbs_meta p) (pbs_state p)"
  "TurnCount (ShipsBoardRules sha cd) p = Ships_TurnCount (pbs_meta p) (pbs_state p)"
  "ApplyMove (ShipsBoardRules sha cd) p = ProtoBoardState_ApplyMove (ships_game sha cd) p"
  "GetProtoVersion (ShipsBoardRules sha cd) meta = ORIGINAL"
  by (simp_all add: ShipsBoardRules_def ProtoBoardRules_def ships_game_def ShipsBoardRules_GetProtoVersion_def)

lemma ships_ParseState_iff:
  "ParseState (ShipsBoardRules sha cd) cid meta s = Some (Some p) \<longleftrightarrow>
     (\<exists>st. sc_parse_state cd s = Some st \<and> plain_board st \<and> IsValid meta st = Some True \<and>
       p = \<lparr>pbs_id = cid, pbs_meta = meta, pbs_state = st\<rparr>)"
  by (simp add: ShipsBoardRules_def ParseState_iff ships_game_def plain_board_def)

lemma ships_ParseState_total:
  assumes "length (participants meta) = 2"
  shows "\<exists>r. ParseState (ShipsBoardRules sha cd) cid meta s = Some r"
proof (cases "sc_parse_state cd s")
  case None
  then show ?thesis
    by (simp add: ShipsBoardRules_def ProtoBoardRules_def ProtoBoardRules_ParseState_def ships_game_def)
next
  case (Some st)
  obtain b where "IsValid meta st = Some b"
    using IsValid_total [OF assms] by blast
  with Some show ?thesis
    by (simp add: ShipsBoardRules_def ProtoBoardRules_def ProtoBoardRules_ParseState_def ships_game_def)
qed

lemma ships_ApplyMove:
  assumes "good_hash sha" "good_codec cd" "ships_good cid meta p" "Ships_WhoseTurn meta (pbs_state p) \<noteq> Some NO_TURN"
  shows "ProtoBoardState_ApplyMove (ships_game sha cd) p mv = Some None \<or>
    (\<exists>s' p'. ProtoBoardState_ApplyMove (ships_game sha cd) p mv = Some (Some s') \<and>
      ParseState (ShipsBoardRules sha cd) cid meta s' = Some (Some p') \<and> ships_good cid meta p')"
proof (cases "sc_parse_move cd mv")
  case None
  then show ?thesis
    by (simp add: ProtoBoardState_ApplyMove_def ships_game_def)
next
  case (Some m)
  have inv: "board_inv (pbs_state p)" and two: "length (participants meta) = 2"
    and plain: "plain_board (pbs_state p)" and meta: "pbs_meta p = meta"
    using assms(3) by (auto simp: ships_good_def)
  have "bs_turn (pbs_state p) \<noteq> None"
    using assms(4) board_inv_WhoseTurn [OF inv two] by (auto split: option.splits)
  then obtain r where r: "ApplyMoveProto sha meta (pbs_state p) m = Some r"
    using move_total [OF assms(1) inv two] by blast
  show ?thesis
  proof (cases "HasAnyUnknownFields (reflect_board_move m) \<or> r = None")
    case True
    then show ?thesis
      using Some r meta by (auto simp: ProtoBoardState_ApplyMove_def ships_game_def)
  next
    case False
    then obtain st where st: "r = Some st"
      by auto
    have inv': "board_inv st" "plain_board st"
      using move_inv [OF _ inv] plain_board_move [OF _ plain inv] r st by blast+
    let ?p' = "\<lparr>pbs_id = cid, pbs_meta = meta, pbs_state = st\<rparr>"
    have "ParseState (ShipsBoardRules sha cd) cid meta (sc_serialise_state cd st) = Some (Some ?p')"
      using assms(2) inv' board_inv_valid [OF inv'(1) two] by (simp add: ships_ParseState_iff good_codec_def)
    moreover have "ProtoBoardState_ApplyMove (ships_game sha cd) p mv = Some (Some (sc_serialise_state cd st))"
      using Some r st False meta by (simp add: ProtoBoardState_ApplyMove_def ships_game_def)
    moreover have "ships_good cid meta ?p'"
      using inv' two by (simp add: ships_good_def)
    ultimately show ?thesis
      by blast
  qed
qed

lemma ships_equality: "board_equality (ShipsBoardRules sha cd)"
  unfolding ShipsBoardRules_def by (rule proto_equality.board_equality_axioms)

lemma ships_progress:
  assumes "good_hash sha" "good_codec cd"
  shows "board_progress (ShipsBoardRules sha cd) ships_good"
proof (rule board_progress.intro [OF ships_equality], rule board_progress_axioms.intro)
  fix cid meta s
  show "\<exists>r. ParseState (ShipsBoardRules sha cd) cid meta s = Some r" if "length (participants meta) = 2"
    using ships_ParseState_total [OF that] .
next
  fix cid meta p
  assume good: "ships_good cid meta p"
  then have inv: "board_inv (pbs_state p)" and two: "length (participants meta) = 2" and meta: "pbs_meta p = meta"
    by (auto simp: ships_good_def)
  show "\<exists>t. WhoseTurn (ShipsBoardRules sha cd) p = Some t \<and> (t = NO_TURN \<or> 0 \<le> t \<and> t < 2)"
    using inv_turn_cases [OF inv] board_inv_WhoseTurn [OF inv two] meta
    by (auto simp: ships_rules_simps split: option.splits)
  show "\<exists>n. TurnCount (ShipsBoardRules sha cd) p = Some n"
    using TurnCount_bound [OF inv two] meta by (auto simp: ships_rules_simps)
  fix t mv
  assume "WhoseTurn (ShipsBoardRules sha cd) p = Some t" "t \<noteq> NO_TURN"
  then show "ApplyMove (ShipsBoardRules sha cd) p mv = Some None \<or>
      (\<exists>s' p'. ApplyMove (ShipsBoardRules sha cd) p mv = Some (Some s') \<and>
        ParseState (ShipsBoardRules sha cd) cid meta s' = Some (Some p') \<and> ships_good cid meta p')"
    using ships_ApplyMove [OF assms good, of mv] meta by (auto simp: ships_rules_simps)
qed

subsection \<open>Instances\<close>

definition wire_codec :: ships_codec where
  "wire_codec =
     \<lparr>sc_parse_state = par_board_state, sc_serialise_state = ser_board_state, sc_parse_move = par_board_move\<rparr>"

lemma wire_codec_good: "good_codec wire_codec"
  by (simp add: good_codec_def wire_codec_def par_ser_board_state)

lemma mock_hash_good: "good_hash (env_sha mock_env)"
  by (simp add: mock_env_def good_hash_def wf_uint256_def NUM_BYTES_def IsNull_def list_all_iff)

interpretation ships: safe_channel "ShipsBoardRules (env_sha mock_env) wire_codec" ships_good mock_env
  using ships_progress [OF mock_hash_good wire_codec_good] mock.channel_services_axioms
  by (rule safe_channel.intro)

interpretation ships_extension: proof_extension "ShipsBoardRules (env_sha mock_env) wire_codec" mock_env
  by (rule proof_extension.intro [OF ships_equality mock.signing_axioms])

subsection \<open>Properties\<close>

definition wire_first_commitment :: string where
  "wire_first_commitment =
     (let h = string_of_bytes (replicate 32 1)
      in enc_nat 1 @ enc_opt enc_str (Some h) @ enc_opt enc_str (Some h) @ enc_opt enc_str None)"

definition wire_second_commitment :: string where
  "wire_second_commitment =
     (let h = string_of_bytes (replicate 32 1)
      in enc_nat 1 @ enc_opt enc_str (Some h) @ enc_opt enc_str None @ enc_opt enc_str (Some ''x''))"

definition example_id :: uint256 where
  "example_id = replicate 32 7"

definition mock_rules :: "board_state proto_board_state board_rules" where
  "mock_rules = ShipsBoardRules (env_sha mock_env) wire_codec"

text \<open>The proof without transitions or signatures of a state.\<close>

definition bare_proof :: "string \<Rightarrow> state_proof" where
  "bare_proof s =
     \<lparr>sp_unknown = False, sp_initial_state = Some (empty_signed_data\<lparr>sd_data := Some s\<rparr>), transitions = []\<rparr>"

definition example_parsed :: "board_state \<Rightarrow> board_state proto_board_state" where
  "example_parsed st = \<lparr>pbs_id = example_id, pbs_meta = example_meta, pbs_state = st\<rparr>"

definition opened_state :: board_state where
  "opened_state = the (the (ApplyMoveProto (env_sha mock_env) example_meta InitialBoardState (hd example_opening)))"

text \<open>C16. Extending a valid proof by a move of one's own, with a wallet whose signatures verify, yields a
  valid proof of the state after the move, for the same reinit state; this holds for the minimal
  proof the code builds, whatever prefix of the old proof it drops.\<close>

theorem ExtendStateProof_valid:
  assumes "board_equality rules" "signing env"
    and "VerifyStateProof env rules cid meta reinitState old = Some (Some e)"
    and "ParseState rules cid meta e = Some (Some q)"
    and "ApplyMove rules q mv = Some (Some s')" "ParseState rules cid meta s' = Some (Some q')"
    and "ExtendStateProof env rules cid meta old mv = Some (Some new)"
  shows "VerifyStateProof env rules cid meta reinitState new = Some (Some s')"
proof -
  have ext: "proof_extension rules env"
    using assms(1,2) by (rule proof_extension.intro)
  obtain p where p: "valid_proof env rules cid meta reinitState old p" "e = UnverifiedProofEndState old"
    using assms(3) by (auto simp: VerifyStateProof_iff)
  moreover from this have "p = q"
    using board_equality.proof_end_parses [OF assms(1) p(1)] assms(4) by simp
  ultimately show ?thesis
    using proof_extension.Extend_valid [OF ext _ assms(7,5,6)] by (auto simp: VerifyStateProof_iff)
qed

theorem ExtendStateProof_valid_witness:
  "VerifyStateProof mock_env mock_rules example_id example_meta (ser_board_state InitialBoardState)
     (the (the (ExtendStateProof mock_env mock_rules example_id example_meta
       (bare_proof (ser_board_state InitialBoardState)) wire_first_commitment)))
   = Some (Some (ser_board_state opened_state))"
proof (rule ExtendStateProof_valid [where e = "ser_board_state InitialBoardState" and
      q = "example_parsed InitialBoardState" and q' = "example_parsed opened_state"])
  show "board_equality mock_rules"
    unfolding mock_rules_def by (rule ships_equality)
  show "signing mock_env"
    by (rule mock.signing_axioms)
  show "VerifyStateProof mock_env mock_rules example_id example_meta (ser_board_state InitialBoardState)
      (bare_proof (ser_board_state InitialBoardState)) = Some (Some (ser_board_state InitialBoardState))"
    by code_simp
  show "ParseState mock_rules example_id example_meta (ser_board_state InitialBoardState)
      = Some (Some (example_parsed InitialBoardState))"
    by code_simp
  show "ApplyMove mock_rules (example_parsed InitialBoardState) wire_first_commitment
      = Some (Some (ser_board_state opened_state))"
    by code_simp
  show "ParseState mock_rules example_id example_meta (ser_board_state opened_state)
      = Some (Some (example_parsed opened_state))"
    by code_simp
  show "ExtendStateProof mock_env mock_rules example_id example_meta
      (bare_proof (ser_board_state InitialBoardState)) wire_first_commitment =
    Some (Some (the (the (ExtendStateProof mock_env mock_rules example_id example_meta
      (bare_proof (ser_board_state InitialBoardState)) wire_first_commitment))))"
    by code_simp
qed

text \<open>C17. For Xayaships, verifying a proof whose initial state is one a real game can be in never
  aborts the process, and the state it proves is valid and again one of a real game.\<close>

theorem ships_proofs_safe:
  assumes "good_hash sha" "good_codec cd" "channel_services env" "length (participants meta) = 2"
    and "\<And>st. sc_parse_state cd (data (initial_state proof)) = Some st \<Longrightarrow> board_inv st"
  shows "VerifyStateProof env (ShipsBoardRules sha cd) cid meta reinitState proof = Some None \<or>
    (\<exists>e q. VerifyStateProof env (ShipsBoardRules sha cd) cid meta reinitState proof = Some (Some e) \<and>
      ParseState (ShipsBoardRules sha cd) cid meta e = Some (Some q) \<and> board_inv (pbs_state q))"
proof -
  have safe: "safe_channel (ShipsBoardRules sha cd) ships_good env"
    by (rule safe_channel.intro [OF ships_progress [OF assms(1,2)] assms(3)])
  have good: "ships_good cid meta p"
    if "ParseState (ShipsBoardRules sha cd) cid meta (data (initial_state proof)) = Some (Some p)" for p
    using that assms(4,5) by (auto simp: ships_ParseState_iff ships_good_def)
  obtain r where r: "VerifyStateProof env (ShipsBoardRules sha cd) cid meta reinitState proof = Some r"
    using safe_channel.Verify_total [OF safe assms(4) good] by blast
  show ?thesis
  proof (cases r)
    case (Some e)
    then show ?thesis
      using safe_channel.Verify_good [OF safe r [unfolded Some] good] r by (auto simp: ships_good_def)
  qed (use r in simp)
qed

theorem ships_proofs_safe_witness:
  "VerifyStateProof mock_env (ShipsBoardRules (env_sha mock_env) wire_codec) example_id example_meta []
     (bare_proof (ser_board_state InitialBoardState)) = Some None \<or>
    (\<exists>e q. VerifyStateProof mock_env (ShipsBoardRules (env_sha mock_env) wire_codec) example_id example_meta []
        (bare_proof (ser_board_state InitialBoardState)) = Some (Some e) \<and>
      ParseState (ShipsBoardRules (env_sha mock_env) wire_codec) example_id example_meta e = Some (Some q) \<and>
      board_inv (pbs_state q))"
  by (rule ships_proofs_safe [OF mock_hash_good wire_codec_good mock.channel_services_axioms example_facts(1)])
    (auto simp: bare_proof_def initial_state_def data_def bytes_value_def wire_codec_def par_ser_board_state
      board_inv_initial)


end
