(* ===== verification/Rolling_State.thy ===== *)
theory Rolling_State
  imports Ships_Rules "HOL-Library.AList"
begin

text \<open>
  The rolling state of a channel daemon, \<open>src/gamechannel/rollingstate.cpp\<close>: for every
  reinitialisation of the channel, the best known state proof with the state it proves, and the
  turn count known on chain.  Updates come from the chain and, off chain, from the other players.

  The invariant says that what is stored is proven; the lemmas show that both kinds of update
  keep it, that the turn count of an entry never decreases, and what the return value means.
\<close>

declare AList.update_conv' [simp]

record 'ps reinit_data =
  rd_meta :: channel_metadata
  rd_reinitState :: string
  rd_proof :: state_proof
  rd_latestState :: 'ps
  rd_onChainTurn :: uint32

record 'ps rolling_state =
  rs_reinits :: "(string \<times> 'ps reinit_data) list"
  rs_reinitId :: string

definition RollingState_new :: "'ps rolling_state" where
  "RollingState_new = \<lparr>rs_reinits = [], rs_reinitId = []\<rparr>"

text \<open>The entry of the current reinitialisation, with the checks of the accessors.\<close>

definition current_entry :: "'ps rolling_state \<Rightarrow> 'ps reinit_data run" where
  "current_entry rs = map_of (rs_reinits rs) (rs_reinitId rs)"

definition GetLatestState :: "'ps rolling_state \<Rightarrow> 'ps run" where
  "GetLatestState rs = map_option rd_latestState (current_entry rs)"

definition GetStateProof :: "'ps rolling_state \<Rightarrow> state_proof run" where
  "GetStateProof rs = map_option rd_proof (current_entry rs)"

definition GetOnChainTurnCount :: "'ps rolling_state \<Rightarrow> uint32 run" where
  "GetOnChainTurnCount rs = map_option rd_onChainTurn (current_entry rs)"

definition GetReinitId :: "'ps rolling_state \<Rightarrow> string run" where
  "GetReinitId rs = do { CHECK (rs_reinits rs \<noteq> []); Some (rs_reinitId rs) }"

definition GetMetadata :: "'ps rolling_state \<Rightarrow> channel_metadata run" where
  "GetMetadata rs = map_option rd_meta (current_entry rs)"

definition parse_proven ::
    "'ps board_rules \<Rightarrow> uint256 \<Rightarrow> channel_metadata \<Rightarrow> string \<Rightarrow> 'ps run" where
  "parse_proven rules channelId meta provenState =
     do { r \<leftarrow> ParseState rules channelId meta provenState; (case r of None \<Rightarrow> LOG_FATAL | Some p \<Rightarrow> Some p) }"

definition UpdateOnChain ::
    "channel_env \<Rightarrow> 'ps board_rules \<Rightarrow> uint256 \<Rightarrow> channel_metadata \<Rightarrow> string \<Rightarrow> state_proof \<Rightarrow>
     'ps rolling_state \<Rightarrow> (bool \<times> 'ps rolling_state) run" where
  "UpdateOnChain rpc rules channelId meta reinitState proof rs =
     do {
       CHECK (CheckVersionedProto_StateProof (GetProtoVersion rules) meta proof);
       verified \<leftarrow> VerifyStateProof rpc rules channelId meta reinitState proof;
       CHECK (verified \<noteq> None);
       let provenState = the verified;
       let reinitChange = (rs_reinitId rs \<noteq> reinit meta);
       let rs = rs\<lparr>rs_reinitId := reinit meta\<rparr>;
       (case map_of (rs_reinits rs) (reinit meta) of
          None \<Rightarrow>
            do {
              latest \<leftarrow> parse_proven rules channelId meta provenState;
              cnt \<leftarrow> TurnCount rules latest;
              let entry = \<lparr>rd_meta = meta, rd_reinitState = reinitState, rd_proof = proof,
                    rd_latestState = latest, rd_onChainTurn = cnt\<rparr>;
              Some (True, rs\<lparr>rs_reinits := AList.update (reinit meta) entry (rs_reinits rs)\<rparr>)
            }
        | Some entry \<Rightarrow>
            do {
              CHECK (meta = rd_meta entry);
              CHECK (reinitState = rd_reinitState entry);
              parsed \<leftarrow> parse_proven rules channelId (rd_meta entry) provenState;
              parsedCnt \<leftarrow> TurnCount rules parsed;
              let entry = entry\<lparr>rd_onChainTurn :=
                    (if parsedCnt > rd_onChainTurn entry then parsedCnt else rd_onChainTurn entry)\<rparr>;
              currentCnt \<leftarrow> TurnCount rules (rd_latestState entry);
              if currentCnt \<ge> parsedCnt
              then Some (reinitChange, rs\<lparr>rs_reinits := AList.update (reinit meta) entry (rs_reinits rs)\<rparr>)
              else Some (True, rs\<lparr>rs_reinits := AList.update (reinit meta)
                     (entry\<lparr>rd_proof := proof, rd_latestState := parsed\<rparr>) (rs_reinits rs)\<rparr>)
            })
     }"

definition UpdateWithMove ::
    "channel_env \<Rightarrow> 'ps board_rules \<Rightarrow> uint256 \<Rightarrow> string \<Rightarrow> state_proof \<Rightarrow>
     'ps rolling_state \<Rightarrow> (bool \<times> 'ps rolling_state) run" where
  "UpdateWithMove rpc rules channelId updReinit proof rs =
     (case map_of (rs_reinits rs) updReinit of
        None \<Rightarrow> Some (False, rs)
      | Some entry \<Rightarrow>
          if \<not> CheckVersionedProto_StateProof (GetProtoVersion rules) (rd_meta entry) proof then Some (False, rs)
          else do {
            verified \<leftarrow> VerifyStateProof rpc rules channelId (rd_meta entry) (rd_reinitState entry) proof;
            (case verified of
               None \<Rightarrow> Some (False, rs)
             | Some provenState \<Rightarrow>
                 do {
                   parsed \<leftarrow> parse_proven rules channelId (rd_meta entry) provenState;
                   parsedCnt \<leftarrow> TurnCount rules parsed;
                   currentCnt \<leftarrow> TurnCount rules (rd_latestState entry);
                   if currentCnt \<ge> parsedCnt then Some (False, rs)
                   else Some (updReinit = rs_reinitId rs,
                          rs\<lparr>rs_reinits := AList.update updReinit
                            (entry\<lparr>rd_proof := proof, rd_latestState := parsed\<rparr>) (rs_reinits rs)\<rparr>)
                 })
          })"

subsection \<open>Invariant\<close>

text \<open>An entry is proven: its proof is of the expected version and valid, the stored state is what
  it proves, and it is at least as far as the chain.\<close>

definition proven_entry ::
    "channel_env \<Rightarrow> 'ps board_rules \<Rightarrow> uint256 \<Rightarrow> string \<Rightarrow> 'ps reinit_data \<Rightarrow> bool" where
  "proven_entry env rules cid rid d \<longleftrightarrow>
     reinit (rd_meta d) = rid \<and> plain_proof (rd_proof d) \<and>
     (\<exists>e. VerifyStateProof env rules cid (rd_meta d) (rd_reinitState d) (rd_proof d) = Some (Some e) \<and>
       ParseState rules cid (rd_meta d) e = Some (Some (rd_latestState d))) \<and>
     (\<exists>n. TurnCount rules (rd_latestState d) = Some n \<and> rd_onChainTurn d \<le> n)"

definition rolling_inv :: "channel_env \<Rightarrow> 'ps board_rules \<Rightarrow> uint256 \<Rightarrow> 'ps rolling_state \<Rightarrow> bool" where
  "rolling_inv env rules cid rs \<longleftrightarrow>
     (\<forall>rid d. map_of (rs_reinits rs) rid = Some d \<longrightarrow> proven_entry env rules cid rid d) \<and>
     (rs_reinits rs = [] \<or> map_of (rs_reinits rs) (rs_reinitId rs) \<noteq> None)"

text \<open>How far the entry of a reinitialisation is; nothing when it is not known.\<close>

definition turn_of :: "'ps board_rules \<Rightarrow> 'ps rolling_state \<Rightarrow> string \<Rightarrow> uint32 option" where
  "turn_of rules rs rid =
     (case map_of (rs_reinits rs) rid of None \<Rightarrow> None | Some d \<Rightarrow> TurnCount rules (rd_latestState d))"

definition advances :: "'ps board_rules \<Rightarrow> 'ps rolling_state \<Rightarrow> 'ps rolling_state \<Rightarrow> bool" where
  "advances rules rs rs' \<longleftrightarrow>
     (\<forall>rid n. turn_of rules rs rid = Some n \<longrightarrow> (\<exists>n'. turn_of rules rs' rid = Some n' \<and> n \<le> n'))"

lemma parse_proven_iff:
  "parse_proven rules cid meta s = Some p \<longleftrightarrow> ParseState rules cid meta s = Some (Some p)"
  by (auto simp: parse_proven_def LOG_FATAL_def split: Option.bind_splits option.splits)

lemma rolling_inv_new [inv_intros]: "rolling_inv env rules cid RollingState_new"
  by (simp add: rolling_inv_def RollingState_new_def)

definition chain_turn :: "uint32 \<Rightarrow> uint32 \<Rightarrow> uint32" where
  "chain_turn cnt old = (if cnt > old then cnt else old)"

lemma UpdateOnChain_verified:
  assumes "UpdateOnChain env rules cid meta reinitState proof rs = Some (b, rs')"
  obtains e where "plain_proof proof" "VerifyStateProof env rules cid meta reinitState proof = Some (Some e)"
  using assms by (auto simp: UpdateOnChain_def CheckVersionedProto_plain bind_CHECK bind_Some_iff split: if_splits)

lemma UpdateOnChain_new:
  assumes "plain_proof proof" "VerifyStateProof env rules cid meta reinitState proof = Some (Some e)"
    "map_of (rs_reinits rs) (reinit meta) = None"
    "UpdateOnChain env rules cid meta reinitState proof rs = Some (b, rs')"
  obtains p cnt where "ParseState rules cid meta e = Some (Some p)" "TurnCount rules p = Some cnt" "b"
      "rs' = \<lparr>rs_reinits = AList.update (reinit meta)
        (\<lparr>rd_meta = meta, rd_reinitState = reinitState, rd_proof = proof, rd_latestState = p, rd_onChainTurn = cnt\<rparr>) (rs_reinits rs),
        rs_reinitId = reinit meta\<rparr>"
  using assms
  by (cases rs) (auto simp: UpdateOnChain_def CheckVersionedProto_plain bind_CHECK bind_Some_iff Let_def parse_proven_iff)

lemma UpdateOnChain_known:
  assumes "plain_proof proof" "VerifyStateProof env rules cid meta reinitState proof = Some (Some e)"
    "map_of (rs_reinits rs) (reinit meta) = Some entry"
    "UpdateOnChain env rules cid meta reinitState proof rs = Some (b, rs')"
  obtains p cnt cur where "ParseState rules cid meta e = Some (Some p)" "TurnCount rules p = Some cnt"
      "TurnCount rules (rd_latestState entry) = Some cur" "rd_meta entry = meta" "rd_reinitState entry = reinitState"
      "b \<longleftrightarrow> cur < cnt \<or> rs_reinitId rs \<noteq> reinit meta"
      "rs' = \<lparr>rs_reinits = AList.update (reinit meta)
         (if cnt \<le> cur then entry\<lparr>rd_onChainTurn := chain_turn cnt (rd_onChainTurn entry)\<rparr>
          else entry\<lparr>rd_onChainTurn := chain_turn cnt (rd_onChainTurn entry), rd_proof := proof, rd_latestState := p\<rparr>) (rs_reinits rs),
         rs_reinitId = reinit meta\<rparr>"
proof -
  define cont where "cont = (\<lambda>p cnt cur.
    if cur \<ge> cnt
    then Some (rs_reinitId rs \<noteq> reinit meta, \<lparr>rs_reinits = AList.update (reinit meta)
      (entry\<lparr>rd_onChainTurn := chain_turn cnt (rd_onChainTurn entry)\<rparr>) (rs_reinits rs), rs_reinitId = reinit meta\<rparr>)
    else Some (True, \<lparr>rs_reinits = AList.update (reinit meta)
      (entry\<lparr>rd_onChainTurn := chain_turn cnt (rd_onChainTurn entry), rd_proof := proof, rd_latestState := p\<rparr>) (rs_reinits rs),
      rs_reinitId = reinit meta\<rparr>))"
  have eq: "UpdateOnChain env rules cid meta reinitState proof rs =
    (if meta = rd_meta entry \<and> reinitState = rd_reinitState entry then
       Option.bind (parse_proven rules cid meta e) (\<lambda>p. Option.bind (TurnCount rules p) (\<lambda>cnt.
         Option.bind (TurnCount rules (rd_latestState entry)) (cont p cnt)))
     else None)"
    using assms(1-3)
    by (cases rs) (simp add: UpdateOnChain_def CheckVersionedProto_plain bind_CHECK Let_def chain_turn_def
        cont_def cong: if_cong)
  from assms(4) obtain p cnt cur where "rd_meta entry = meta" "rd_reinitState entry = reinitState"
    "parse_proven rules cid meta e = Some p" "TurnCount rules p = Some cnt"
    "TurnCount rules (rd_latestState entry) = Some cur" and c: "cont p cnt cur = Some (b, rs')"
    unfolding eq by (auto simp: bind_Some_iff split: if_splits)
  moreover from c have "b \<longleftrightarrow> cur < cnt \<or> rs_reinitId rs \<noteq> reinit meta"
    by (auto simp: cont_def not_le split: if_splits)
  moreover from c have "rs' = \<lparr>rs_reinits = AList.update (reinit meta)
         (if cnt \<le> cur then entry\<lparr>rd_onChainTurn := chain_turn cnt (rd_onChainTurn entry)\<rparr>
          else entry\<lparr>rd_onChainTurn := chain_turn cnt (rd_onChainTurn entry), rd_proof := proof, rd_latestState := p\<rparr>) (rs_reinits rs),
         rs_reinitId = reinit meta\<rparr>"
    by (simp add: cont_def split: if_splits)
  ultimately show thesis
    using that by (simp only: parse_proven_iff)
qed

lemma UpdateWithMove_cases:
  assumes "UpdateWithMove env rules cid rid proof rs = Some (b, rs')"
  obtains (unchanged) "rs' = rs" "\<not> b"
    | (fresher) entry e p cnt cur where "map_of (rs_reinits rs) rid = Some entry" "plain_proof proof"
      "VerifyStateProof env rules cid (rd_meta entry) (rd_reinitState entry) proof = Some (Some e)"
      "ParseState rules cid (rd_meta entry) e = Some (Some p)" "TurnCount rules p = Some cnt"
      "TurnCount rules (rd_latestState entry) = Some cur" "cur < cnt"
      "b \<longleftrightarrow> rid = rs_reinitId rs"
      "rs' = rs\<lparr>rs_reinits := AList.update rid (entry\<lparr>rd_proof := proof, rd_latestState := p\<rparr>) (rs_reinits rs)\<rparr>"
  using assms
  by (auto simp: UpdateWithMove_def CheckVersionedProto_plain bind_Some_iff parse_proven_iff not_le
      split: option.splits if_splits)

subsection \<open>Preservation\<close>

lemma proven_entry_keep:
  "proven_entry env rules cid rid d \<Longrightarrow> TurnCount rules (rd_latestState d) = Some cur \<Longrightarrow> cnt \<le> cur \<Longrightarrow>
    proven_entry env rules cid rid (d\<lparr>rd_onChainTurn := chain_turn cnt (rd_onChainTurn d)\<rparr>)"
  by (auto simp: proven_entry_def chain_turn_def)

lemma proven_entry_update:
  assumes "proven_entry env rules cid rid d" "plain_proof proof"
    "VerifyStateProof env rules cid (rd_meta d) (rd_reinitState d) proof = Some (Some e)"
    "ParseState rules cid (rd_meta d) e = Some (Some p)" "TurnCount rules p = Some cnt" "t \<le> cnt"
  shows "proven_entry env rules cid rid (d\<lparr>rd_onChainTurn := t, rd_proof := proof, rd_latestState := p\<rparr>)"
  using assms by (auto simp: proven_entry_def)

lemma chain_turn_le: "rd_onChainTurn d \<le> n \<Longrightarrow> n < cnt \<Longrightarrow> chain_turn cnt (rd_onChainTurn d) \<le> cnt"
  by (auto simp: chain_turn_def)

lemma UpdateOnChain_inv [inv_intros]:
  assumes inv: "rolling_inv env rules cid rs"
    and upd: "UpdateOnChain env rules cid meta reinitState proof rs = Some (b, rs')"
  shows "rolling_inv env rules cid rs' \<and> advances rules rs rs' \<and> rs_reinitId rs' = reinit meta"
proof -
  obtain e where e: "plain_proof proof" "VerifyStateProof env rules cid meta reinitState proof = Some (Some e)"
    using upd by (rule UpdateOnChain_verified)
  show ?thesis
  proof (cases "map_of (rs_reinits rs) (reinit meta)")
    case None
    obtain p cnt where p: "ParseState rules cid meta e = Some (Some p)" "TurnCount rules p = Some cnt"
      and rs': "rs' = \<lparr>rs_reinits = AList.update (reinit meta)
        (\<lparr>rd_meta = meta, rd_reinitState = reinitState, rd_proof = proof, rd_latestState = p, rd_onChainTurn = cnt\<rparr>) (rs_reinits rs),
        rs_reinitId = reinit meta\<rparr>"
      using UpdateOnChain_new [OF e None upd] .
    have "proven_entry env rules cid (reinit meta) (the (map_of (rs_reinits rs') (reinit meta)))"
      using e p by (simp add: proven_entry_def rs')
    moreover have "advances rules rs rs'"
      using None by (auto simp: advances_def turn_of_def rs' split: option.splits)
    ultimately show ?thesis
      using inv by (auto simp: rolling_inv_def rs' split: if_splits)
  next
    case (Some entry)
    obtain p cnt cur where
      p: "ParseState rules cid meta e = Some (Some p)" "TurnCount rules p = Some cnt"
        "TurnCount rules (rd_latestState entry) = Some cur" "rd_meta entry = meta" "rd_reinitState entry = reinitState"
      and rs': "rs' = \<lparr>rs_reinits = AList.update (reinit meta)
         (if cnt \<le> cur then entry\<lparr>rd_onChainTurn := chain_turn cnt (rd_onChainTurn entry)\<rparr>
          else entry\<lparr>rd_onChainTurn := chain_turn cnt (rd_onChainTurn entry), rd_proof := proof, rd_latestState := p\<rparr>) (rs_reinits rs),
         rs_reinitId = reinit meta\<rparr>"
      using UpdateOnChain_known [OF e Some upd] .
    have entry: "proven_entry env rules cid (reinit meta) entry"
      using inv Some by (simp add: rolling_inv_def)
    then have "rd_onChainTurn entry \<le> cur"
      using p(3) by (auto simp: proven_entry_def)
    then have "proven_entry env rules cid (reinit meta) (the (map_of (rs_reinits rs') (reinit meta)))"
      using proven_entry_keep [OF entry p(3)] e p
        proven_entry_update [OF entry e(1), of e p cnt] chain_turn_le [of entry cur cnt]
      by (auto simp: rs' not_le)
    moreover have "advances rules rs rs'"
      using p Some by (auto simp: advances_def turn_of_def rs' split: option.splits)
    ultimately show ?thesis
      using inv by (auto simp: rolling_inv_def rs' split: if_splits)
  qed
qed

lemma UpdateWithMove_inv [inv_intros]:
  assumes inv: "rolling_inv env rules cid rs"
    and upd: "UpdateWithMove env rules cid rid proof rs = Some (b, rs')"
  shows "rolling_inv env rules cid rs' \<and> advances rules rs rs' \<and> rs_reinitId rs' = rs_reinitId rs"
  using upd
proof (cases rule: UpdateWithMove_cases)
  case unchanged
  then show ?thesis
    using inv by (simp add: advances_def)
next
  case (fresher entry e p cnt cur)
  have entry: "proven_entry env rules cid rid entry"
    using inv fresher(1) by (simp add: rolling_inv_def)
  then have "rd_onChainTurn entry \<le> cnt"
    using fresher(6,7) by (auto simp: proven_entry_def)
  from proven_entry_update [OF entry fresher(2-5) this]
  have "proven_entry env rules cid rid (entry\<lparr>rd_proof := proof, rd_latestState := p\<rparr>)"
    by (cases entry) simp
  moreover have "advances rules rs rs'"
    using fresher by (auto simp: advances_def turn_of_def split: option.splits)
  ultimately show ?thesis
    using inv fresher(1,9) by (auto simp: rolling_inv_def)
qed

text \<open>What belongs to a reinitialisation never changes.\<close>

definition keeps :: "'ps rolling_state \<Rightarrow> 'ps rolling_state \<Rightarrow> bool" where
  "keeps rs rs' \<longleftrightarrow>
     (\<forall>rid d. map_of (rs_reinits rs) rid = Some d \<longrightarrow>
       (\<exists>d'. map_of (rs_reinits rs') rid = Some d' \<and> rd_meta d' = rd_meta d \<and> rd_reinitState d' = rd_reinitState d))"

lemma keeps_refl [simp]: "keeps rs rs"
  by (simp add: keeps_def)

lemma keeps_trans: "keeps a b \<Longrightarrow> keeps b c \<Longrightarrow> keeps a c"
  unfolding keeps_def by metis

lemma UpdateOnChain_keeps:
  assumes "UpdateOnChain env rules cid meta reinitState proof rs = Some (b, rs')"
  shows "keeps rs rs'" "map_of (rs_reinits rs') (reinit meta) \<noteq> None"
proof -
  obtain e where e: "plain_proof proof" "VerifyStateProof env rules cid meta reinitState proof = Some (Some e)"
    using assms by (rule UpdateOnChain_verified)
  have "keeps rs rs' \<and> map_of (rs_reinits rs') (reinit meta) \<noteq> None"
  proof (cases "map_of (rs_reinits rs) (reinit meta)")
    case None
    show ?thesis
      by (rule UpdateOnChain_new [OF e None assms]) (auto simp: keeps_def None)
  next
    case (Some entry)
    show ?thesis
      by (rule UpdateOnChain_known [OF e Some assms]) (auto simp: keeps_def Some)
  qed
  then show "keeps rs rs'" "map_of (rs_reinits rs') (reinit meta) \<noteq> None"
    by simp_all
qed

lemma UpdateWithMove_keeps:
  assumes "UpdateWithMove env rules cid rid proof rs = Some (b, rs')"
  shows "keeps rs rs'"
  using assms by (cases rule: UpdateWithMove_cases) (auto simp: keeps_def)

subsection \<open>Property\<close>

datatype rolling_update = OnChain channel_metadata string state_proof | OffChain string state_proof

fun apply_updates ::
    "channel_env \<Rightarrow> 'ps board_rules \<Rightarrow> uint256 \<Rightarrow> rolling_update list \<Rightarrow> 'ps rolling_state \<Rightarrow> 'ps rolling_state run" where
  "apply_updates env rules cid [] rs = Some rs"
| "apply_updates env rules cid (OnChain meta reinitState proof # us) rs =
     do { (b, rs) \<leftarrow> UpdateOnChain env rules cid meta reinitState proof rs; apply_updates env rules cid us rs }"
| "apply_updates env rules cid (OffChain rid proof # us) rs =
     do { (b, rs) \<leftarrow> UpdateWithMove env rules cid rid proof rs; apply_updates env rules cid us rs }"

lemma advances_trans: "advances rules a b \<Longrightarrow> advances rules b c \<Longrightarrow> advances rules a c"
  unfolding advances_def by (meson order_trans)

lemma apply_updates_inv:
  assumes "rolling_inv env rules cid rs" "apply_updates env rules cid us rs = Some rs'"
  shows "rolling_inv env rules cid rs' \<and> advances rules rs rs'"
  using assms
proof (induction env rules cid us rs rule: apply_updates.induct)
  case (1 env rules cid rs)
  then show ?case
    by (simp add: advances_def)
next
  case (2 env rules cid meta reinitState pf us rs)
  then obtain b rs1 where upd: "UpdateOnChain env rules cid meta reinitState pf rs = Some (b, rs1)"
    and rest: "apply_updates env rules cid us rs1 = Some rs'"
    by (auto simp: bind_Some_iff)
  then show ?case
    using UpdateOnChain_inv [OF 2(2) upd] 2(1) [OF upd refl] advances_trans by blast
next
  case (3 env rules cid rid pf us rs)
  then obtain b rs1 where upd: "UpdateWithMove env rules cid rid pf rs = Some (b, rs1)"
    and rest: "apply_updates env rules cid us rs1 = Some rs'"
    by (auto simp: bind_Some_iff)
  then show ?case
    using UpdateWithMove_inv [OF 3(2) upd] 3(1) [OF upd refl] advances_trans by blast
qed

text \<open>After any sequence of on-chain and off-chain updates of a fresh rolling state, whatever
  the other players send, every stored state is proven by the stored proof and at least as far as
  the chain; and further updates only ever move an entry to a higher turn count.\<close>

theorem rolling_state_sound:
  assumes "apply_updates env rules cid us RollingState_new = Some rs" "apply_updates env rules cid vs rs = Some rs'"
  shows "rolling_inv env rules cid rs \<and> rolling_inv env rules cid rs' \<and> advances rules rs rs'"
  using apply_updates_inv [OF rolling_inv_new assms(1)] apply_updates_inv [OF _ assms(2)] by blast

theorem rolling_state_sound_witness:
  "let start = ser_board_state InitialBoardState;
       extended = the (the (ExtendStateProof mock_env mock_rules example_id example_meta (bare_proof start)
         wire_first_commitment));
       rs = the (apply_updates mock_env mock_rules example_id [OnChain example_meta start (bare_proof start)]
         RollingState_new);
       rs' = the (apply_updates mock_env mock_rules example_id [OffChain [] extended] rs)
   in rolling_inv mock_env mock_rules example_id rs \<and> rolling_inv mock_env mock_rules example_id rs' \<and>
     advances mock_rules rs rs'"
  unfolding Let_def
proof (rule rolling_state_sound)
  let ?start = "ser_board_state InitialBoardState"
  let ?ext = "the (the (ExtendStateProof mock_env mock_rules example_id example_meta (bare_proof ?start)
         wire_first_commitment))"
  let ?upd = "apply_updates mock_env mock_rules example_id [OnChain example_meta ?start (bare_proof ?start)] RollingState_new"
  have "?upd \<noteq> None"
    by code_simp
  then show "?upd = Some (the ?upd)"
    by auto
  have "apply_updates mock_env mock_rules example_id [OffChain [] ?ext] (the ?upd) \<noteq> None"
    by code_simp
  then show "apply_updates mock_env mock_rules example_id [OffChain [] ?ext] (the ?upd)
    = Some (the (apply_updates mock_env mock_rules example_id [OffChain [] ?ext] (the ?upd)))"
    by auto
qed

end
