(* ===== verification/Channel_Game.thy ===== *)
theory Channel_Game
  imports Rolling_State
begin

text \<open>
  Game channels on chain: the table of channels (\<open>src/gamechannel/database.cpp\<close>) and the
  processing of disputes, resolutions and pending state proofs
  (\<open>src/gamechannel/channelgame.cpp\<close>).

  The table is a list of rows ordered by channel ID, as the queries return them, and a
  \<open>ChannelData\<close> handle is a record whose destructor writes the row back when it is dirty.  Rows
  hold the messages themselves; that a message survives serialising and parsing is protobuf's
  part.  A state proof that merely repeats the reinit state is not stored.

  The lemmas show that the latest state of a channel survives being stored and loaded, and that
  disputes and resolutions only replace it by proven states with a higher turn count.
\<close>

subsection \<open>Tables ordered by a key\<close>

fun tbl_insert :: "uint256 \<Rightarrow> 'v \<Rightarrow> (uint256 \<times> 'v) list \<Rightarrow> (uint256 \<times> 'v) list" where
  "tbl_insert k v [] = [(k, v)]"
| "tbl_insert k v ((k', v') # t) =
     (if uint256_less k k' then (k, v) # (k', v') # t else (k', v') # tbl_insert k v t)"

definition tbl_delete :: "uint256 \<Rightarrow> (uint256 \<times> 'v) list \<Rightarrow> (uint256 \<times> 'v) list" where
  "tbl_delete k t = filter (\<lambda>(k', v). k' \<noteq> k) t"

text \<open>\<open>INSERT OR REPLACE\<close>: a row with the same key is deleted first.\<close>

definition tbl_put :: "uint256 \<Rightarrow> 'v \<Rightarrow> (uint256 \<times> 'v) list \<Rightarrow> (uint256 \<times> 'v) list" where
  "tbl_put k v t = tbl_insert k v (tbl_delete k t)"

lemma mset_tbl_insert: "mset (tbl_insert k v t) = add_mset (k, v) (mset t)"
  by (induction k v t rule: tbl_insert.induct) auto

lemma set_tbl_insert [simp]: "set (tbl_insert k v t) = insert (k, v) (set t)"
  using arg_cong [OF mset_tbl_insert, of set_mset k v t] by simp

lemma distinct_keys_mset: "mset t = mset t' \<Longrightarrow> distinct (map fst t) \<Longrightarrow> distinct (map fst t')"
  by (metis mset_eq_imp_distinct_iff mset_map)

lemma distinct_tbl_delete [inv_intros]: "distinct (map fst t) \<Longrightarrow> distinct (map fst (tbl_delete k t))"
  unfolding tbl_delete_def by (induction t) auto

lemma map_of_tbl_delete: "map_of (tbl_delete k t) = (map_of t)(k := None)"
  unfolding tbl_delete_def by (induction t) (auto simp: fun_eq_iff)

lemma distinct_tbl_put [inv_intros]: "distinct (map fst t) \<Longrightarrow> distinct (map fst (tbl_put k v t))"
proof -
  assume "distinct (map fst t)"
  then have "distinct (map fst ((k, v) # tbl_delete k t))"
    using distinct_tbl_delete [of t k] by (auto simp: tbl_delete_def)
  then show ?thesis
    by (rule distinct_keys_mset [rotated]) (simp add: tbl_put_def mset_tbl_insert)
qed

lemma map_of_tbl_put: "distinct (map fst t) \<Longrightarrow> map_of (tbl_put k v t) = (map_of t)(k \<mapsto> v)"
proof -
  assume d: "distinct (map fst t)"
  have "map_of (tbl_put k v t) = map_of ((k, v) # tbl_delete k t)"
    using distinct_tbl_put [OF d, of k v] distinct_tbl_delete [OF d, of k]
    by (intro map_of_eqI) (auto simp: tbl_put_def tbl_delete_def map_of_eq_Some_iff
        intro!: map_of_is_SomeI)
  then show ?thesis
    by (simp add: map_of_tbl_delete)
qed

text \<open>The interface of a table, as the rest of the code uses it.\<close>

locale keyed_table =
  fixes lookup :: "'t \<Rightarrow> uint256 \<Rightarrow> 'v option"
    and put :: "uint256 \<Rightarrow> 'v \<Rightarrow> 't \<Rightarrow> 't"
    and delete :: "uint256 \<Rightarrow> 't \<Rightarrow> 't"
    and wf :: "'t \<Rightarrow> bool"
  assumes lookup_put: "wf t \<Longrightarrow> lookup (put k v t) = (lookup t)(k \<mapsto> v)"
    and lookup_delete: "wf t \<Longrightarrow> lookup (delete k t) = (lookup t)(k := None)"
    and wf_put: "wf t \<Longrightarrow> wf (put k v t)"
    and wf_delete: "wf t \<Longrightarrow> wf (delete k t)"
begin

lemma delete_put: "wf t \<Longrightarrow> lookup (delete k (put k v t)) = (lookup t)(k := None)"
  by (simp add: lookup_delete lookup_put wf_put fun_upd_twist)

lemma dom_put: "wf t \<Longrightarrow> dom (lookup (put k v t)) = insert k (dom (lookup t))"
  by (simp add: lookup_put)

lemma dom_delete: "wf t \<Longrightarrow> dom (lookup (delete k t)) = dom (lookup t) - {k}"
  by (auto simp: lookup_delete dom_def)

end

interpretation tbl: keyed_table map_of tbl_put tbl_delete "\<lambda>t. distinct (map fst t)"
  by unfold_locales (simp_all add: map_of_tbl_put map_of_tbl_delete distinct_tbl_put distinct_tbl_delete)

subsection \<open>Channels\<close>

record channel_row =
  row_metadata :: channel_metadata
  row_reinit :: string
  row_stateproof :: "state_proof option"
  row_disputeHeight :: "uint32 option"

type_synonym channels_table = "(uint256 \<times> channel_row) list"

record channel_data =
  cd_id :: uint256
  cd_metadata :: channel_metadata
  cd_reinit :: string
  cd_proof :: state_proof
  cd_initialised :: bool
  cd_disputeHeight :: uint32
  cd_dirty :: bool

definition empty_metadata :: channel_metadata where
  "empty_metadata = \<lparr>cm_unknown = False, participants = [], cm_reinit = None, cm_custom = None\<rparr>"

definition empty_proof :: state_proof where
  "empty_proof = \<lparr>sp_unknown = False, sp_initial_state = None, transitions = []\<rparr>"

definition StateProofFromReinit :: "string \<Rightarrow> state_proof" where
  "StateProofFromReinit reinitState =
     empty_proof\<lparr>sp_initial_state := Some (empty_signed_data\<lparr>sd_data := Some reinitState\<rparr>)\<rparr>"

definition ChannelData_new :: "uint256 \<Rightarrow> channel_data" where
  "ChannelData_new i =
     \<lparr>cd_id = i, cd_metadata = empty_metadata, cd_reinit = [], cd_proof = empty_proof,
      cd_initialised = False, cd_disputeHeight = 0, cd_dirty = True\<rparr>"

definition ChannelData_from_row :: "uint256 \<Rightarrow> channel_row \<Rightarrow> channel_data" where
  "ChannelData_from_row i dbrow =
     \<lparr>cd_id = i, cd_metadata = row_metadata dbrow, cd_reinit = row_reinit dbrow,
      cd_proof = (case row_stateproof dbrow of None \<Rightarrow> StateProofFromReinit (row_reinit dbrow) | Some p \<Rightarrow> p),
      cd_initialised = True,
      cd_disputeHeight = (case row_disputeHeight dbrow of None \<Rightarrow> 0 | Some h \<Rightarrow> h),
      cd_dirty = False\<rparr>"

definition ChannelData_GetLatestState :: "channel_data \<Rightarrow> string" where
  "ChannelData_GetLatestState ch = UnverifiedProofEndState (cd_proof ch)"

definition ChannelData_row :: "channel_data \<Rightarrow> channel_row" where
  "ChannelData_row ch =
     \<lparr>row_metadata = cd_metadata ch, row_reinit = cd_reinit ch,
      row_stateproof = (if ChannelData_GetLatestState ch = cd_reinit ch then None else Some (cd_proof ch)),
      row_disputeHeight = (if cd_disputeHeight ch = 0 then None else Some (cd_disputeHeight ch))\<rparr>"

text \<open>The destructor of a handle.\<close>

definition ChannelData_destroy :: "channel_data \<Rightarrow> channels_table \<Rightarrow> channels_table run" where
  "ChannelData_destroy ch tbl =
     do {
       CHECK (cd_initialised ch);
       Some (if \<not> cd_dirty ch then tbl else tbl_put (cd_id ch) (ChannelData_row ch) tbl)
     }"

definition Reinitialise :: "channel_metadata \<Rightarrow> string \<Rightarrow> channel_data \<Rightarrow> channel_data run" where
  "Reinitialise m initialisedState ch =
     do {
       CHECK (cd_initialised ch \<longrightarrow> reinit (cd_metadata ch) \<noteq> reinit m);
       Some (ch\<lparr>cd_metadata := m, cd_reinit := initialisedState,
         cd_proof := StateProofFromReinit initialisedState, cd_initialised := True, cd_dirty := True\<rparr>)
     }"

definition SetStateProof :: "state_proof \<Rightarrow> channel_data \<Rightarrow> channel_data run" where
  "SetStateProof p ch = do { CHECK (cd_initialised ch); Some (ch\<lparr>cd_dirty := True, cd_proof := p\<rparr>) }"

definition HasDispute :: "channel_data \<Rightarrow> bool" where
  "HasDispute ch \<longleftrightarrow> cd_disputeHeight ch > 0"

definition GetDisputeHeight :: "channel_data \<Rightarrow> uint32 run" where
  "GetDisputeHeight ch = do { CHECK (cd_disputeHeight ch > 0); Some (cd_disputeHeight ch) }"

definition ClearDispute :: "channel_data \<Rightarrow> channel_data" where
  "ClearDispute ch = ch\<lparr>cd_dirty := True, cd_disputeHeight := 0\<rparr>"

definition SetDisputeHeight :: "uint32 \<Rightarrow> channel_data \<Rightarrow> channel_data run" where
  "SetDisputeHeight h ch = do { CHECK (h > 0); Some (ch\<lparr>cd_dirty := True, cd_disputeHeight := h\<rparr>) }"

definition GetById :: "uint256 \<Rightarrow> channels_table \<Rightarrow> channel_data option" where
  "GetById i tbl = map_option (ChannelData_from_row i) (map_of tbl i)"

definition DeleteById :: "uint256 \<Rightarrow> channels_table \<Rightarrow> channels_table" where
  "DeleteById i tbl = tbl_delete i tbl"

definition QueryForDisputeHeight :: "uint32 \<Rightarrow> channels_table \<Rightarrow> channel_data list" where
  "QueryForDisputeHeight height tbl =
     map (\<lambda>(i, dbrow). ChannelData_from_row i dbrow)
       (filter (\<lambda>(i, dbrow). case row_disputeHeight dbrow of None \<Rightarrow> False | Some h \<Rightarrow> h \<le> height) tbl)"

definition QueryAll :: "channels_table \<Rightarrow> channel_data list" where
  "QueryAll tbl = map (\<lambda>(i, dbrow). ChannelData_from_row i dbrow) tbl"

subsection \<open>Disputes and resolutions\<close>

definition ProcessDispute ::
    "channel_env \<Rightarrow> 'ps board_rules \<Rightarrow> channel_data \<Rightarrow> uint32 \<Rightarrow> state_proof \<Rightarrow> (bool \<times> channel_data) run" where
  "ProcessDispute rpc rules ch height proof =
     do {
       CHECK (HasDispute ch \<longrightarrow> height \<ge> cd_disputeHeight ch);
       let i = cd_id ch;
       let meta = cd_metadata ch;
       if \<not> CheckVersionedProto_StateProof (GetProtoVersion rules) meta proof then Some (False, ch)
       else do {
         verified \<leftarrow> VerifyStateProof rpc rules i meta (cd_reinit ch) proof;
         (case verified of
            None \<Rightarrow> Some (False, ch)
          | Some provenState \<Rightarrow>
              let onChainState = ChannelData_GetLatestState ch in
              do {
                onChainParsed \<leftarrow> parse_proven rules i meta onChainState;
                provenParsed \<leftarrow> parse_proven rules i meta provenState;
                turn \<leftarrow> WhoseTurn rules provenParsed;
                if turn = NO_TURN then Some (False, ch)
                else do {
                  onChainCnt \<leftarrow> TurnCount rules onChainParsed;
                  provenCnt \<leftarrow> TurnCount rules provenParsed;
                  if provenCnt > onChainCnt then
                    do { ch \<leftarrow> SetStateProof proof ch; ch \<leftarrow> SetDisputeHeight height ch; Some (True, ch) }
                  else if provenCnt < onChainCnt then Some (False, ch)
                  else if HasDispute ch then Some (False, ch)
                  else if \<not> Equals rules provenParsed onChainState then Some (False, ch)
                  else do { ch \<leftarrow> SetDisputeHeight height ch; Some (True, ch) }
                }
              })
       }
     }"

definition ProcessResolution ::
    "channel_env \<Rightarrow> 'ps board_rules \<Rightarrow> channel_data \<Rightarrow> state_proof \<Rightarrow> (bool \<times> channel_data) run" where
  "ProcessResolution rpc rules ch proof =
     (let i = cd_id ch; meta = cd_metadata ch in
      if \<not> CheckVersionedProto_StateProof (GetProtoVersion rules) meta proof then Some (False, ch)
      else do {
        verified \<leftarrow> VerifyStateProof rpc rules i meta (cd_reinit ch) proof;
        (case verified of
           None \<Rightarrow> Some (False, ch)
         | Some provenState \<Rightarrow>
             do {
               onChainParsed \<leftarrow> parse_proven rules i meta (ChannelData_GetLatestState ch);
               provenParsed \<leftarrow> parse_proven rules i meta provenState;
               onChainCnt \<leftarrow> TurnCount rules onChainParsed;
               provenCnt \<leftarrow> TurnCount rules provenParsed;
               if provenCnt \<le> onChainCnt then Some (False, ch)
               else do { ch \<leftarrow> SetStateProof proof ch; Some (True, ClearDispute ch) }
             })
      })"

subsection \<open>Pending state proofs\<close>

record pending_channel =
  pc_proof :: state_proof
  pc_turnCount :: uint32

type_synonym pending_channels = "uint256 \<Rightarrow> pending_channel option"

definition PendingMoves_Clear :: "pending_channels \<Rightarrow> pending_channels" where
  "PendingMoves_Clear channels = (\<lambda>_. None)"

definition AddPendingStateProof ::
    "channel_env \<Rightarrow> 'ps board_rules \<Rightarrow> channel_data \<Rightarrow> state_proof \<Rightarrow> pending_channels \<Rightarrow> pending_channels run" where
  "AddPendingStateProof rpc rules ch proof channels =
     (let i = cd_id ch; meta = cd_metadata ch in
      if \<not> CheckVersionedProto_StateProof (GetProtoVersion rules) meta proof then Some channels
      else do {
        verified \<leftarrow> VerifyStateProof rpc rules i meta (cd_reinit ch) proof;
        (case verified of
           None \<Rightarrow> Some channels
         | Some provenState \<Rightarrow>
             do {
               provenParsed \<leftarrow> parse_proven rules i meta provenState;
               provenCnt \<leftarrow> TurnCount rules provenParsed;
               let fresh = \<lparr>pc_proof = proof, pc_turnCount = provenCnt\<rparr>;
               (case channels i of
                  None \<Rightarrow>
                    do {
                      onChainParsed \<leftarrow> parse_proven rules i meta (ChannelData_GetLatestState ch);
                      onChainCnt \<leftarrow> TurnCount rules onChainParsed;
                      Some (if provenCnt > onChainCnt then channels(i \<mapsto> fresh) else channels)
                    }
                | Some pending \<Rightarrow>
                    Some (if provenCnt > pc_turnCount pending then channels(i \<mapsto> fresh) else channels))
             })
      })"

definition UpdateMetadataReinit :: "(string \<Rightarrow> uint256) \<Rightarrow> uint256 \<Rightarrow> channel_metadata \<Rightarrow> channel_metadata" where
  "UpdateMetadataReinit sha txid meta =
     meta\<lparr>cm_reinit := Some (GetBinaryString (sha (reinit meta @ GetBinaryString txid)))\<rparr>"

subsection \<open>Storing and loading\<close>

lemma FromReinit_end [simp]: "UnverifiedProofEndState (StateProofFromReinit s) = s"
  by (simp add: UnverifiedProofEndState_def StateProofFromReinit_def empty_proof_def initial_state_def data_def
      bytes_value_def)

lemma plain_FromReinit [simp]: "plain_proof (StateProofFromReinit s)"
  by (simp add: plain_proof_def StateProofFromReinit_def empty_proof_def initial_state_def plain_signed_data_def
      empty_signed_data_def)

text \<open>What a channel is to the rest of the code.\<close>

definition same_channel :: "channel_data \<Rightarrow> channel_data \<Rightarrow> bool" where
  "same_channel a b \<longleftrightarrow>
     cd_id a = cd_id b \<and> cd_metadata a = cd_metadata b \<and> cd_reinit a = cd_reinit b \<and>
     ChannelData_GetLatestState a = ChannelData_GetLatestState b \<and> cd_disputeHeight a = cd_disputeHeight b"

lemma load_stored: "same_channel (ChannelData_from_row (cd_id ch) (ChannelData_row ch)) ch"
  by (simp add: same_channel_def ChannelData_from_row_def ChannelData_row_def ChannelData_GetLatestState_def)

lemma destroy_dirty:
  assumes "distinct (map fst tbl)" "cd_initialised ch" "cd_dirty ch"
  shows "\<exists>tbl' ch'. ChannelData_destroy ch tbl = Some tbl' \<and> distinct (map fst tbl') \<and>
    GetById (cd_id ch) tbl' = Some ch' \<and> same_channel ch' ch \<and>
    (\<forall>i. i \<noteq> cd_id ch \<longrightarrow> GetById i tbl' = GetById i tbl)"
  using assms load_stored [of ch]
  by (simp add: ChannelData_destroy_def bind_CHECK GetById_def tbl.lookup_put distinct_tbl_put)

subsection \<open>The effect of disputes and resolutions\<close>

text \<open>The proof of a channel is valid for its reinit state, and the state it ends in parses with a
  turn count.\<close>

definition proven_channel :: "channel_env \<Rightarrow> 'ps board_rules \<Rightarrow> channel_data \<Rightarrow> 'ps \<Rightarrow> uint32 \<Rightarrow> bool" where
  "proven_channel env rules ch p n \<longleftrightarrow>
     cd_initialised ch \<and> plain_proof (cd_proof ch) \<and>
     VerifyStateProof env rules (cd_id ch) (cd_metadata ch) (cd_reinit ch) (cd_proof ch)
       = Some (Some (ChannelData_GetLatestState ch)) \<and>
     ParseState rules (cd_id ch) (cd_metadata ch) (ChannelData_GetLatestState ch) = Some (Some p) \<and>
     TurnCount rules p = Some n"

text \<open>The parts of a channel that only a reinitialisation changes.\<close>

definition same_base :: "channel_data \<Rightarrow> channel_data \<Rightarrow> bool" where
  "same_base a b \<longleftrightarrow> cd_id a = cd_id b \<and> cd_metadata a = cd_metadata b \<and> cd_reinit a = cd_reinit b \<and>
     cd_initialised a = cd_initialised b"

lemma Verify_end: "VerifyStateProof env rules cid meta r proof = Some (Some e) \<Longrightarrow> e = UnverifiedProofEndState proof"
  by (simp add: VerifyStateProof_iff)

lemma ProcessDispute_cases:
  assumes "ProcessDispute env rules ch height proof = Some (b, ch')" "cd_initialised ch"
  obtains (refused) "\<not> b" "ch' = ch"
    | (newer) p q m n t where "b" "plain_proof proof"
      "VerifyStateProof env rules (cd_id ch) (cd_metadata ch) (cd_reinit ch) proof = Some (Some (UnverifiedProofEndState proof))"
      "ParseState rules (cd_id ch) (cd_metadata ch) (ChannelData_GetLatestState ch) = Some (Some p)"
      "ParseState rules (cd_id ch) (cd_metadata ch) (UnverifiedProofEndState proof) = Some (Some q)"
      "TurnCount rules p = Some m" "TurnCount rules q = Some n" "m < n"
      "WhoseTurn rules q = Some t" "t \<noteq> NO_TURN" "0 < height"
      "ch' = ch\<lparr>cd_dirty := True, cd_proof := proof, cd_disputeHeight := height\<rparr>"
    | (same) p q n t where "b" "\<not> HasDispute ch"
      "ParseState rules (cd_id ch) (cd_metadata ch) (ChannelData_GetLatestState ch) = Some (Some p)"
      "ParseState rules (cd_id ch) (cd_metadata ch) (UnverifiedProofEndState proof) = Some (Some q)"
      "TurnCount rules p = Some n" "Equals rules q (ChannelData_GetLatestState ch)"
      "WhoseTurn rules q = Some t" "t \<noteq> NO_TURN" "0 < height"
      "ch' = ch\<lparr>cd_dirty := True, cd_disputeHeight := height\<rparr>"
proof (cases "plain_proof proof \<and> (\<exists>e. VerifyStateProof env rules (cd_id ch) (cd_metadata ch) (cd_reinit ch) proof = Some (Some e))")
  case False
  then have "\<not> plain_proof proof \<or> (\<exists>r. VerifyStateProof env rules (cd_id ch) (cd_metadata ch) (cd_reinit ch) proof = r
      \<and> (r = None \<or> r = Some None))"
    by (metis option.exhaust)
  then show thesis
    using assms(1) refused
    by (auto simp: ProcessDispute_def CheckVersionedProto_plain bind_CHECK Let_def split: if_splits)
next
  case True
  let ?e = "UnverifiedProofEndState proof" and ?s = "ChannelData_GetLatestState ch"
  have v: "plain_proof proof"
      "VerifyStateProof env rules (cd_id ch) (cd_metadata ch) (cd_reinit ch) proof = Some (Some ?e)"
    using True Verify_end by blast+
  from assms v have "Option.bind (parse_proven rules (cd_id ch) (cd_metadata ch) ?s) (\<lambda>p.
      Option.bind (parse_proven rules (cd_id ch) (cd_metadata ch) ?e) (\<lambda>q.
      Option.bind (WhoseTurn rules q) (\<lambda>t.
        if t = NO_TURN then Some (False, ch)
        else Option.bind (TurnCount rules p) (\<lambda>m. Option.bind (TurnCount rules q) (\<lambda>n.
          if n > m then Option.bind (SetStateProof proof ch) (\<lambda>c. Option.bind (SetDisputeHeight height c) (\<lambda>c. Some (True, c)))
          else if n < m then Some (False, ch)
          else if HasDispute ch then Some (False, ch)
          else if \<not> Equals rules q ?s then Some (False, ch)
          else Option.bind (SetDisputeHeight height ch) (\<lambda>c. Some (True, c)))))))
      = Some (b, ch')"
    by (simp add: ProcessDispute_def CheckVersionedProto_plain bind_CHECK Let_def split: if_splits)
  then obtain p q t where pq: "ParseState rules (cd_id ch) (cd_metadata ch) ?s = Some (Some p)"
      "ParseState rules (cd_id ch) (cd_metadata ch) ?e = Some (Some q)" "WhoseTurn rules q = Some t"
    and rest: "(if t = NO_TURN then Some (False, ch)
        else Option.bind (TurnCount rules p) (\<lambda>m. Option.bind (TurnCount rules q) (\<lambda>n.
          if n > m then Option.bind (SetStateProof proof ch) (\<lambda>c. Option.bind (SetDisputeHeight height c) (\<lambda>c. Some (True, c)))
          else if n < m then Some (False, ch)
          else if HasDispute ch then Some (False, ch)
          else if \<not> Equals rules q ?s then Some (False, ch)
          else Option.bind (SetDisputeHeight height ch) (\<lambda>c. Some (True, c)))))
      = Some (b, ch')"
    by (elim bind_SomeE) (simp only: parse_proven_iff)
  show thesis
  proof (cases "t = NO_TURN")
    case True
    with rest refused show thesis by simp
  next
    case False
    with rest obtain m n where mn: "TurnCount rules p = Some m" "TurnCount rules q = Some n"
      by (cases "TurnCount rules p"; cases "TurnCount rules q") simp_all
    note newer = newer [OF _ v pq(1,2) mn _ pq(3) False] and same = same [OF _ _ pq(1,2) mn(1) _ pq(3) False]
    consider "m < n" | "n < m" "\<not> m < n" | "m = n"
      by force
    then show thesis
    proof cases
      case 1
      with rest False mn newer assms(2) show thesis
        by (auto simp: SetStateProof_def SetDisputeHeight_def bind_CHECK split: if_splits)
    next
      case 2
      with rest False mn refused show thesis
        by simp
    next
      case 3
      show thesis
      proof (cases "HasDispute ch \<or> \<not> Equals rules q ?s")
        case True
        with 3 rest False mn refused show thesis
          by (auto split: if_splits)
      next
        case False': False
        with 3 rest False mn same show thesis
          by (auto simp: SetDisputeHeight_def bind_CHECK split: if_splits)
      qed
    qed
  qed
qed

lemma ProcessResolution_cases:
  assumes "ProcessResolution env rules ch proof = Some (b, ch')" "cd_initialised ch"
  obtains (refused) "\<not> b" "ch' = ch"
    | (newer) p q m n where "b" "plain_proof proof"
      "VerifyStateProof env rules (cd_id ch) (cd_metadata ch) (cd_reinit ch) proof = Some (Some (UnverifiedProofEndState proof))"
      "ParseState rules (cd_id ch) (cd_metadata ch) (ChannelData_GetLatestState ch) = Some (Some p)"
      "ParseState rules (cd_id ch) (cd_metadata ch) (UnverifiedProofEndState proof) = Some (Some q)"
      "TurnCount rules p = Some m" "TurnCount rules q = Some n" "m < n"
      "ch' = ch\<lparr>cd_dirty := True, cd_proof := proof, cd_disputeHeight := 0\<rparr>"
proof (cases "plain_proof proof \<and> (\<exists>e. VerifyStateProof env rules (cd_id ch) (cd_metadata ch) (cd_reinit ch) proof = Some (Some e))")
  case False
  then have "\<not> plain_proof proof \<or> (\<exists>r. VerifyStateProof env rules (cd_id ch) (cd_metadata ch) (cd_reinit ch) proof = r
      \<and> (r = None \<or> r = Some None))"
    by (metis option.exhaust)
  then show thesis
    using assms(1) refused
    by (auto simp: ProcessResolution_def CheckVersionedProto_plain bind_CHECK Let_def split: if_splits)
next
  case True
  let ?e = "UnverifiedProofEndState proof" and ?s = "ChannelData_GetLatestState ch"
  have v: "plain_proof proof"
      "VerifyStateProof env rules (cd_id ch) (cd_metadata ch) (cd_reinit ch) proof = Some (Some ?e)"
    using True Verify_end by blast+
  from assms v have "Option.bind (parse_proven rules (cd_id ch) (cd_metadata ch) ?s) (\<lambda>p.
      Option.bind (parse_proven rules (cd_id ch) (cd_metadata ch) ?e) (\<lambda>q.
      Option.bind (TurnCount rules p) (\<lambda>m. Option.bind (TurnCount rules q) (\<lambda>n.
        if n \<le> m then Some (False, ch)
        else Option.bind (SetStateProof proof ch) (\<lambda>c. Some (True, ClearDispute c))))))
      = Some (b, ch')"
    by (simp add: ProcessResolution_def CheckVersionedProto_plain Let_def split: if_splits)
  then obtain p q m n where pq: "ParseState rules (cd_id ch) (cd_metadata ch) ?s = Some (Some p)"
      "ParseState rules (cd_id ch) (cd_metadata ch) ?e = Some (Some q)"
      "TurnCount rules p = Some m" "TurnCount rules q = Some n"
    and rest: "(if n \<le> m then Some (False, ch)
        else Option.bind (SetStateProof proof ch) (\<lambda>c. Some (True, ClearDispute c))) = Some (b, ch')"
    by (elim bind_SomeE) (simp only: parse_proven_iff)
  from rest show thesis
    using refused newer [OF _ v pq] assms(2)
    by (auto simp: SetStateProof_def ClearDispute_def bind_CHECK not_le split: if_splits)
qed

lemma proven_channel_update:
  assumes "proven_channel env rules ch p m" "plain_proof proof"
    "VerifyStateProof env rules (cd_id ch) (cd_metadata ch) (cd_reinit ch) proof = Some (Some (UnverifiedProofEndState proof))"
    "ParseState rules (cd_id ch) (cd_metadata ch) (UnverifiedProofEndState proof) = Some (Some q)"
    "TurnCount rules q = Some n"
  shows "proven_channel env rules (ch\<lparr>cd_dirty := True, cd_proof := proof, cd_disputeHeight := h\<rparr>) q n"
  using assms by (simp add: proven_channel_def ChannelData_GetLatestState_def)

text \<open>What a dispute or a resolution may do to a channel with a proven state of turn count \<open>n\<close>.\<close>

definition channel_advances ::
    "channel_env \<Rightarrow> 'ps board_rules \<Rightarrow> channel_data \<Rightarrow> uint32 \<Rightarrow> channel_data \<Rightarrow> uint32 \<Rightarrow> bool" where
  "channel_advances env rules ch n ch' n' \<longleftrightarrow>
     (\<exists>p'. proven_channel env rules ch' p' n') \<and> n \<le> n' \<and> same_base ch' ch \<and>
     (n' = n \<longrightarrow> ChannelData_GetLatestState ch' = ChannelData_GetLatestState ch) \<and>
     (HasDispute ch \<longrightarrow> HasDispute ch' \<or> n < n')"

lemma channel_advances_refl: "proven_channel env rules ch p n \<Longrightarrow> channel_advances env rules ch n ch n"
  by (auto simp: channel_advances_def same_base_def)

lemma channel_advances_trans:
  "channel_advances env rules a l b m \<Longrightarrow> channel_advances env rules b m c n \<Longrightarrow> channel_advances env rules a l c n"
  unfolding channel_advances_def same_base_def
  by (elim conjE, intro conjI impI) (auto dest: order.antisym intro: order_trans less_le_trans le_less_trans)

lemma ProcessDispute_advances:
  assumes ch: "proven_channel env rules ch p n"
    and run: "ProcessDispute env rules ch height proof = Some (b, ch')"
  obtains n' where "channel_advances env rules ch n ch' n'" "b \<longrightarrow> cd_disputeHeight ch' = height \<and> HasDispute ch'"
proof -
  have init: "cd_initialised ch" and pn: "ParseState rules (cd_id ch) (cd_metadata ch) (ChannelData_GetLatestState ch) = Some (Some p)"
    "TurnCount rules p = Some n"
    using ch by (simp_all add: proven_channel_def)
  show thesis
    using run init
  proof (cases rule: ProcessDispute_cases)
    case refused
    then show thesis
      using that channel_advances_refl [OF ch] by simp
  next
    case (newer p0 q m k t)
    then have "m = n"
      using pn by simp
    then have "channel_advances env rules ch n ch' k"
      using newer proven_channel_update [OF ch newer(2,3,5,7), of height]
      by (auto simp: channel_advances_def same_base_def HasDispute_def)
    then show thesis
      using that [of k] newer by (simp add: HasDispute_def)
  next
    case (same p0 q k t)
    then have "proven_channel env rules ch' p n"
      using ch by (simp add: proven_channel_def ChannelData_GetLatestState_def)
    then show thesis
      using that [of n] same by (auto simp: channel_advances_def same_base_def HasDispute_def ChannelData_GetLatestState_def)
  qed
qed

lemma ProcessResolution_advances:
  assumes ch: "proven_channel env rules ch p n"
    and run: "ProcessResolution env rules ch proof = Some (b, ch')"
  obtains n' where "channel_advances env rules ch n ch' n'" "b \<longrightarrow> \<not> HasDispute ch' \<and> n < n'"
proof -
  have init: "cd_initialised ch" and pn: "ParseState rules (cd_id ch) (cd_metadata ch) (ChannelData_GetLatestState ch) = Some (Some p)"
    "TurnCount rules p = Some n"
    using ch by (simp_all add: proven_channel_def)
  show thesis
    using run init
  proof (cases rule: ProcessResolution_cases)
    case refused
    then show thesis
      using that channel_advances_refl [OF ch] by simp
  next
    case (newer p0 q m k)
    then have "m = n"
      using pn by simp
    then have "channel_advances env rules ch n ch' k \<and> n < k"
      using newer proven_channel_update [OF ch newer(2,3,5,7), of 0]
      by (auto simp: channel_advances_def same_base_def HasDispute_def)
    then show thesis
      using that [of k] newer by (simp add: HasDispute_def)
  qed
qed

datatype channel_op = DisputeOp uint32 state_proof | ResolutionOp state_proof

fun apply_channel_ops ::
    "channel_env \<Rightarrow> 'ps board_rules \<Rightarrow> channel_op list \<Rightarrow> channel_data \<Rightarrow> channel_data run" where
  "apply_channel_ops env rules [] ch = Some ch"
| "apply_channel_ops env rules (DisputeOp h pf # ops) ch =
     do { (b, ch) \<leftarrow> ProcessDispute env rules ch h pf; apply_channel_ops env rules ops ch }"
| "apply_channel_ops env rules (ResolutionOp pf # ops) ch =
     do { (b, ch) \<leftarrow> ProcessResolution env rules ch pf; apply_channel_ops env rules ops ch }"

lemma apply_channel_ops_advances:
  assumes "proven_channel env rules ch p n" "apply_channel_ops env rules ops ch = Some ch'"
  shows "\<exists>n'. channel_advances env rules ch n ch' n'"
  using assms
proof (induction env rules ops ch arbitrary: p n rule: apply_channel_ops.induct)
  case (1 env rules ch)
  then show ?case
    using channel_advances_refl by fastforce
next
  case (2 env rules h pf ops ch)
  then obtain b ch1 where run: "ProcessDispute env rules ch h pf = Some (b, ch1)"
    and rest: "apply_channel_ops env rules ops ch1 = Some ch'"
    by (auto simp: bind_Some_iff)
  obtain m where m: "channel_advances env rules ch n ch1 m"
    using ProcessDispute_advances [OF 2(2) run] .
  then obtain q where "proven_channel env rules ch1 q m"
    by (auto simp: channel_advances_def)
  then show ?case
    using 2(1) [OF run refl _ rest] channel_advances_trans [OF m] by blast
next
  case (3 env rules pf ops ch)
  then obtain b ch1 where run: "ProcessResolution env rules ch pf = Some (b, ch1)"
    and rest: "apply_channel_ops env rules ops ch1 = Some ch'"
    by (auto simp: bind_Some_iff)
  obtain m where m: "channel_advances env rules ch n ch1 m"
    using ProcessResolution_advances [OF 3(2) run] .
  then obtain q where "proven_channel env rules ch1 q m"
    by (auto simp: channel_advances_def)
  then show ?case
    using 3(1) [OF run refl _ rest] channel_advances_trans [OF m] by blast
qed

lemma ProcessResolution_succeeds:
  assumes "proven_channel env rules ch p m" "plain_proof proof"
    "VerifyStateProof env rules (cd_id ch) (cd_metadata ch) (cd_reinit ch) proof = Some (Some e)"
    "ParseState rules (cd_id ch) (cd_metadata ch) e = Some (Some q)" "TurnCount rules q = Some n" "m < n"
  shows "ProcessResolution env rules ch proof
    = Some (True, ch\<lparr>cd_dirty := True, cd_proof := proof, cd_disputeHeight := 0\<rparr>)"
  using assms
  by (simp add: ProcessResolution_def CheckVersionedProto_plain proven_channel_def parse_proven_def
      SetStateProof_def ClearDispute_def bind_CHECK Let_def not_le)

lemma proven_reinit:
  assumes "ParseState rules i m s = Some (Some p)" "TurnCount rules p = Some n"
    "Reinitialise m s ch = Some ch'" "cd_id ch = i"
    "VerifyStateProof env rules i m s (StateProofFromReinit s) = Some (Some s)"
  shows "proven_channel env rules ch' p n"
  using assms by (auto simp: Reinitialise_def bind_CHECK proven_channel_def ChannelData_GetLatestState_def
      split: if_splits)

lemma AddPendingStateProof_monotone:
  assumes "AddPendingStateProof env rules ch proof channels = Some channels'" "channels i = Some d"
  shows "\<exists>d'. channels' i = Some d' \<and> pc_turnCount d \<le> pc_turnCount d'"
proof (cases "channels' = channels")
  case True
  with assms show ?thesis by simp
next
  case False
  with assms(1) obtain e where v: "plain_proof proof" "VerifyStateProof env rules (cd_id ch) (cd_metadata ch) (cd_reinit ch) proof = Some (Some e)"
    by (auto simp: AddPendingStateProof_def CheckVersionedProto_plain bind_Some_iff Let_def split: if_splits option.splits)
  with assms(1) obtain q n where q: "TurnCount rules q = Some n"
    and rest: "(case channels (cd_id ch) of
                  None \<Rightarrow> Option.bind (parse_proven rules (cd_id ch) (cd_metadata ch) (ChannelData_GetLatestState ch))
                    (\<lambda>p. Option.bind (TurnCount rules p) (\<lambda>m.
                      Some (if n > m then channels(cd_id ch \<mapsto> \<lparr>pc_proof = proof, pc_turnCount = n\<rparr>) else channels)))
                | Some pending \<Rightarrow> Some (if n > pc_turnCount pending
                    then channels(cd_id ch \<mapsto> \<lparr>pc_proof = proof, pc_turnCount = n\<rparr>) else channels)) = Some channels'"
    by (auto simp: AddPendingStateProof_def CheckVersionedProto_plain Let_def elim!: bind_SomeE)
  from rest assms(2) show ?thesis
    by (cases "i = cd_id ch") (auto simp: bind_Some_iff split: option.splits if_splits)
qed

subsection \<open>Properties\<close>

text \<open>Writing a changed channel back (the destructor of its handle) and loading it again gives
  the same ID, metadata, reinit state, latest state and dispute height, and no other channel is
  touched.\<close>

theorem channel_store_load:
  assumes "distinct (map fst tbl)" "cd_initialised ch" "cd_dirty ch"
  shows "\<exists>tbl' ch'. ChannelData_destroy ch tbl = Some tbl' \<and> distinct (map fst tbl') \<and>
    GetById (cd_id ch) tbl' = Some ch' \<and> same_channel ch' ch \<and>
    (\<forall>i. i \<noteq> cd_id ch \<longrightarrow> GetById i tbl' = GetById i tbl)"
  by (rule destroy_dirty [OF assms])

definition example_channel :: channel_data where
  "example_channel = the (Reinitialise example_meta (ser_board_state InitialBoardState) (ChannelData_new example_id))"

theorem channel_store_load_witness:
  "\<exists>tbl' ch'. ChannelData_destroy example_channel [] = Some tbl' \<and> distinct (map fst tbl') \<and>
    GetById (cd_id example_channel) tbl' = Some ch' \<and> same_channel ch' example_channel \<and>
    (\<forall>i. i \<noteq> cd_id example_channel \<longrightarrow> GetById i tbl' = GetById i [])"
proof (rule channel_store_load)
  show "distinct (map fst ([] :: channels_table))"
    by simp
  show "cd_initialised example_channel" "cd_dirty example_channel"
    by code_simp+
qed

text \<open>C22. From a channel whose on-chain state is proven, any sequence of disputes and resolutions
  (accepted or not) leaves a proven on-chain state; its turn count never decreases, an equal turn
  count means the very same state, the reinitialisation data is untouched, and an open dispute only
  disappears when the turn count has increased.\<close>

theorem channel_disputes_sound:
  assumes "proven_channel env rules ch p n" "apply_channel_ops env rules ops ch = Some ch'"
  shows "\<exists>n'. channel_advances env rules ch n ch' n'"
  by (rule apply_channel_ops_advances [OF assms])

definition example_extended :: state_proof where
  "example_extended = the (the (ExtendStateProof mock_env mock_rules example_id example_meta
     (bare_proof (ser_board_state InitialBoardState)) wire_first_commitment))"

definition example_start :: "board_state proto_board_state" where
  "example_start = the (the (ParseState mock_rules example_id example_meta (ser_board_state InitialBoardState)))"

lemma example_proven: "proven_channel mock_env mock_rules example_channel example_start
    (the (TurnCount mock_rules example_start))"
  by code_simp

lemma example_disputed: "apply_channel_ops mock_env mock_rules
    [DisputeOp 10 (bare_proof (ser_board_state InitialBoardState)), ResolutionOp example_extended] example_channel \<noteq> None"
  by code_simp

theorem channel_disputes_sound_witness:
  "let ops = [DisputeOp 10 (bare_proof (ser_board_state InitialBoardState)), ResolutionOp example_extended];
       ch' = the (apply_channel_ops mock_env mock_rules ops example_channel)
   in \<exists>n'. channel_advances mock_env mock_rules example_channel (the (TurnCount mock_rules example_start)) ch' n'"
  unfolding Let_def
  by (rule channel_disputes_sound [OF example_proven, of
      "[DisputeOp 10 (bare_proof (ser_board_state InitialBoardState)), ResolutionOp example_extended]"])
    (use example_disputed in auto)

text \<open>A participant can always resolve a dispute: a valid proof of a state with a higher turn
  count than the one on chain is accepted, becomes the latest state and ends the dispute.\<close>

theorem resolution_succeeds:
  assumes "proven_channel env rules ch p m" "plain_proof proof"
    "VerifyStateProof env rules (cd_id ch) (cd_metadata ch) (cd_reinit ch) proof = Some (Some e)"
    "ParseState rules (cd_id ch) (cd_metadata ch) e = Some (Some q)" "TurnCount rules q = Some n" "m < n"
  shows "\<exists>ch'. ProcessResolution env rules ch proof = Some (True, ch') \<and> \<not> HasDispute ch' \<and>
    ChannelData_GetLatestState ch' = e"
  using ProcessResolution_succeeds [OF assms] Verify_end [OF assms(3)]
  by (simp add: HasDispute_def ChannelData_GetLatestState_def)

theorem resolution_succeeds_witness:
  "let ch = the (apply_channel_ops mock_env mock_rules
         [DisputeOp 10 (bare_proof (ser_board_state InitialBoardState))] example_channel);
       e = UnverifiedProofEndState example_extended
   in HasDispute ch \<and> (\<exists>ch'. ProcessResolution mock_env mock_rules ch example_extended = Some (True, ch') \<and>
     \<not> HasDispute ch' \<and> ChannelData_GetLatestState ch' = e)"
proof -
  let ?ch = "the (apply_channel_ops mock_env mock_rules
         [DisputeOp 10 (bare_proof (ser_board_state InitialBoardState))] example_channel)"
  let ?e = "UnverifiedProofEndState example_extended"
  let ?q = "the (the (ParseState mock_rules (cd_id ?ch) (cd_metadata ?ch) ?e))"
  have "HasDispute ?ch"
    by code_simp
  moreover have "\<exists>ch'. ProcessResolution mock_env mock_rules ?ch example_extended = Some (True, ch') \<and>
     \<not> HasDispute ch' \<and> ChannelData_GetLatestState ch' = ?e"
  proof (rule resolution_succeeds)
    show "proven_channel mock_env mock_rules ?ch example_start (the (TurnCount mock_rules example_start))"
      by code_simp
    show "plain_proof example_extended"
      by code_simp
    show "VerifyStateProof mock_env mock_rules (cd_id ?ch) (cd_metadata ?ch) (cd_reinit ?ch) example_extended = Some (Some ?e)"
      by code_simp
    show "ParseState mock_rules (cd_id ?ch) (cd_metadata ?ch) ?e = Some (Some ?q)"
      by code_simp
    show "TurnCount mock_rules ?q = Some (the (TurnCount mock_rules ?q))"
      by code_simp
    show "the (TurnCount mock_rules example_start) < the (TurnCount mock_rules ?q)"
      by code_simp
  qed
  ultimately show ?thesis
    by (simp add: Let_def)
qed

end
