(* ===== verification/Json.thy ===== *)
theory Json
  imports Prelude
begin

text \<open>
  The JSON values the code exchanges (jsoncpp's \<open>Json::Value\<close>), with the part of that library's
  interface that the source uses.

  An object is an association list with distinct keys; a \<open>double\<close> is a mantissa and a binary
  exponent.  The index operator on a value that is no object gives null here; jsoncpp throws unless
  the value is null, and every caller tests the type before, or aborts on the null it gets.
\<close>

datatype json =
    JNull
  | JBool bool
  | JInt int
  | JReal int int
  | JString string
  | JArray "json list"
  | JObject "(string \<times> json) list"

definition isObject :: "json \<Rightarrow> bool" where
  "isObject v = (case v of JObject fs \<Rightarrow> True | _ \<Rightarrow> False)"

definition isArray :: "json \<Rightarrow> bool" where
  "isArray v = (case v of JArray vs \<Rightarrow> True | _ \<Rightarrow> False)"

definition isString :: "json \<Rightarrow> bool" where
  "isString v = (case v of JString s \<Rightarrow> True | _ \<Rightarrow> False)"

definition isBool :: "json \<Rightarrow> bool" where
  "isBool v = (case v of JBool b \<Rightarrow> True | _ \<Rightarrow> False)"

definition asString :: "json \<Rightarrow> string" where
  "asString v = (case v of JString s \<Rightarrow> s | _ \<Rightarrow> [])"

definition json_array :: "json \<Rightarrow> json list" where
  "json_array v = (case v of JArray vs \<Rightarrow> vs | _ \<Rightarrow> [])"

definition json_fields :: "json \<Rightarrow> (string \<times> json) list" where
  "json_fields v = (case v of JObject fs \<Rightarrow> fs | _ \<Rightarrow> [])"

definition json_get :: "json \<Rightarrow> string \<Rightarrow> json" where
  "json_get v k = (case map_of (json_fields v) k of None \<Rightarrow> JNull | Some x \<Rightarrow> x)"

definition isMember :: "json \<Rightarrow> string \<Rightarrow> bool" where
  "isMember v k \<longleftrightarrow> k \<in> fst ` set (json_fields v)"

definition json_size :: "json \<Rightarrow> nat" where
  "json_size v = (case v of JArray vs \<Rightarrow> length vs | JObject fs \<Rightarrow> length fs | _ \<Rightarrow> 0)"

text \<open>The integer value of a number, where it has one: jsoncpp's tests \<open>isInt\<close>, \<open>isUInt\<close> and so
  on accept an integral \<open>double\<close> in range.\<close>

definition json_integer :: "json \<Rightarrow> int option" where
  "json_integer v =
     (case v of
        JInt i \<Rightarrow> Some i
      | JReal m e \<Rightarrow>
          if e \<ge> 0 then Some (m * 2 ^ nat e)
          else if m mod 2 ^ nat (- e) = 0 then Some (m div 2 ^ nat (- e))
          else None
      | _ \<Rightarrow> None)"

definition json_int_in :: "int \<Rightarrow> int \<Rightarrow> json \<Rightarrow> bool" where
  "json_int_in lo hi v = (case json_integer v of None \<Rightarrow> False | Some i \<Rightarrow> lo \<le> i \<and> i \<le> hi)"

definition isUInt :: "json \<Rightarrow> bool" where
  "isUInt = json_int_in 0 (2 ^ 32 - 1)"

definition isInt64 :: "json \<Rightarrow> bool" where
  "isInt64 = json_int_in (- (2 ^ 63)) (2 ^ 63 - 1)"

definition isUInt64 :: "json \<Rightarrow> bool" where
  "isUInt64 = json_int_in 0 (2 ^ 64 - 1)"

definition json_as_integer :: "json \<Rightarrow> int" where
  "json_as_integer v = (case json_integer v of None \<Rightarrow> 0 | Some i \<Rightarrow> i)"

definition asUInt :: "json \<Rightarrow> uint32" where
  "asUInt v = word_of_int (json_as_integer v)"

definition asInt64 :: "json \<Rightarrow> int" where
  "asInt64 = json_as_integer"

lemma isObject_iff [simp]: "isObject v \<longleftrightarrow> (\<exists>fs. v = JObject fs)"
  by (auto simp: isObject_def split: json.splits)

lemma isString_iff [simp]: "isString v \<longleftrightarrow> (\<exists>s. v = JString s)"
  by (auto simp: isString_def split: json.splits)

lemma isArray_iff [simp]: "isArray v \<longleftrightarrow> (\<exists>vs. v = JArray vs)"
  by (auto simp: isArray_def split: json.splits)

lemma json_projections [simp]:
  "asString (JString s) = s" "json_array (JArray vs) = vs" "json_fields (JObject fs) = fs"
  "json_size (JObject fs) = length fs" "json_size (JArray vs) = length vs"
  by (simp_all add: asString_def json_array_def json_fields_def json_size_def)

lemma json_get_null [simp]: "json_get JNull k = JNull"
  by (simp add: json_get_def json_fields_def)

lemma json_get_object: "json_get (JObject fs) k = (case map_of fs k of None \<Rightarrow> JNull | Some x \<Rightarrow> x)"
  by (simp add: json_get_def)

lemma json_integer_int [simp]: "json_integer (JInt i) = Some i"
  by (simp add: json_integer_def)

end
