(* ===== verification/Game_Logic.thy ===== *)
theory Game_Logic
  imports Xaya_Random Json
begin

text \<open>
  The interface of games and their context: \<open>src/xayagame/gamelogic.cpp\<close>.

  A game is a record of the virtual functions of \<open>GameLogic\<close>, which get the context (chain, game ID
  and the random numbers of the block) as an argument.  The public functions seed the random numbers
  and call the game.  \<open>CachingGame\<close> keeps the old state itself as undo data.  SHA-256 is a parameter.

  The daemon relies on undoing a block giving back the old state: the locale \<open>undoable_game\<close>.
\<close>

datatype Chain = CHAIN_UNKNOWN | MAIN | TEST | REGTEST

definition ChainToString :: "Chain \<Rightarrow> string" where
  "ChainToString c =
     (case c of
        CHAIN_UNKNOWN \<Rightarrow> ''unknown''
      | MAIN \<Rightarrow> ''main''
      | TEST \<Rightarrow> ''test''
      | REGTEST \<Rightarrow> ''regtest'')"

subsection \<open>The context of a game\<close>

record processor_context =
  pc_chain :: Chain
  pc_gameId :: string

definition GameProcessorWithContext_new :: processor_context where
  "GameProcessorWithContext_new = \<lparr>pc_chain = CHAIN_UNKNOWN, pc_gameId = []\<rparr>"

definition InitialiseGameContext :: "Chain \<Rightarrow> string \<Rightarrow> processor_context \<Rightarrow> processor_context run" where
  "InitialiseGameContext c i pc =
     do {
       CHECK (c \<noteq> CHAIN_UNKNOWN);
       CHECK (i \<noteq> []);
       CHECK (pc_chain pc = CHAIN_UNKNOWN);
       Some (pc\<lparr>pc_chain := c, pc_gameId := i\<rparr>)
     }"

definition GetChain :: "processor_context \<Rightarrow> Chain run" where
  "GetChain pc = do { CHECK (pc_chain pc \<noteq> CHAIN_UNKNOWN); Some (pc_chain pc) }"

definition GetGameId :: "processor_context \<Rightarrow> string run" where
  "GetGameId pc = do { CHECK (pc_chain pc \<noteq> CHAIN_UNKNOWN); Some (pc_gameId pc) }"

record game_context =
  ctx_processor :: processor_context
  ctx_rnd :: random

definition Context_new :: "processor_context \<Rightarrow> uint256 \<Rightarrow> game_context" where
  "Context_new pc rndSeed = \<lparr>ctx_processor = pc, ctx_rnd = Random_Seed rndSeed\<rparr>"

subsection \<open>Games\<close>

record game_logic =
  gl_GetInitialState :: "game_context \<Rightarrow> (string \<times> uint32 \<times> string) run"
  gl_ProcessForward :: "game_context \<Rightarrow> string \<Rightarrow> json \<Rightarrow> (string \<times> string) run"
  gl_ProcessBackwards :: "game_context \<Rightarrow> string \<Rightarrow> json \<Rightarrow> string \<Rightarrow> string run"

definition BlockRngSeed :: "(string \<Rightarrow> uint256) \<Rightarrow> string \<Rightarrow> json \<Rightarrow> uint256 run" where
  "BlockRngSeed sha gameId blockData =
     do {
       CHECK (gameId \<noteq> []);
       let blk = json_get blockData ''block'';
       CHECK (isObject blk);
       let coreSeedVal = json_get blk ''rngseed'';
       CHECK (isString coreSeedVal);
       coreSeed \<leftarrow> FromHex (asString coreSeedVal);
       Some (sha (''block'' @ gameId @ GetBinaryString coreSeed))
     }"

definition GetInitialState ::
    "(string \<Rightarrow> uint256) \<Rightarrow> processor_context \<Rightarrow> game_logic \<Rightarrow> (string \<times> uint32 \<times> string) run" where
  "GetInitialState sha pc logic =
     do {
       i \<leftarrow> GetGameId pc;
       gl_GetInitialState logic (Context_new pc (sha (''initial state'' @ i)))
     }"

definition ProcessForward ::
    "(string \<Rightarrow> uint256) \<Rightarrow> processor_context \<Rightarrow> game_logic \<Rightarrow> string \<Rightarrow> json \<Rightarrow> (string \<times> string) run" where
  "ProcessForward sha pc logic oldState blockData =
     do {
       i \<leftarrow> GetGameId pc;
       seed \<leftarrow> BlockRngSeed sha i blockData;
       gl_ProcessForward logic (Context_new pc seed) oldState blockData
     }"

definition ProcessBackwards ::
    "(string \<Rightarrow> uint256) \<Rightarrow> processor_context \<Rightarrow> game_logic \<Rightarrow> string \<Rightarrow> json \<Rightarrow> string \<Rightarrow> string run" where
  "ProcessBackwards sha pc logic newState blockData undo =
     do {
       i \<leftarrow> GetGameId pc;
       seed \<leftarrow> BlockRngSeed sha i blockData;
       gl_ProcessBackwards logic (Context_new pc seed) newState blockData undo
     }"

subsection \<open>Games with small states\<close>

definition Caching_ProcessForward ::
    "(game_context \<Rightarrow> string \<Rightarrow> json \<Rightarrow> string run) \<Rightarrow> game_context \<Rightarrow> string \<Rightarrow> json \<Rightarrow> (string \<times> string) run" where
  "Caching_ProcessForward updateState ctx oldState blockData =
     do { newState \<leftarrow> updateState ctx oldState blockData; Some (newState, oldState) }"

definition Caching_ProcessBackwards :: "game_context \<Rightarrow> string \<Rightarrow> json \<Rightarrow> string \<Rightarrow> string run" where
  "Caching_ProcessBackwards ctx newState blockData undo = Some undo"

definition CachingGame ::
    "(game_context \<Rightarrow> (string \<times> uint32 \<times> string) run) \<Rightarrow> (game_context \<Rightarrow> string \<Rightarrow> json \<Rightarrow> string run) \<Rightarrow> game_logic" where
  "CachingGame initial updateState =
     \<lparr>gl_GetInitialState = initial, gl_ProcessForward = Caching_ProcessForward updateState,
      gl_ProcessBackwards = Caching_ProcessBackwards\<rparr>"

subsection \<open>Undoing blocks\<close>

locale undoable_game =
  fixes logic :: game_logic
  assumes undoing_law: "gl_ProcessForward logic ctx s blk = Some (s', u) \<Longrightarrow> gl_ProcessBackwards logic ctx s' blk u = Some s"
begin

lemma backwards_forward:
  "ProcessForward sha pc logic s blk = Some (s', u) \<Longrightarrow> ProcessBackwards sha pc logic s' blk u = Some s"
  by (auto simp: ProcessForward_def ProcessBackwards_def undoing_law elim!: bind_SomeE)

end

interpretation caching: undoable_game "CachingGame initial updateState" for initial updateState
  by unfold_locales
    (auto simp: CachingGame_def Caching_ProcessForward_def Caching_ProcessBackwards_def elim!: bind_SomeE)

end
