(* ===== verification/Ships_Logic.thy ===== *)
theory Ships_Logic
  imports Channel_Game Game_Logic
begin

text \<open>
  The on-chain part of Xayaships (\<open>src/ships/logic.cpp\<close>): creating, joining and aborting channels,
  declared losses, disputes and resolutions, expiry of disputes, time-outs, the win/loss statistics
  and the pending moves.

  The database is a record of its three tables.  Every handler is a function from the database to
  the database that may abort; handles on channels are written back where their destructor runs.
  Handles that are never modified are not dirty, so destroying them changes nothing.  Queries that
  are stepped through while rows are deleted are evaluated first: each step deletes only its own
  row.  What is not in the repository is collected in \<open>ships_env\<close>: the channel services, the
  serialisation of the protocol buffers and the parser of state proofs.
\<close>

subsection \<open>The database\<close>

record extra_row =
  createdheight :: uint32
  n_participants :: int

record ships_db =
  db_channels :: channels_table
  db_extra :: "(uint256 \<times> extra_row) list"
  db_stats :: "(string \<times> int \<times> int) list"

record ships_env =
  senv_channel :: channel_env
  senv_codec :: ships_codec
  senv_parse_proof :: "string \<Rightarrow> state_proof option"

definition ships_boardRules :: "ships_env \<Rightarrow> board_state proto_board_state board_rules" where
  "ships_boardRules env = ShipsBoardRules (env_sha (senv_channel env)) (senv_codec env)"

definition DISPUTE_BLOCKS :: uint32 where
  "DISPUTE_BLOCKS = 10"

definition CHANNEL_TIMEOUT_BLOCKS :: uint32 where
  "CHANNEL_TIMEOUT_BLOCKS = 12"

definition GetInitialStateBlock :: "processor_context \<Rightarrow> (uint32 \<times> string) run" where
  "GetInitialStateBlock pc =
     do {
       chain \<leftarrow> GetChain pc;
       (case chain of
          MAIN \<Rightarrow> Some (2960000, ''81c60638621eec528667941d954e044577f0125465ca2ba26347385d5e3aecdd'')
        | TEST \<Rightarrow> Some (112307, ''4a2497b5ce649747f9dffeab6fafd57aa928901f3b15537287359adf5ed6fb1a'')
        | REGTEST \<Rightarrow> Some (0, ''6f750b36d22f1dc3d0a6e483af45301022646dfc3b3ba2187865f5a7d6d83ab1'')
        | _ \<Rightarrow> LOG_FATAL)
     }"

definition InitialiseState :: ships_db where
  "InitialiseState = \<lparr>db_channels = [], db_extra = [], db_stats = []\<rparr>"

subsection \<open>Creating, joining and aborting channels\<close>

definition ParseCreateChannelMove :: "json \<Rightarrow> string option" where
  "ParseCreateChannelMove obj =
     (if \<not> isObject obj then None
      else
        let addrVal = json_get obj ''addr'' in
        if json_size obj \<noteq> 1 \<or> \<not> isString addrVal then None
        else Some (asString addrVal))"

definition new_participant :: "string \<Rightarrow> string \<Rightarrow> channel_participant" where
  "new_participant nm addr = \<lparr>cp_unknown = False, cp_name = Some nm, cp_address = Some addr\<rparr>"

definition HandleCreateChannel ::
    "json \<Rightarrow> uint32 \<Rightarrow> string \<Rightarrow> uint256 \<Rightarrow> ships_db \<Rightarrow> ships_db run" where
  "HandleCreateChannel obj height nm txid db =
     (case ParseCreateChannelMove obj of
        None \<Rightarrow> Some db
      | Some addr \<Rightarrow>
          do {
            CHECK (GetById txid (db_channels db) = None);
            let meta = empty_metadata\<lparr>participants := [new_participant nm addr]\<rparr>;
            h \<leftarrow> Reinitialise meta [] (ChannelData_new txid);
            CHECK (map_of (db_extra db) (cd_id h) = None);
            let extra = tbl_put (cd_id h) \<lparr>createdheight = height, n_participants = 1\<rparr> (db_extra db);
            chs \<leftarrow> ChannelData_destroy h (db_channels db);
            Some (db\<lparr>db_channels := chs, db_extra := extra\<rparr>)
          })"

definition RetrieveChannelFromMove :: "json \<Rightarrow> channels_table \<Rightarrow> channel_data option run" where
  "RetrieveChannelFromMove obj tbl =
     do {
       CHECK (isObject obj);
       let idVal = json_get obj ''id'';
       Some (if \<not> isString idVal then None
         else case FromHex (asString idVal) of
                None \<Rightarrow> None
              | Some channelId \<Rightarrow> GetById channelId tbl)
     }"

definition ParseJoinChannelMove ::
    "json \<Rightarrow> string \<Rightarrow> channels_table \<Rightarrow> (channel_data \<times> string) option run" where
  "ParseJoinChannelMove obj nm tbl =
     (if \<not> isObject obj then Some None
      else
        let addrVal = json_get obj ''addr'' in
        if json_size obj \<noteq> 2 \<or> \<not> isString addrVal then Some None
        else do {
          h \<leftarrow> RetrieveChannelFromMove obj tbl;
          case h of
            None \<Rightarrow> Some None
          | Some h \<Rightarrow>
              (let meta = cd_metadata h in
               if length (participants meta) \<noteq> 1 then Some None
               else do {
                 p \<leftarrow> at_index (participants meta) 0;
                 Some (if participant_name p = nm then None else Some (h, asString addrVal))
               })
        })"

definition HandleJoinChannel :: "ships_env \<Rightarrow> json \<Rightarrow> string \<Rightarrow> uint256 \<Rightarrow> ships_db \<Rightarrow> ships_db run" where
  "HandleJoinChannel env obj nm txid db =
     do {
       parsed \<leftarrow> ParseJoinChannelMove obj nm (db_channels db);
       case parsed of
         None \<Rightarrow> Some db
       | Some (h, addr) \<Rightarrow>
           do {
             let updated = UpdateMetadataReinit (env_sha (senv_channel env)) txid (cd_metadata h);
             let newMeta = updated\<lparr>participants := participants updated @ [new_participant nm addr]\<rparr>;
             CHECK (length (participants newMeta) = 2);
             let state = sc_serialise_state (senv_codec env) InitialBoardState;
             h \<leftarrow> Reinitialise newMeta state h;
             let extra = map (\<lambda>(i, e). if i = cd_id h
               then (i, e\<lparr>n_participants := int (length (participants newMeta))\<rparr>) else (i, e)) (db_extra db);
             chs \<leftarrow> ChannelData_destroy h (db_channels db);
             Some (db\<lparr>db_channels := chs, db_extra := extra\<rparr>)
           }
     }"

definition ParseAbortChannelMove :: "json \<Rightarrow> string \<Rightarrow> channels_table \<Rightarrow> uint256 option run" where
  "ParseAbortChannelMove obj nm tbl =
     (if \<not> isObject obj then Some None
      else if json_size obj \<noteq> 1 then Some None
      else do {
        h \<leftarrow> RetrieveChannelFromMove obj tbl;
        case h of
          None \<Rightarrow> Some None
        | Some h \<Rightarrow>
            (let meta = cd_metadata h in
             if length (participants meta) \<noteq> 1 then Some None
             else do {
               p \<leftarrow> at_index (participants meta) 0;
               Some (if participant_name p \<noteq> nm then None else Some (cd_id h))
             })
      })"

definition DeleteChannelById :: "uint256 \<Rightarrow> ships_db \<Rightarrow> ships_db" where
  "DeleteChannelById i db = db\<lparr>db_channels := DeleteById i (db_channels db), db_extra := tbl_delete i (db_extra db)\<rparr>"

definition HandleAbortChannel :: "json \<Rightarrow> string \<Rightarrow> ships_db \<Rightarrow> ships_db run" where
  "HandleAbortChannel obj nm db =
     do {
       parsed \<leftarrow> ParseAbortChannelMove obj nm (db_channels db);
       Some (case parsed of None \<Rightarrow> db | Some i \<Rightarrow> DeleteChannelById i db)
     }"

subsection \<open>Statistics\<close>

definition stats_insert_or_ignore :: "string \<Rightarrow> (string \<times> int \<times> int) list \<Rightarrow> (string \<times> int \<times> int) list" where
  "stats_insert_or_ignore nm st = (if map_of st nm = None then st @ [(nm, 0, 0)] else st)"

definition stats_won :: "string \<Rightarrow> (string \<times> int \<times> int) list \<Rightarrow> (string \<times> int \<times> int) list" where
  "stats_won nm st = map (\<lambda>(k, won, lost). if k = nm then (k, won + 1, lost) else (k, won, lost)) st"

definition stats_lost :: "string \<Rightarrow> (string \<times> int \<times> int) list \<Rightarrow> (string \<times> int \<times> int) list" where
  "stats_lost nm st = map (\<lambda>(k, won, lost). if k = nm then (k, won, lost + 1) else (k, won, lost)) st"

definition UpdateStats :: "channel_metadata \<Rightarrow> int \<Rightarrow> ships_db \<Rightarrow> ships_db run" where
  "UpdateStats meta winner db =
     do {
       CHECK (winner \<ge> 0);
       CHECK (winner \<le> 1);
       CHECK (length (participants meta) = 2);
       w \<leftarrow> at_index (participants meta) (nat winner);
       l \<leftarrow> at_index (participants meta) (nat (1 - winner));
       let winnerName = participant_name w;
       let loserName = participant_name l;
       let st = stats_insert_or_ignore loserName (stats_insert_or_ignore winnerName (db_stats db));
       Some (db\<lparr>db_stats := stats_lost loserName (stats_won winnerName st)\<rparr>)
     }"

subsection \<open>Declared losses, disputes and resolutions\<close>

fun find_loser :: "string \<Rightarrow> channel_participant list \<Rightarrow> int \<Rightarrow> int \<Rightarrow> int run" where
  "find_loser nm [] i loser = Some loser"
| "find_loser nm (p # ps) i loser =
     (if participant_name p = nm then do { CHECK (loser = - 1); find_loser nm ps (i + 1) i }
      else find_loser nm ps (i + 1) loser)"

definition HandleDeclareLoss :: "ships_env \<Rightarrow> json \<Rightarrow> string \<Rightarrow> ships_db \<Rightarrow> ships_db run" where
  "HandleDeclareLoss env obj nm db =
     (if \<not> isObject obj then Some db
      else if json_size obj \<noteq> 2 then Some db
      else do {
        h \<leftarrow> RetrieveChannelFromMove obj (db_channels db);
        case h of
          None \<Rightarrow> Some db
        | Some h \<Rightarrow>
            (let i = cd_id h; meta = cd_metadata h; reinitVal = json_get obj ''r'' in
             if length (participants meta) \<noteq> 2 then Some db
             else if \<not> isString reinitVal then Some db
             else do {
               decoded \<leftarrow> DecodeBase64 (env_decode (senv_channel env)) (asString reinitVal);
               case decoded of
                 None \<Rightarrow> Some db
               | Some r \<Rightarrow>
                   if r \<noteq> reinit meta then Some db
                   else do {
                     loser \<leftarrow> find_loser nm (participants meta) 0 (- 1);
                     if loser = - 1 then Some db
                     else do {
                       p \<leftarrow> at_index (participants meta) (nat loser);
                       CHECK (participant_name p = nm);
                       CHECK (loser \<ge> 0);
                       CHECK (loser \<le> 1);
                       db \<leftarrow> UpdateStats meta (1 - loser) db;
                       Some (DeleteChannelById i db)
                     }
                   }
             })
      })"

definition ProtoFromBase64 :: "ships_env \<Rightarrow> string \<Rightarrow> state_proof option run" where
  "ProtoFromBase64 env str =
     do {
       decoded \<leftarrow> DecodeBase64 (env_decode (senv_channel env)) str;
       Some (case decoded of None \<Rightarrow> None | Some bytes \<Rightarrow> senv_parse_proof env bytes)
     }"

definition ExtractProto :: "ships_env \<Rightarrow> json \<Rightarrow> state_proof option run" where
  "ExtractProto env val = (if \<not> isString val then Some None else ProtoFromBase64 env (asString val))"

definition ParseDisputeResolutionMove ::
    "ships_env \<Rightarrow> json \<Rightarrow> channels_table \<Rightarrow> (channel_data \<times> state_proof) option run" where
  "ParseDisputeResolutionMove env obj tbl =
     (if \<not> isObject obj then Some None
      else if json_size obj \<noteq> 2 then Some None
      else do {
        extracted \<leftarrow> ExtractProto env (json_get obj ''state'');
        case extracted of
          None \<Rightarrow> Some None
        | Some pf \<Rightarrow>
            do {
              h \<leftarrow> RetrieveChannelFromMove obj tbl;
              Some (map_option (\<lambda>h. (h, pf)) h)
            }
      })"

definition HandleDisputeResolution ::
    "ships_env \<Rightarrow> json \<Rightarrow> uint32 \<Rightarrow> bool \<Rightarrow> ships_db \<Rightarrow> ships_db run" where
  "HandleDisputeResolution env obj height isDispute db =
     do {
       parsed \<leftarrow> ParseDisputeResolutionMove env obj (db_channels db);
       case parsed of
         None \<Rightarrow> Some db
       | Some (h, pf) \<Rightarrow>
           (let i = cd_id h; meta = cd_metadata h in
            if length (participants meta) \<noteq> 2 then Some db
            else do {
              (res, h) \<leftarrow> (if isDispute then ProcessDispute (senv_channel env) (ships_boardRules env) h height pf
                 else ProcessResolution (senv_channel env) (ships_boardRules env) h pf);
              if \<not> res then do {
                chs \<leftarrow> ChannelData_destroy h (db_channels db);
                Some (db\<lparr>db_channels := chs\<rparr>)
              } else do {
                CHECK (length (participants meta) = 2);
                state \<leftarrow> parse_proven (ships_boardRules env) i meta (ChannelData_GetLatestState h);
                case bs_winner (pbs_state state) of
                  None \<Rightarrow>
                    do {
                      chs \<leftarrow> ChannelData_destroy h (db_channels db);
                      Some (db\<lparr>db_channels := chs\<rparr>)
                    }
                | Some winner \<Rightarrow>
                    do {
                      CHECK (winner \<le> 1);
                      db \<leftarrow> UpdateStats meta (uint winner) db;
                      chs \<leftarrow> ChannelData_destroy h (db_channels db);
                      Some (DeleteChannelById i (db\<lparr>db_channels := chs\<rparr>))
                    }
              }
            })
     }"

subsection \<open>Expired disputes and time-outs\<close>

definition expire_channel :: "ships_env \<Rightarrow> channel_data \<Rightarrow> ships_db \<Rightarrow> ships_db run" where
  "expire_channel env h db =
     (let i = cd_id h; meta = cd_metadata h in
      do {
        CHECK (length (participants meta) = 2);
        state \<leftarrow> parse_proven (ships_boardRules env) i meta (ChannelData_GetLatestState h);
        loser \<leftarrow> WhoseTurn (ships_boardRules env) state;
        CHECK (loser \<noteq> NO_TURN);
        CHECK (loser \<ge> 0);
        CHECK (loser \<le> 1);
        db \<leftarrow> UpdateStats meta (1 - loser) db;
        Some (DeleteChannelById i db)
      })"

fun expire_channels :: "ships_env \<Rightarrow> channel_data list \<Rightarrow> ships_db \<Rightarrow> ships_db run" where
  "expire_channels env [] db = Some db"
| "expire_channels env (h # hs) db = do { db \<leftarrow> expire_channel env h db; expire_channels env hs db }"

definition ProcessExpiredDisputes :: "ships_env \<Rightarrow> uint32 \<Rightarrow> ships_db \<Rightarrow> ships_db run" where
  "ProcessExpiredDisputes env height db =
     expire_channels env (QueryForDisputeHeight (height - DISPUTE_BLOCKS) (db_channels db)) db"

fun time_out_rows :: "uint32 \<Rightarrow> (uint256 \<times> extra_row) list \<Rightarrow> ships_db \<Rightarrow> ships_db run" where
  "time_out_rows limit [] db = Some db"
| "time_out_rows limit ((i, e) # rows) db =
     do {
       CHECK (createdheight e = limit);
       CHECK (n_participants e = 1);
       time_out_rows limit rows (DeleteChannelById i db)
     }"

definition TimeOutChannels :: "uint32 \<Rightarrow> ships_db \<Rightarrow> ships_db run" where
  "TimeOutChannels height db =
     (if height < CHANNEL_TIMEOUT_BLOCKS then Some db
      else
        let limit = height - CHANNEL_TIMEOUT_BLOCKS in
        time_out_rows limit
          (filter (\<lambda>(i, e). n_participants e < 2 \<and> createdheight e \<le> limit) (db_extra db)) db)"

subsection \<open>Processing a block\<close>

definition ships_move :: "ships_env \<Rightarrow> uint32 \<Rightarrow> json \<Rightarrow> ships_db \<Rightarrow> ships_db run" where
  "ships_move env height mv db =
     do {
       CHECK (isObject mv);
       let nameVal = json_get mv ''name'';
       CHECK (isString nameVal);
       let nm = asString nameVal;
       let txidVal = json_get mv ''txid'';
       CHECK (isString txidVal);
       txid \<leftarrow> FromHex (asString txidVal);
       let dat = json_get mv ''move'';
       if \<not> isObject dat then Some db
       else if json_size dat > 1 then Some db
       else do {
         db \<leftarrow> HandleCreateChannel (json_get dat ''c'') height nm txid db;
         db \<leftarrow> HandleJoinChannel env (json_get dat ''j'') nm txid db;
         db \<leftarrow> HandleAbortChannel (json_get dat ''a'') nm db;
         db \<leftarrow> HandleDeclareLoss env (json_get dat ''l'') nm db;
         db \<leftarrow> HandleDisputeResolution env (json_get dat ''d'') height True db;
         HandleDisputeResolution env (json_get dat ''r'') height False db
       }
     }"

fun ships_moves :: "ships_env \<Rightarrow> uint32 \<Rightarrow> json list \<Rightarrow> ships_db \<Rightarrow> ships_db run" where
  "ships_moves env height [] db = Some db"
| "ships_moves env height (mv # mvs) db = do { db \<leftarrow> ships_move env height mv db; ships_moves env height mvs db }"

definition UpdateState :: "ships_env \<Rightarrow> json \<Rightarrow> ships_db \<Rightarrow> ships_db run" where
  "UpdateState env blockData db =
     do {
       let blk = json_get blockData ''block'';
       CHECK (isObject blk);
       let heightVal = json_get blk ''height'';
       CHECK (isUInt heightVal);
       let height = asUInt heightVal;
       let mvs = json_get blockData ''moves'';
       CHECK (isArray mvs);
       db \<leftarrow> ships_moves env height (json_array mvs) db;
       db \<leftarrow> ProcessExpiredDisputes env height db;
       TimeOutChannels height db
     }"

end
