(* ===== verification/Ships_Invariant.thy ===== *)
theory Ships_Invariant
  imports Ships_Logic
begin

text \<open>
  The invariant of the Xayaships database and its preservation by every handler of
  \<open>src/ships/logic.cpp\<close>: the two channel tables agree, a channel has one participant (and then no
  state, no proof and no dispute) or two different ones (and then a valid state, on which someone
  has to move if it is disputed), channels with one participant are young, and in the statistics
  the games won and the games lost add up to the same number.

  The predicate \<open>G\<close> on board states is a parameter: with \<open>G\<close> always true the invariant holds after
  every block that is processed at all; with \<open>G\<close> the invariant of real games, and proofs that
  start from states of real games, processing never aborts.
\<close>

subsection \<open>The invariant\<close>

definition channel_ok :: "ships_env \<Rightarrow> (board_state \<Rightarrow> bool) \<Rightarrow> uint32 \<Rightarrow> uint256 \<Rightarrow> channel_row \<Rightarrow> bool" where
  "channel_ok env G height i r \<longleftrightarrow>
     (length (participants (row_metadata r)) = 1 \<and> reinit (row_metadata r) = [] \<and>
      row_reinit r = [] \<and> row_stateproof r = None \<and> row_disputeHeight r = None) \<or>
     (length (participants (row_metadata r)) = 2 \<and>
      distinct (map participant_name (participants (row_metadata r))) \<and>
      (\<exists>p. ParseState (ships_boardRules env) i (row_metadata r)
             (ChannelData_GetLatestState (ChannelData_from_row i r)) = Some (Some p) \<and>
         G (pbs_state p) \<and>
         (case row_disputeHeight r of
            None \<Rightarrow> True
          | Some h \<Rightarrow> 0 < h \<and> h \<le> height \<and> bs_turn (pbs_state p) \<noteq> None)))"

definition extra_ok :: "uint32 \<Rightarrow> nat \<Rightarrow> channel_row \<Rightarrow> extra_row \<Rightarrow> bool" where
  "extra_ok height slack r e \<longleftrightarrow>
     n_participants e = int (length (participants (row_metadata r))) \<and> createdheight e \<le> height \<and>
     (n_participants e = 1 \<longrightarrow> unat height < unat (createdheight e) + slack)"

definition stats_ok :: "(string \<times> int \<times> int) list \<Rightarrow> bool" where
  "stats_ok st \<longleftrightarrow> distinct (map fst st) \<and> (\<forall>(k, won, lost) \<in> set st. 0 \<le> won \<and> 0 \<le> lost) \<and>
     (\<Sum>(k, won, lost) \<leftarrow> st. won) = (\<Sum>(k, won, lost) \<leftarrow> st. lost)"

definition db_inv :: "ships_env \<Rightarrow> (board_state \<Rightarrow> bool) \<Rightarrow> uint32 \<Rightarrow> nat \<Rightarrow> ships_db \<Rightarrow> bool" where
  "db_inv env G height slack db \<longleftrightarrow>
     distinct (map fst (db_channels db)) \<and> distinct (map fst (db_extra db)) \<and> stats_ok (db_stats db) \<and>
     (\<forall>i. rel_option (\<lambda>r e. channel_ok env G height i r \<and> extra_ok height slack r e)
        (map_of (db_channels db) i) (map_of (db_extra db) i))"

lemma db_inv_initial [inv_intros]: "db_inv env G height slack InitialiseState"
  by (simp add: db_inv_def InitialiseState_def stats_ok_def)

lemma db_inv_rows:
  assumes "db_inv env G height slack db" "map_of (db_channels db) i = Some r"
  obtains e where "map_of (db_extra db) i = Some e" "channel_ok env G height i r" "extra_ok height slack r e"
proof -
  have "rel_option (\<lambda>r e. channel_ok env G height i r \<and> extra_ok height slack r e) (map_of (db_channels db) i) (map_of (db_extra db) i)"
    using assms(1) unfolding db_inv_def by blast
  with assms(2) that show thesis
    by (auto simp: option_rel_Some1)
qed

lemma db_inv_mono:
  assumes inv: "db_inv env G height slack db"
    and step: "\<And>i r e. map_of (db_extra db) i = Some e \<Longrightarrow> channel_ok env G height i r \<Longrightarrow> extra_ok height slack r e \<Longrightarrow>
      channel_ok env G' height' i r \<and> extra_ok height' slack' r e"
  shows "db_inv env G' height' slack' db"
proof -
  have "rel_option (\<lambda>r e. channel_ok env G' height' i r \<and> extra_ok height' slack' r e) (map_of (db_channels db) i) (map_of (db_extra db) i)" for i
  proof -
    have "rel_option (\<lambda>r e. channel_ok env G height i r \<and> extra_ok height slack r e) (map_of (db_channels db) i) (map_of (db_extra db) i)"
      using inv unfolding db_inv_def by blast
    then show ?thesis
      using step by (cases rule: option.rel_cases) auto
  qed
  then show ?thesis
    using inv by (simp add: db_inv_def)
qed

lemma db_inv_no_extra: "db_inv env G height slack db \<Longrightarrow> map_of (db_channels db) i = None \<longleftrightarrow> map_of (db_extra db) i = None"
  unfolding db_inv_def by (drule conjunct2 [THEN conjunct2, THEN conjunct2], drule spec [of _ i]) (auto elim: option.rel_cases)

lemma db_inv_update:
  assumes inv: "db_inv env G height slack db"
    and "distinct (map fst chs)" "map_of chs = (map_of (db_channels db))(i \<mapsto> r)"
    and "distinct (map fst ex)" "map_of ex = (map_of (db_extra db))(i \<mapsto> e)"
    and "channel_ok env G height i r" "extra_ok height slack r e"
  shows "db_inv env G height slack (db\<lparr>db_channels := chs, db_extra := ex\<rparr>)"
  using assms by (simp add: db_inv_def)

lemma db_inv_delete [inv_intros]:
  "db_inv env G height slack db \<Longrightarrow> db_inv env G height slack (DeleteChannelById i db)"
  by (simp add: db_inv_def DeleteChannelById_def DeleteById_def map_of_tbl_delete distinct_tbl_delete)

lemma db_inv_stats:
  "db_inv env G height slack db \<Longrightarrow> stats_ok st \<Longrightarrow> db_inv env G height slack (db\<lparr>db_stats := st\<rparr>)"
  by (simp add: db_inv_def)

lemma channels_delete [simp]: "db_channels (DeleteChannelById i db) = tbl_delete i (db_channels db)"
  by (simp add: DeleteChannelById_def DeleteById_def)

text \<open>A new block: time passes for the channels that wait for a second participant.\<close>

lemma db_inv_next_block:
  assumes "db_inv env G height slack db" "unat (height + 1) = unat height + 1"
  shows "db_inv env G (height + 1) (Suc slack) db"
proof -
  have le: "h \<le> height + 1" if "h \<le> height" for h
    using that assms(2) by (simp add: word_le_nat_alt)
  have "channel_ok env G (height + 1) i r" if "channel_ok env G height i r" for i r
    using that le unfolding channel_ok_def by (auto split: option.splits)
  moreover have "extra_ok (height + 1) (Suc slack) r e" if "extra_ok height slack r e" for r e
    using that le assms(2) by (simp add: extra_ok_def)
  ultimately show ?thesis
    using db_inv_mono [OF assms(1)] by blast
qed

subsection \<open>Statistics\<close>

lemma stats_simps [simp]:
  "stats_won nm [] = []" "stats_lost nm [] = []"
  "stats_won nm ((k, w, l) # st) = (k, if k = nm then w + 1 else w, l) # stats_won nm st"
  "stats_lost nm ((k, w, l) # st) = (k, w, if k = nm then l + 1 else l) # stats_lost nm st"
  by (simp_all add: stats_won_def stats_lost_def)

lemma keys_stats [simp]:
  "map fst (stats_won nm st) = map fst st" "map fst (stats_lost nm st) = map fst st"
  by (induction st) auto

lemma key_set_stats [simp]: "fst ` set (stats_won nm st) = fst ` set st"
  by (metis keys_stats(1) set_map)

lemma stats_fresh: "nm \<notin> fst ` set st \<Longrightarrow> stats_won nm st = st" "nm \<notin> fst ` set st \<Longrightarrow> stats_lost nm st = st"
  by (induction st) auto

lemma sum_stats_won:
  assumes "distinct (map fst st)" "nm \<in> fst ` set st"
  shows "(\<Sum>(k, won, lost) \<leftarrow> stats_won nm st. won) = (\<Sum>(k, won, lost) \<leftarrow> st. won) + 1"
    "(\<Sum>(k, won, lost) \<leftarrow> stats_won nm st. lost) = (\<Sum>(k, won, lost) \<leftarrow> st. lost)"
  using assms by (induction st) (auto simp: stats_fresh rev_image_eqI)

lemma sum_stats_lost:
  assumes "distinct (map fst st)" "nm \<in> fst ` set st"
  shows "(\<Sum>(k, won, lost) \<leftarrow> stats_lost nm st. lost) = (\<Sum>(k, won, lost) \<leftarrow> st. lost) + 1"
    "(\<Sum>(k, won, lost) \<leftarrow> stats_lost nm st. won) = (\<Sum>(k, won, lost) \<leftarrow> st. won)"
  using assms by (induction st) (auto simp: stats_fresh rev_image_eqI)

lemma stats_ok_insert: "stats_ok st \<Longrightarrow> stats_ok (stats_insert_or_ignore nm st)"
  by (auto simp: stats_ok_def stats_insert_or_ignore_def map_of_eq_None_iff)

lemma keys_insert: "nm \<in> fst ` set (stats_insert_or_ignore nm st)"
  "k \<in> fst ` set st \<Longrightarrow> k \<in> fst ` set (stats_insert_or_ignore nm st)"
  by (auto simp: stats_insert_or_ignore_def map_of_eq_None_iff)

lemma stats_nonneg:
  "\<forall>(k, won, lost) \<in> set st. 0 \<le> won \<and> 0 \<le> lost \<Longrightarrow>
    \<forall>(k, won, lost) \<in> set (stats_lost l (stats_won w st)). 0 \<le> won \<and> 0 \<le> lost"
  by (induction st) auto

lemma stats_ok_closed:
  assumes "stats_ok st"
  shows "stats_ok (stats_lost l (stats_won w (stats_insert_or_ignore l (stats_insert_or_ignore w st))))"
proof -
  let ?st = "stats_insert_or_ignore l (stats_insert_or_ignore w st)"
  have "stats_ok ?st" "w \<in> fst ` set ?st" "l \<in> fst ` set ?st"
    using assms by (simp_all add: stats_ok_insert keys_insert)
  then show ?thesis
    using stats_nonneg [of ?st l w] by (simp add: stats_ok_def sum_stats_won sum_stats_lost)
qed

lemma UpdateStats_inv:
  assumes "db_inv env G height slack db" "length (participants meta) = 2" "0 \<le> winner" "winner \<le> 1"
  shows "\<exists>db'. UpdateStats meta winner db = Some db' \<and> db_inv env G height slack db' \<and>
    db_channels db' = db_channels db \<and> db_extra db' = db_extra db"
proof -
  have "nat winner < 2" "nat (1 - winner) < 2"
    using assms(3,4) by auto
  then show ?thesis
    using assms stats_ok_closed [of "db_stats db"]
    by (auto simp: UpdateStats_def bind_CHECK at_index_in Let_def intro: db_inv_stats) (auto simp: db_inv_def)
qed

subsection \<open>Channels\<close>

text \<open>What a handler may do: keep the invariant and create no channel but the given ones.\<close>

definition handled ::
    "ships_env \<Rightarrow> (board_state \<Rightarrow> bool) \<Rightarrow> uint32 \<Rightarrow> nat \<Rightarrow> uint256 set \<Rightarrow> ships_db \<Rightarrow> ships_db \<Rightarrow> bool" where
  "handled env G height slack X db db' \<longleftrightarrow>
     db_inv env G height slack db' \<and> dom (map_of (db_channels db')) \<subseteq> dom (map_of (db_channels db)) \<union> X"

lemma handled_refl: "db_inv env G height slack db \<Longrightarrow> handled env G height slack X db db"
  by (simp add: handled_def)

lemma handled_trans:
  "handled env G height slack X a b \<Longrightarrow> handled env G height slack Y b c \<Longrightarrow> handled env G height slack (X \<union> Y) a c"
  unfolding handled_def by blast

lemma handled_delete:
  "db_inv env G height slack db \<Longrightarrow> handled env G height slack X db (DeleteChannelById i db)"
  by (auto simp: handled_def map_of_tbl_delete intro: db_inv_delete split: if_splits)

lemma GetById_inv:
  assumes "db_inv env G height slack db" "GetById i (db_channels db) = Some h"
  obtains r e where "map_of (db_channels db) i = Some r" "h = ChannelData_from_row i r" "cd_id h = i"
    "cd_metadata h = row_metadata r" "cd_initialised h" "\<not> cd_dirty h"
    "map_of (db_extra db) i = Some e" "channel_ok env G height i r" "extra_ok height slack r e"
proof -
  obtain r where r: "map_of (db_channels db) i = Some r" "h = ChannelData_from_row i r"
    using assms(2) by (auto simp: GetById_def)
  show thesis
    using db_inv_rows [OF assms(1) r(1)] that r by (auto simp: ChannelData_from_row_def)
qed

lemma Retrieve_iff:
  "RetrieveChannelFromMove (JObject fs) tbl = Some (Some h) \<Longrightarrow> \<exists>i. GetById i tbl = Some h"
  "\<exists>r. RetrieveChannelFromMove (JObject fs) tbl = Some r"
  by (auto simp: RetrieveChannelFromMove_def bind_CHECK Let_def split: option.splits if_splits)

lemma destroy_clean: "cd_initialised h \<Longrightarrow> \<not> cd_dirty h \<Longrightarrow> ChannelData_destroy h tbl = Some tbl"
  by (simp add: ChannelData_destroy_def)

lemma destroy_put:
  "cd_initialised h \<Longrightarrow> cd_dirty h \<Longrightarrow> ChannelData_destroy h tbl = Some (tbl_put (cd_id h) (ChannelData_row h) tbl)"
  by (simp add: ChannelData_destroy_def)

lemma handled_put:
  assumes inv: "db_inv env G height slack db"
    and "channel_ok env G height i r" "extra_ok height slack r e" "i \<in> dom (map_of (db_channels db)) \<union> X"
    and "map_of ex = (map_of (db_extra db))(i \<mapsto> e)" "distinct (map fst ex)"
  shows "handled env G height slack X db (db\<lparr>db_channels := tbl_put i r (db_channels db), db_extra := ex\<rparr>)"
proof -
  have d: "distinct (map fst (db_channels db))"
    using inv by (simp add: db_inv_def)
  show ?thesis
    unfolding handled_def
  proof
    show "db_inv env G height slack (db\<lparr>db_channels := tbl_put i r (db_channels db), db_extra := ex\<rparr>)"
      using d assms by (intro db_inv_update [OF inv, of _ i r _ e]) (simp_all add: map_of_tbl_put distinct_tbl_put)
    show "dom (map_of (db_channels (db\<lparr>db_channels := tbl_put i r (db_channels db), db_extra := ex\<rparr>)))
      \<subseteq> dom (map_of (db_channels db)) \<union> X"
      using d assms(4) by (auto simp: map_of_tbl_put)
  qed
qed

lemma empty_reinit: "reinit (empty_metadata\<lparr>participants := ps\<rparr>) = []"
  by (simp add: reinit_def empty_metadata_def bytes_value_def)

lemma Create_handled:
  assumes inv: "db_inv env G height slack db" and "0 < slack"
  shows "ParseCreateChannelMove obj = None \<or> map_of (db_channels db) txid = None \<Longrightarrow>
      \<exists>db'. HandleCreateChannel obj height nm txid db = Some db' \<and> handled env G height slack {txid} db db'"
    and "HandleCreateChannel obj height nm txid db = Some db' \<Longrightarrow>
      ParseCreateChannelMove obj = None \<or> map_of (db_channels db) txid = None"
proof -
  show "ParseCreateChannelMove obj = None \<or> map_of (db_channels db) txid = None"
    if "HandleCreateChannel obj height nm txid db = Some db'"
    using that by (auto simp: HandleCreateChannel_def bind_CHECK GetById_def split: option.splits if_splits)
next
  assume "ParseCreateChannelMove obj = None \<or> map_of (db_channels db) txid = None"
  then show "\<exists>db'. HandleCreateChannel obj height nm txid db = Some db' \<and> handled env G height slack {txid} db db'"
  proof (cases "ParseCreateChannelMove obj")
    case None
    then show ?thesis
      using handled_refl [OF inv] by (simp add: HandleCreateChannel_def)
  next
    case (Some addr)
    let ?meta = "empty_metadata\<lparr>participants := [new_participant nm addr]\<rparr>"
    let ?h = "(ChannelData_new txid)\<lparr>cd_metadata := ?meta, cd_reinit := [], cd_proof := StateProofFromReinit [],
        cd_initialised := True, cd_dirty := True\<rparr>"
    let ?e = "\<lparr>createdheight = height, n_participants = 1\<rparr>"
    let ?ex = "tbl_put txid ?e (db_extra db)"
    assume "ParseCreateChannelMove obj = None \<or> map_of (db_channels db) txid = None"
    with Some have none: "map_of (db_channels db) txid = None"
      by simp
    then have ex: "map_of (db_extra db) txid = None" "distinct (map fst (db_extra db))"
      using db_inv_no_extra [OF inv, of txid] inv by (simp_all add: db_inv_def)
    have row: "channel_ok env G height txid (ChannelData_row ?h)" "extra_ok height slack (ChannelData_row ?h) ?e"
      using assms(2) by (simp_all add: channel_ok_def extra_ok_def ChannelData_row_def ChannelData_new_def
          ChannelData_GetLatestState_def empty_reinit)
    have "HandleCreateChannel obj height nm txid db
        = Some (db\<lparr>db_channels := tbl_put txid (ChannelData_row ?h) (db_channels db), db_extra := ?ex\<rparr>)"
      using Some none ex by (simp add: HandleCreateChannel_def GetById_def Reinitialise_def bind_CHECK Let_def
          destroy_put ChannelData_new_def)
    then show ?thesis
      using handled_put [OF inv row, of "{txid}" ?ex] ex by (simp add: map_of_tbl_put distinct_tbl_put)
  qed
qed

lemma map_of_map_if:
  "map_of (map (\<lambda>(j, e). if j = i then (j, f e) else (j, e)) xs) k = (if k = i then map_option f (map_of xs k) else map_of xs k)"
  by (induction xs) auto

lemma map_fst_map_if: "map fst (map (\<lambda>(j, e). if j = i then (j, f e) else (j, e)) xs) = map fst xs"
  by (induction xs) auto

definition good_services :: "ships_env \<Rightarrow> bool" where
  "good_services env \<longleftrightarrow> good_hash (env_sha (senv_channel env)) \<and> good_codec (senv_codec env) \<and>
     (\<forall>s bs. length s mod 4 = 0 \<longrightarrow> env_decode (senv_channel env) s = Some bs \<longrightarrow> length bs = length s div 4 * 3)"

lemma good_decode:
  "good_services env \<Longrightarrow> length s mod 4 = 0 \<Longrightarrow> env_decode (senv_channel env) s = Some bs \<Longrightarrow>
    length bs = length s div 4 * 3"
  unfolding good_services_def by metis

lemma InitialBoardState_parses:
  assumes "good_services env" "length (participants meta) = 2"
  shows "ParseState (ships_boardRules env) i meta (sc_serialise_state (senv_codec env) InitialBoardState)
    = Some (Some \<lparr>pbs_id = i, pbs_meta = meta, pbs_state = InitialBoardState\<rparr>)"
  using assms board_inv_valid [OF board_inv_initial assms(2)]
  by (simp add: ships_boardRules_def ships_ParseState_iff good_services_def good_codec_def plain_board_iff
      InitialBoardState_def)

lemma UpdateMetadataReinit_changes:
  assumes "good_services env" "reinit m = []"
  shows "reinit (UpdateMetadataReinit (env_sha (senv_channel env)) txid m) \<noteq> []"
proof -
  have "length (env_sha (senv_channel env) s) = 32" for s
    using assms(1) by (simp add: good_services_def good_hash_def wf_uint256_def NUM_BYTES_def)
  then have "env_sha (senv_channel env) s \<noteq> []" for s
    by (metis list.size(3) zero_neq_numeral)
  then show ?thesis
    by (simp add: UpdateMetadataReinit_def reinit_def bytes_value_def GetBinaryString_def string_of_bytes_def)
qed

lemma ParseJoin_cases:
  "ParseJoinChannelMove obj nm tbl = Some None \<or>
    (\<exists>h addr p i. ParseJoinChannelMove obj nm tbl = Some (Some (h, addr)) \<and> GetById i tbl = Some h \<and>
      participants (cd_metadata h) = [p] \<and> participant_name p \<noteq> nm)"
proof (cases "\<exists>fs. obj = JObject fs \<and> length fs = 2 \<and> isString (json_get obj ''addr'')")
  case True
  then obtain fs where obj: "obj = JObject fs"
    by blast
  obtain r where r: "RetrieveChannelFromMove obj tbl = Some r"
    using Retrieve_iff(2) obj by blast
  show ?thesis
  proof (cases r)
    case (Some h)
    obtain i where i: "GetById i tbl = Some h"
      using Retrieve_iff(1) r obj Some by blast
    show ?thesis
      using True r Some i obj by (auto simp: ParseJoinChannelMove_def Let_def length_Suc_0_conv at_index_def split: if_splits)
  qed (use True r in \<open>auto simp: ParseJoinChannelMove_def Let_def\<close>)
qed (auto simp: ParseJoinChannelMove_def Let_def)

lemma Join_handled:
  assumes inv: "db_inv env G height slack db" and good: "good_services env" and G: "G InitialBoardState"
  shows "\<exists>db'. HandleJoinChannel env obj nm txid db = Some db' \<and> handled env G height slack {} db db'"
  using ParseJoin_cases [of obj nm "db_channels db"]
proof (elim disjE exE conjE)
  assume "ParseJoinChannelMove obj nm (db_channels db) = Some None"
  then show ?thesis
    using handled_refl [OF inv] by (simp add: HandleJoinChannel_def)
next
  fix h addr p i
  assume parse: "ParseJoinChannelMove obj nm (db_channels db) = Some (Some (h, addr))"
    and i: "GetById i (db_channels db) = Some h" and p: "participants (cd_metadata h) = [p]" "participant_name p \<noteq> nm"
  obtain r e where h: "map_of (db_channels db) i = Some r" "h = ChannelData_from_row i r" "cd_id h = i"
    "cd_metadata h = row_metadata r" "cd_initialised h" "\<not> cd_dirty h"
    "map_of (db_extra db) i = Some e" "channel_ok env G height i r" "extra_ok height slack r e"
    using GetById_inv [OF inv i] .
  then have one: "reinit (row_metadata r) = []" "row_disputeHeight r = None" "cd_disputeHeight h = 0"
    using p by (auto simp: channel_ok_def ChannelData_from_row_def)
  let ?up = "UpdateMetadataReinit (env_sha (senv_channel env)) txid (cd_metadata h)"
  let ?meta = "?up\<lparr>participants := participants ?up @ [new_participant nm addr]\<rparr>"
  let ?state = "sc_serialise_state (senv_codec env) InitialBoardState"
  let ?h = "h\<lparr>cd_metadata := ?meta, cd_reinit := ?state, cd_proof := StateProofFromReinit ?state,
        cd_initialised := True, cd_dirty := True\<rparr>"
  let ?e = "e\<lparr>n_participants := 2\<rparr>"
  let ?ex = "map (\<lambda>(j, e). if j = i then (j, e\<lparr>n_participants := 2\<rparr>) else (j, e)) (db_extra db)"
  have meta: "participants ?meta = [p, new_participant nm addr]" "reinit ?meta \<noteq> reinit (cd_metadata h)"
    using p one h UpdateMetadataReinit_changes [OF good one(1), of txid]
    by (simp_all add: UpdateMetadataReinit_def reinit_def)
  have "participant_name (new_participant nm addr) = nm"
    by (simp add: participant_name_def new_participant_def bytes_value_def)
  then have row: "channel_ok env G height i (ChannelData_row ?h)" "extra_ok height slack (ChannelData_row ?h) ?e"
    using meta p one h(3,9) InitialBoardState_parses [OF good, of ?meta i] G
    by (simp_all add: channel_ok_def extra_ok_def ChannelData_row_def ChannelData_from_row_def
        ChannelData_GetLatestState_def)
  have "Reinitialise ?meta ?state h = Some ?h"
    using meta by (simp add: Reinitialise_def bind_CHECK)
  then have "HandleJoinChannel env obj nm txid db
      = Some (db\<lparr>db_channels := tbl_put i (ChannelData_row ?h) (db_channels db), db_extra := ?ex\<rparr>)"
    using parse meta h(3) by (simp add: HandleJoinChannel_def bind_CHECK Let_def destroy_put cong: if_cong)
  moreover have "map_of ?ex = (map_of (db_extra db))(i \<mapsto> ?e)"
    using h(7) by (auto simp: fun_eq_iff map_of_map_if)
  moreover have "distinct (map fst ?ex)"
    using inv by (simp only: map_fst_map_if db_inv_def)
  ultimately show ?thesis
    using handled_put [OF inv row, of "{}" ?ex] h(1) by auto
qed

lemma Abort_handled:
  assumes inv: "db_inv env G height slack db"
  shows "\<exists>db'. HandleAbortChannel obj nm db = Some db' \<and> handled env G height slack {} db db'"
proof -
  have "\<exists>r. ParseAbortChannelMove obj nm (db_channels db) = Some r"
  proof (cases "\<exists>fs. obj = JObject fs \<and> length fs = 1")
    case True
    then obtain r where "RetrieveChannelFromMove obj (db_channels db) = Some r"
      using Retrieve_iff(2) by blast
    then show ?thesis
      by (cases r) (auto simp: ParseAbortChannelMove_def Let_def at_index_def)
  qed (auto simp: ParseAbortChannelMove_def)
  then obtain r where "ParseAbortChannelMove obj nm (db_channels db) = Some r"
    by blast
  then show ?thesis
    using handled_refl [OF inv] handled_delete [OF inv] by (cases r) (simp_all add: HandleAbortChannel_def)
qed

lemma channel_ok_two:
  assumes "channel_ok env G height i r" "length (participants (row_metadata r)) = 2"
  obtains a b p where "participants (row_metadata r) = [a, b]" "participant_name a \<noteq> participant_name b"
    "ParseState (ships_boardRules env) i (row_metadata r)
      (ChannelData_GetLatestState (ChannelData_from_row i r)) = Some (Some p)" "G (pbs_state p)"
    "\<And>h. row_disputeHeight r = Some h \<Longrightarrow> 0 < h \<and> h \<le> height \<and> bs_turn (pbs_state p) \<noteq> None"
  using assms by (auto simp: channel_ok_def length_2_conv split: option.splits)

text \<open>Closing a channel: the statistics are updated and the channel disappears.\<close>

lemma close_handled:
  assumes inv: "db_inv env G height slack db" and "length (participants meta) = 2" "0 \<le> winner" "winner \<le> 1"
  shows "\<exists>db'. UpdateStats meta winner db = Some db' \<and> db_inv env G height slack db' \<and>
    handled env G height slack {} db (DeleteChannelById i db')"
  using UpdateStats_inv [OF assms] by (auto simp: handled_def map_of_tbl_delete intro: db_inv_delete split: if_splits)

text \<open>Decoding Base64 aborts on a single group with three padding characters.\<close>

definition b64_safe :: "string \<Rightarrow> bool" where
  "b64_safe s \<longleftrightarrow> \<not> (length s = 4 \<and> count_padding s 0 = Some 3)"

lemma count_padding_empty: "count_padding s k = Some n \<Longrightarrow> s = [] \<Longrightarrow> n = k"
  by simp

lemma Decode_total:
  assumes "good_services env" "b64_safe s"
  shows "\<exists>r. DecodeBase64 (env_decode (senv_channel env)) s = Some r"
proof (cases "\<exists>n bs. length s mod 4 = 0 \<and> count_padding s 0 = Some n \<and> n < 4 \<and> env_decode (senv_channel env) s = Some bs")
  case True
  then obtain n bs where n: "length s mod 4 = 0" "count_padding s 0 = Some n" "n < 4"
    and bs: "env_decode (senv_channel env) s = Some bs"
    using that by auto
  have len: "length bs = length s div 4 * 3"
    using good_decode [OF assms(1) n(1) bs] .
  show ?thesis
  proof (cases "s = []")
    case True
    then show ?thesis
      using n bs len by (simp add: DecodeBase64_def)
  next
    case False
    then obtain k where k: "length s = 4 * k" "0 < k"
      using n(1) by (metis length_greater_0_conv mod_0_imp_dvd dvdE mult_is_0 neq0_conv)
    have "n < length bs"
    proof (cases "k = 1")
      case True
      then have "n \<noteq> 3"
        using assms(2) n(2) k by (auto simp: b64_safe_def)
      then show ?thesis
        using n(3) len k True by simp
    qed (use n(3) len k in simp)
    then show ?thesis
      using n bs len k by (auto simp: DecodeBase64_def bind_CHECK Let_def)
  qed
next
  case False
  then show ?thesis
    by (cases "count_padding s 0"; cases "env_decode (senv_channel env) s") (auto simp: DecodeBase64_def Let_def)
qed

lemma find_loser_two:
  assumes "participant_name a \<noteq> participant_name b"
  shows "find_loser nm [a, b] 0 (- 1)
    = Some (if participant_name a = nm then 0 else if participant_name b = nm then 1 else - 1)"
  using assms by auto

lemma Loss_handled:
  assumes inv: "db_inv env G height slack db"
    and dec: "DecodeBase64 (env_decode (senv_channel env)) (asString (json_get obj ''r'')) = Some dec"
  shows "\<exists>db'. HandleDeclareLoss env obj nm db = Some db' \<and> handled env G height slack {} db db'"
proof (cases "\<exists>fs. obj = JObject fs \<and> length fs = 2")
  case True
  then obtain fs where obj: "obj = JObject fs" "length fs = 2"
    by blast
  obtain r where r: "RetrieveChannelFromMove obj (db_channels db) = Some r"
    using Retrieve_iff(2) obj by blast
  show ?thesis
  proof (cases r)
    case None
    then show ?thesis
      using obj r handled_refl [OF inv] by (simp add: HandleDeclareLoss_def)
  next
    case (Some h)
    obtain i where i: "GetById i (db_channels db) = Some h"
      using Retrieve_iff(1) r obj Some by blast
    obtain row where row: "cd_metadata h = row_metadata row" "channel_ok env G height i row"
      using GetById_inv [OF inv i] by metis
    show ?thesis
    proof (cases "length (participants (cd_metadata h)) = 2 \<and> isString (json_get obj ''r'') \<and> dec = Some (reinit (cd_metadata h))")
      case False
      then have "HandleDeclareLoss env obj nm db = Some db"
        using obj r Some dec by (cases dec) (auto simp: HandleDeclareLoss_def Let_def)
      then show ?thesis
        using handled_refl [OF inv] by simp
    next
      case True
      then obtain a b where ab: "participants (cd_metadata h) = [a, b]" "participant_name a \<noteq> participant_name b"
        using channel_ok_two [OF row(2)] row(1) by metis
      have "HandleDeclareLoss env obj nm db =
          (if nm = participant_name a then Option.bind (UpdateStats (cd_metadata h) 1 db) (\<lambda>db. Some (DeleteChannelById (cd_id h) db))
           else if nm = participant_name b then Option.bind (UpdateStats (cd_metadata h) 0 db) (\<lambda>db. Some (DeleteChannelById (cd_id h) db))
           else Some db)"
        using obj r Some dec True ab by (simp add: HandleDeclareLoss_def Let_def find_loser_two bind_CHECK at_index_in)
      then show ?thesis
        using handled_refl [OF inv] close_handled [OF inv, of "cd_metadata h" 1 "cd_id h"]
          close_handled [OF inv, of "cd_metadata h" 0 "cd_id h"] ab(1) by auto
    qed
  qed
qed (use handled_refl [OF inv] in \<open>auto simp: HandleDeclareLoss_def\<close>)

lemma Loss_undecoded:
  assumes "DecodeBase64 (env_decode (senv_channel env)) (asString (json_get obj ''r'')) = None"
    "HandleDeclareLoss env obj nm db = Some db'"
  shows "db' = db"
  using assms by (auto simp: HandleDeclareLoss_def Let_def bind_Some_iff split: if_splits option.splits)

subsection \<open>Disputes and resolutions\<close>

lemma ships_valid_turn:
  assumes "ParseState (ships_boardRules env) i meta s = Some (Some p)" "length (participants meta) = 2"
  shows "pbs_meta p = meta"
    and "(bs_turn (pbs_state p) = None) = (bs_winner (pbs_state p) \<noteq> None)"
    and "WhoseTurn (ships_boardRules env) p = Some (if bs_turn (pbs_state p) = None then NO_TURN else sint (turn (pbs_state p)))"
    and "bs_turn (pbs_state p) \<noteq> None \<Longrightarrow> 0 \<le> sint (turn (pbs_state p)) \<and> sint (turn (pbs_state p)) \<le> 1"
    and "\<exists>n. TurnCount (ships_boardRules env) p = Some n"
proof -
  have p: "IsValid meta (pbs_state p) = Some True" "pbs_meta p = meta"
    using assms(1) by (auto simp: ships_boardRules_def ships_ParseState_iff)
  then show "pbs_meta p = meta"
    by simp
  from p assms(2) show turn: "bs_turn (pbs_state p) \<noteq> None \<Longrightarrow> 0 \<le> sint (turn (pbs_state p)) \<and> sint (turn (pbs_state p)) \<le> 1"
    and "(bs_turn (pbs_state p) = None) = (bs_winner (pbs_state p) \<noteq> None)"
    by (auto simp: IsValid_def bind_CHECK Let_def phase_iffs split: if_splits)
  then show "WhoseTurn (ships_boardRules env) p = Some (if bs_turn (pbs_state p) = None then NO_TURN else sint (turn (pbs_state p)))"
    using p assms(2) by (simp add: ships_boardRules_def ships_rules_simps Ships_WhoseTurn_def bind_CHECK Let_def)
  have "GetPhase (pbs_state p) \<noteq> INVALID"
    using p assms(2) by (auto simp: IsValid_def bind_CHECK Let_def split: if_splits)
  then show "\<exists>n. TurnCount (ships_boardRules env) p = Some n"
    using p assms(2) by (simp add: ships_boardRules_def ships_rules_simps Ships_TurnCount_def Let_def split: Phase.splits)
qed

text \<open>The state a channel is left in by an accepted dispute or resolution.\<close>

definition accepted_channel ::
    "ships_env \<Rightarrow> (board_state \<Rightarrow> bool) \<Rightarrow> uint32 \<Rightarrow> channel_data \<Rightarrow> channel_data \<Rightarrow> board_state proto_board_state \<Rightarrow> bool" where
  "accepted_channel env G height h h' q \<longleftrightarrow>
     cd_id h' = cd_id h \<and> cd_metadata h' = cd_metadata h \<and> cd_initialised h' \<and> cd_dirty h' \<and>
     ParseState (ships_boardRules env) (cd_id h) (cd_metadata h) (ChannelData_GetLatestState h') = Some (Some q) \<and>
     G (pbs_state q) \<and>
     (cd_disputeHeight h' = 0 \<or> cd_disputeHeight h' = height \<and> 0 < height \<and> bs_turn (pbs_state q) \<noteq> None)"

definition file_proof ::
    "ships_env \<Rightarrow> bool \<Rightarrow> uint32 \<Rightarrow> state_proof \<Rightarrow> channel_data \<Rightarrow> (bool \<times> channel_data) run" where
  "file_proof env isDispute height pf h =
     (if isDispute then ProcessDispute (senv_channel env) (ships_boardRules env) h height pf
      else ProcessResolution (senv_channel env) (ships_boardRules env) h pf)"

lemma ships_Equals:
  assumes "ParseState (ships_boardRules env) i meta s = Some (Some q)" "Equals (ships_boardRules env) q s'"
    "ParseState (ships_boardRules env) i meta s' = Some (Some p)"
  shows "pbs_state p = pbs_state q"
  using board_equality.Equals_parse [OF ships_equality, of _ _ i meta s q s'] assms by (simp add: ships_boardRules_def)

lemma file_proof_result:
  assumes run: "file_proof env isDispute height pf h = Some (b, h')"
    and h: "cd_initialised h" "length (participants (cd_metadata h)) = 2"
    and state: "ParseState (ships_boardRules env) (cd_id h) (cd_metadata h) (ChannelData_GetLatestState h) = Some (Some p)" "G (pbs_state p)"
    and proven: "\<And>e q. VerifyStateProof (senv_channel env) (ships_boardRules env) (cd_id h) (cd_metadata h) (cd_reinit h) pf = Some (Some e) \<Longrightarrow>
      ParseState (ships_boardRules env) (cd_id h) (cd_metadata h) e = Some (Some q) \<Longrightarrow> G (pbs_state q)"
  shows "(\<not> b \<and> h' = h) \<or> (b \<and> (\<exists>q. accepted_channel env G height h h' q))"
proof (cases isDispute)
  case True
  with run have "ProcessDispute (senv_channel env) (ships_boardRules env) h height pf = Some (b, h')"
    by (simp add: file_proof_def)
  then show ?thesis
    using h(1)
  proof (cases rule: ProcessDispute_cases)
    case (newer p0 q m n t)
    then have "bs_turn (pbs_state q) \<noteq> None"
      using ships_valid_turn(3) [OF newer(5) h(2)] by (auto split: if_splits)
    then have "accepted_channel env G height h h' q"
      using newer proven [OF newer(3,5)] h by (simp add: accepted_channel_def ChannelData_GetLatestState_def)
    with newer show ?thesis by blast
  next
    case (same p0 q n t)
    then have "bs_turn (pbs_state q) \<noteq> None"
      using ships_valid_turn(3) [OF same(4) h(2)] by (auto split: if_splits)
    moreover have "pbs_state p = pbs_state q"
      using ships_Equals [OF same(4,6) state(1)] .
    ultimately have "accepted_channel env G height h h' p"
      using same state h by (simp add: accepted_channel_def ChannelData_GetLatestState_def)
    with same show ?thesis by blast
  qed simp
next
  case False
  with run have "ProcessResolution (senv_channel env) (ships_boardRules env) h pf = Some (b, h')"
    by (simp add: file_proof_def)
  then show ?thesis
    using h(1)
  proof (cases rule: ProcessResolution_cases)
    case (newer p0 q m n)
    then have "accepted_channel env G height h h' q"
      using proven [OF newer(3,5)] h by (simp add: accepted_channel_def ChannelData_GetLatestState_def)
    with newer show ?thesis by blast
  qed simp
qed

lemma accepted_row:
  assumes "accepted_channel env G height (ChannelData_from_row i r) h' q" "channel_ok env G height i r"
    "length (participants (row_metadata r)) = 2" "extra_ok height slack r e"
  shows "channel_ok env G height i (ChannelData_row h')" "extra_ok height slack (ChannelData_row h') e"
proof -
  have h': "cd_id h' = i" "cd_metadata h' = row_metadata r"
    using assms(1) by (simp_all add: accepted_channel_def ChannelData_from_row_def)
  have eq: "ChannelData_GetLatestState (ChannelData_from_row i (ChannelData_row h')) = ChannelData_GetLatestState h'"
    using load_stored [of h'] h'(1) by (simp add: same_channel_def)
  have names: "distinct (map participant_name (participants (row_metadata r)))"
    using channel_ok_two [OF assms(2,3)] by force
  have row: "row_metadata (ChannelData_row h') = row_metadata r"
    "row_disputeHeight (ChannelData_row h') = (if cd_disputeHeight h' = 0 then None else Some (cd_disputeHeight h'))"
    using h' by (simp_all add: ChannelData_row_def)
  have q: "ParseState (ships_boardRules env) i (row_metadata r) (ChannelData_GetLatestState h') = Some (Some q)"
    "G (pbs_state q)"
    "cd_disputeHeight h' \<noteq> 0 \<longrightarrow> 0 < cd_disputeHeight h' \<and> cd_disputeHeight h' \<le> height \<and> bs_turn (pbs_state q) \<noteq> None"
    using assms(1) by (auto simp: accepted_channel_def ChannelData_from_row_def)
  show "channel_ok env G height i (ChannelData_row h')"
    unfolding channel_ok_def eq row using assms(3) names q by auto
  show "extra_ok height slack (ChannelData_row h') e"
    using assms(4) h' by (simp add: extra_ok_def ChannelData_row_def)
qed

lemma ParseDispute_cases:
  assumes "ParseDisputeResolutionMove env obj tbl = Some (Some (h, pf))"
  obtains i where "GetById i tbl = Some h" "ExtractProto env (json_get obj ''state'') = Some (Some pf)"
proof -
  from assms obtain fs where "obj = JObject fs" "RetrieveChannelFromMove (JObject fs) tbl = Some (Some h)"
      "ExtractProto env (json_get obj ''state'') = Some (Some pf)"
    by (auto simp: ParseDisputeResolutionMove_def bind_Some_iff split: if_splits option.splits)
  then show thesis
    using Retrieve_iff(1) that by blast
qed

lemma Dispute_unfold:
  assumes "ParseDisputeResolutionMove env obj (db_channels db) = Some (Some (h, pf))"
    "length (participants (cd_metadata h)) = 2" "file_proof env isDispute height pf h = Some (b, h')"
  shows "HandleDisputeResolution env obj height isDispute db =
    (if \<not> b then Option.bind (ChannelData_destroy h' (db_channels db)) (\<lambda>chs. Some (db\<lparr>db_channels := chs\<rparr>))
     else Option.bind (parse_proven (ships_boardRules env) (cd_id h) (cd_metadata h) (ChannelData_GetLatestState h'))
        (\<lambda>state. case bs_winner (pbs_state state) of
           None \<Rightarrow> Option.bind (ChannelData_destroy h' (db_channels db)) (\<lambda>chs. Some (db\<lparr>db_channels := chs\<rparr>))
         | Some winner \<Rightarrow> Option.bind (CHECK (winner \<le> 1)) (\<lambda>_. Option.bind (UpdateStats (cd_metadata h) (uint winner) db) (\<lambda>db.
             Option.bind (ChannelData_destroy h' (db_channels db)) (\<lambda>chs.
               Some (DeleteChannelById (cd_id h) (db\<lparr>db_channels := chs\<rparr>)))))))"
  using assms(1,2) assms(3) [unfolded file_proof_def] by (simp add: HandleDisputeResolution_def Let_def)

lemma db_channels_put:
  assumes "handled env G height slack X db (db\<lparr>db_channels := chs, db_extra := db_extra db\<rparr>)"
  shows "handled env G height slack X db (db\<lparr>db_channels := chs\<rparr>)"
  using assms by (cases db) simp

lemma Dispute_filed:
  assumes inv: "db_inv env G height slack db"
    and parse: "ParseDisputeResolutionMove env obj (db_channels db) = Some (Some (h, pf))"
    and two: "length (participants (cd_metadata h)) = 2"
    and run: "file_proof env isDispute height pf h = Some (b, h')"
    and proven: "\<And>e q. VerifyStateProof (senv_channel env) (ships_boardRules env) (cd_id h) (cd_metadata h) (cd_reinit h) pf = Some (Some e) \<Longrightarrow>
      ParseState (ships_boardRules env) (cd_id h) (cd_metadata h) e = Some (Some q) \<Longrightarrow> G (pbs_state q)"
  shows "(\<exists>db'. HandleDisputeResolution env obj height isDispute db = Some db' \<and> handled env G height slack {} db db') \<or>
    (HandleDisputeResolution env obj height isDispute db = None \<and> (\<exists>st w. G st \<and> bs_winner st = Some w \<and> 1 < w))"
proof -
  obtain i where i: "GetById i (db_channels db) = Some h"
    using ParseDispute_cases [OF parse] .
  obtain r e where h: "map_of (db_channels db) i = Some r" "h = ChannelData_from_row i r" "cd_id h = i"
    "cd_metadata h = row_metadata r" "cd_initialised h" "\<not> cd_dirty h"
    "map_of (db_extra db) i = Some e" "channel_ok env G height i r" "extra_ok height slack r e"
    using GetById_inv [OF inv i] .
  have two': "length (participants (row_metadata r)) = 2"
    using two h(4) by simp
  obtain p where p: "ParseState (ships_boardRules env) i (row_metadata r) (ChannelData_GetLatestState h) = Some (Some p)" "G (pbs_state p)"
    using channel_ok_two [OF h(8) two'] h(2) by metis
  note unfold = Dispute_unfold [OF parse two run]
  have "(\<not> b \<and> h' = h) \<or> (b \<and> (\<exists>q. accepted_channel env G height h h' q))"
    using file_proof_result [of env isDispute height pf h b h' p G] run h(3,4,5) two p proven by simp
  then show ?thesis
  proof (elim disjE conjE exE)
    assume "\<not> b" "h' = h"
    then show ?thesis
      using handled_refl [OF inv] by (simp add: unfold destroy_clean h(5,6))
  next
    fix q
    assume b: b and q: "accepted_channel env G height h h' q"
    have dest: "ChannelData_destroy h' (db_channels db) = Some (tbl_put i (ChannelData_row h') (db_channels db))"
      and parsed: "parse_proven (ships_boardRules env) (cd_id h) (cd_metadata h) (ChannelData_GetLatestState h') = Some q"
      and Gq: "G (pbs_state q)"
      using q h(3) by (simp_all add: accepted_channel_def destroy_put parse_proven_iff)
    have ex: "map_of (db_extra db) = (map_of (db_extra db))(i \<mapsto> e)" "distinct (map fst (db_extra db))"
      using h(7) inv by (simp_all add: map_upd_triv db_inv_def)
    have put: "handled env G height slack {} db' (db'\<lparr>db_channels := tbl_put i (ChannelData_row h') (db_channels db')\<rparr>)"
      if "db_inv env G height slack db'" "db_channels db' = db_channels db" "db_extra db' = db_extra db" for db'
      using handled_put [OF that(1) accepted_row [OF q [unfolded h(2)] h(8) two' h(9)], of "{}" "db_extra db'"] ex that(2,3) h(1)
      by (intro db_channels_put) auto
    show ?thesis
    proof (cases "bs_winner (pbs_state q)")
      case None
      then show ?thesis
        using put [OF inv] b by (simp add: unfold parsed dest)
    next
      case (Some w)
      show ?thesis
      proof (cases "w \<le> 1")
        case True
        then have "uint w \<le> 1"
          by (simp add: word_le_def)
        then obtain db1 where db1: "UpdateStats (cd_metadata h) (uint w) db = Some db1"
          "db_inv env G height slack db1" "db_channels db1 = db_channels db" "db_extra db1 = db_extra db"
          using UpdateStats_inv [OF inv two] by auto
        let ?db2 = "db1\<lparr>db_channels := tbl_put i (ChannelData_row h') (db_channels db1)\<rparr>"
        have "handled env G height slack {} db1 (DeleteChannelById i ?db2)"
          using put [OF db1(2-4)] handled_delete [of env G height slack ?db2 "{}" i] handled_trans [of env G height slack "{}" db1 ?db2 "{}"]
          by (simp add: handled_def) blast
        then show ?thesis
          using True Some b db1 dest by (simp add: unfold parsed [unfolded h(3)] handled_def h(3))
      next
        case False
        then have "CHECK (w \<le> 1) = None" "1 < w"
          by simp_all
        then have "HandleDisputeResolution env obj height isDispute db = None" "1 < w"
          using Some b by (simp_all add: unfold parsed del: CHECK_eq_None)
        then show ?thesis
          using Gq Some by blast
      qed
    qed
  qed
qed

lemma Dispute_cases:
  obtains (aborts) "ParseDisputeResolutionMove env obj (db_channels db) = None"
      "HandleDisputeResolution env obj height isDispute db = None"
    | (ignored) "HandleDisputeResolution env obj height isDispute db = Some db"
    | (filed) h pf where "ParseDisputeResolutionMove env obj (db_channels db) = Some (Some (h, pf))"
      "length (participants (cd_metadata h)) = 2"
proof (cases "ParseDisputeResolutionMove env obj (db_channels db)")
  case None
  then show thesis
    using aborts by (simp add: HandleDisputeResolution_def)
next
  case (Some r)
  show thesis
  proof (cases r)
    case None
    then show thesis
      using Some ignored by (simp add: HandleDisputeResolution_def)
  next
    case (Some hp)
    then show thesis
      using \<open>ParseDisputeResolutionMove env obj (db_channels db) = Some r\<close> ignored filed
      by (cases hp; cases "length (participants (cd_metadata (fst hp))) = 2")
        (simp_all add: HandleDisputeResolution_def Let_def)
  qed
qed

lemma Dispute_handled:
  assumes inv: "db_inv env (\<lambda>_. True) height slack db"
    and run: "HandleDisputeResolution env obj height isDispute db = Some db'"
  shows "handled env (\<lambda>_. True) height slack {} db db'"
proof (cases rule: Dispute_cases [where env = env and obj = obj and db = db and height = height and isDispute = isDispute])
  case (filed h pf)
  have "HandleDisputeResolution env obj height isDispute db = None" if "file_proof env isDispute height pf h = None"
    using filed that [unfolded file_proof_def] by (simp add: HandleDisputeResolution_def Let_def)
  then have "file_proof env isDispute height pf h \<noteq> None"
    using run by force
  then show ?thesis
    using Dispute_filed [OF inv filed] run by fastforce
qed (use run handled_refl [OF inv] in simp_all)

lemma file_proof_total:
  assumes h: "cd_initialised h" "length (participants (cd_metadata h)) = 2" "0 < height"
    "HasDispute h \<longrightarrow> cd_disputeHeight h \<le> height"
    and p: "ParseState (ships_boardRules env) (cd_id h) (cd_metadata h) (ChannelData_GetLatestState h) = Some (Some p)"
    and v: "VerifyStateProof (senv_channel env) (ships_boardRules env) (cd_id h) (cd_metadata h) (cd_reinit h) pf = Some r"
    and q: "\<And>e. r = Some e \<Longrightarrow> \<exists>q. ParseState (ships_boardRules env) (cd_id h) (cd_metadata h) e = Some (Some q)"
  shows "file_proof env isDispute height pf h \<noteq> None"
proof (cases "\<exists>e. r = Some e \<and> CheckVersionedProto_StateProof (GetProtoVersion (ships_boardRules env)) (cd_metadata h) pf")
  case False
  then show ?thesis
    using v h(4) by (cases r) (auto simp: file_proof_def ProcessDispute_def ProcessResolution_def bind_CHECK Let_def)
next
  case True
  then obtain e where e: "r = Some e" and version: "CheckVersionedProto_StateProof (GetProtoVersion (ships_boardRules env)) (cd_metadata h) pf"
    by blast
  obtain q where q: "ParseState (ships_boardRules env) (cd_id h) (cd_metadata h) e = Some (Some q)"
    using q [OF e] by blast
  obtain m n t where mnt: "TurnCount (ships_boardRules env) p = Some m" "TurnCount (ships_boardRules env) q = Some n"
    "WhoseTurn (ships_boardRules env) q = Some t"
    using ships_valid_turn(5) [OF p h(2)] ships_valid_turn(3,5) [OF q h(2)] by blast
  have d: "ProcessDispute (senv_channel env) (ships_boardRules env) h height pf \<noteq> None"
    using h p q e v version mnt
    by (auto simp: ProcessDispute_def bind_CHECK Let_def parse_proven_def SetStateProof_def SetDisputeHeight_def)
  have "ProcessResolution (senv_channel env) (ships_boardRules env) h pf \<noteq> None"
    using h p q e v version mnt by (auto simp: ProcessResolution_def Let_def parse_proven_def SetStateProof_def)
  with d show ?thesis
    by (simp add: file_proof_def)
qed

text \<open>A proof that starts from a state of a real game, or from bytes that are no state at all.\<close>

definition honest_proof :: "ships_env \<Rightarrow> state_proof \<Rightarrow> bool" where
  "honest_proof env pf \<longleftrightarrow>
     (case sc_parse_state (senv_codec env) (data (initial_state pf)) of None \<Rightarrow> True | Some st \<Rightarrow> board_inv st)"

lemma honest_Verify:
  assumes "good_services env" "channel_services (senv_channel env)" "length (participants meta) = 2" "honest_proof env pf"
  shows "\<exists>r. VerifyStateProof (senv_channel env) (ships_boardRules env) i meta s pf = Some r \<and>
    (\<forall>e. r = Some e \<longrightarrow> (\<exists>q. ParseState (ships_boardRules env) i meta e = Some (Some q) \<and> board_inv (pbs_state q)))"
proof -
  have safe: "safe_channel (ships_boardRules env) ships_good (senv_channel env)"
    unfolding ships_boardRules_def using assms(1,2)
    by (intro safe_channel.intro ships_progress) (simp_all add: good_services_def)
  have good: "ships_good i meta p" if "ParseState (ships_boardRules env) i meta (data (initial_state pf)) = Some (Some p)" for p
    using that assms(3,4) by (auto simp: ships_boardRules_def ships_ParseState_iff ships_good_def honest_proof_def)
  obtain r where r: "VerifyStateProof (senv_channel env) (ships_boardRules env) i meta s pf = Some r"
    using safe_channel.Verify_total [OF safe assms(3) good] by blast
  have "\<exists>q. ParseState (ships_boardRules env) i meta e = Some (Some q) \<and> board_inv (pbs_state q)" if "r = Some e" for e
    using safe_channel.Verify_good [OF safe r [unfolded that] good] by (auto simp: ships_good_def)
  with r show ?thesis by blast
qed

lemma board_inv_winner: "board_inv pb \<Longrightarrow> bs_winner pb = Some w \<Longrightarrow> w \<le> 1"
  by (auto simp: board_inv_def phase_iffs split: Phase.splits)

lemma ParseDispute_total:
  assumes "good_services env" "b64_safe (asString (json_get obj ''state''))"
  shows "\<exists>r. ParseDisputeResolutionMove env obj tbl = Some r"
proof -
  obtain d where "DecodeBase64 (env_decode (senv_channel env)) (asString (json_get obj ''state'')) = Some d"
    using Decode_total [OF assms] by blast
  then have "\<exists>x. ExtractProto env (json_get obj ''state'') = Some x"
    by (simp add: ExtractProto_def ProtoFromBase64_def)
  then obtain x where "ExtractProto env (json_get obj ''state'') = Some x"
    by blast
  moreover obtain y where "isObject obj \<Longrightarrow> RetrieveChannelFromMove obj tbl = Some y"
    using Retrieve_iff(2) by (metis isObject_iff)
  ultimately show ?thesis
    by (cases x) (auto simp: ParseDisputeResolutionMove_def)
qed

lemma Dispute_total:
  assumes inv: "db_inv env board_inv height slack db"
    and good: "good_services env" "channel_services (senv_channel env)" "0 < height"
    and safe: "b64_safe (asString (json_get obj ''state''))"
    and honest: "\<And>pf. ExtractProto env (json_get obj ''state'') = Some (Some pf) \<Longrightarrow> honest_proof env pf"
  shows "\<exists>db'. HandleDisputeResolution env obj height isDispute db = Some db' \<and> handled env board_inv height slack {} db db'"
proof (cases rule: Dispute_cases [where env = env and obj = obj and db = db and height = height and isDispute = isDispute])
  case (filed h pf)
  obtain i where i: "GetById i (db_channels db) = Some h" and pf: "honest_proof env pf"
    using ParseDispute_cases [OF filed(1)] honest by metis
  obtain r e where h: "h = ChannelData_from_row i r" "cd_id h = i" "cd_metadata h = row_metadata r"
    "cd_initialised h" "channel_ok env board_inv height i r"
    using GetById_inv [OF inv i] by metis
  obtain v where v: "VerifyStateProof (senv_channel env) (ships_boardRules env) (cd_id h) (cd_metadata h) (cd_reinit h) pf = Some v"
    "\<And>e. v = Some e \<Longrightarrow> \<exists>q. ParseState (ships_boardRules env) (cd_id h) (cd_metadata h) e = Some (Some q) \<and> board_inv (pbs_state q)"
    using honest_Verify [OF good(1,2) filed(2) pf] by blast
  obtain p where p: "ParseState (ships_boardRules env) i (row_metadata r) (ChannelData_GetLatestState h) = Some (Some p)"
    "\<And>d. row_disputeHeight r = Some d \<Longrightarrow> d \<le> height"
    using channel_ok_two [OF h(5)] filed(2) h(1,3) by metis
  have "HasDispute h \<longrightarrow> cd_disputeHeight h \<le> height"
    using p(2) h(1) by (auto simp: HasDispute_def ChannelData_from_row_def split: option.splits)
  then obtain b h' where run: "file_proof env isDispute height pf h = Some (b, h')"
    using file_proof_total [of h height env p pf v isDispute] h filed(2) good(3) p(1) v by fastforce
  have "board_inv (pbs_state q)"
    if "VerifyStateProof (senv_channel env) (ships_boardRules env) (cd_id h) (cd_metadata h) (cd_reinit h) pf = Some (Some e)"
      "ParseState (ships_boardRules env) (cd_id h) (cd_metadata h) e = Some (Some q)" for e and q :: "board_state proto_board_state"
    using v(1) v(2) [of e] that by auto
  then show ?thesis
    using Dispute_filed [OF inv filed run] board_inv_winner by (metis leD)
next
  case aborts
  then show ?thesis
    using ParseDispute_total [OF good(1) safe, of "db_channels db"] by simp
next
  case ignored
  then show ?thesis
    using handled_refl [OF inv] by simp
qed

subsection \<open>Expired disputes and time-outs\<close>

lemma expire_handled:
  assumes inv: "db_inv env G height slack db" and h: "GetById i (db_channels db) = Some h" "HasDispute h"
  shows "\<exists>db'. expire_channel env h db = Some db' \<and> db_inv env G height slack db' \<and>
    db_channels db' = tbl_delete i (db_channels db)"
proof -
  obtain r e where r: "h = ChannelData_from_row i r" "cd_id h = i" "cd_metadata h = row_metadata r"
    "channel_ok env G height i r"
    using GetById_inv [OF inv h(1)] by metis
  have disp: "row_disputeHeight r \<noteq> None"
    using h(2) r(1) by (auto simp: HasDispute_def ChannelData_from_row_def split: option.splits)
  then have two: "length (participants (row_metadata r)) = 2"
    using r(4) by (auto simp: channel_ok_def)
  obtain p where p: "ParseState (ships_boardRules env) i (row_metadata r) (ChannelData_GetLatestState h) = Some (Some p)"
    "bs_turn (pbs_state p) \<noteq> None"
    using channel_ok_two [OF r(4) two] disp r(1) by (metis option.exhaust)
  let ?t = "sint (turn (pbs_state p))"
  have t: "WhoseTurn (ships_boardRules env) p = Some ?t" "0 \<le> ?t" "?t \<le> 1" "?t \<noteq> NO_TURN"
    using ships_valid_turn(3,4) [OF p(1) two] p(2) by (auto simp: NO_TURN_def)
  then obtain db1 where "UpdateStats (row_metadata r) (1 - ?t) db = Some db1" "db_inv env G height slack db1"
    "db_channels db1 = db_channels db"
    using UpdateStats_inv [OF inv two, of "1 - ?t"] by auto
  moreover have "parse_proven (ships_boardRules env) i (row_metadata r) (ChannelData_GetLatestState h) = Some p"
    using p(1) by (simp add: parse_proven_iff)
  ultimately show ?thesis
    using two t r(2,3) by (simp add: expire_channel_def bind_CHECK Let_def db_inv_delete)
qed

lemma expire_all:
  assumes "db_inv env G height slack db" "distinct (map cd_id hs)"
    "\<forall>h\<in>set hs. GetById (cd_id h) (db_channels db) = Some h \<and> HasDispute h"
  shows "\<exists>db'. expire_channels env hs db = Some db' \<and> handled env G height slack {} db db'"
  using assms
proof (induction hs arbitrary: db)
  case Nil
  then show ?case
    using handled_refl by simp
next
  case (Cons h hs)
  obtain db1 where db1: "expire_channel env h db = Some db1" "db_inv env G height slack db1"
    "db_channels db1 = tbl_delete (cd_id h) (db_channels db)"
    using expire_handled [OF Cons.prems(1), of "cd_id h" h] Cons.prems(3) by auto
  have "\<forall>h'\<in>set hs. GetById (cd_id h') (db_channels db1) = Some h' \<and> HasDispute h'"
    using Cons.prems(2,3) db1(3) by (auto simp: GetById_def map_of_tbl_delete)
  then obtain db2 where db2: "expire_channels env hs db1 = Some db2" "handled env G height slack {} db1 db2"
    using Cons.IH [OF db1(2)] Cons.prems(2) by auto
  have "handled env G height slack {} db db1"
    using db1 by (auto simp: handled_def map_of_tbl_delete split: if_splits)
  with db2 db1(1) show ?case
    using handled_trans [of env G height slack "{}" db db1 "{}" db2] by auto
qed

lemma Expired_handled:
  assumes inv: "db_inv env G height slack db"
  shows "\<exists>db'. ProcessExpiredDisputes env height db = Some db' \<and> handled env G height slack {} db db'"
  unfolding ProcessExpiredDisputes_def
proof (rule expire_all [OF inv])
  have d: "distinct (map fst (db_channels db))"
    using inv by (simp add: db_inv_def)
  have ids: "map cd_id (QueryForDisputeHeight k tbl) = map fst (filter (\<lambda>(i, r). case row_disputeHeight r of None \<Rightarrow> False | Some h \<Rightarrow> h \<le> k) tbl)"
    for k tbl
    by (simp add: QueryForDisputeHeight_def ChannelData_from_row_def case_prod_unfold comp_def)
  show "distinct (map cd_id (QueryForDisputeHeight (height - DISPUTE_BLOCKS) (db_channels db)))"
    unfolding ids using d by (rule distinct_map_filter)
  have "GetById (cd_id h) (db_channels db) = Some h \<and> HasDispute h"
    if mem: "h \<in> set (QueryForDisputeHeight (height - DISPUTE_BLOCKS) (db_channels db))" for h
  proof -
    obtain i r where r: "(i, r) \<in> set (db_channels db)" "h = ChannelData_from_row i r" "row_disputeHeight r \<noteq> None"
      using mem by (auto simp: QueryForDisputeHeight_def split: option.splits)
    then have lookup: "map_of (db_channels db) i = Some r"
      using d by simp
    have "channel_ok env G height i r"
      using db_inv_rows [OF inv lookup] .
    then have "HasDispute h"
      using r by (auto simp: channel_ok_def HasDispute_def ChannelData_from_row_def split: option.splits)
    then show ?thesis
      using lookup r(2) by (simp add: GetById_def ChannelData_from_row_def)
  qed
  then show "\<forall>h\<in>set (QueryForDisputeHeight (height - DISPUTE_BLOCKS) (db_channels db)).
      GetById (cd_id h) (db_channels db) = Some h \<and> HasDispute h"
    by blast
qed

lemma time_out_rows_eq:
  assumes "\<forall>(i, e)\<in>set rows. createdheight e = limit \<and> n_participants e = 1"
  shows "time_out_rows limit rows db = Some (fold (\<lambda>(i, e). DeleteChannelById i) rows db)"
  using assms by (induction rows arbitrary: db) auto

lemma fold_delete_inv:
  "db_inv env G height slack db \<Longrightarrow> db_inv env G height slack (fold (\<lambda>(i, e). DeleteChannelById i) rows db)"
  by (induction rows arbitrary: db) (auto intro: db_inv_delete)

lemma fold_delete_rows:
  "map_of (db_channels (fold (\<lambda>(i, e). DeleteChannelById i) rows db)) k
    = (if k \<in> fst ` set rows then None else map_of (db_channels db) k)"
  "map_of (db_extra (fold (\<lambda>(i, e). DeleteChannelById i) rows db)) k
    = (if k \<in> fst ` set rows then None else map_of (db_extra db) k)"
  by (induction rows arbitrary: db) (auto simp: map_of_tbl_delete DeleteChannelById_def DeleteById_def rev_image_eqI)

lemma db_inv_tighten:
  assumes inv: "db_inv env G height slack db"
    and "\<And>i e. map_of (db_extra db) i = Some e \<Longrightarrow> n_participants e = 1 \<Longrightarrow> unat height < unat (createdheight e) + slack'"
  shows "db_inv env G height slack' db"
  by (rule db_inv_mono [OF inv]) (use assms(2) in \<open>auto simp: extra_ok_def\<close>)

lemma TimeOut_handled:
  assumes inv: "db_inv env G height 13 db"
  shows "\<exists>db'. TimeOutChannels height db = Some db' \<and> db_inv env G height 12 db'"
proof (cases "height < CHANNEL_TIMEOUT_BLOCKS")
  case True
  then have "unat height < 12"
    by (simp add: CHANNEL_TIMEOUT_BLOCKS_def word_less_nat_alt)
  then show ?thesis
    using True db_inv_tighten [OF inv, of 12] by (simp add: TimeOutChannels_def)
next
  case False
  let ?limit = "height - CHANNEL_TIMEOUT_BLOCKS"
  let ?rows = "filter (\<lambda>(i, e). n_participants e < 2 \<and> createdheight e \<le> ?limit) (db_extra db)"
  have limit: "unat ?limit = unat height - 12"
    using False by (simp add: CHANNEL_TIMEOUT_BLOCKS_def not_less unat_sub)
  have ge: "12 \<le> unat height"
    using False by (simp add: CHANNEL_TIMEOUT_BLOCKS_def not_less word_le_nat_alt)
  have extra: "n_participants e \<in> {1, 2}" "n_participants e = 1 \<Longrightarrow> unat height < unat (createdheight e) + 13"
    if mem: "(i, e) \<in> set (db_extra db)" for i e
  proof -
    have lookup: "map_of (db_extra db) i = Some e"
      using mem inv by (simp add: db_inv_def)
    have "rel_option (\<lambda>r e. channel_ok env G height i r \<and> extra_ok height 13 r e) (map_of (db_channels db) i) (map_of (db_extra db) i)"
      using inv unfolding db_inv_def by blast
    then obtain r where "channel_ok env G height i r" "extra_ok height 13 r e"
      using lookup by (auto simp: option_rel_Some2)
    then show "n_participants e \<in> {1, 2}" "n_participants e = 1 \<Longrightarrow> unat height < unat (createdheight e) + 13"
      by (auto simp: extra_ok_def channel_ok_def)
  qed
  have "\<forall>(i, e)\<in>set ?rows. createdheight e = ?limit \<and> n_participants e = 1"
    using extra limit ge by (fastforce simp: word_le_nat_alt word_unat_eq_iff)
  then have "TimeOutChannels height db = Some (fold (\<lambda>(i, e). DeleteChannelById i) ?rows db)"
    using False time_out_rows_eq by (simp add: TimeOutChannels_def Let_def)
  moreover have "db_inv env G height 12 (fold (\<lambda>(i, e). DeleteChannelById i) ?rows db)"
  proof (rule db_inv_tighten [OF fold_delete_inv [OF inv]])
    fix i e
    assume "map_of (db_extra (fold (\<lambda>(i, e). DeleteChannelById i) ?rows db)) i = Some e" and n: "n_participants e = 1"
    then have e: "i \<notin> fst ` set ?rows" "map_of (db_extra db) i = Some e"
      by (simp_all add: fold_delete_rows(2) split: if_splits)
    then have "\<not> createdheight e \<le> ?limit"
      using n map_of_SomeD [OF e(2)] by (force simp: image_iff)
    then show "unat height < unat (createdheight e) + 12"
      using limit by (simp add: word_le_nat_alt)
  qed
  ultimately show ?thesis
    by blast
qed

subsection \<open>Blocks\<close>

text \<open>The shape of the moves the daemon passes on, and what processing without aborts needs of their
  content: no Base64 group of three padding characters, and proofs from states of real games.\<close>

definition move_txid :: "json \<Rightarrow> uint256 option" where
  "move_txid mv = (case json_get mv ''txid'' of JString s \<Rightarrow> FromHex s | _ \<Rightarrow> None)"

definition wf_move :: "json \<Rightarrow> bool" where
  "wf_move mv \<longleftrightarrow> isObject mv \<and> isString (json_get mv ''name'') \<and> move_txid mv \<noteq> None"

definition safe_filing :: "ships_env \<Rightarrow> json \<Rightarrow> bool" where
  "safe_filing env obj \<longleftrightarrow> b64_safe (asString (json_get obj ''state'')) \<and>
     (case ExtractProto env (json_get obj ''state'') of Some (Some pf) \<Rightarrow> honest_proof env pf | _ \<Rightarrow> True)"

definition safe_move :: "ships_env \<Rightarrow> json \<Rightarrow> bool" where
  "safe_move env mv \<longleftrightarrow>
     (let dat = json_get mv ''move'' in
      b64_safe (asString (json_get (json_get dat ''l'') ''r'')) \<and>
      safe_filing env (json_get dat ''d'') \<and> safe_filing env (json_get dat ''r''))"

lemma wf_move_txid:
  "move_txid mv = Some t \<longleftrightarrow> (\<exists>s. json_get mv ''txid'' = JString s \<and> FromHex s = Some t)"
  by (auto simp: move_txid_def split: json.splits)

lemma db_move_total:
  assumes inv: "db_inv env board_inv height slack db" and pos: "0 < slack" "0 < height"
    and good: "good_services env" "channel_services (senv_channel env)"
    and mv: "wf_move mv" "safe_move env mv" "move_txid mv = Some txid"
    and fresh: "map_of (db_channels db) txid = None"
  shows "\<exists>db'. ships_move env height mv db = Some db' \<and> handled env board_inv height slack {txid} db db'"
proof -
  let ?dat = "json_get mv ''move''"
  obtain nm s where nm: "json_get mv ''name'' = JString nm" "json_get mv ''txid'' = JString s" "FromHex s = Some txid" "isObject mv"
    using mv(1,3) by (auto simp: wf_move_def wf_move_txid)
  note safe = mv(2) [unfolded safe_move_def Let_def]
  obtain dec where dec: "DecodeBase64 (env_decode (senv_channel env)) (asString (json_get (json_get ?dat ''l'') ''r'')) = Some dec"
    using Decode_total [OF good(1)] safe by blast
  have honest: "b64_safe (asString (json_get obj ''state''))"
    "ExtractProto env (json_get obj ''state'') = Some (Some pf) \<Longrightarrow> honest_proof env pf" if "safe_filing env obj" for obj pf
    using that by (auto simp: safe_filing_def)
  have filing: "\<exists>db'. HandleDisputeResolution env obj height d x = Some db' \<and> handled env board_inv height slack {} x db'"
    if "safe_filing env obj" "handled env board_inv height slack {} y x" for obj d x y
    using Dispute_total [of env height slack x obj d] good pos(2) honest [OF that(1)] that(2) by (simp add: handled_def)
  obtain db1 where db1: "HandleCreateChannel (json_get ?dat ''c'') height nm txid db = Some db1" "handled env board_inv height slack {txid} db db1"
    using Create_handled(1) [OF inv pos(1)] fresh by blast
  obtain db2 where db2: "HandleJoinChannel env (json_get ?dat ''j'') nm txid db1 = Some db2" "handled env board_inv height slack {} db1 db2"
    using Join_handled [where G = board_inv, OF _ good(1) board_inv_initial] db1(2) by (metis handled_def)
  obtain db3 where db3: "HandleAbortChannel (json_get ?dat ''a'') nm db2 = Some db3" "handled env board_inv height slack {} db2 db3"
    using Abort_handled db2(2) by (metis handled_def)
  obtain db4 where db4: "HandleDeclareLoss env (json_get ?dat ''l'') nm db3 = Some db4" "handled env board_inv height slack {} db3 db4"
    using Loss_handled [OF _ dec] db3(2) by (metis handled_def)
  obtain db5 where db5: "HandleDisputeResolution env (json_get ?dat ''d'') height True db4 = Some db5" "handled env board_inv height slack {} db4 db5"
    using filing [OF _ db4(2)] safe by blast
  obtain db6 where db6: "HandleDisputeResolution env (json_get ?dat ''r'') height False db5 = Some db6" "handled env board_inv height slack {} db5 db6"
    using filing [OF _ db5(2)] safe by blast
  have "handled env board_inv height slack {txid} db db6"
    using db1(2) db2(2) db3(2) db4(2) db5(2) db6(2) unfolding handled_def by blast
  then show ?thesis
    using nm db1 db2 db3 db4 db5 db6 handled_refl [OF inv] by (auto simp: ships_move_def bind_CHECK Let_def)
qed

lemma move_handled:
  assumes inv: "db_inv env (\<lambda>_. True) height slack db" and pos: "0 < slack" and good: "good_services env"
    and run: "ships_move env height mv db = Some db'"
  shows "db_inv env (\<lambda>_. True) height slack db'"
proof (cases "isObject (json_get mv ''move'') \<and> json_size (json_get mv ''move'') \<le> 1")
  case False
  then have "db' = db"
    using run by (auto simp: ships_move_def bind_CHECK Let_def bind_Some_iff split: if_splits)
  with inv show ?thesis by simp
next
  case True
  let ?dat = "json_get mv ''move''" and ?nm = "asString (json_get mv ''name'')"
  from True run obtain txid db1 db2 db3 db4 db5 where
    db: "HandleCreateChannel (json_get ?dat ''c'') height ?nm txid db = Some db1"
      "HandleJoinChannel env (json_get ?dat ''j'') ?nm txid db1 = Some db2"
      "HandleAbortChannel (json_get ?dat ''a'') ?nm db2 = Some db3"
      "HandleDeclareLoss env (json_get ?dat ''l'') ?nm db3 = Some db4"
      "HandleDisputeResolution env (json_get ?dat ''d'') height True db4 = Some db5"
      "HandleDisputeResolution env (json_get ?dat ''r'') height False db5 = Some db'"
    by (auto simp: ships_move_def bind_CHECK Let_def split: if_splits elim!: bind_SomeE)
  have "db_inv env (\<lambda>_. True) height slack db1"
    using Create_handled [OF inv pos] db(1) unfolding handled_def by (metis option.inject)
  then have "db_inv env (\<lambda>_. True) height slack db2"
    using Join_handled [OF _ good] db(2) unfolding handled_def by (metis option.inject)
  then have "db_inv env (\<lambda>_. True) height slack db3"
    using Abort_handled db(3) unfolding handled_def by (metis option.inject)
  then have "db_inv env (\<lambda>_. True) height slack db4"
    using Loss_handled Loss_undecoded db(4) unfolding handled_def by (metis option.exhaust option.inject)
  then have "db_inv env (\<lambda>_. True) height slack db5"
    using Dispute_handled db(5) unfolding handled_def by blast
  then show ?thesis
    using Dispute_handled db(6) unfolding handled_def by blast
qed

lemma moves_total:
  assumes "db_inv env board_inv height slack db" and pos: "0 < slack" "0 < height"
    and good: "good_services env" "channel_services (senv_channel env)"
    and "\<forall>mv\<in>set mvs. wf_move mv \<and> safe_move env mv" "distinct (map move_txid mvs)"
    and "\<forall>mv\<in>set mvs. \<forall>t. move_txid mv = Some t \<longrightarrow> map_of (db_channels db) t = None"
  shows "\<exists>db'. ships_moves env height mvs db = Some db' \<and> db_inv env board_inv height slack db'"
  using assms(1,6,7,8)
proof (induction mvs arbitrary: db)
  case (Cons mv mvs)
  obtain txid where txid: "move_txid mv = Some txid"
    using Cons.prems(2) by (auto simp: wf_move_def)
  then obtain db1 where db1: "ships_move env height mv db = Some db1" "handled env board_inv height slack {txid} db db1"
    using db_move_total [OF Cons.prems(1) pos good] Cons.prems(2,4) by (metis list.set_intros(1))
  have "map_of (db_channels db1) t = None" if mem: "m \<in> set mvs" "move_txid m = Some t" for m t
  proof -
    have "t \<noteq> txid"
      using Cons.prems(3) txid mem by (force simp: image_iff)
    moreover have "map_of (db_channels db) t = None"
      using Cons.prems(4) mem by auto
    ultimately show ?thesis
      using db1(2) by (auto simp: handled_def dom_def)
  qed
  then show ?case
    using Cons.IH [of db1] Cons.prems(2,3) db1 by (auto simp: handled_def)
qed simp

lemma moves_handled:
  assumes "db_inv env (\<lambda>_. True) height slack db" "0 < slack" "good_services env" "ships_moves env height mvs db = Some db'"
  shows "db_inv env (\<lambda>_. True) height slack db'"
  using assms
proof (induction mvs arbitrary: db)
  case (Cons mv mvs)
  then obtain db1 where "ships_move env height mv db = Some db1" "ships_moves env height mvs db1 = Some db'"
    by (auto elim!: bind_SomeE)
  then show ?case
    using Cons.IH [OF move_handled [OF Cons.prems(1-3)]] Cons.prems(2,3) by blast
qed simp

definition block_height :: "json \<Rightarrow> uint32" where
  "block_height blk = asUInt (json_get (json_get blk ''block'') ''height'')"

definition block_moves :: "json \<Rightarrow> json list" where
  "block_moves blk = json_array (json_get blk ''moves'')"

definition wf_block :: "json \<Rightarrow> bool" where
  "wf_block blk \<longleftrightarrow> isObject (json_get blk ''block'') \<and> isUInt (json_get (json_get blk ''block'') ''height'') \<and>
     isArray (json_get blk ''moves'')"

lemma UpdateState_eq:
  "UpdateState env blk db =
     (if wf_block blk then
        Option.bind (ships_moves env (block_height blk) (block_moves blk) db) (\<lambda>db.
        Option.bind (ProcessExpiredDisputes env (block_height blk) db) (TimeOutChannels (block_height blk)))
      else None)"
  by (auto simp: UpdateState_def wf_block_def block_height_def block_moves_def bind_CHECK Let_def)

lemma block_end:
  assumes "db_inv env G height 13 db"
  shows "\<exists>db'. Option.bind (ProcessExpiredDisputes env height db) (TimeOutChannels height) = Some db' \<and>
    db_inv env G height 12 db'"
proof -
  obtain db1 where "ProcessExpiredDisputes env height db = Some db1" "db_inv env G height 13 db1"
    using Expired_handled [OF assms] by (auto simp: handled_def)
  then show ?thesis
    using TimeOut_handled [of env G height db1] by simp
qed

lemma next_block:
  assumes "db_inv env G height 12 db" "unat (height + 1) = unat height + 1"
  shows "db_inv env G (height + 1) 13 db" "0 < height + 1"
  using db_inv_next_block [OF assms] assms(2) by (simp_all add: word_less_nat_alt)

lemma UpdateState_total:
  assumes inv: "db_inv env board_inv height 12 db"
    and services: "good_services env" "channel_services (senv_channel env)"
    and blk: "wf_block blk" "block_height blk = height + 1" "unat (height + 1) = unat height + 1"
    and moves: "\<forall>mv\<in>set (block_moves blk). wf_move mv \<and> safe_move env mv" "distinct (map move_txid (block_moves blk))"
      "\<forall>mv\<in>set (block_moves blk). \<forall>t. move_txid mv = Some t \<longrightarrow> map_of (db_channels db) t = None"
  shows "\<exists>db'. UpdateState env blk db = Some db' \<and> db_inv env board_inv (height + 1) 12 db'"
proof -
  obtain db1 where db1: "ships_moves env (height + 1) (block_moves blk) db = Some db1" "db_inv env board_inv (height + 1) 13 db1"
    using moves_total [OF next_block(1) [OF inv blk(3)] _ next_block(2) [OF inv blk(3)] services moves] by auto
  then show ?thesis
    using block_end [OF db1(2)] blk(1,2) by (simp add: UpdateState_eq)
qed

text \<open>The channels that are left after expired disputes are processed.\<close>

lemma UpdateStats_channels: "UpdateStats meta w db = Some db' \<Longrightarrow> db_channels db' = db_channels db"
  by (auto simp: UpdateStats_def bind_CHECK Let_def split: if_splits elim!: bind_SomeE)

lemma expire_channels_result:
  "expire_channels env hs db = Some db' \<Longrightarrow>
    db_channels db' = fold (\<lambda>h. tbl_delete (cd_id h)) hs (db_channels db)"
proof (induction hs arbitrary: db)
  case (Cons h hs)
  then obtain db1 where db1: "expire_channel env h db = Some db1" "expire_channels env hs db1 = Some db'"
    by (auto elim!: bind_SomeE)
  have "db_channels db1 = tbl_delete (cd_id h) (db_channels db)"
    using db1(1) UpdateStats_channels
    by (fastforce simp: expire_channel_def bind_CHECK Let_def split: if_splits elim!: bind_SomeE)
  then show ?case
    using Cons.IH [OF db1(2)] by simp
qed simp

lemma set_fold_delete: "set (fold (\<lambda>h. tbl_delete (cd_id h)) hs t) = {(i, r) \<in> set t. i \<notin> cd_id ` set hs}"
  by (induction hs arbitrary: t) (auto simp: tbl_delete_def)

lemma time_out_subset: "TimeOutChannels height db = Some db' \<Longrightarrow> set (db_channels db') \<subseteq> set (db_channels db)"
proof -
  have rows: "time_out_rows l rows db = Some db' \<Longrightarrow> set (db_channels db') \<subseteq> set (db_channels db)" for l rows db
    by (induction l rows db rule: time_out_rows.induct)
      (auto simp: bind_CHECK tbl_delete_def split: if_splits)
  show "TimeOutChannels height db = Some db' \<Longrightarrow> set (db_channels db') \<subseteq> set (db_channels db)"
    using rows by (auto simp: TimeOutChannels_def Let_def split: if_splits)
qed

lemma expired_query_empty:
  assumes "expire_channels env (QueryForDisputeHeight k (db_channels db)) db = Some db1"
    "set (db_channels db') \<subseteq> set (db_channels db1)"
  shows "QueryForDisputeHeight k (db_channels db') = []"
proof -
  have ids: "i \<in> cd_id ` set (QueryForDisputeHeight k (db_channels db))"
    if "(i, r) \<in> set (db_channels db)" "row_disputeHeight r = Some h" "h \<le> k" for i r h
    using that by (force simp: QueryForDisputeHeight_def ChannelData_from_row_def image_iff)
  have "\<not> (case row_disputeHeight r of None \<Rightarrow> False | Some h \<Rightarrow> h \<le> k)" if "(i, r) \<in> set (db_channels db')" for i r
    using that assms ids [of i r] by (auto simp: expire_channels_result [OF assms(1)] set_fold_delete split: option.splits)
  then show ?thesis
    by (auto simp: QueryForDisputeHeight_def filter_empty_conv)
qed

subsection \<open>Example\<close>

definition example_env :: ships_env where
  "example_env = \<lparr>senv_channel = mock_env, senv_codec = wire_codec,
     senv_parse_proof = (\<lambda>s. if s = ''initial'' then Some (bare_proof (ser_board_state InitialBoardState)) else None)\<rparr>"

definition example_move :: "string \<Rightarrow> uint256 \<Rightarrow> json \<Rightarrow> json" where
  "example_move nm txid dat = JObject [(''name'', JString nm), (''txid'', JString (ToHex txid)), (''move'', dat)]"

definition example_block :: "int \<Rightarrow> json list \<Rightarrow> json" where
  "example_block height mvs = JObject [(''block'', JObject [(''height'', JInt height)]), (''moves'', JArray mvs)]"

text \<open>One player opens a channel; another one joins it, and a dispute on its initial state is filed.\<close>

definition create_block :: json where
  "create_block = example_block 1
     [example_move ''alice'' example_id (JObject [(''c'', JObject [(''addr'', JString ''alice addr'')])])]"

definition join_block :: json where
  "join_block = example_block 2
     [example_move ''bob'' (replicate 32 8)
        (JObject [(''j'', JObject [(''addr'', JString ''bob addr''), (''id'', JString (ToHex example_id))])]),
      example_move ''bob'' (replicate 32 9)
        (JObject [(''d'', JObject [(''id'', JString (ToHex example_id)), (''state'', JString (rfc_encode ''initial''))])])]"

definition example_db :: ships_db where
  "example_db = the (UpdateState example_env create_block InitialiseState)"

lemma decode_groups_length: "decode_groups s = Some ds \<Longrightarrow> length ds = length s div 4 * 3"
  by (induction s arbitrary: ds rule: decode_groups.induct) (auto simp: div_add_self1 elim!: bind_SomeE)

lemma example_services: "good_services example_env" "channel_services (senv_channel example_env)"
  using decode_groups_length mock_hash_good wire_codec_good mock.channel_services_axioms
  by (auto simp: good_services_def example_env_def mock_env_def rfc_decode_def)

lemma example_db_inv: "db_inv example_env board_inv 1 12 example_db"
proof -
  have "\<exists>db'. UpdateState example_env create_block InitialiseState = Some db' \<and> db_inv example_env board_inv (0 + 1) 12 db'"
  proof (rule UpdateState_total [OF db_inv_initial example_services])
    show "wf_block create_block" "block_height create_block = 0 + 1"
      "\<forall>mv\<in>set (block_moves create_block). wf_move mv \<and> safe_move example_env mv"
      "distinct (map move_txid (block_moves create_block))"
      by code_simp+
  qed (simp_all add: InitialiseState_def)
  then show ?thesis
    by (auto simp: example_db_def)
qed

lemma join_block_facts:
  "wf_block join_block" "block_height join_block = 1 + 1"
  "\<forall>mv\<in>set (block_moves join_block). wf_move mv \<and> safe_move example_env mv"
  "distinct (map move_txid (block_moves join_block))"
  "\<forall>mv\<in>set (block_moves join_block). case move_txid mv of None \<Rightarrow> True | Some t \<Rightarrow> map_of (db_channels example_db) t = None"
  by code_simp+

subsection \<open>Properties\<close>


lemma db_inv_weaken: "db_inv env G height slack db \<Longrightarrow> db_inv env (\<lambda>_. True) height slack db"
  by (erule db_inv_mono) (auto simp: channel_ok_def)






text \<open>C26. A declared loss with the reinit ID \<open>A===\<close> aborts the process, for every channel with two
  participants: the decoder accepts a group with three padding characters, and the check that the
  padding is shorter than the decoded data fails.\<close>

theorem padded_loss_aborts:
  assumes "map_of (db_channels db) i = Some r" "length (participants (row_metadata r)) = 2" "wf_uint256 i"
    and "env_decode (senv_channel env) ''A==='' = Some bs" "length bs = 3"
  shows "HandleDeclareLoss env (JObject [(''id'', JString (ToHex i)), (''r'', JString ''A==='')]) nm db = None"
proof -
  let ?obj = "JObject [(''id'', JString (ToHex i)), (''r'', JString ''A==='')]"
  have "RetrieveChannelFromMove ?obj (db_channels db) = Some (Some (ChannelData_from_row i r))"
    using assms(1,3) by (simp add: RetrieveChannelFromMove_def json_get_object GetById_def FromHex_ToHex)
  moreover have "DecodeBase64 (env_decode (senv_channel env)) ''A==='' = None"
    using assms(4,5) by (auto simp: DecodeBase64_def)
  ultimately show ?thesis
    using assms(2) by (simp add: HandleDeclareLoss_def json_get_object ChannelData_from_row_def)
qed

theorem padded_loss_aborts_witness:
  "HandleDeclareLoss example_env (JObject [(''id'', JString (ToHex example_id)), (''r'', JString ''A==='')]) ''carol''
     \<lparr>db_channels = [(example_id, \<lparr>row_metadata = example_meta, row_reinit = [], row_stateproof = None,
        row_disputeHeight = None\<rparr>)], db_extra = [], db_stats = []\<rparr> = None"
  by (rule padded_loss_aborts [where bs = "[CHR 0x00, CHR 0x00, CHR 0x00]"]) code_simp+

end
