(* ===== verification/Ships_Pending.thy ===== *)
theory Ships_Pending
  imports Ships_Invariant
begin

text \<open>
  The pending moves of Xayaships (\<open>ShipsPending\<close> of \<open>src/ships/logic.cpp\<close>): what unconfirmed moves
  would do to the confirmed database, which they never change.

  The lemmas relate them to the handlers of confirmed moves: a pending join or abort is recorded
  exactly when the confirmed move would be carried out on the same database.
\<close>

record ships_pending =
  pend_channels :: pending_channels
  pend_create :: "json list"
  pend_join :: "json list"
  pend_abort :: "uint256 set"

definition ClearShips :: "ships_pending \<Rightarrow> ships_pending" where
  "ClearShips s = s\<lparr>pend_create := [], pend_join := [], pend_abort := {}\<rparr>"

definition ShipsPending_Clear :: "ships_pending \<Rightarrow> ships_pending" where
  "ShipsPending_Clear s = ClearShips (s\<lparr>pend_channels := PendingMoves_Clear (pend_channels s)\<rparr>)"

definition pending_entry :: "string \<Rightarrow> string \<Rightarrow> uint256 \<Rightarrow> json" where
  "pending_entry nm addr i = JObject [(''name'', JString nm), (''address'', JString addr), (''id'', JString (ToHex i))]"

definition Pending_HandleCreateChannel :: "json \<Rightarrow> string \<Rightarrow> uint256 \<Rightarrow> ships_pending \<Rightarrow> ships_pending" where
  "Pending_HandleCreateChannel obj nm txid s =
     (case ParseCreateChannelMove obj of
        None \<Rightarrow> s
      | Some addr \<Rightarrow> s\<lparr>pend_create := pend_create s @ [pending_entry nm addr txid]\<rparr>)"

definition Pending_HandleJoinChannel :: "ships_db \<Rightarrow> json \<Rightarrow> string \<Rightarrow> ships_pending \<Rightarrow> ships_pending run" where
  "Pending_HandleJoinChannel db obj nm s =
     do {
       parsed \<leftarrow> ParseJoinChannelMove obj nm (db_channels db);
       Some (case parsed of
               None \<Rightarrow> s
             | Some (h, addr) \<Rightarrow> s\<lparr>pend_join := pend_join s @ [pending_entry nm addr (cd_id h)]\<rparr>)
     }"

definition Pending_HandleAbortChannel :: "ships_db \<Rightarrow> json \<Rightarrow> string \<Rightarrow> ships_pending \<Rightarrow> ships_pending run" where
  "Pending_HandleAbortChannel db obj nm s =
     do {
       parsed \<leftarrow> ParseAbortChannelMove obj nm (db_channels db);
       Some (case parsed of None \<Rightarrow> s | Some i \<Rightarrow> s\<lparr>pend_abort := insert i (pend_abort s)\<rparr>)
     }"

definition Pending_HandleDisputeResolution :: "ships_env \<Rightarrow> ships_db \<Rightarrow> json \<Rightarrow> ships_pending \<Rightarrow> ships_pending run" where
  "Pending_HandleDisputeResolution env db obj s =
     do {
       parsed \<leftarrow> ParseDisputeResolutionMove env obj (db_channels db);
       (case parsed of
          None \<Rightarrow> Some s
        | Some (h, pf) \<Rightarrow>
            do {
              chs \<leftarrow> AddPendingStateProof (senv_channel env) (ships_boardRules env) h pf (pend_channels s);
              Some (s\<lparr>pend_channels := chs\<rparr>)
            })
     }"

definition AddPendingMoveUnsafe :: "ships_env \<Rightarrow> ships_db \<Rightarrow> json \<Rightarrow> ships_pending \<Rightarrow> ships_pending run" where
  "AddPendingMoveUnsafe env db mv s =
     do {
       CHECK (isObject mv);
       let nameVal = json_get mv ''name'';
       CHECK (isString nameVal);
       let nm = asString nameVal;
       let txidVal = json_get mv ''txid'';
       CHECK (isString txidVal);
       txid \<leftarrow> FromHex (asString txidVal);
       let dat = json_get mv ''move'';
       if \<not> isObject dat then Some s
       else if json_size dat > 1 then Some s
       else do {
         let s = Pending_HandleCreateChannel (json_get dat ''c'') nm txid s;
         s \<leftarrow> Pending_HandleJoinChannel db (json_get dat ''j'') nm s;
         s \<leftarrow> Pending_HandleAbortChannel db (json_get dat ''a'') nm s;
         s \<leftarrow> Pending_HandleDisputeResolution env db (json_get dat ''d'') s;
         Pending_HandleDisputeResolution env db (json_get dat ''r'') s
       }
     }"

subsection \<open>Pending moves and confirmed moves\<close>

lemma pending_join_iff:
  assumes inv: "db_inv env G height slack db" and good: "good_services env"
    and s': "Pending_HandleJoinChannel db obj nm s = Some s'"
    and db': "HandleJoinChannel env obj nm txid db = Some db'"
  shows "pend_join s' \<noteq> pend_join s \<longleftrightarrow> db' \<noteq> db"
  using ParseJoin_cases [of obj nm "db_channels db"]
proof (elim disjE exE conjE)
  assume "ParseJoinChannelMove obj nm (db_channels db) = Some None"
  then show ?thesis
    using s' db' by (auto simp: Pending_HandleJoinChannel_def HandleJoinChannel_def)
next
  fix h addr p i
  assume parse: "ParseJoinChannelMove obj nm (db_channels db) = Some (Some (h, addr))"
    and i: "GetById i (db_channels db) = Some h" and p: "participants (cd_metadata h) = [p]"
  obtain r where r: "map_of (db_channels db) i = Some r" "cd_id h = i" "cd_metadata h = row_metadata r"
    using GetById_inv [OF inv i] by metis
  have "distinct (map fst (db_channels db))"
    using inv by (simp add: db_inv_def)
  then have "map_of (db_channels db') i = Some row" if "db_channels db' = tbl_put i row (db_channels db)" for row
    unfolding that by (simp add: map_of_tbl_put del: map_of_eq_Some_iff)
  then have "db' \<noteq> db" if "db_channels db' = tbl_put i row (db_channels db)" "row_metadata row \<noteq> row_metadata r" for row
    using that r(1) by (metis option.inject)
  moreover have "\<exists>row. db_channels db' = tbl_put i row (db_channels db) \<and> length (participants (row_metadata row)) = 2"
    using db' parse p r(2)
    by (auto simp: HandleJoinChannel_def Let_def bind_CHECK Reinitialise_def destroy_put ChannelData_row_def
        UpdateMetadataReinit_def split: if_splits elim!: bind_SomeE)
  moreover have "pend_join s' \<noteq> pend_join s"
    using s' parse by (auto simp: Pending_HandleJoinChannel_def)
  ultimately show ?thesis
    using p r(3) by force
qed

lemma pending_abort_iff:
  assumes s': "Pending_HandleAbortChannel db obj nm s = Some s'" and db': "HandleAbortChannel obj nm db = Some db'"
    and i: "i \<notin> pend_abort s"
  shows "i \<in> pend_abort s' \<longleftrightarrow> map_of (db_channels db) i \<noteq> None \<and> map_of (db_channels db') i = None"
proof -
  obtain parsed where parsed: "ParseAbortChannelMove obj nm (db_channels db) = Some parsed"
    using s' by (auto simp: Pending_HandleAbortChannel_def elim!: bind_SomeE)
  show ?thesis
  proof (cases parsed)
    case None
    then show ?thesis
      using parsed s' db' i by (auto simp: Pending_HandleAbortChannel_def HandleAbortChannel_def)
  next
    case (Some j)
    obtain fs h where h: "RetrieveChannelFromMove (JObject fs) (db_channels db) = Some (Some h)" "cd_id h = j"
      using parsed Some by (auto simp: ParseAbortChannelMove_def Let_def split: if_splits option.splits elim!: bind_SomeE)
    then have "map_of (db_channels db) j \<noteq> None"
      using Retrieve_iff(1) by (fastforce simp: GetById_def ChannelData_from_row_def)
    then show ?thesis
      using parsed Some s' db' i
      by (auto simp: Pending_HandleAbortChannel_def HandleAbortChannel_def map_of_tbl_delete split: if_splits)
  qed
qed

subsection \<open>Property\<close>


definition no_pending :: ships_pending where
  "no_pending = \<lparr>pend_channels = (\<lambda>_. None), pend_create = [], pend_join = [], pend_abort = {}\<rparr>"

definition example_join :: json where
  "example_join = JObject [(''addr'', JString ''bob addr''), (''id'', JString (ToHex example_id))]"

definition example_abort :: json where
  "example_abort = JObject [(''id'', JString (ToHex example_id))]"


end
