(* ===== verification/Nonfungible.thy ===== *)
theory Nonfungible
  imports Game_Logic "HOL-Library.AList" "HOL-Library.List_Lexorder" "HOL-Library.Char_ord" "HOL-Library.Product_Lexorder"
begin

text \<open>
  The non-fungible assets game (\<open>src/nonfungible\<close>): assets and amounts, the parser of moves with its
  virtual operations, the processor of confirmed moves on the database, the pending state on top of
  a database, and the JSON of the state.

  The class \<open>MoveParser\<close> is a record of its virtual operations over a state of any type; the
  database and the pending state are two instances.  A third instance is the abstract ledger, which
  the locale \<open>ledger_view\<close> relates to the others.  Amounts are mathematical integers; the
  invariant keeps them between 0 and \<open>MAX_AMOUNT\<close>, so that no sum of two of them leaves 64 bits.
\<close>

subsection \<open>Assets and amounts\<close>

datatype asset = Asset (GetMinter: string) (asset_name: string)

instantiation asset :: linorder
begin

definition less_asset :: "asset \<Rightarrow> asset \<Rightarrow> bool" where
  "less_asset a b =
     (if GetMinter a \<noteq> GetMinter b then GetMinter a < GetMinter b else asset_name a < asset_name b)"

definition less_eq_asset :: "asset \<Rightarrow> asset \<Rightarrow> bool" where
  "less_eq_asset a b \<longleftrightarrow> a < b \<or> a = b"

instance
proof
  fix a b c :: asset
  show "a < b \<longleftrightarrow> a \<le> b \<and> \<not> b \<le> a"
    by (cases a; cases b) (auto simp: less_asset_def less_eq_asset_def)
  show "a \<le> a"
    by (simp add: less_eq_asset_def)
  show "a \<le> b \<Longrightarrow> b \<le> c \<Longrightarrow> a \<le> c"
    by (cases a; cases b; cases c) (auto simp: less_asset_def less_eq_asset_def split: if_splits)
  show "a \<le> b \<Longrightarrow> b \<le> a \<Longrightarrow> a = b"
    by (cases a; cases b) (auto simp: less_asset_def less_eq_asset_def split: if_splits)
  show "a \<le> b \<or> b \<le> a"
    by (cases a; cases b) (auto simp: less_asset_def less_eq_asset_def)
qed

end

definition MAX_AMOUNT :: int where
  "MAX_AMOUNT = 2 ^ 60"

definition AmountToJson :: "int \<Rightarrow> json" where
  "AmountToJson n = JInt n"

definition IsIntegerValue :: "json \<Rightarrow> bool" where
  "IsIntegerValue v = (case v of JInt i \<Rightarrow> True | _ \<Rightarrow> False)"

definition AmountFromJson :: "json \<Rightarrow> int option" where
  "AmountFromJson v =
     (if \<not> IsIntegerValue v \<or> \<not> isInt64 v then None
      else
        let n = asInt64 v in
        if n \<ge> 0 \<and> n \<le> MAX_AMOUNT then Some n else None)"

definition Asset_ToJson :: "asset \<Rightarrow> json" where
  "Asset_ToJson a = JObject [(''m'', JString (GetMinter a)), (''a'', JString (asset_name a))]"

definition IsValidName :: "string \<Rightarrow> bool" where
  "IsValidName nm = list_all (\<lambda>c. \<not> (of_char c :: nat) < 32) nm"

definition GetPrintableString :: "json \<Rightarrow> string option" where
  "GetPrintableString v =
     (if \<not> isString v then None
      else if IsValidName (asString v) then Some (asString v) else None)"

definition Asset_FromJson :: "json \<Rightarrow> asset option" where
  "Asset_FromJson v =
     (if \<not> isObject v \<or> json_size v \<noteq> 2 then None
      else do {
        m \<leftarrow> GetPrintableString (json_get v ''m'');
        a \<leftarrow> GetPrintableString (json_get v ''a'');
        Some (Asset m a)
      })"

subsection \<open>The parser of moves\<close>

text \<open>The virtual operations of \<open>MoveParser\<close>.\<close>

record 's move_parser =
  mp_AssetExists :: "'s \<Rightarrow> asset \<Rightarrow> bool run"
  mp_GetBalance :: "'s \<Rightarrow> asset \<Rightarrow> string \<Rightarrow> int run"
  mp_ProcessMint :: "asset \<Rightarrow> int \<Rightarrow> string option \<Rightarrow> 's \<Rightarrow> 's run"
  mp_ProcessTransfer :: "asset \<Rightarrow> int \<Rightarrow> string \<Rightarrow> string \<Rightarrow> 's \<Rightarrow> 's run"
  mp_ProcessBurn :: "asset \<Rightarrow> int \<Rightarrow> string \<Rightarrow> 's \<Rightarrow> 's run"

definition HandleMint :: "'s move_parser \<Rightarrow> string \<Rightarrow> json \<Rightarrow> 's \<Rightarrow> 's run" where
  "HandleMint P nm mop s =
     (if \<not> isObject mop then Some s
      else
        let hasData = isMember mop ''d'' in
        if hasData \<and> json_size mop \<noteq> 3 \<or> \<not> hasData \<and> json_size mop \<noteq> 2 then Some s
        else
          let assetNameVal = json_get mop ''a'' in
          if \<not> isString assetNameVal then Some s
          else if \<not> IsValidName (asString assetNameVal) then Some s
          else
            let a = Asset nm (asString assetNameVal) in
            case AmountFromJson (json_get mop ''n'') of
              None \<Rightarrow> Some s
            | Some supply \<Rightarrow>
                if hasData \<and> \<not> isString (json_get mop ''d'') then Some s
                else do {
                  known \<leftarrow> mp_AssetExists P s a;
                  if known then Some s
                  else mp_ProcessMint P a supply (if hasData then Some (asString (json_get mop ''d'')) else None) s
                })"

definition HandleTransfer :: "'s move_parser \<Rightarrow> string \<Rightarrow> json \<Rightarrow> 's \<Rightarrow> 's run" where
  "HandleTransfer P nm mop s =
     (if \<not> isObject mop \<or> json_size mop \<noteq> 3 then Some s
      else
        case Asset_FromJson (json_get mop ''a'') of
          None \<Rightarrow> Some s
        | Some a \<Rightarrow>
            (case AmountFromJson (json_get mop ''n'') of
               None \<Rightarrow> Some s
             | Some n \<Rightarrow>
                 if n \<le> 0 then Some s
                 else if \<not> isString (json_get mop ''r'') then Some s
                 else do {
                   balance \<leftarrow> mp_GetBalance P s a nm;
                   if n > balance then Some s
                   else mp_ProcessTransfer P a n nm (asString (json_get mop ''r'')) s
                 }))"

definition HandleBurn :: "'s move_parser \<Rightarrow> string \<Rightarrow> json \<Rightarrow> 's \<Rightarrow> 's run" where
  "HandleBurn P nm mop s =
     (if \<not> isObject mop \<or> json_size mop \<noteq> 2 then Some s
      else
        case Asset_FromJson (json_get mop ''a'') of
          None \<Rightarrow> Some s
        | Some a \<Rightarrow>
            (case AmountFromJson (json_get mop ''n'') of
               None \<Rightarrow> Some s
             | Some n \<Rightarrow>
                 if n \<le> 0 then Some s
                 else do {
                   balance \<leftarrow> mp_GetBalance P s a nm;
                   if n > balance then Some s else mp_ProcessBurn P a n nm s
                 }))"

definition HandleOperation :: "'s move_parser \<Rightarrow> string \<Rightarrow> json \<Rightarrow> 's \<Rightarrow> 's run" where
  "HandleOperation P nm mv s =
     do {
       CHECK (isObject mv);
       if json_size mv \<noteq> 1 then Some s
       else if isMember mv ''m'' then HandleMint P nm (json_get mv ''m'') s
       else if isMember mv ''t'' then HandleTransfer P nm (json_get mv ''t'') s
       else if isMember mv ''b'' then HandleBurn P nm (json_get mv ''b'') s
       else Some s
     }"

fun HandleOperations :: "'s move_parser \<Rightarrow> string \<Rightarrow> json list \<Rightarrow> 's \<Rightarrow> 's run" where
  "HandleOperations P nm [] s = Some s"
| "HandleOperations P nm (mop # mops) s =
     do {
       s \<leftarrow> (if isObject mop then HandleOperation P nm mop s else Some s);
       HandleOperations P nm mops s
     }"

definition ProcessOne :: "'s move_parser \<Rightarrow> json \<Rightarrow> 's \<Rightarrow> 's run" where
  "ProcessOne P obj s =
     do {
       CHECK (isObject obj);
       let nameVal = json_get obj ''name'';
       CHECK (isString nameVal);
       let mv = json_get obj ''move'';
       if isObject mv then HandleOperation P (asString nameVal) mv s
       else if isArray mv then HandleOperations P (asString nameVal) (json_array mv) s
       else Some s
     }"

fun ProcessMoves :: "'s move_parser \<Rightarrow> json list \<Rightarrow> 's \<Rightarrow> 's run" where
  "ProcessMoves P [] s = Some s"
| "ProcessMoves P (mv # mvs) s = do { s \<leftarrow> ProcessOne P mv s; ProcessMoves P mvs s }"

definition ProcessAll :: "'s move_parser \<Rightarrow> json \<Rightarrow> 's \<Rightarrow> 's run" where
  "ProcessAll P mvs s = do { CHECK (isArray mvs); ProcessMoves P (json_array mvs) s }"

subsection \<open>Confirmed moves\<close>

record nf_db =
  tbl_assets :: "(asset \<times> string option) list"
  tbl_balances :: "((string \<times> asset) \<times> int) list"

definition GetDbBalance :: "nf_db \<Rightarrow> asset \<Rightarrow> string \<Rightarrow> int run" where
  "GetDbBalance db a nm =
     (case filter (\<lambda>(k, n). k = (nm, a)) (tbl_balances db) of
        [] \<Rightarrow> Some 0
      | (k, n) # rest \<Rightarrow> do { CHECK (rest = []); Some n })"

definition Db_AssetExists :: "nf_db \<Rightarrow> asset \<Rightarrow> bool run" where
  "Db_AssetExists db a =
     (let count = length (filter (\<lambda>(k, d). k = a) (tbl_assets db))
      in do { CHECK (count \<le> 1); Some (count > 0) })"

definition UpdateBalance :: "asset \<Rightarrow> string \<Rightarrow> int \<Rightarrow> nf_db \<Rightarrow> nf_db run" where
  "UpdateBalance a nm num db =
     do {
       oldBalance \<leftarrow> GetDbBalance db a nm;
       let newBalance = oldBalance + num;
       CHECK (newBalance \<ge> 0);
       CHECK (newBalance \<le> MAX_AMOUNT);
       Some (db\<lparr>tbl_balances :=
         (if newBalance = 0 then AList.delete (nm, a) (tbl_balances db)
          else AList.update (nm, a) newBalance (tbl_balances db))\<rparr>)
     }"

definition Db_ProcessMint :: "asset \<Rightarrow> int \<Rightarrow> string option \<Rightarrow> nf_db \<Rightarrow> nf_db run" where
  "Db_ProcessMint a supply dat db =
     do {
       CHECK (map_of (tbl_assets db) a = None);
       let db = db\<lparr>tbl_assets := tbl_assets db @ [(a, dat)]\<rparr>;
       if supply > 0 then UpdateBalance a (GetMinter a) supply db else Some db
     }"

definition Db_ProcessTransfer :: "asset \<Rightarrow> int \<Rightarrow> string \<Rightarrow> string \<Rightarrow> nf_db \<Rightarrow> nf_db run" where
  "Db_ProcessTransfer a num sender recipient db =
     do { db \<leftarrow> UpdateBalance a sender (- num) db; UpdateBalance a recipient num db }"

definition Db_ProcessBurn :: "asset \<Rightarrow> int \<Rightarrow> string \<Rightarrow> nf_db \<Rightarrow> nf_db run" where
  "Db_ProcessBurn a num sender db = UpdateBalance a sender (- num) db"

definition MoveProcessor :: "nf_db move_parser" where
  "MoveProcessor =
     \<lparr>mp_AssetExists = Db_AssetExists, mp_GetBalance = GetDbBalance, mp_ProcessMint = Db_ProcessMint,
      mp_ProcessTransfer = Db_ProcessTransfer, mp_ProcessBurn = Db_ProcessBurn\<rparr>"

definition nf_GetInitialStateBlock :: "processor_context \<Rightarrow> (uint32 \<times> string) run" where
  "nf_GetInitialStateBlock pc =
     do {
       chain \<leftarrow> GetChain pc;
       (case chain of
          MAIN \<Rightarrow> Some (2199000, ''321ee13b84b0e5b9f07d43bcd3924c2a03006b043f687044807c4d66b4ac217f'')
        | TEST \<Rightarrow> Some (112300, ''700f14e07b5d2a8d6836195d8a5f7ecd0aa4bf99d88631e99d29fd8ebb01a63f'')
        | REGTEST \<Rightarrow> Some (0, ''6f750b36d22f1dc3d0a6e483af45301022646dfc3b3ba2187865f5a7d6d83ab1'')
        | _ \<Rightarrow> LOG_FATAL)
     }"

definition nf_InitialiseState :: nf_db where
  "nf_InitialiseState = \<lparr>tbl_assets = [], tbl_balances = []\<rparr>"

definition nf_UpdateState :: "json \<Rightarrow> nf_db \<Rightarrow> nf_db run" where
  "nf_UpdateState blockData db = ProcessAll MoveProcessor (json_get blockData ''moves'') db"

subsection \<open>Pending moves\<close>

record pending_state =
  pend_assets :: "(asset \<times> string option) list"
  pend_balances :: "((string \<times> asset) \<times> int) list"

definition PendingState :: pending_state where
  "PendingState = \<lparr>pend_assets = [], pend_balances = []\<rparr>"

definition IsNewAsset :: "pending_state \<Rightarrow> asset \<Rightarrow> bool" where
  "IsNewAsset st a \<longleftrightarrow> a \<in> fst ` set (pend_assets st)"

definition AddAsset :: "asset \<Rightarrow> string option \<Rightarrow> pending_state \<Rightarrow> pending_state run" where
  "AddAsset a dat st =
     do { CHECK (map_of (pend_assets st) a = None); Some (st\<lparr>pend_assets := (a, dat) # pend_assets st\<rparr>) }"

definition PendingState_GetBalance :: "pending_state \<Rightarrow> asset \<Rightarrow> string \<Rightarrow> int option" where
  "PendingState_GetBalance st a nm = map_of (pend_balances st) (nm, a)"

definition SetBalance :: "asset \<Rightarrow> string \<Rightarrow> int \<Rightarrow> pending_state \<Rightarrow> pending_state" where
  "SetBalance a nm balance st = st\<lparr>pend_balances := AList.update (nm, a) balance (pend_balances st)\<rparr>"

definition Pending_AssetExists :: "nf_db \<Rightarrow> pending_state \<Rightarrow> asset \<Rightarrow> bool run" where
  "Pending_AssetExists db st a = (if IsNewAsset st a then Some True else Db_AssetExists db a)"

definition Pending_GetBalance :: "nf_db \<Rightarrow> pending_state \<Rightarrow> asset \<Rightarrow> string \<Rightarrow> int run" where
  "Pending_GetBalance db st a nm =
     (case PendingState_GetBalance st a nm of Some b \<Rightarrow> Some b | None \<Rightarrow> GetDbBalance db a nm)"

definition Pending_UpdateBalance :: "nf_db \<Rightarrow> asset \<Rightarrow> string \<Rightarrow> int \<Rightarrow> pending_state \<Rightarrow> pending_state run" where
  "Pending_UpdateBalance db a nm num st =
     do { balance \<leftarrow> Pending_GetBalance db st a nm; Some (SetBalance a nm (balance + num) st) }"

definition Pending_ProcessMint :: "nf_db \<Rightarrow> asset \<Rightarrow> int \<Rightarrow> string option \<Rightarrow> pending_state \<Rightarrow> pending_state run" where
  "Pending_ProcessMint db a supply dat st =
     do {
       st \<leftarrow> AddAsset a dat st;
       if supply > 0 then Pending_UpdateBalance db a (GetMinter a) supply st else Some st
     }"

definition Pending_ProcessTransfer ::
    "nf_db \<Rightarrow> asset \<Rightarrow> int \<Rightarrow> string \<Rightarrow> string \<Rightarrow> pending_state \<Rightarrow> pending_state run" where
  "Pending_ProcessTransfer db a num sender recipient st =
     do { st \<leftarrow> Pending_UpdateBalance db a sender (- num) st; Pending_UpdateBalance db a recipient num st }"

definition Pending_ProcessBurn :: "nf_db \<Rightarrow> asset \<Rightarrow> int \<Rightarrow> string \<Rightarrow> pending_state \<Rightarrow> pending_state run" where
  "Pending_ProcessBurn db a num sender st = Pending_UpdateBalance db a sender (- num) st"

definition PendingStateUpdater :: "nf_db \<Rightarrow> pending_state move_parser" where
  "PendingStateUpdater db =
     \<lparr>mp_AssetExists = Pending_AssetExists db, mp_GetBalance = Pending_GetBalance db,
      mp_ProcessMint = Pending_ProcessMint db, mp_ProcessTransfer = Pending_ProcessTransfer db,
      mp_ProcessBurn = Pending_ProcessBurn db\<rparr>"

definition AddPendingMove :: "nf_db \<Rightarrow> json \<Rightarrow> pending_state \<Rightarrow> pending_state run" where
  "AddPendingMove db mv st = ProcessOne (PendingStateUpdater db) mv st"

subsection \<open>The state as JSON\<close>

definition ListAssets :: "nf_db \<Rightarrow> json" where
  "ListAssets db = JArray (map Asset_ToJson (sort (map fst (tbl_assets db))))"

definition data_json :: "string option \<Rightarrow> json" where
  "data_json d = (case d of None \<Rightarrow> JNull | Some s \<Rightarrow> JString s)"

fun sum_balances :: "(string \<times> int) list \<Rightarrow> (string \<times> json) list \<Rightarrow> int \<Rightarrow> (int \<times> (string \<times> json) list) run" where
  "sum_balances [] bals tot = Some (tot, bals)"
| "sum_balances ((nm, v) # rows) bals tot =
     do {
       CHECK (v > 0);
       CHECK (nm \<notin> fst ` set bals);
       sum_balances rows (bals @ [(nm, JInt v)]) (tot + v)
     }"

definition asset_rows :: "nf_db \<Rightarrow> asset \<Rightarrow> (string \<times> int) list" where
  "asset_rows db a =
     sort_key fst (map (\<lambda>((nm, a'), n). (nm, n)) (filter (\<lambda>((nm, a'), n). a' = a) (tbl_balances db)))"

definition GetAssetDetails :: "nf_db \<Rightarrow> asset \<Rightarrow> json run" where
  "GetAssetDetails db a =
     (case filter (\<lambda>(k, d). k = a) (tbl_assets db) of
        [] \<Rightarrow> Some JNull
      | (k, d) # rest \<Rightarrow>
          do {
            CHECK (rest = []);
            (tot, balances) \<leftarrow> sum_balances (asset_rows db a) [] 0;
            Some (JObject [(''asset'', Asset_ToJson a), (''data'', data_json d),
              (''supply'', AmountToJson tot), (''balances'', JObject balances)])
          })"

definition State_GetBalance :: "nf_db \<Rightarrow> asset \<Rightarrow> string \<Rightarrow> json run" where
  "State_GetBalance db a nm = map_option AmountToJson (GetDbBalance db a nm)"

definition GetUserBalances :: "nf_db \<Rightarrow> string \<Rightarrow> json" where
  "GetUserBalances db nm =
     JArray (map (\<lambda>(a, n). JObject [(''asset'', Asset_ToJson a), (''balance'', AmountToJson n)])
       (sort_key fst (map (\<lambda>((nm', a), n). (a, n)) (filter (\<lambda>((nm', a), n). nm' = nm) (tbl_balances db)))))"

fun details_of :: "nf_db \<Rightarrow> asset list \<Rightarrow> json list run" where
  "details_of db [] = Some []"
| "details_of db (a # rest) = do { d \<leftarrow> GetAssetDetails db a; ds \<leftarrow> details_of db rest; Some (d # ds) }"

definition FullState :: "nf_db \<Rightarrow> json run" where
  "FullState db = map_option JArray (details_of db (sort (map fst (tbl_assets db))))"

end
