(* ===== verification/Nonfungible_Ledger.thy ===== *)
theory Nonfungible_Ledger
  imports Nonfungible
begin

text \<open>
  The abstract ledger that the non-fungible game promises, and the refinement of it by the database
  of confirmed moves and by the pending state (\<open>src/nonfungible/moveprocessor.cpp\<close> and
  \<open>pending.cpp\<close>).

  A ledger gives every existing asset its data and every user a balance.  Parsing a move over the
  ledger is the same function as over the database, with the ledger's operations in place of the
  virtual ones; the locale \<open>ledger_view\<close> states what an implementation of these operations owes,
  and shows once that then parsing and processing moves commutes with the abstraction.
\<close>

record ledger =
  l_data :: "asset \<Rightarrow> string option option"
  l_bal :: "asset \<Rightarrow> string \<Rightarrow> int"

definition add_balance :: "asset \<Rightarrow> string \<Rightarrow> int \<Rightarrow> ledger \<Rightarrow> ledger" where
  "add_balance a nm n l = l\<lparr>l_bal := (l_bal l)(a := (l_bal l a)(nm := l_bal l a nm + n))\<rparr>"

definition ledger_mint :: "asset \<Rightarrow> int \<Rightarrow> string option \<Rightarrow> ledger \<Rightarrow> ledger" where
  "ledger_mint a n dat l = add_balance a (GetMinter a) n (l\<lparr>l_data := (l_data l)(a \<mapsto> dat)\<rparr>)"

definition ledger_transfer :: "asset \<Rightarrow> int \<Rightarrow> string \<Rightarrow> string \<Rightarrow> ledger \<Rightarrow> ledger" where
  "ledger_transfer a n sender recipient l = add_balance a recipient n (add_balance a sender (- n) l)"

definition ledger_parser :: "ledger move_parser" where
  "ledger_parser =
     \<lparr>mp_AssetExists = (\<lambda>l a. Some (l_data l a \<noteq> None)), mp_GetBalance = (\<lambda>l a nm. Some (l_bal l a nm)),
      mp_ProcessMint = (\<lambda>a n dat l. Some (ledger_mint a n dat l)),
      mp_ProcessTransfer = (\<lambda>a n sender recipient l. Some (ledger_transfer a n sender recipient l)),
      mp_ProcessBurn = (\<lambda>a n sender l. Some (add_balance a sender (- n) l))\<rparr>"

subsection \<open>Supply\<close>

definition owners :: "ledger \<Rightarrow> asset \<Rightarrow> string set" where
  "owners l a = {nm. l_bal l a nm \<noteq> 0}"

definition total_supply :: "ledger \<Rightarrow> asset \<Rightarrow> int" where
  "total_supply l a = (\<Sum>nm \<in> owners l a. l_bal l a nm)"

text \<open>Balances are never negative, only existing assets are owned, and no asset has a total supply
  above the maximum.\<close>

definition ledger_ok :: "ledger \<Rightarrow> bool" where
  "ledger_ok l \<longleftrightarrow>
     (\<forall>a. finite (owners l a) \<and> (\<forall>nm. 0 \<le> l_bal l a nm) \<and> total_supply l a \<le> MAX_AMOUNT \<and>
        (l_data l a = None \<longrightarrow> owners l a = {}))"

lemma supply_eq: "finite A \<Longrightarrow> owners l a \<subseteq> A \<Longrightarrow> total_supply l a = (\<Sum>nm \<in> A. l_bal l a nm)"
  unfolding total_supply_def by (rule sum.mono_neutral_left) (auto simp: owners_def)

lemma owners_add: "owners (add_balance a nm n l) b \<subseteq> (if b = a then insert nm (owners l a) else owners l b)"
  by (auto simp: owners_def add_balance_def)

lemma finite_owners_add: "finite (owners l b) \<Longrightarrow> finite (owners (add_balance a nm n l) b)"
  using owners_add [of a nm n l b] by (auto split: if_splits intro: finite_subset)

lemma supply_add:
  assumes "finite (owners l a)"
  shows "total_supply (add_balance a nm n l) b = total_supply l b + (if b = a then n else 0)"
proof (cases "b = a")
  case True
  let ?A = "insert nm (owners l a)"
  have "total_supply (add_balance a nm n l) a = (\<Sum>x \<in> ?A. l_bal l a x + (if x = nm then n else 0))"
    using assms owners_add [of a nm n l a]
    by (subst supply_eq [of ?A]) (auto simp: add_balance_def intro!: sum.cong)
  also have "\<dots> = (\<Sum>x \<in> ?A. l_bal l a x) + n"
    using assms by (simp add: sum.distrib)
  also have "(\<Sum>x \<in> ?A. l_bal l a x) = total_supply l a"
    using assms by (subst supply_eq [of ?A]) auto
  finally show ?thesis
    using True by simp
next
  case False
  then show ?thesis
    by (simp add: total_supply_def owners_def add_balance_def)
qed

lemma balance_le_supply:
  assumes "ledger_ok l"
  shows "l_bal l a nm \<le> total_supply l a" "x \<noteq> nm \<Longrightarrow> l_bal l a nm + l_bal l a x \<le> total_supply l a"
proof -
  have ok: "finite (owners l a)" "\<And>x. 0 \<le> l_bal l a x"
    using assms by (auto simp: ledger_ok_def)
  show "l_bal l a nm \<le> total_supply l a"
  proof (cases "nm \<in> owners l a")
    case True
    then show ?thesis
      unfolding total_supply_def using ok by (intro member_le_sum) auto
  next
    case False
    then show ?thesis
      unfolding total_supply_def using ok by (auto simp: owners_def intro: sum_nonneg)
  qed
  assume x: "x \<noteq> nm"
  have "total_supply l a = (\<Sum>y \<in> owners l a \<union> {nm, x}. l_bal l a y)"
    using ok by (intro supply_eq) auto
  also have "\<dots> \<ge> (\<Sum>y \<in> {nm, x}. l_bal l a y)"
    using ok by (intro sum_mono2) auto
  finally show "l_bal l a nm + l_bal l a x \<le> total_supply l a"
    using x by simp
qed

lemma ledger_ok_add:
  assumes "ledger_ok l" "l_data l a \<noteq> None" "0 \<le> l_bal l a nm + n" "total_supply l a + n \<le> MAX_AMOUNT"
  shows "ledger_ok (add_balance a nm n l)"
proof -
  have fin: "finite (owners l b)" for b
    using assms(1) by (simp add: ledger_ok_def)
  have "owners (add_balance a nm n l) b = {}" if "l_data l b = None" for b
    using that assms(1,2) by (auto simp: ledger_ok_def owners_def add_balance_def)
  moreover have "l_data (add_balance a nm n l) = l_data l"
    "0 \<le> l_bal (add_balance a nm n l) b x" for b x
    using assms by (auto simp: add_balance_def ledger_ok_def)
  moreover have "total_supply (add_balance a nm n l) b \<le> MAX_AMOUNT" for b
    using assms by (simp add: supply_add [OF fin] ledger_ok_def)
  ultimately show ?thesis
    using finite_owners_add [OF fin] by (simp add: ledger_ok_def)
qed

lemma ledger_ok_mint:
  assumes "ledger_ok l" "l_data l a = None" "0 \<le> n" "n \<le> MAX_AMOUNT"
  shows "ledger_ok (ledger_mint a n dat l)"
proof -
  let ?l = "l\<lparr>l_data := (l_data l)(a \<mapsto> dat)\<rparr>"
  have "ledger_ok ?l" "total_supply ?l a = 0"
    using assms by (auto simp: ledger_ok_def owners_def total_supply_def)
  then show ?thesis
    unfolding ledger_mint_def using assms by (intro ledger_ok_add) (auto simp: ledger_ok_def)
qed

lemma ledger_owned: "ledger_ok l \<Longrightarrow> 0 < l_bal l a nm \<Longrightarrow> l_data l a \<noteq> None"
  by (auto simp: ledger_ok_def owners_def)

lemma ledger_ok_burn:
  assumes "ledger_ok l" "0 < n" "n \<le> l_bal l a nm"
  shows "ledger_ok (add_balance a nm (- n) l)"
proof (rule ledger_ok_add [OF assms(1)])
  show "l_data l a \<noteq> None"
    using ledger_owned [OF assms(1), of a nm] assms(2,3) by simp
  have "total_supply l a \<le> MAX_AMOUNT"
    using assms(1) by (simp add: ledger_ok_def)
  then show "total_supply l a + - n \<le> MAX_AMOUNT"
    using assms(2) by simp
qed (use assms in simp)

lemma ledger_ok_transfer:
  assumes "ledger_ok l" "0 < n" "n \<le> l_bal l a sender"
  shows "ledger_ok (ledger_transfer a n sender recipient l)"
  unfolding ledger_transfer_def
proof (rule ledger_ok_add [OF ledger_ok_burn [OF assms]])
  have fin: "finite (owners l a)" and max: "total_supply l a \<le> MAX_AMOUNT" and nonneg: "0 \<le> l_bal l a recipient"
    using assms(1) by (simp_all add: ledger_ok_def)
  show "l_data (add_balance a sender (- n) l) a \<noteq> None"
    using ledger_owned [OF assms(1), of a sender] assms(2,3) by (simp add: add_balance_def)
  show "0 \<le> l_bal (add_balance a sender (- n) l) a recipient + n"
    using nonneg assms(2,3) by (simp add: add_balance_def)
  show "total_supply (add_balance a sender (- n) l) a + n \<le> MAX_AMOUNT"
    using max by (simp add: supply_add [OF fin])
qed

subsection \<open>What one operation may do\<close>

inductive ledger_step :: "string \<Rightarrow> ledger \<Rightarrow> ledger \<Rightarrow> bool" for nm where
  ignored: "ledger_step nm l l"
| mint: "l_data l (Asset nm x) = None \<Longrightarrow> 0 \<le> n \<Longrightarrow> n \<le> MAX_AMOUNT \<Longrightarrow>
    ledger_step nm l (ledger_mint (Asset nm x) n dat l)"
| transfer: "0 < n \<Longrightarrow> n \<le> l_bal l a nm \<Longrightarrow> ledger_step nm l (ledger_transfer a n nm r l)"
| burn: "0 < n \<Longrightarrow> n \<le> l_bal l a nm \<Longrightarrow> ledger_step nm l (add_balance a nm (- n) l)"

lemma ledger_step_ok: "ledger_step nm l l' \<Longrightarrow> ledger_ok l \<Longrightarrow> ledger_ok l'"
  by (induction rule: ledger_step.induct) (auto intro: ledger_ok_mint ledger_ok_transfer ledger_ok_burn)

lemma ledger_step_data: "ledger_step nm l l' \<Longrightarrow> l_data l a = Some d \<Longrightarrow> l_data l' a = Some d"
  by (induction rule: ledger_step.induct) (auto simp: ledger_mint_def ledger_transfer_def add_balance_def)

lemma ledger_step_supply:
  assumes "ledger_step nm l l'" "ledger_ok l" "l_data l a \<noteq> None"
  shows "total_supply l' a \<le> total_supply l a"
proof -
  have fin: "finite (owners l b)" for b
    using assms(2) by (simp add: ledger_ok_def)
  from assms(1,3) show ?thesis
  proof cases
    case (mint x n dat)
    then show ?thesis
      using assms(3) by (auto simp: total_supply_def owners_def ledger_mint_def add_balance_def)
  next
    case (transfer n b r)
    then show ?thesis
      using supply_add [OF fin] supply_add [OF finite_owners_add [OF fin]] by (simp add: ledger_transfer_def)
  next
    case (burn n b)
    then show ?thesis
      by (simp add: supply_add [OF fin])
  qed simp
qed

lemma ledger_step_others:
  assumes "ledger_step nm l l'" "x \<noteq> nm"
  shows "l_bal l a x \<le> l_bal l' a x"
  using assms by (induction rule: ledger_step.induct) (auto simp: ledger_mint_def ledger_transfer_def add_balance_def)

subsection \<open>Implementations\<close>

locale ledger_view =
  fixes P :: "'s move_parser" and view :: "'s \<Rightarrow> ledger" and inv :: "'s \<Rightarrow> bool"
  assumes view_exists: "inv s \<Longrightarrow> mp_AssetExists P s a = Some (l_data (view s) a \<noteq> None)"
    and view_balance: "inv s \<Longrightarrow> mp_GetBalance P s a nm = Some (l_bal (view s) a nm)"
    and view_mint: "inv s \<Longrightarrow> ledger_ok (view s) \<Longrightarrow> l_data (view s) a = None \<Longrightarrow> 0 \<le> n \<Longrightarrow> n \<le> MAX_AMOUNT \<Longrightarrow>
      \<exists>s'. mp_ProcessMint P a n dat s = Some s' \<and> inv s' \<and> view s' = ledger_mint a n dat (view s)"
    and view_transfer: "inv s \<Longrightarrow> ledger_ok (view s) \<Longrightarrow> 0 < n \<Longrightarrow> n \<le> l_bal (view s) a x \<Longrightarrow>
      \<exists>s'. mp_ProcessTransfer P a n x r s = Some s' \<and> inv s' \<and> view s' = ledger_transfer a n x r (view s)"
    and view_burn: "inv s \<Longrightarrow> ledger_ok (view s) \<Longrightarrow> 0 < n \<Longrightarrow> n \<le> l_bal (view s) a x \<Longrightarrow>
      \<exists>s'. mp_ProcessBurn P a n x s = Some s' \<and> inv s' \<and> view s' = add_balance a x (- n) (view s)"
begin

definition refines :: "string \<Rightarrow> ('s \<Rightarrow> 's run) \<Rightarrow> (ledger \<Rightarrow> ledger run) \<Rightarrow> 's \<Rightarrow> bool" where
  "refines nm f g s \<longleftrightarrow>
     (\<exists>s'. f s = Some s' \<and> inv s' \<and> g (view s) = Some (view s') \<and> ledger_step nm (view s) (view s'))"

lemma refines_ignored: "inv s \<Longrightarrow> f s = Some s \<Longrightarrow> g (view s) = Some (view s) \<Longrightarrow> refines nm f g s"
  by (simp add: refines_def ledger_step.ignored)

end

lemma AmountFromJson_range: "AmountFromJson v = Some n \<Longrightarrow> 0 \<le> n \<and> n \<le> MAX_AMOUNT"
  by (auto simp: AmountFromJson_def Let_def split: if_splits)

context ledger_view
begin

lemma mint_refines:
  assumes "inv s" "ledger_ok (view s)"
  shows "refines nm (HandleMint P nm mop) (HandleMint ledger_parser nm mop) s"
proof (cases "HandleMint ledger_parser nm mop (view s) = Some (view s) \<and> HandleMint P nm mop s = Some s")
  case True
  then show ?thesis
    using refines_ignored [OF assms(1)] by simp
next
  case False
  let ?a = "Asset nm (asString (json_get mop ''a''))"
  let ?dat = "if isMember mop ''d'' then Some (asString (json_get mop ''d'')) else None"
  obtain n where n: "AmountFromJson (json_get mop ''n'') = Some n" "l_data (view s) ?a = None"
    and eq: "HandleMint P nm mop s = mp_ProcessMint P ?a n ?dat s"
    "HandleMint ledger_parser nm mop (view s) = Some (ledger_mint ?a n ?dat (view s))"
    using False view_exists [OF assms(1)]
    by (auto simp: HandleMint_def ledger_parser_def Let_def split: if_splits option.splits)
  have range: "0 \<le> n" "n \<le> MAX_AMOUNT"
    using AmountFromJson_range [OF n(1)] by simp_all
  show ?thesis
    using view_mint [OF assms n(2) range, of ?dat] ledger_step.mint [OF n(2) range, of ?dat]
    by (auto simp: refines_def eq)
qed

lemma transfer_refines:
  assumes "inv s" "ledger_ok (view s)"
  shows "refines nm (HandleTransfer P nm mop) (HandleTransfer ledger_parser nm mop) s"
proof (cases "HandleTransfer ledger_parser nm mop (view s) = Some (view s) \<and> HandleTransfer P nm mop s = Some s")
  case True
  then show ?thesis
    using refines_ignored [OF assms(1)] by simp
next
  case False
  let ?r = "asString (json_get mop ''r'')"
  obtain a n where "Asset_FromJson (json_get mop ''a'') = Some a" "AmountFromJson (json_get mop ''n'') = Some n"
    and n: "0 < n" "n \<le> l_bal (view s) a nm"
    and eq: "HandleTransfer P nm mop s = mp_ProcessTransfer P a n nm ?r s"
    "HandleTransfer ledger_parser nm mop (view s) = Some (ledger_transfer a n nm ?r (view s))"
    using False view_balance [OF assms(1)]
    by (auto simp: HandleTransfer_def ledger_parser_def Let_def split: if_splits option.splits)
  show ?thesis
    using view_transfer [OF assms n, of ?r] ledger_step.transfer [OF n, of ?r] by (auto simp: refines_def eq)
qed

lemma burn_refines:
  assumes "inv s" "ledger_ok (view s)"
  shows "refines nm (HandleBurn P nm mop) (HandleBurn ledger_parser nm mop) s"
proof (cases "HandleBurn ledger_parser nm mop (view s) = Some (view s) \<and> HandleBurn P nm mop s = Some s")
  case True
  then show ?thesis
    using refines_ignored [OF assms(1)] by simp
next
  case False
  obtain a n where "Asset_FromJson (json_get mop ''a'') = Some a" "AmountFromJson (json_get mop ''n'') = Some n"
    and n: "0 < n" "n \<le> l_bal (view s) a nm"
    and eq: "HandleBurn P nm mop s = mp_ProcessBurn P a n nm s"
    "HandleBurn ledger_parser nm mop (view s) = Some (add_balance a nm (- n) (view s))"
    using False view_balance [OF assms(1)]
    by (auto simp: HandleBurn_def ledger_parser_def Let_def split: if_splits option.splits)
  show ?thesis
    using view_burn [OF assms n] ledger_step.burn [OF n] by (auto simp: refines_def eq)
qed

lemma operation_refines:
  assumes "inv s" "ledger_ok (view s)" "isObject mv"
  shows "refines nm (HandleOperation P nm mv) (HandleOperation ledger_parser nm mv) s"
  using mint_refines [OF assms(1,2), of nm "json_get mv ''m''"] transfer_refines [OF assms(1,2), of nm "json_get mv ''t''"]
    burn_refines [OF assms(1,2), of nm "json_get mv ''b''"] refines_ignored [OF assms(1)] assms(3)
  by (simp add: HandleOperation_def refines_def)

lemma operations_refine:
  assumes "inv s" "ledger_ok (view s)"
  shows "\<exists>s'. HandleOperations P nm mops s = Some s' \<and> inv s' \<and> ledger_ok (view s') \<and>
    HandleOperations ledger_parser nm mops (view s) = Some (view s') \<and> (ledger_step nm)\<^sup>*\<^sup>* (view s) (view s')"
  using assms
proof (induction mops arbitrary: s)
  case (Cons mop mops)
  have "refines nm (\<lambda>s. if isObject mop then HandleOperation P nm mop s else Some s)
      (\<lambda>l. if isObject mop then HandleOperation ledger_parser nm mop l else Some l) s"
    using operation_refines [OF Cons.prems] refines_ignored [OF Cons.prems(1)] by (simp add: refines_def)
  then obtain s1 where s1: "(if isObject mop then HandleOperation P nm mop s else Some s) = Some s1" "inv s1"
    "(if isObject mop then HandleOperation ledger_parser nm mop (view s) else Some (view s)) = Some (view s1)"
    "ledger_step nm (view s) (view s1)"
    by (auto simp: refines_def)
  show ?case
    using Cons.IH [OF s1(2) ledger_step_ok [OF s1(4) Cons.prems(2)]] s1
    by (auto intro: converse_rtranclp_into_rtranclp)
qed simp

lemma one_refines:
  assumes "inv s" "ledger_ok (view s)" "isObject obj" "json_get obj ''name'' = JString nm"
  shows "\<exists>s'. ProcessOne P obj s = Some s' \<and> inv s' \<and> ledger_ok (view s') \<and>
    ProcessOne ledger_parser obj (view s) = Some (view s') \<and> (ledger_step nm)\<^sup>*\<^sup>* (view s) (view s')"
proof -
  let ?mv = "json_get obj ''move''"
  have "isObject ?mv \<Longrightarrow> ?thesis"
    using operation_refines [OF assms(1,2), of ?mv nm] assms ledger_step_ok
    by (auto simp: ProcessOne_def refines_def bind_CHECK)
  moreover have "isArray ?mv \<Longrightarrow> ?thesis"
    using operations_refine [OF assms(1,2), of nm "json_array ?mv"] assms by (auto simp: ProcessOne_def bind_CHECK)
  moreover have "\<not> isObject ?mv \<Longrightarrow> \<not> isArray ?mv \<Longrightarrow> ?thesis"
    using assms by (auto simp: ProcessOne_def bind_CHECK)
  ultimately show ?thesis
    by blast
qed

end

text \<open>The shape of the moves the daemon passes on.\<close>

definition named_move :: "json \<Rightarrow> bool" where
  "named_move obj \<longleftrightarrow> isObject obj \<and> isString (json_get obj ''name'')"

text \<open>Steps of any users.\<close>

definition any_step :: "ledger \<Rightarrow> ledger \<Rightarrow> bool" where
  "any_step l l' \<longleftrightarrow> (\<exists>nm. ledger_step nm l l')"

lemma rtranclp_any_step: "(ledger_step nm)\<^sup>*\<^sup>* l l' \<Longrightarrow> any_step\<^sup>*\<^sup>* l l'"
  by (rule rtranclp_mono [THEN predicate2D, rotated]) (auto simp: any_step_def)

context ledger_view
begin

lemma moves_refine:
  assumes "inv s" "ledger_ok (view s)" "\<forall>mv \<in> set mvs. named_move mv"
  shows "\<exists>s'. ProcessMoves P mvs s = Some s' \<and> inv s' \<and> ledger_ok (view s') \<and>
    ProcessMoves ledger_parser mvs (view s) = Some (view s') \<and> any_step\<^sup>*\<^sup>* (view s) (view s')"
  using assms
proof (induction mvs arbitrary: s)
  case (Cons mv mvs)
  then obtain nm where nm: "isObject mv" "json_get mv ''name'' = JString nm"
    by (auto simp: named_move_def)
  obtain s1 where s1: "ProcessOne P mv s = Some s1" "inv s1" "ledger_ok (view s1)"
    "ProcessOne ledger_parser mv (view s) = Some (view s1)" "(ledger_step nm)\<^sup>*\<^sup>* (view s) (view s1)"
    using one_refines [OF Cons.prems(1,2) nm] by blast
  show ?case
    using Cons.IH [OF s1(2,3)] Cons.prems(3) s1 rtranclp_any_step [OF s1(5)] by (auto intro: rtranclp_trans)
qed simp

end

lemma any_steps_facts:
  assumes "any_step\<^sup>*\<^sup>* l l'" "ledger_ok l" "l_data l a = Some d"
  shows "l_data l' a = Some d \<and> total_supply l' a \<le> total_supply l a"
  using assms
proof (induction rule: converse_rtranclp_induct)
  case (step l l1)
  then obtain nm where "ledger_step nm l l1"
    by (auto simp: any_step_def)
  then show ?case
    using step ledger_step_ok ledger_step_data ledger_step_supply [of nm l l1 a] by fastforce
qed simp

subsection \<open>The database\<close>

definition view_db :: "nf_db \<Rightarrow> ledger" where
  "view_db db =
     \<lparr>l_data = map_of (tbl_assets db),
      l_bal = (\<lambda>a nm. case map_of (tbl_balances db) (nm, a) of None \<Rightarrow> 0 | Some n \<Rightarrow> n)\<rparr>"

definition inv_db :: "nf_db \<Rightarrow> bool" where
  "inv_db db \<longleftrightarrow> distinct (map fst (tbl_assets db)) \<and> distinct (map fst (tbl_balances db)) \<and>
     (\<forall>k n. map_of (tbl_balances db) k = Some n \<longrightarrow> 0 < n)"

lemma filter_key:
  "distinct (map fst xs) \<Longrightarrow> filter (\<lambda>(k, v). k = key) xs = (case map_of xs key of None \<Rightarrow> [] | Some v \<Rightarrow> [(key, v)])"
proof (induction xs)
  case (Cons x xs)
  then show ?case
    by (cases x) (auto simp: filter_empty_conv map_of_eq_None_iff rev_image_eqI split: option.splits)
qed simp

lemma GetDbBalance_view: "inv_db db \<Longrightarrow> GetDbBalance db a nm = Some (l_bal (view_db db) a nm)"
  by (auto simp: GetDbBalance_def filter_key inv_db_def view_db_def split: option.splits)

lemma Db_AssetExists_view: "inv_db db \<Longrightarrow> Db_AssetExists db a = Some (l_data (view_db db) a \<noteq> None)"
  by (auto simp: Db_AssetExists_def filter_key inv_db_def view_db_def Let_def split: option.splits)

lemma add_balance_0 [simp]: "add_balance a nm 0 l = l"
  by (simp add: add_balance_def)

lemma UpdateBalance_view:
  assumes "inv_db db" "0 \<le> l_bal (view_db db) a nm + n" "l_bal (view_db db) a nm + n \<le> MAX_AMOUNT"
  shows "\<exists>db'. UpdateBalance a nm n db = Some db' \<and> inv_db db' \<and> view_db db' = add_balance a nm n (view_db db)"
proof -
  let ?new = "l_bal (view_db db) a nm + n"
  let ?bal = "if ?new = 0 then AList.delete (nm, a) (tbl_balances db) else AList.update (nm, a) ?new (tbl_balances db)"
  let ?db = "db\<lparr>tbl_balances := ?bal\<rparr>"
  have "UpdateBalance a nm n db = Some ?db"
    using assms by (simp add: UpdateBalance_def GetDbBalance_view bind_CHECK Let_def)
  moreover have map: "map_of ?bal = (map_of (tbl_balances db))((nm, a) := if ?new = 0 then None else Some ?new)"
    by (simp add: update_conv' delete_conv')
  have "distinct (map fst ?bal)"
    using assms(1) by (simp add: inv_db_def distinct_update distinct_delete)
  then have "inv_db ?db"
    using assms(1,2) by (simp add: inv_db_def map del: map_of_eq_Some_iff)
  moreover from map have "view_db ?db = add_balance a nm n (view_db db)"
    by (auto simp: view_db_def add_balance_def fun_eq_iff)
  ultimately show ?thesis
    by blast
qed

lemma balance_range: "ledger_ok l \<Longrightarrow> 0 \<le> l_bal l a nm \<and> l_bal l a nm \<le> MAX_AMOUNT"
  using balance_le_supply(1) [of l a nm] by (auto simp: ledger_ok_def intro: order_trans)

lemma Db_mint_view:
  assumes "inv_db db" "ledger_ok (view_db db)" "l_data (view_db db) a = None" "0 \<le> n" "n \<le> MAX_AMOUNT"
  shows "\<exists>db'. Db_ProcessMint a n dat db = Some db' \<and> inv_db db' \<and> view_db db' = ledger_mint a n dat (view_db db)"
proof -
  let ?db = "db\<lparr>tbl_assets := tbl_assets db @ [(a, dat)]\<rparr>"
  have none: "map_of (tbl_assets db) a = None"
    using assms(3) by (simp add: view_db_def)
  then have "inv_db ?db"
    using assms(1) by (simp add: inv_db_def map_of_eq_None_iff)
  moreover have view: "view_db ?db = (view_db db)\<lparr>l_data := (l_data (view_db db))(a \<mapsto> dat)\<rparr>"
    using none by (auto simp: view_db_def fun_eq_iff map_add_def split: option.splits)
  moreover have "l_bal (view_db ?db) a (GetMinter a) = 0"
    using assms(2,3) by (auto simp: view ledger_ok_def owners_def)
  ultimately show ?thesis
    using none assms(4,5) UpdateBalance_view [of ?db a "GetMinter a" n]
    by (cases "n = 0") (auto simp: Db_ProcessMint_def bind_CHECK ledger_mint_def)
qed

lemma Db_burn_view:
  assumes "inv_db db" "ledger_ok (view_db db)" "0 < n" "n \<le> l_bal (view_db db) a nm"
  shows "\<exists>db'. UpdateBalance a nm (- n) db = Some db' \<and> inv_db db' \<and> view_db db' = add_balance a nm (- n) (view_db db)"
  using assms balance_range [OF assms(2), of a nm] by (intro UpdateBalance_view) auto

lemma Db_transfer_view:
  assumes "inv_db db" "ledger_ok (view_db db)" "0 < n" "n \<le> l_bal (view_db db) a x"
  shows "\<exists>db'. Db_ProcessTransfer a n x r db = Some db' \<and> inv_db db' \<and> view_db db' = ledger_transfer a n x r (view_db db)"
proof -
  obtain db1 where db1: "UpdateBalance a x (- n) db = Some db1" "inv_db db1" "view_db db1 = add_balance a x (- n) (view_db db)"
    using Db_burn_view [OF assms] by blast
  have "ledger_ok (ledger_transfer a n x r (view_db db))"
    by (rule ledger_ok_transfer [OF assms(2-4)])
  then have "0 \<le> l_bal (view_db db1) a r + n" "l_bal (view_db db1) a r + n \<le> MAX_AMOUNT"
    using balance_range [of "ledger_transfer a n x r (view_db db)" a r] db1(3)
    by (simp_all add: ledger_transfer_def add_balance_def)
  then show ?thesis
    using UpdateBalance_view [OF db1(2)] db1 by (auto simp: Db_ProcessTransfer_def ledger_transfer_def)
qed

interpretation confirmed: ledger_view MoveProcessor view_db inv_db
  by unfold_locales
    (auto simp: MoveProcessor_def GetDbBalance_view Db_AssetExists_view Db_ProcessBurn_def
      intro: Db_mint_view Db_transfer_view Db_burn_view)

subsection \<open>The pending state\<close>

definition view_pending :: "nf_db \<Rightarrow> pending_state \<Rightarrow> ledger" where
  "view_pending db st =
     \<lparr>l_data = map_of (tbl_assets db) ++ map_of (pend_assets st),
      l_bal = (\<lambda>a nm. case PendingState_GetBalance st a nm of None \<Rightarrow> l_bal (view_db db) a nm | Some n \<Rightarrow> n)\<rparr>"

lemma view_pending_empty [simp]: "view_pending db PendingState = view_db db"
  by (simp add: view_pending_def PendingState_def PendingState_GetBalance_def view_db_def)

lemma Pending_GetBalance_view: "inv_db db \<Longrightarrow> Pending_GetBalance db st a nm = Some (l_bal (view_pending db st) a nm)"
  by (simp add: Pending_GetBalance_def view_pending_def GetDbBalance_view split: option.splits)

lemma Pending_AssetExists_view: "inv_db db \<Longrightarrow> Pending_AssetExists db st a = Some (l_data (view_pending db st) a \<noteq> None)"
  using map_of_eq_None_iff [of "pend_assets st" a]
  by (cases "map_of (pend_assets st) a")
    (auto simp: Pending_AssetExists_def IsNewAsset_def Db_AssetExists_view view_pending_def view_db_def map_add_def)

lemma Pending_UpdateBalance_view:
  assumes "inv_db db"
  shows "\<exists>st'. Pending_UpdateBalance db a nm n st = Some st' \<and> view_pending db st' = add_balance a nm n (view_pending db st)"
  using assms by (auto simp: Pending_UpdateBalance_def Pending_GetBalance_view view_pending_def SetBalance_def
      PendingState_GetBalance_def update_conv' add_balance_def fun_eq_iff)

lemma Pending_mint_view:
  assumes "inv_db db" "l_data (view_pending db st) a = None" "0 \<le> n"
  shows "\<exists>st'. Pending_ProcessMint db a n dat st = Some st' \<and> view_pending db st' = ledger_mint a n dat (view_pending db st)"
proof -
  let ?st = "st\<lparr>pend_assets := (a, dat) # pend_assets st\<rparr>"
  have "map_of (pend_assets st) a = None"
    using assms(2) by (simp add: view_pending_def map_add_None)
  then have "AddAsset a dat st = Some ?st"
    by (simp add: AddAsset_def)
  moreover have "view_pending db ?st = (view_pending db st)\<lparr>l_data := (l_data (view_pending db st))(a \<mapsto> dat)\<rparr>"
    by (simp add: view_pending_def PendingState_GetBalance_def)
  ultimately show ?thesis
    using assms(3) Pending_UpdateBalance_view [OF assms(1), of a "GetMinter a" n ?st]
    by (cases "n = 0") (auto simp: Pending_ProcessMint_def ledger_mint_def)
qed

lemma Pending_transfer_view:
  assumes "inv_db db"
  shows "\<exists>st'. Pending_ProcessTransfer db a n x r st = Some st' \<and> view_pending db st' = ledger_transfer a n x r (view_pending db st)"
  using Pending_UpdateBalance_view [OF assms, of a x "- n" st] Pending_UpdateBalance_view [OF assms, of a r n]
  by (fastforce simp: Pending_ProcessTransfer_def ledger_transfer_def)

interpretation pending: ledger_view "PendingStateUpdater db" "view_pending db" "\<lambda>st. inv_db db" for db
  by unfold_locales
    (auto simp: PendingStateUpdater_def Pending_GetBalance_view Pending_AssetExists_view Pending_ProcessBurn_def
      intro: Pending_mint_view Pending_transfer_view Pending_UpdateBalance_view)

subsection \<open>Rendering\<close>

lemma sum_balances_ok:
  assumes "\<forall>(nm, v) \<in> set rows. 0 < v" "distinct (map fst rows)" "fst ` set rows \<inter> fst ` set bals = {}"
  shows "sum_balances rows bals tot = Some (tot + (\<Sum>(nm, v) \<leftarrow> rows. v), bals @ map (\<lambda>(nm, v). (nm, JInt v)) rows)"
  using assms
proof (induction rows bals tot rule: sum_balances.induct)
  case (2 nm v rows bals tot)
  then have "0 < v" "nm \<notin> fst ` set bals"
    by auto
  moreover have "sum_balances rows (bals @ [(nm, JInt v)]) (tot + v) =
      Some (tot + v + (\<Sum>(nm, v) \<leftarrow> rows. v), (bals @ [(nm, JInt v)]) @ map (\<lambda>(nm, v). (nm, JInt v)) rows)"
    using 2 by (intro 2(1)) auto
  ultimately show ?case
    by simp
qed simp

lemma asset_rows_facts:
  assumes "inv_db db"
  shows "distinct (map fst (asset_rows db a))" "\<forall>(nm, v) \<in> set (asset_rows db a). 0 < v"
    "set (asset_rows db a) = (\<lambda>nm. (nm, l_bal (view_db db) a nm)) ` owners (view_db db) a"
proof -
  have d: "distinct (map fst (tbl_balances db))" "\<And>k n. (k, n) \<in> set (tbl_balances db) \<Longrightarrow> 0 < n"
    using assms by (auto simp: inv_db_def)
  have mem: "(nm, v) \<in> set (asset_rows db a) \<longleftrightarrow> map_of (tbl_balances db) (nm, a) = Some v" for nm v
    using d(1) by (force simp: asset_rows_def)
  then show "\<forall>(nm, v) \<in> set (asset_rows db a). 0 < v"
    using assms by (auto simp: inv_db_def simp del: map_of_eq_Some_iff)
  show "set (asset_rows db a) = (\<lambda>nm. (nm, l_bal (view_db db) a nm)) ` owners (view_db db) a"
  proof (rule set_eqI, clarify)
    fix nm v
    have "map_of (tbl_balances db) (nm, a) = Some n \<Longrightarrow> n \<noteq> 0" for n
      using assms unfolding inv_db_def by fastforce
    then show "(nm, v) \<in> set (asset_rows db a) \<longleftrightarrow> (nm, v) \<in> (\<lambda>nm. (nm, l_bal (view_db db) a nm)) ` owners (view_db db) a"
      unfolding mem by (cases "map_of (tbl_balances db) (nm, a)") (auto simp: owners_def view_db_def image_iff)
  qed
  have "distinct (map fst (map (\<lambda>((nm, a'), n). (nm, n)) (filter (\<lambda>((nm, a'), n). a' = a) xs)))"
    if "distinct (map fst xs)" for xs :: "((string \<times> asset) \<times> int) list"
    using that by (induction xs) (auto simp: rev_image_eqI)
  moreover have "distinct (map fst ys) \<Longrightarrow> distinct (map fst (sort_key fst ys))" for ys :: "(string \<times> int) list"
    by (simp add: distinct_map)
  ultimately show "distinct (map fst (asset_rows db a))"
    using d(1) unfolding asset_rows_def by blast
qed

lemma GetAssetDetails_supply:
  assumes "inv_db db" "l_data (view_db db) a = Some d"
  shows "\<exists>bals. GetAssetDetails db a = Some (JObject [(''asset'', Asset_ToJson a), (''data'', data_json d),
      (''supply'', AmountToJson (total_supply (view_db db) a)), (''balances'', JObject bals)]) \<and>
    (\<forall>nm. map_of bals nm = (if nm \<in> owners (view_db db) a then Some (JInt (l_bal (view_db db) a nm)) else None))"
proof -
  let ?rows = "asset_rows db a" and ?l = "view_db db"
  let ?bals = "map (\<lambda>(nm, v). (nm, JInt v)) ?rows"
  note rows = asset_rows_facts [OF assms(1), of a]
  have "(\<Sum>(nm, v) \<leftarrow> ?rows. v) = (\<Sum>(nm, v) \<in> set ?rows. v)"
    using rows(1) by (simp add: sum_list_distinct_conv_sum_set distinct_map)
  also have "\<dots> = total_supply ?l a"
    unfolding rows(3) total_supply_def by (subst sum.reindex) (auto simp: inj_on_def)
  finally have "sum_balances ?rows [] 0 = Some (total_supply ?l a, ?bals)"
    using sum_balances_ok [OF rows(2,1), of "[]" 0] by simp
  moreover have "map_of ?bals nm = (if nm \<in> owners ?l a then Some (JInt (l_bal ?l a nm)) else None)" for nm
  proof -
    have "map_of ?rows nm = (if nm \<in> owners ?l a then Some (l_bal ?l a nm) else None)"
      using rows(1,3) by (auto simp: map_of_eq_None_iff)
    then show ?thesis
      by (simp add: map_of_map)
  qed
  moreover have "filter (\<lambda>(k, d). k = a) (tbl_assets db) = [(a, d)]"
    using assms by (simp add: filter_key inv_db_def view_db_def)
  ultimately show ?thesis
    by (auto simp: GetAssetDetails_def)
qed

subsection \<open>Properties\<close>

text \<open>C28. The database of confirmed moves implements the abstract ledger: processing a block never
  aborts, keeps the tables well-formed and every supply within bounds, and gives exactly the ledger
  that the same moves give on the abstract ledger.\<close>

theorem confirmed_refines_ledger:
  assumes "inv_db db" "ledger_ok (view_db db)" "json_get blk ''moves'' = JArray mvs" "\<forall>mv \<in> set mvs. named_move mv"
  shows "\<exists>db'. nf_UpdateState blk db = Some db' \<and> inv_db db' \<and> ledger_ok (view_db db') \<and>
    ProcessAll ledger_parser (json_get blk ''moves'') (view_db db) = Some (view_db db')"
  using confirmed.moves_refine [OF assms(1,2,4)] assms(3) by (auto simp: nf_UpdateState_def ProcessAll_def)

definition nf_example_moves :: "json list" where
  "nf_example_moves =
     [JObject [(''name'', JString ''alice''),
        (''move'', JObject [(''m'', JObject [(''a'', JString ''gold''), (''n'', JInt 10)])])],
      JObject [(''name'', JString ''alice''),
        (''move'', JArray [JObject [(''t'', JObject [(''a'', Asset_ToJson (Asset ''alice'' ''gold'')), (''n'', JInt 3),
          (''r'', JString ''bob'')])]])],
      JObject [(''name'', JString ''bob''),
        (''move'', JObject [(''b'', JObject [(''a'', Asset_ToJson (Asset ''alice'' ''gold'')), (''n'', JInt 1)])])]]"

definition nf_example_block :: json where
  "nf_example_block = JObject [(''moves'', JArray nf_example_moves)]"

lemma nf_initial: "inv_db nf_InitialiseState" "ledger_ok (view_db nf_InitialiseState)"
  by (simp_all add: inv_db_def nf_InitialiseState_def ledger_ok_def view_db_def owners_def total_supply_def MAX_AMOUNT_def)

lemma nf_example_named: "\<forall>mv \<in> set nf_example_moves. named_move mv"
  by code_simp

lemma nf_example_json: "json_get nf_example_block ''moves'' = JArray nf_example_moves"
  by (simp add: nf_example_block_def json_get_object)

theorem confirmed_refines_ledger_witness:
  "\<exists>db'. nf_UpdateState nf_example_block nf_InitialiseState = Some db' \<and> inv_db db' \<and> ledger_ok (view_db db') \<and>
    ProcessAll ledger_parser (json_get nf_example_block ''moves'') (view_db nf_InitialiseState) = Some (view_db db')"
  by (rule confirmed_refines_ledger [OF nf_initial nf_example_json nf_example_named])

text \<open>C29. The pending state predicts the confirmed one: processing moves as pending on top of a
  database shows the same assets and balances as confirming these moves, in the same order, in that
  database.\<close>

theorem pending_predicts_confirmed:
  assumes "inv_db db" "ledger_ok (view_db db)" "\<forall>mv \<in> set mvs. named_move mv"
  shows "\<exists>st db'. ProcessMoves (PendingStateUpdater db) mvs PendingState = Some st \<and>
    ProcessMoves MoveProcessor mvs db = Some db' \<and> view_pending db st = view_db db'"
proof -
  obtain st where "ProcessMoves (PendingStateUpdater db) mvs PendingState = Some st"
    "ProcessMoves ledger_parser mvs (view_db db) = Some (view_pending db st)"
    using pending.moves_refine [of db PendingState mvs] assms by auto
  moreover obtain db' where "ProcessMoves MoveProcessor mvs db = Some db'"
    "ProcessMoves ledger_parser mvs (view_db db) = Some (view_db db')"
    using confirmed.moves_refine [OF assms] by auto
  ultimately show ?thesis
    by simp
qed

theorem pending_predicts_confirmed_witness:
  "\<exists>st db'. ProcessMoves (PendingStateUpdater nf_InitialiseState) nf_example_moves PendingState = Some st \<and>
    ProcessMoves MoveProcessor nf_example_moves nf_InitialiseState = Some db' \<and>
    view_pending nf_InitialiseState st = view_db db'"
  by (rule pending_predicts_confirmed [OF nf_initial nf_example_named])

text \<open>Assets are immutable and cannot be inflated or stolen: a block never changes the data of an
  existing asset and never increases its supply, and a move of one user never decreases a balance
  of another user.\<close>

theorem assets_immutable_and_safe:
  assumes "inv_db db" "ledger_ok (view_db db)"
    and "\<forall>mv \<in> set mvs. named_move mv" "ProcessMoves MoveProcessor mvs db = Some db'"
      "l_data (view_db db) a = Some d"
    and "isObject obj" "json_get obj ''name'' = JString nm" "ProcessOne MoveProcessor obj db = Some db1" "x \<noteq> nm"
  shows "l_data (view_db db') a = Some d \<and> total_supply (view_db db') a \<le> total_supply (view_db db) a \<and>
    l_bal (view_db db) b x \<le> l_bal (view_db db1) b x"
proof -
  have "any_step\<^sup>*\<^sup>* (view_db db) (view_db db')"
    using confirmed.moves_refine [OF assms(1-3)] assms(4) by auto
  moreover have "(ledger_step nm)\<^sup>*\<^sup>* (view_db db) (view_db db1)"
    using confirmed.one_refines [OF assms(1,2,6,7)] assms(8) by auto
  then have "l_bal (view_db db) b x \<le> l_bal (view_db db1) b x"
    by (induction rule: rtranclp_induct) (auto intro: order_trans ledger_step_others [OF _ assms(9)])
  ultimately show ?thesis
    using any_steps_facts [OF _ assms(2,5)] by blast
qed

theorem assets_immutable_and_safe_witness:
  "let db = the (ProcessMoves MoveProcessor (take 2 nf_example_moves) nf_InitialiseState);
       db' = the (ProcessMoves MoveProcessor (drop 2 nf_example_moves) db);
       db1 = the (ProcessOne MoveProcessor (nf_example_moves ! 2) db);
       a = Asset ''alice'' ''gold''
   in l_data (view_db db') a = Some None \<and> total_supply (view_db db') a \<le> total_supply (view_db db) a \<and>
     l_bal (view_db db) a ''alice'' \<le> l_bal (view_db db1) a ''alice''"
  unfolding Let_def
proof (rule assets_immutable_and_safe)
  let ?db = "the (ProcessMoves MoveProcessor (take 2 nf_example_moves) nf_InitialiseState)"
  have "\<forall>mv \<in> set (take 2 nf_example_moves). named_move mv"
    by code_simp
  then show "inv_db ?db" "ledger_ok (view_db ?db)"
    using confirmed.moves_refine [OF nf_initial, of "take 2 nf_example_moves"] by auto
  have "ProcessMoves MoveProcessor (drop 2 nf_example_moves) ?db \<noteq> None"
    "ProcessOne MoveProcessor (nf_example_moves ! 2) ?db \<noteq> None"
    by code_simp+
  then show "ProcessMoves MoveProcessor (drop 2 nf_example_moves) ?db
      = Some (the (ProcessMoves MoveProcessor (drop 2 nf_example_moves) ?db))"
    "ProcessOne MoveProcessor (nf_example_moves ! 2) ?db = Some (the (ProcessOne MoveProcessor (nf_example_moves ! 2) ?db))"
    by auto
  show "\<forall>mv \<in> set (drop 2 nf_example_moves). named_move mv"
    "l_data (view_db ?db) (Asset ''alice'' ''gold'') = Some None"
    "isObject (nf_example_moves ! 2)" "json_get (nf_example_moves ! 2) ''name'' = JString ''bob''"
    "''alice'' \<noteq> ''bob''"
    by code_simp+
qed

text \<open>The state reported as JSON is the ledger: for an existing asset, the details give its data,
  its total supply, and the balances of exactly those who own some of it; extracting them never
  aborts on a well-formed database.\<close>

theorem GetAssetDetails_reports_ledger:
  assumes "inv_db db" "l_data (view_db db) a = Some d"
  shows "\<exists>bals. GetAssetDetails db a = Some (JObject [(''asset'', Asset_ToJson a), (''data'', data_json d),
      (''supply'', AmountToJson (total_supply (view_db db) a)), (''balances'', JObject bals)]) \<and>
    (\<forall>nm. map_of bals nm = (if nm \<in> owners (view_db db) a then Some (JInt (l_bal (view_db db) a nm)) else None))"
  by (rule GetAssetDetails_supply [OF assms])

theorem GetAssetDetails_reports_ledger_witness:
  "let db = \<lparr>tbl_assets = [(Asset ''alice'' ''gold'', None)], tbl_balances = [((''bob'', Asset ''alice'' ''gold''), 2)]\<rparr>;
       a = Asset ''alice'' ''gold''
   in \<exists>bals. GetAssetDetails db a = Some (JObject [(''asset'', Asset_ToJson a), (''data'', data_json None),
      (''supply'', AmountToJson (total_supply (view_db db) a)), (''balances'', JObject bals)]) \<and>
    (\<forall>nm. map_of bals nm = (if nm \<in> owners (view_db db) a then Some (JInt (l_bal (view_db db) a nm)) else None))"
  unfolding Let_def by (rule GetAssetDetails_reports_ledger) (auto simp: inv_db_def view_db_def split: if_splits)

end
