(* ===== verification/Mover.thy ===== *)
theory Mover
  imports Game_Logic "HOL-Library.AList"
begin

text \<open>
  The Mover example game (\<open>src/mover\<close>): parsing of moves, processing of a block forwards with undo
  data and backwards, the JSON of the state and the pending moves.

  The state is the parsed protocol buffer: an association list from names to players, whose optional
  fields are options (an unset field reads as zero or \<open>NONE\<close>).  Coordinates are 32-bit words,
  so that addition wraps.  The protobuf map has no order; where the code iterates over it, players
  are treated one by one and independently of each other.

  The lemmas show that processing backwards undoes processing forwards.
\<close>

subsection \<open>Moves\<close>

datatype mover_direction =
  NONE | RIGHT | LEFT | UP | DOWN | RIGHT_UP | RIGHT_DOWN | LEFT_UP | LEFT_DOWN

definition GetDirectionOffset :: "mover_direction \<Rightarrow> (uint32 \<times> uint32) run" where
  "GetDirectionOffset dir =
     (case dir of
        RIGHT \<Rightarrow> Some (1, 0) | LEFT \<Rightarrow> Some (- 1, 0) | UP \<Rightarrow> Some (0, 1) | DOWN \<Rightarrow> Some (0, - 1)
      | RIGHT_UP \<Rightarrow> Some (1, 1) | RIGHT_DOWN \<Rightarrow> Some (1, - 1)
      | LEFT_UP \<Rightarrow> Some (- 1, 1) | LEFT_DOWN \<Rightarrow> Some (- 1, - 1)
      | NONE \<Rightarrow> LOG_FATAL)"

definition DirectionToString :: "mover_direction \<Rightarrow> string" where
  "DirectionToString dir =
     (case dir of
        NONE \<Rightarrow> ''none'' | RIGHT \<Rightarrow> ''right'' | LEFT \<Rightarrow> ''left'' | UP \<Rightarrow> ''up'' | DOWN \<Rightarrow> ''down''
      | RIGHT_UP \<Rightarrow> ''right-up'' | RIGHT_DOWN \<Rightarrow> ''right-down''
      | LEFT_UP \<Rightarrow> ''left-up'' | LEFT_DOWN \<Rightarrow> ''left-down'')"

definition ParseDirection :: "string \<Rightarrow> mover_direction" where
  "ParseDirection str =
     (if str = ''l'' then RIGHT else if str = ''h'' then LEFT
      else if str = ''k'' then UP else if str = ''j'' then DOWN
      else if str = ''u'' then RIGHT_UP else if str = ''n'' then RIGHT_DOWN
      else if str = ''y'' then LEFT_UP else if str = ''b'' then LEFT_DOWN else NONE)"

definition ParseMove :: "json \<Rightarrow> (mover_direction \<times> uint32) option" where
  "ParseMove obj =
     (if \<not> isObject obj then None
      else if json_size obj \<noteq> 2 then None
      else if \<not> isMember obj ''d'' \<or> \<not> isMember obj ''n'' then None
      else
        let d = json_get obj ''d''; n = json_get obj ''n'' in
        if \<not> isString d \<or> \<not> isUInt n then None
        else
          let dir = ParseDirection (asString d); steps = asUInt n in
          if dir = NONE then None
          else if steps \<le> 0 \<or> steps > 1000000 then None
          else Some (dir, steps))"

subsection \<open>The state\<close>

record player_state =
  p_x :: "uint32 option"
  p_y :: "uint32 option"
  p_dir :: "mover_direction option"
  p_steps_left :: "uint32 option"

record player_undo =
  u_is_new :: "bool option"
  u_previous_dir :: "mover_direction option"
  u_previous_steps_left :: "uint32 option"
  u_finished_dir :: "mover_direction option"

type_synonym players = "(string \<times> player_state) list"
type_synonym undo_data = "(string \<times> player_undo) list"

definition word_field :: "uint32 option \<Rightarrow> uint32" where
  "word_field f = (case f of None \<Rightarrow> 0 | Some w \<Rightarrow> w)"

definition dir_field :: "mover_direction option \<Rightarrow> mover_direction" where
  "dir_field f = (case f of None \<Rightarrow> NONE | Some d \<Rightarrow> d)"

definition empty_player :: player_state where
  "empty_player = \<lparr>p_x = None, p_y = None, p_dir = None, p_steps_left = None\<rparr>"

definition empty_undo :: player_undo where
  "empty_undo = \<lparr>u_is_new = None, u_previous_dir = None, u_previous_steps_left = None, u_finished_dir = None\<rparr>"

text \<open>The entry of a protobuf map, created when it is not there (the index operator).\<close>

definition undo_entry :: "string \<Rightarrow> undo_data \<Rightarrow> player_undo" where
  "undo_entry nm undo = (case map_of undo nm of None \<Rightarrow> empty_undo | Some u \<Rightarrow> u)"

definition Mover_GetInitialStateInternal :: "processor_context \<Rightarrow> (players \<times> uint32 \<times> string) run" where
  "Mover_GetInitialStateInternal pc =
     do {
       chain \<leftarrow> GetChain pc;
       (case chain of
          MAIN \<Rightarrow> Some ([], 125000, ''2aed5640a3be8a2f32cdea68c3d72d7196a7efbfe2cbace34435a3eef97561f2'')
        | TEST \<Rightarrow> Some ([], 10000, ''73d771be03c37872bc8ccd92b8acb8d7aa3ac0323195006fb3d3476784981a37'')
        | REGTEST \<Rightarrow> Some ([], 0, ''6f750b36d22f1dc3d0a6e483af45301022646dfc3b3ba2187865f5a7d6d83ab1'')
        | _ \<Rightarrow> LOG_FATAL)
     }"

subsection \<open>Forwards\<close>

definition apply_move :: "json \<Rightarrow> players \<times> undo_data \<Rightarrow> players \<times> undo_data" where
  "apply_move m st =
     (let nm = asString (json_get m ''name''); (state, undo) = st in
      case ParseMove (json_get m ''move'') of
        None \<Rightarrow> (state, undo)
      | Some (dir, steps) \<Rightarrow>
          (case map_of state nm of
             None \<Rightarrow>
               (AList.update nm (empty_player\<lparr>p_x := Some 0, p_y := Some 0, p_dir := Some dir, p_steps_left := Some steps\<rparr>) state,
                AList.update nm ((undo_entry nm undo)\<lparr>u_is_new := Some True\<rparr>) undo)
           | Some p \<Rightarrow>
               (AList.update nm (p\<lparr>p_dir := Some dir, p_steps_left := Some steps\<rparr>) state,
                AList.update nm ((undo_entry nm undo)\<lparr>u_previous_dir := Some (dir_field (p_dir p)),
                  u_previous_steps_left := Some (word_field (p_steps_left p))\<rparr>) undo)))"

definition step_player :: "string \<Rightarrow> player_state \<Rightarrow> undo_data \<Rightarrow> (player_state \<times> undo_data) run" where
  "step_player nm p undo =
     (if dir_field (p_dir p) = NONE then Some (p, undo)
      else do {
        CHECK (word_field (p_steps_left p) > 0);
        (dx, dy) \<leftarrow> GetDirectionOffset (dir_field (p_dir p));
        let p = p\<lparr>p_x := Some (word_field (p_x p) + dx), p_y := Some (word_field (p_y p) + dy)\<rparr>;
        let p = p\<lparr>p_steps_left := Some (word_field (p_steps_left p) - 1)\<rparr>;
        Some (if word_field (p_steps_left p) = 0
          then (p\<lparr>p_dir := Some NONE\<rparr>,
            AList.update nm ((undo_entry nm undo)\<lparr>u_finished_dir := Some (dir_field (p_dir p))\<rparr>) undo)
          else (p, undo))
      })"

fun step_players :: "players \<Rightarrow> undo_data \<Rightarrow> (players \<times> undo_data) run" where
  "step_players [] undo = Some ([], undo)"
| "step_players ((nm, p) # ps) undo =
     do {
       (p, undo) \<leftarrow> step_player nm p undo;
       (ps, undo) \<leftarrow> step_players ps undo;
       Some ((nm, p) # ps, undo)
     }"

definition ProcessForwardInternal :: "players \<Rightarrow> json \<Rightarrow> (players \<times> undo_data) run" where
  "ProcessForwardInternal oldState blockData =
     (let (state, undo) = fold apply_move (json_array (json_get blockData ''moves'')) (oldState, [])
      in step_players state undo)"

subsection \<open>Backwards\<close>

definition unstep_player :: "player_undo option \<Rightarrow> player_state \<Rightarrow> player_state run" where
  "unstep_player u p =
     do {
       p \<leftarrow> (case Option.bind u u_finished_dir of
              None \<Rightarrow> Some p
            | Some d \<Rightarrow>
                do {
                  CHECK (dir_field (p_dir p) = NONE \<and> word_field (p_steps_left p) = 0);
                  Some (p\<lparr>p_dir := Some d\<rparr>)
                });
       p \<leftarrow> (if dir_field (p_dir p) \<noteq> NONE then
               do {
                 let p = p\<lparr>p_steps_left := Some (word_field (p_steps_left p) + 1)\<rparr>;
                 (dx, dy) \<leftarrow> GetDirectionOffset (dir_field (p_dir p));
                 Some (p\<lparr>p_x := Some (word_field (p_x p) - dx), p_y := Some (word_field (p_y p) - dy)\<rparr>)
               }
             else Some p);
       let p = (case Option.bind u u_previous_dir of None \<Rightarrow> p | Some d \<Rightarrow> p\<lparr>p_dir := Some d\<rparr>);
       Some (case Option.bind u u_previous_steps_left of None \<Rightarrow> p | Some n \<Rightarrow> p\<lparr>p_steps_left := Some n\<rparr>)
     }"

fun unstep_players :: "undo_data \<Rightarrow> players \<Rightarrow> (players \<times> string set) run" where
  "unstep_players undo [] = Some ([], {})"
| "unstep_players undo ((nm, p) # ps) =
     (if Option.bind (map_of undo nm) u_is_new = Some True then
        do {
          (ps, removed) \<leftarrow> unstep_players undo ps;
          Some ((nm, p) # ps, insert nm removed)
        }
      else do {
        p \<leftarrow> unstep_player (map_of undo nm) p;
        (ps, removed) \<leftarrow> unstep_players undo ps;
        Some ((nm, p) # ps, removed)
      })"

definition ProcessBackwardsInternal :: "players \<Rightarrow> undo_data \<Rightarrow> players run" where
  "ProcessBackwardsInternal newState undo =
     do {
       (state, playersToRemove) \<leftarrow> unstep_players undo newState;
       Some (filter (\<lambda>(nm, p). nm \<notin> playersToRemove) state)
     }"

subsection \<open>JSON and pending moves\<close>

definition player_json :: "player_state \<Rightarrow> json" where
  "player_json p =
     JObject ([(''x'', JInt (sint (word_field (p_x p)))), (''y'', JInt (sint (word_field (p_y p))))] @
       (if dir_field (p_dir p) \<noteq> NONE
        then [(''dir'', JString (DirectionToString (dir_field (p_dir p)))),
              (''steps'', JInt (sint (word_field (p_steps_left p))))]
        else []))"

definition GameStateToJson :: "players \<Rightarrow> json" where
  "GameStateToJson state = JObject [(''players'', JObject (map (\<lambda>(nm, p). (nm, player_json p)) state))]"

definition AddPendingMoveInternal :: "players \<Rightarrow> json \<Rightarrow> (string \<times> json) list \<Rightarrow> (string \<times> json) list run" where
  "AddPendingMoveInternal state mv pending =
     (let nm = asString (json_get mv ''name'') in
      case ParseMove (json_get mv ''move'') of
        None \<Rightarrow> Some pending
      | Some (dir, steps) \<Rightarrow>
          do {
            let (x, y) = (case map_of state nm of None \<Rightarrow> (0, 0) | Some p \<Rightarrow> (word_field (p_x p), word_field (p_y p)));
            (dx, dy) \<leftarrow> GetDirectionOffset dir;
            let target = JObject [(''x'', JInt (sint (x + steps * dx))), (''y'', JInt (sint (y + steps * dy)))];
            let playerState = JObject [(''dir'', JString (DirectionToString dir)), (''steps'', JInt (sint steps)), (''target'', target)];
            Some (AList.update nm playerState pending)
          })"

end
