(* ===== verification/Mover_Undo.thy ===== *)
theory Mover_Undo
  imports Mover
begin

text \<open>
  Processing a block backwards undoes processing it forwards (\<open>ProcessBackwardsInternal\<close> and
  \<open>ProcessForwardInternal\<close> of \<open>src/mover/logic.cpp\<close>), as long as no player who is already on
  the map moves twice in the block; with two moves it does not.
\<close>

subsection \<open>Well-formed states\<close>

definition wf_player :: "player_state \<Rightarrow> bool" where
  "wf_player p \<longleftrightarrow> p_x p \<noteq> None \<and> p_y p \<noteq> None \<and>
     (\<exists>d n. p_dir p = Some d \<and> p_steps_left p = Some n \<and> (d = NONE \<longleftrightarrow> n = 0))"

definition wf_players :: "players \<Rightarrow> bool" where
  "wf_players ps \<longleftrightarrow> distinct (map fst ps) \<and> list_all (\<lambda>(nm, p). wf_player p) ps"

lemma wf_players_lookup: "wf_players ps \<Longrightarrow> map_of ps nm = Some p \<Longrightarrow> wf_player p"
  by (auto simp: wf_players_def list_all_iff dest: map_of_SomeD)

text \<open>The players and the undo data after the moves of a block, for one name.\<close>

inductive moved :: "player_state option \<Rightarrow> player_state option \<Rightarrow> player_undo option \<Rightarrow> bool" where
  absent: "moved None None None"
| kept: "wf_player p \<Longrightarrow> moved (Some p) (Some p) None"
| turned: "wf_player p \<Longrightarrow> d \<noteq> NONE \<Longrightarrow> n \<noteq> 0 \<Longrightarrow>
    moved (Some p) (Some (p\<lparr>p_dir := Some d, p_steps_left := Some n\<rparr>))
      (Some (empty_undo\<lparr>u_previous_dir := Some (dir_field (p_dir p)),
        u_previous_steps_left := Some (word_field (p_steps_left p))\<rparr>))"
| fresh: "wf_player q \<Longrightarrow> u_is_new u = Some True \<Longrightarrow> moved None (Some q) (Some u)"

inductive_simps moved_simps: "moved a b c"
inductive_cases moved_SomeE: "moved (Some p) q u"
inductive_cases moved_NoneE: "moved None q u"

lemma moved_wf: "moved a (Some q) u \<Longrightarrow> wf_player q"
  by (erule moved.cases) (auto simp: wf_player_def)

lemma ParseMove_valid: "ParseMove obj = Some (d, n) \<Longrightarrow> d \<noteq> NONE \<and> n \<noteq> 0"
  by (auto simp: ParseMove_def Let_def split: if_splits)

definition move_name :: "json \<Rightarrow> string" where
  "move_name m = asString (json_get m ''name'')"

definition valid_move :: "json \<Rightarrow> bool" where
  "valid_move m \<longleftrightarrow> ParseMove (json_get m ''move'') \<noteq> None"

definition after_moves :: "players \<Rightarrow> string set \<Rightarrow> players \<times> undo_data \<Rightarrow> bool" where
  "after_moves ps done st \<longleftrightarrow>
     (\<exists>news. distinct (map fst (fst st)) \<and> map fst (fst st) = map fst ps @ news) \<and>
     (\<forall>nm. moved (map_of ps nm) (map_of (fst st) nm) (map_of (snd st) nm)) \<and>
     (\<forall>nm. map_of ps nm \<noteq> None \<longrightarrow> nm \<notin> done \<longrightarrow> map_of (snd st) nm = None)"

lemma after_moves_init: "wf_players ps \<Longrightarrow> after_moves ps {} (ps, [])"
proof -
  assume wf: "wf_players ps"
  have "moved (map_of ps nm) (map_of ps nm) None" for nm
    using wf_players_lookup [OF wf] by (cases "map_of ps nm") (auto intro: moved.absent moved.kept)
  then show ?thesis
    using wf by (simp add: after_moves_def wf_players_def)
qed

lemma keys_update_old: "nm \<in> fst ` set xs \<Longrightarrow> map fst (AList.update nm v xs) = map fst xs"
  and keys_update_new: "nm \<notin> fst ` set xs \<Longrightarrow> map fst (AList.update nm v xs) = map fst xs @ [nm]"
  by (simp_all add: update_keys)

lemma after_moves_step:
  assumes st: "after_moves ps dn (qs, u)"
    and once: "valid_move m \<Longrightarrow> map_of ps (move_name m) \<noteq> None \<Longrightarrow> move_name m \<notin> dn"
  shows "after_moves ps (if valid_move m then insert (move_name m) dn else dn) (apply_move m (qs, u))"
proof (cases "ParseMove (json_get m ''move'')")
  case None
  then show ?thesis
    using st by (simp add: apply_move_def valid_move_def)
next
  case (Some dn2)
  obtain d n where dn2: "dn2 = (d, n)"
    by (cases dn2)
  have dn: "d \<noteq> NONE" "n \<noteq> 0"
    using ParseMove_valid Some dn2 by blast+
  let ?nm = "move_name m"
  have valid: "valid_move m"
    using Some by (simp add: valid_move_def)
  obtain news where keys: "distinct (map fst qs)" "map fst qs = map fst ps @ news"
    using st by (auto simp: after_moves_def)
  have rel: "moved (map_of ps nm) (map_of qs nm) (map_of u nm)" for nm
    using st by (simp add: after_moves_def)
  have later: "map_of ps nm \<noteq> None \<Longrightarrow> nm \<notin> dn \<Longrightarrow> map_of u nm = None" for nm
    using st by (simp add: after_moves_def)
  obtain q v where app: "apply_move m (qs, u) = (AList.update ?nm q qs, AList.update ?nm v u)"
    and new: "moved (map_of ps ?nm) (Some q) (Some v)"
  proof (cases "map_of qs ?nm")
    case None
    then have "map_of ps ?nm = None" "map_of u ?nm = None"
      using rel [of ?nm] by (auto elim: moved.cases)
    let ?q = "empty_player\<lparr>p_x := Some 0, p_y := Some 0, p_dir := Some d, p_steps_left := Some n\<rparr>"
    let ?v = "(undo_entry ?nm u)\<lparr>u_is_new := Some True\<rparr>"
    have "moved (map_of ps ?nm) (Some ?q) (Some ?v)"
      using \<open>map_of ps ?nm = None\<close> dn by (auto simp: wf_player_def intro!: moved.fresh)
    moreover have "apply_move m (qs, u) = (AList.update ?nm ?q qs, AList.update ?nm ?v u)"
      using None Some dn2 by (simp add: apply_move_def move_name_def Let_def)
    ultimately show thesis
      using that by blast
  next
    case (Some p)
    let ?q = "p\<lparr>p_dir := Some d, p_steps_left := Some n\<rparr>"
    let ?v = "(undo_entry ?nm u)\<lparr>u_previous_dir := Some (dir_field (p_dir p)),
        u_previous_steps_left := Some (word_field (p_steps_left p))\<rparr>"
    have "moved (map_of ps ?nm) (Some ?q) (Some ?v)"
    proof (cases "map_of ps ?nm")
      case None
      then obtain w where "wf_player p" "map_of u ?nm = Some w" "u_is_new w = Some True"
        using rel [of ?nm] Some by (auto elim: moved.cases)
      then show ?thesis
        using None dn by (auto simp: undo_entry_def wf_player_def intro!: moved.fresh)
    next
      case (Some p0)
      then have "map_of u ?nm = None"
        using later once valid by simp
      then have "p0 = p" "wf_player p"
        using rel [of ?nm] \<open>map_of qs ?nm = Some p\<close> Some by (auto elim: moved.cases)
      then show ?thesis
        using Some dn \<open>map_of u ?nm = None\<close> moved.turned [of p d n] by (simp add: undo_entry_def)
    qed
    then show thesis
      using that [of ?q ?v] Some dn2 \<open>ParseMove (json_get m ''move'') = Some dn2\<close>
      by (simp add: apply_move_def move_name_def Let_def)
  qed
  have "\<exists>news. distinct (map fst (AList.update ?nm q qs)) \<and> map fst (AList.update ?nm q qs) = map fst ps @ news"
  proof (cases "?nm \<in> fst ` set qs")
    case False
    moreover have "fst ` set qs = fst ` set ps \<union> set news"
      using arg_cong [OF keys(2), of set] by (simp only: set_map set_append)
    ultimately show ?thesis
      using keys by (simp add: keys_update_new)
  qed (use keys in \<open>simp add: keys_update_old\<close>)
  then show ?thesis
    using new rel later valid by (auto simp: after_moves_def app update_conv')
qed

definition one_move_each :: "players \<Rightarrow> json list \<Rightarrow> bool" where
  "one_move_each ps ms \<longleftrightarrow> distinct (filter (\<lambda>nm. map_of ps nm \<noteq> None) (map move_name (filter valid_move ms)))"

lemma after_all_moves:
  assumes "after_moves ps dn st" "one_move_each ps ms" "\<forall>m\<in>set ms. valid_move m \<longrightarrow> map_of ps (move_name m) \<noteq> None \<longrightarrow> move_name m \<notin> dn"
  shows "\<exists>dn'. after_moves ps dn' (fold apply_move ms st)"
  using assms
proof (induction ms arbitrary: dn st)
  case (Cons m ms)
  obtain qs u where st: "st = (qs, u)"
    by (cases st)
  let ?dn = "if valid_move m then insert (move_name m) dn else dn"
  have "after_moves ps ?dn (apply_move m st)"
    using after_moves_step [of ps dn qs u m] Cons.prems st by simp
  moreover have "one_move_each ps ms"
    using Cons.prems(2) by (auto simp: one_move_each_def split: if_splits)
  moreover have "\<forall>x\<in>set ms. valid_move x \<longrightarrow> map_of ps (move_name x) \<noteq> None \<longrightarrow> move_name x \<notin> ?dn"
  proof (intro ballI impI notI)
    fix x
    assume x: "x \<in> set ms" "valid_move x" "map_of ps (move_name x) \<noteq> None" "move_name x \<in> ?dn"
    then have "valid_move m" "move_name x = move_name m"
      using Cons.prems(3) by (auto split: if_splits)
    moreover have "move_name x \<in> set (filter (\<lambda>nm. map_of ps nm \<noteq> None) (map move_name (filter valid_move ms)))"
      using x by auto
    ultimately show False
      using Cons.prems(2) x(3) by (auto simp: one_move_each_def)
  qed
  ultimately show ?case
    using Cons.IH [of ?dn "apply_move m st"] by simp
qed auto

subsection \<open>One step of the players\<close>

definition offset :: "mover_direction \<Rightarrow> uint32 \<times> uint32" where
  "offset d = (case GetDirectionOffset d of None \<Rightarrow> (0, 0) | Some xy \<Rightarrow> xy)"

lemma offset_eq: "d \<noteq> NONE \<Longrightarrow> GetDirectionOffset d = Some (offset d)"
  by (cases d) (simp_all add: offset_def GetDirectionOffset_def)

definition stepped :: "player_state \<Rightarrow> player_state" where
  "stepped p =
     (let d = dir_field (p_dir p) in
      if d = NONE then p
      else p\<lparr>p_x := Some (word_field (p_x p) + fst (offset d)), p_y := Some (word_field (p_y p) + snd (offset d)),
        p_dir := Some (if word_field (p_steps_left p) = 1 then NONE else d),
        p_steps_left := Some (word_field (p_steps_left p) - 1)\<rparr>)"

definition step_undo :: "player_state \<Rightarrow> player_undo option \<Rightarrow> player_undo option" where
  "step_undo p u =
     (if dir_field (p_dir p) \<noteq> NONE \<and> word_field (p_steps_left p) = 1
      then Some ((case u of None \<Rightarrow> empty_undo | Some u \<Rightarrow> u)\<lparr>u_finished_dir := Some (dir_field (p_dir p))\<rparr>)
      else u)"

lemma wf_stepped: "wf_player p \<Longrightarrow> wf_player (stepped p)"
  by (auto simp: wf_player_def stepped_def dir_field_def word_field_def Let_def)

lemma step_player_eq:
  assumes "wf_player p"
  shows "\<exists>undo'. step_player nm p undo = Some (stepped p, undo') \<and>
    map_of undo' = (map_of undo)(nm := step_undo p (map_of undo nm))"
proof -
  obtain x y d n where p: "p = \<lparr>p_x = Some x, p_y = Some y, p_dir = Some d, p_steps_left = Some n\<rparr>"
    and dn: "d = NONE \<longleftrightarrow> n = 0"
    using assms by (cases p) (auto simp: wf_player_def)
  show ?thesis
  proof (cases "d = NONE")
    case True
    then show ?thesis
      by (simp add: p step_player_def stepped_def step_undo_def dir_field_def)
  next
    case False
    then have "0 < n" "n - 1 = 0 \<longleftrightarrow> n = 1"
      using dn by (simp_all add: word_neq_0_conv)
    then show ?thesis
      using False offset_eq [OF False]
      by (cases "offset d")
        (simp add: p step_player_def stepped_def step_undo_def dir_field_def word_field_def bind_CHECK Let_def
          undo_entry_def update_conv')
  qed
qed

lemma step_players_eq:
  assumes "distinct (map fst qs)" "\<forall>(nm, q)\<in>set qs. wf_player q"
  shows "\<exists>undo'. step_players qs undo = Some (map (\<lambda>(nm, q). (nm, stepped q)) qs, undo') \<and>
    (\<forall>nm. map_of undo' nm = (case map_of qs nm of None \<Rightarrow> map_of undo nm | Some q \<Rightarrow> step_undo q (map_of undo nm)))"
  using assms
proof (induction qs arbitrary: undo)
  case (Cons x qs)
  obtain nm q where x: "x = (nm, q)"
    by (cases x)
  obtain undo1 where u1: "step_player nm q undo = Some (stepped q, undo1)"
    "map_of undo1 = (map_of undo)(nm := step_undo q (map_of undo nm))"
    using step_player_eq Cons.prems(2) x by fastforce
  obtain undo2 where u2: "step_players qs undo1 = Some (map (\<lambda>(nm, q). (nm, stepped q)) qs, undo2)"
    "\<forall>nm. map_of undo2 nm = (case map_of qs nm of None \<Rightarrow> map_of undo1 nm | Some q \<Rightarrow> step_undo q (map_of undo1 nm))"
    using Cons.IH [of undo1] Cons.prems by auto
  have "map_of qs nm = None"
    using Cons.prems(1) x by (simp add: map_of_eq_None_iff)
  then have "\<forall>k. map_of undo2 k = (case map_of (x # qs) k of None \<Rightarrow> map_of undo k | Some q \<Rightarrow> step_undo q (map_of undo k))"
    using u1(2) u2(2) x by (auto split: option.splits)
  then show ?case
    using u1(1) u2(1) x by simp
qed simp

subsection \<open>And back\<close>

lemma unstep_stepped:
  assumes "moved (Some p) (Some q) u"
  shows "unstep_player (step_undo q u) (stepped q) = Some p" "Option.bind (step_undo q u) u_is_new \<noteq> Some True"
proof -
  obtain x y d0 n0 where p: "p = \<lparr>p_x = Some x, p_y = Some y, p_dir = Some d0, p_steps_left = Some n0\<rparr>"
    and dn: "d0 = NONE \<longleftrightarrow> n0 = 0"
    using assms by (cases p) (auto simp: wf_player_def elim!: moved_SomeE)
  obtain dx dy where o0: "offset d0 = (dx, dy)"
    by (cases "offset d0")
  from assms consider (kept) "q = p" "u = None"
    | (turned) d n where "d \<noteq> NONE" "n \<noteq> 0" "q = p\<lparr>p_dir := Some d, p_steps_left := Some n\<rparr>"
      "u = Some (empty_undo\<lparr>u_previous_dir := Some d0, u_previous_steps_left := Some n0\<rparr>)"
    using p by (auto simp: dir_field_def word_field_def elim!: moved_SomeE)
  then show "unstep_player (step_undo q u) (stepped q) = Some p"
  proof cases
    case kept
    then show ?thesis
      using dn offset_eq [of d0] o0
      by (auto simp: p unstep_player_def step_undo_def stepped_def dir_field_def word_field_def bind_CHECK Let_def empty_undo_def)
  next
    case turned
    then show ?thesis
      using dn offset_eq [of d]
      by (cases "offset d")
        (auto simp: p unstep_player_def step_undo_def stepped_def dir_field_def word_field_def bind_CHECK Let_def empty_undo_def)
  qed
  show "Option.bind (step_undo q u) u_is_new \<noteq> Some True"
    using assms by (auto simp: step_undo_def empty_undo_def elim!: moved_SomeE split: option.splits)
qed

lemma unstep_players_eq:
  assumes "\<forall>(nm, q)\<in>set qs. Option.bind (map_of undo nm) u_is_new = Some True \<or> unstep_player (map_of undo nm) q = Some (g nm)"
  shows "unstep_players undo qs =
    Some (map (\<lambda>(nm, q). (nm, if Option.bind (map_of undo nm) u_is_new = Some True then q else g nm)) qs,
      {nm \<in> fst ` set qs. Option.bind (map_of undo nm) u_is_new = Some True})"
  using assms
proof (induction undo qs rule: unstep_players.induct)
  case (2 undo nm p ps)
  then show ?case
    by (cases "Option.bind (map_of undo nm) u_is_new = Some True") auto
qed simp

lemma alist_rebuild: "distinct (map fst ps) \<Longrightarrow> map (\<lambda>nm. (nm, the (map_of ps nm))) (map fst ps) = ps"
  by (induction ps) (auto simp: image_iff intro!: map_idI)

lemma filter_removed:
  assumes "\<forall>(nm, q)\<in>set qs. nm \<in> R \<longleftrightarrow> new nm"
  shows "filter (\<lambda>(nm, p). nm \<notin> R) (map (\<lambda>(nm, q). (nm, if new nm then q else g nm)) qs)
    = map (\<lambda>nm. (nm, g nm)) (filter (\<lambda>nm. \<not> new nm) (map fst qs))"
  using assms by (induction qs) auto

lemma forward_backward:
  assumes wf: "wf_players ps" and once: "one_move_each ps (json_array (json_get blk ''moves''))"
  shows "\<exists>ps' undo. ProcessForwardInternal ps blk = Some (ps', undo) \<and> wf_players ps' \<and>
    ProcessBackwardsInternal ps' undo = Some ps"
proof -
  obtain qs u where fold: "fold apply_move (json_array (json_get blk ''moves'')) (ps, []) = (qs, u)"
    by (cases "fold apply_move (json_array (json_get blk ''moves'')) (ps, [])")
  obtain dn where "after_moves ps dn (qs, u)"
    using after_all_moves [OF after_moves_init [OF wf] once] fold by auto
  then obtain news where keys: "distinct (map fst qs)" "map fst qs = map fst ps @ news"
    and rel: "\<And>nm. moved (map_of ps nm) (map_of qs nm) (map_of u nm)"
    by (auto simp: after_moves_def)
  have wfq: "\<forall>(nm, q)\<in>set qs. wf_player q"
    using moved_wf rel keys(1) by (metis (mono_tags, lifting) case_prodI2 map_of_is_SomeI)
  obtain undo where fwd: "step_players qs u = Some (map (\<lambda>(nm, q). (nm, stepped q)) qs, undo)"
    "\<And>nm. map_of undo nm = (case map_of qs nm of None \<Rightarrow> map_of u nm | Some q \<Rightarrow> step_undo q (map_of u nm))"
    using step_players_eq [OF keys(1) wfq, of u] by blast
  let ?qs = "map (\<lambda>(nm, q). (nm, stepped q)) qs"
  let ?new = "\<lambda>nm. Option.bind (map_of undo nm) u_is_new = Some True"
  have fates: "?new nm \<longleftrightarrow> map_of ps nm = None"
      "map_of ps nm = Some p \<Longrightarrow> unstep_player (map_of undo nm) (stepped q) = Some p"
    if mem: "(nm, q) \<in> set qs" for nm q p
  proof -
    have q: "map_of qs nm = Some q"
      using mem keys(1) by simp
    show "map_of ps nm = Some p \<Longrightarrow> unstep_player (map_of undo nm) (stepped q) = Some p"
      using rel [of nm] q unstep_stepped(1) [of p q] by (simp add: fwd(2))
    show "?new nm \<longleftrightarrow> map_of ps nm = None"
    proof (cases "map_of ps nm")
      case None
      then obtain w where "map_of u nm = Some w" "u_is_new w = Some True"
        using rel [of nm] q by (auto elim!: moved_NoneE)
      then show ?thesis
        using None q by (simp add: fwd(2) step_undo_def)
    next
      case (Some p)
      then show ?thesis
        using unstep_stepped(2) [of p q "map_of u nm"] rel [of nm] q by (simp add: fwd(2))
    qed
  qed
  have "?new nm \<or> unstep_player (map_of undo nm) (stepped q) = Some (the (map_of ps nm))" if "(nm, q) \<in> set qs" for nm q
    using fates [OF that] by (cases "map_of ps nm") auto
  then have "unstep_players undo ?qs = Some (map (\<lambda>(nm, q). (nm, if ?new nm then q else the (map_of ps nm))) ?qs,
      {nm \<in> fst ` set ?qs. ?new nm})"
    by (intro unstep_players_eq) auto
  then have "ProcessBackwardsInternal ?qs undo =
      Some (filter (\<lambda>(nm, p). nm \<notin> {nm \<in> fst ` set ?qs. ?new nm})
        (map (\<lambda>(nm, q). (nm, if ?new nm then q else the (map_of ps nm))) ?qs))"
    by (simp add: ProcessBackwardsInternal_def)
  also have "filter (\<lambda>(nm, p). nm \<notin> {nm \<in> fst ` set ?qs. ?new nm})
        (map (\<lambda>(nm, q). (nm, if ?new nm then q else the (map_of ps nm))) ?qs)
      = map (\<lambda>nm. (nm, the (map_of ps nm))) (filter (\<lambda>nm. \<not> ?new nm) (map fst ?qs))"
    by (rule filter_removed) force
  also have "map fst ?qs = map fst qs"
    by (induction qs) auto
  also have "filter (\<lambda>nm. \<not> ?new nm) (map fst qs) = filter (\<lambda>nm. map_of ps nm \<noteq> None) (map fst qs)"
    using fates(1) by (intro filter_cong) auto
  also have "filter (\<lambda>nm. map_of ps nm \<noteq> None) (map fst qs) = map fst ps"
    using keys unfolding keys(2) by (auto simp: filter_empty_conv map_of_eq_None_iff)
  also have "map (\<lambda>nm. (nm, the (map_of ps nm))) (map fst ps) = ps"
    using wf by (intro alist_rebuild) (simp add: wf_players_def)
  finally have "ProcessBackwardsInternal ?qs undo = Some ps" .
  moreover have "map fst ?qs = map fst qs"
    by (induction qs) auto
  then have "distinct (map fst ?qs)"
    using keys(1) by (simp only:)
  then have "wf_players ?qs"
    unfolding wf_players_def using wfq wf_stepped by (auto simp: list_all_iff)
  ultimately show ?thesis
    using fold fwd(1) by (simp add: ProcessForwardInternal_def)
qed

subsection \<open>Properties\<close>

text \<open>C30. Rolling back a block restores the state: on a well-formed state, and when no player already
  on the map moves twice in the block, processing the block forwards succeeds with a well-formed
  state, and processing it backwards with the undo data gives back exactly the old state.\<close>

theorem mover_undo_restores:
  assumes "wf_players ps" "one_move_each ps (json_array (json_get blk ''moves''))"
  shows "\<exists>ps' undo. ProcessForwardInternal ps blk = Some (ps', undo) \<and> wf_players ps' \<and>
    ProcessBackwardsInternal ps' undo = Some ps"
  by (rule forward_backward [OF assms])

definition mover_move :: "string \<Rightarrow> string \<Rightarrow> int \<Rightarrow> json" where
  "mover_move nm d n = JObject [(''name'', JString nm), (''move'', JObject [(''d'', JString d), (''n'', JInt n)])]"

definition mover_block :: "json list \<Rightarrow> json" where
  "mover_block ms = JObject [(''moves'', JArray ms)]"

definition mover_example :: players where
  "mover_example =
     [(''a'', \<lparr>p_x = Some 5, p_y = Some 0, p_dir = Some UP, p_steps_left = Some 1\<rparr>),
      (''b'', \<lparr>p_x = Some 0, p_y = Some (- 7), p_dir = Some NONE, p_steps_left = Some 0\<rparr>)]"

theorem mover_undo_restores_witness:
  "\<exists>ps' undo. ProcessForwardInternal mover_example (mover_block [mover_move ''b'' ''l'' 1, mover_move ''c'' ''y'' 4])
      = Some (ps', undo) \<and> wf_players ps' \<and> ProcessBackwardsInternal ps' undo = Some mover_example"
proof (rule mover_undo_restores)
  show "wf_players mover_example"
    by (simp add: wf_players_def mover_example_def wf_player_def)
  show "one_move_each mover_example
      (json_array (json_get (mover_block [mover_move ''b'' ''l'' 1, mover_move ''c'' ''y'' 4]) ''moves''))"
    by code_simp
qed

text \<open>The restriction is needed: when a player on the map moves twice in one block, the second move
  overwrites the undo data of the first, and rolling back gives a different state.\<close>

theorem mover_undo_fails_twice:
  "\<exists>ps' undo ps''. ProcessForwardInternal mover_example (mover_block [mover_move ''b'' ''l'' 3, mover_move ''b'' ''h'' 2])
      = Some (ps', undo) \<and> ProcessBackwardsInternal ps' undo = Some ps'' \<and> ps'' \<noteq> mover_example"
proof -
  let ?blk = "mover_block [mover_move ''b'' ''l'' 3, mover_move ''b'' ''h'' 2]"
  let ?fwd = "ProcessForwardInternal mover_example ?blk"
  let ?bwd = "ProcessBackwardsInternal (fst (the ?fwd)) (snd (the ?fwd))"
  have "?fwd \<noteq> None" "?bwd \<noteq> None" "the ?bwd \<noteq> mover_example"
    by code_simp+
  then show ?thesis
    by (metis option.exhaust_sel prod.collapse)
qed

end
