(* ===== verification/Storage.thy ===== *)
theory Storage
  imports Uint256
begin

text \<open>
  The storage of a game daemon: \<open>src/xayagame/storage.cpp\<close> (the interface and the in-memory
  storage), \<open>heightcache.cpp\<close> (the wrapper that caches the height of the current block),
  \<open>transactionmanager.cpp\<close> (batching of transactions) and \<open>pruningqueue.cpp\<close> (removal of old
  undo data).

  A storage operation may throw \<open>RetryWithNewTransaction\<close>; then the caller goes on with the state
  the storage is left in.  Such an operation is an \<open>exec\<close>: a function from the state to an outcome
  and the new state, or to \<open>None\<close> where the process aborts.  The abstract class
  \<open>StorageInterface\<close> is a record of its virtual functions over a state of any type.

  What the documentation of that class promises is stated by the locales \<open>transactional\<close> and
  \<open>storage_contract\<close>: the daemon is verified for every storage that keeps these promises, and
  \<open>MemoryStorage\<close>, \<open>SQLiteStorage\<close> and \<open>LMDBStorage\<close> are shown to keep them.
\<close>

subsection \<open>Computations that may throw\<close>

datatype 'a outcome = Returned 'a | RetryWithNewTransaction

type_synonym ('s, 'a) exec = "'s \<Rightarrow> ('a outcome \<times> 's) run"

definition exec_seq :: "('s, 'a) exec \<Rightarrow> ('a \<Rightarrow> ('s, 'b) exec) \<Rightarrow> ('s, 'b) exec" where
  "exec_seq m f s =
     do {
       (r, s) \<leftarrow> m s;
       (case r of
          Returned x \<Rightarrow> f x s
        | RetryWithNewTransaction \<Rightarrow> Some (RetryWithNewTransaction, s))
     }"

subsection \<open>The interface\<close>

record 'st storage_interface =
  st_Clear :: "'st \<Rightarrow> 'st run"
  st_GetCurrentBlockHash :: "'st \<Rightarrow> uint256 option"
  st_GetCurrentGameState :: "'st \<Rightarrow> string run"
  st_SetCurrentGameState :: "uint256 \<Rightarrow> string \<Rightarrow> ('st, unit) exec"
  st_GetUndoData :: "uint256 \<Rightarrow> 'st \<Rightarrow> string option"
  st_AddUndoData :: "uint256 \<Rightarrow> uint32 \<Rightarrow> string \<Rightarrow> ('st, unit) exec"
  st_ReleaseUndoData :: "uint256 \<Rightarrow> ('st, unit) exec"
  st_PruneUndoData :: "uint32 \<Rightarrow> ('st, unit) exec"
  st_BeginTransaction :: "'st \<Rightarrow> 'st run"
  st_CommitTransaction :: "('st, unit) exec"
  st_RollbackTransaction :: "'st \<Rightarrow> 'st run"

subsection \<open>The in-memory storage\<close>

record memory_storage =
  hasState :: bool
  currentBlock :: uint256
  currentState :: string
  undoData :: "uint256 \<rightharpoonup> uint32 \<times> string"
  startedTxn :: bool

definition MemoryStorage_new :: memory_storage where
  "MemoryStorage_new =
     \<lparr>hasState = False, currentBlock = SetNull, currentState = [], undoData = Map.empty, startedTxn = False\<rparr>"

definition MemoryStorage_Clear :: "memory_storage \<Rightarrow> memory_storage run" where
  "MemoryStorage_Clear st =
     do { CHECK (\<not> startedTxn st); Some (st\<lparr>hasState := False, undoData := Map.empty\<rparr>) }"

definition MemoryStorage_GetCurrentBlockHash :: "memory_storage \<Rightarrow> uint256 option" where
  "MemoryStorage_GetCurrentBlockHash st = (if \<not> hasState st then None else Some (currentBlock st))"

definition MemoryStorage_GetCurrentGameState :: "memory_storage \<Rightarrow> string run" where
  "MemoryStorage_GetCurrentGameState st = do { CHECK (hasState st); Some (currentState st) }"

definition MemoryStorage_SetCurrentGameState :: "uint256 \<Rightarrow> string \<Rightarrow> (memory_storage, unit) exec" where
  "MemoryStorage_SetCurrentGameState hash d st =
     do {
       CHECK (startedTxn st);
       Some (Returned (), st\<lparr>hasState := True, currentBlock := hash, currentState := d\<rparr>)
     }"

definition MemoryStorage_GetUndoData :: "uint256 \<Rightarrow> memory_storage \<Rightarrow> string option" where
  "MemoryStorage_GetUndoData hash st = map_option snd (undoData st hash)"

text \<open>\<open>std::map::emplace\<close> keeps an entry that is already there.\<close>

definition MemoryStorage_AddUndoData :: "uint256 \<Rightarrow> uint32 \<Rightarrow> string \<Rightarrow> (memory_storage, unit) exec" where
  "MemoryStorage_AddUndoData hash height d st =
     do {
       CHECK (startedTxn st);
       Some (Returned (), st\<lparr>undoData :=
         (case undoData st hash of
            None \<Rightarrow> (undoData st)(hash \<mapsto> (height, d))
          | Some _ \<Rightarrow> undoData st)\<rparr>)
     }"

definition MemoryStorage_ReleaseUndoData :: "uint256 \<Rightarrow> (memory_storage, unit) exec" where
  "MemoryStorage_ReleaseUndoData hash st =
     do { CHECK (startedTxn st); Some (Returned (), st\<lparr>undoData := (undoData st)(hash := None)\<rparr>) }"

definition MemoryStorage_PruneUndoData :: "uint32 \<Rightarrow> (memory_storage, unit) exec" where
  "MemoryStorage_PruneUndoData height st =
     do {
       CHECK (startedTxn st);
       Some (Returned (), st\<lparr>undoData := (\<lambda>h.
         case undoData st h of
           None \<Rightarrow> None
         | Some (ht, d) \<Rightarrow> if ht \<le> height then None else Some (ht, d))\<rparr>)
     }"

definition MemoryStorage_BeginTransaction :: "memory_storage \<Rightarrow> memory_storage run" where
  "MemoryStorage_BeginTransaction st = do { CHECK (\<not> startedTxn st); Some (st\<lparr>startedTxn := True\<rparr>) }"

definition MemoryStorage_CommitTransaction :: "(memory_storage, unit) exec" where
  "MemoryStorage_CommitTransaction st =
     do { CHECK (startedTxn st); Some (Returned (), st\<lparr>startedTxn := False\<rparr>) }"

definition MemoryStorage_RollbackTransaction :: "memory_storage \<Rightarrow> memory_storage run" where
  "MemoryStorage_RollbackTransaction st = do { CHECK (startedTxn st); Some (st\<lparr>startedTxn := False\<rparr>) }"

definition MemoryStorage :: "memory_storage storage_interface" where
  "MemoryStorage =
     \<lparr>st_Clear = MemoryStorage_Clear,
      st_GetCurrentBlockHash = MemoryStorage_GetCurrentBlockHash,
      st_GetCurrentGameState = MemoryStorage_GetCurrentGameState,
      st_SetCurrentGameState = MemoryStorage_SetCurrentGameState,
      st_GetUndoData = MemoryStorage_GetUndoData,
      st_AddUndoData = MemoryStorage_AddUndoData,
      st_ReleaseUndoData = MemoryStorage_ReleaseUndoData,
      st_PruneUndoData = MemoryStorage_PruneUndoData,
      st_BeginTransaction = MemoryStorage_BeginTransaction,
      st_CommitTransaction = MemoryStorage_CommitTransaction,
      st_RollbackTransaction = MemoryStorage_RollbackTransaction\<rparr>"

lemmas MemoryStorage_defs =
  MemoryStorage_Clear_def MemoryStorage_GetCurrentBlockHash_def MemoryStorage_GetCurrentGameState_def
  MemoryStorage_SetCurrentGameState_def MemoryStorage_GetUndoData_def MemoryStorage_AddUndoData_def
  MemoryStorage_ReleaseUndoData_def MemoryStorage_PruneUndoData_def MemoryStorage_BeginTransaction_def
  MemoryStorage_CommitTransaction_def MemoryStorage_RollbackTransaction_def

subsection \<open>The cached height\<close>

text \<open>\<open>height_cache\<close> is \<open>cachedHeight\<close> where \<open>hasHeight\<close> is set.\<close>

record 'st cached_storage =
  crossCheck :: bool
  height_cache :: "uint32 option"
  wrapped :: 'st

definition lift_exec :: "('st, 'a) exec \<Rightarrow> ('st cached_storage, 'a) exec" where
  "lift_exec op c = do { (r, st) \<leftarrow> op (wrapped c); Some (r, c\<lparr>wrapped := st\<rparr>) }"

definition SetCurrentGameStateWithHeight ::
    "'st storage_interface \<Rightarrow> uint256 \<Rightarrow> uint32 \<Rightarrow> string \<Rightarrow> ('st cached_storage, unit) exec" where
  "SetCurrentGameStateWithHeight si hash height d =
     exec_seq (lift_exec (st_SetCurrentGameState si hash d))
       (\<lambda>_ c. Some (Returned (), c\<lparr>height_cache := Some height\<rparr>))"

definition GetCurrentBlockHashWithHeight ::
    "'st storage_interface \<Rightarrow> (uint256 \<Rightarrow> uint32 run) \<Rightarrow> 'st cached_storage \<Rightarrow>
     ((uint256 \<times> uint32) option \<times> 'st cached_storage) run" where
  "GetCurrentBlockHashWithHeight si hashToHeight c =
     (case st_GetCurrentBlockHash si (wrapped c) of
        None \<Rightarrow> Some (None, c)
      | Some hash \<Rightarrow>
          (case height_cache c of
             None \<Rightarrow>
               do {
                 height \<leftarrow> hashToHeight hash;
                 Some (Some (hash, height), c\<lparr>height_cache := Some height\<rparr>)
               }
           | Some height \<Rightarrow>
               if crossCheck c then
                 do { actual \<leftarrow> hashToHeight hash; CHECK (height = actual); Some (Some (hash, height), c) }
               else Some (Some (hash, height), c)))"

definition StorageWithCachedHeight :: "'st storage_interface \<Rightarrow> 'st cached_storage storage_interface" where
  "StorageWithCachedHeight si =
     \<lparr>st_Clear = (\<lambda>c. do { st \<leftarrow> st_Clear si (wrapped c); Some (c\<lparr>height_cache := None, wrapped := st\<rparr>) }),
      st_GetCurrentBlockHash = (\<lambda>c. st_GetCurrentBlockHash si (wrapped c)),
      st_GetCurrentGameState = (\<lambda>c. st_GetCurrentGameState si (wrapped c)),
      st_SetCurrentGameState = (\<lambda>hash d c. LOG_FATAL),
      st_GetUndoData = (\<lambda>hash c. st_GetUndoData si hash (wrapped c)),
      st_AddUndoData = (\<lambda>hash height d. lift_exec (st_AddUndoData si hash height d)),
      st_ReleaseUndoData = (\<lambda>hash. lift_exec (st_ReleaseUndoData si hash)),
      st_PruneUndoData = (\<lambda>height. lift_exec (st_PruneUndoData si height)),
      st_BeginTransaction = (\<lambda>c. do { st \<leftarrow> st_BeginTransaction si (wrapped c); Some (c\<lparr>wrapped := st\<rparr>) }),
      st_CommitTransaction = lift_exec (st_CommitTransaction si),
      st_RollbackTransaction = (\<lambda>c. do {
        st \<leftarrow> st_RollbackTransaction si (wrapped c); Some (c\<lparr>height_cache := None, wrapped := st\<rparr>) })\<rparr>"

subsection \<open>Batched transactions\<close>

text \<open>The manager refers to a storage; here it holds the state of that storage.\<close>

record 'st tx_manager =
  tm_storage :: 'st
  batchSize :: uint32
  batchedCommits :: uint32
  inTransaction :: bool
  commitFailed :: bool

definition TransactionManager_new :: "'st \<Rightarrow> 'st tx_manager" where
  "TransactionManager_new st =
     \<lparr>tm_storage = st, batchSize = 1, batchedCommits = 0, inTransaction = False, commitFailed = False\<rparr>"

definition Flush :: "'st storage_interface \<Rightarrow> ('st tx_manager, unit) exec" where
  "Flush si m =
     do {
       CHECK (\<not> inTransaction m);
       CHECK (\<not> commitFailed m);
       if batchedCommits m > 0 then
         do {
           (r, st) \<leftarrow> st_CommitTransaction si (tm_storage m);
           (case r of
              Returned _ \<Rightarrow> Some (Returned (), m\<lparr>tm_storage := st, batchedCommits := 0\<rparr>)
            | RetryWithNewTransaction \<Rightarrow>
                Some (RetryWithNewTransaction, m\<lparr>tm_storage := st, commitFailed := True\<rparr>))
         }
       else Some (Returned (), m)
     }"

definition SetBatchSize :: "'st storage_interface \<Rightarrow> uint32 \<Rightarrow> ('st tx_manager, unit) exec" where
  "SetBatchSize si sz m =
     do {
       CHECK (sz \<ge> 1);
       let m = m\<lparr>batchSize := sz\<rparr>;
       if batchedCommits m \<ge> batchSize m then
         if inTransaction m then Some (Returned (), m) else Flush si m
       else Some (Returned (), m)
     }"

definition TM_BeginTransaction :: "'st storage_interface \<Rightarrow> 'st tx_manager \<Rightarrow> 'st tx_manager run" where
  "TM_BeginTransaction si m =
     do {
       CHECK (\<not> commitFailed m);
       CHECK (\<not> inTransaction m);
       let m = m\<lparr>inTransaction := True\<rparr>;
       if batchedCommits m = 0 then
         do { st \<leftarrow> st_BeginTransaction si (tm_storage m); Some (m\<lparr>tm_storage := st\<rparr>) }
       else Some m
     }"

definition TM_CommitTransaction :: "'st storage_interface \<Rightarrow> ('st tx_manager, unit) exec" where
  "TM_CommitTransaction si m =
     do {
       CHECK (\<not> commitFailed m);
       CHECK (inTransaction m);
       let m = m\<lparr>inTransaction := False, batchedCommits := batchedCommits m + 1\<rparr>;
       if batchedCommits m \<ge> batchSize m then Flush si m else Some (Returned (), m)
     }"

definition TM_RollbackTransaction :: "'st storage_interface \<Rightarrow> 'st tx_manager \<Rightarrow> 'st tx_manager run" where
  "TM_RollbackTransaction si m =
     do {
       CHECK (inTransaction m \<or> commitFailed m);
       st \<leftarrow> st_RollbackTransaction si (tm_storage m);
       Some (m\<lparr>tm_storage := st, inTransaction := False, commitFailed := False, batchedCommits := 0\<rparr>)
     }"

definition TryAbortTransaction :: "'st storage_interface \<Rightarrow> 'st tx_manager \<Rightarrow> 'st tx_manager run" where
  "TryAbortTransaction si m =
     do {
       st \<leftarrow> (if inTransaction m \<or> commitFailed m \<or> batchedCommits m > 0
              then st_RollbackTransaction si (tm_storage m) else Some (tm_storage m));
       Some (m\<lparr>tm_storage := st, inTransaction := False, commitFailed := False, batchedCommits := 0\<rparr>)
     }"

text \<open>A scope with an \<open>ActiveTransaction\<close>: the constructor begins a transaction on the manager, the
  body runs, \<open>Commit\<close> is its last statement, and the destructor rolls back when the body or the
  commit throws.  The body works on the manager's storage and on local state \<open>'x\<close>.\<close>

definition with_storage :: "('st, 'a) exec \<Rightarrow> ('st tx_manager \<times> 'x, 'a) exec" where
  "with_storage op mx =
     do { (r, st) \<leftarrow> op (tm_storage (fst mx)); Some (r, ((fst mx)\<lparr>tm_storage := st\<rparr>, snd mx)) }"

definition ActiveTransaction ::
    "'st storage_interface \<Rightarrow> ('st tx_manager \<times> 'x, unit) exec \<Rightarrow> ('st tx_manager \<times> 'x, unit) exec" where
  "ActiveTransaction si body mx =
     do {
       m \<leftarrow> TM_BeginTransaction si (fst mx);
       (r, mx) \<leftarrow> exec_seq body
         (\<lambda>_ mx. do { (r, m) \<leftarrow> TM_CommitTransaction si (fst mx); Some (r, (m, snd mx)) }) (m, snd mx);
       (case r of
          Returned _ \<Rightarrow> Some (Returned (), mx)
        | RetryWithNewTransaction \<Rightarrow>
            do { m \<leftarrow> TM_RollbackTransaction si (fst mx); Some (RetryWithNewTransaction, (m, snd mx)) })
     }"

subsection \<open>The pruning queue\<close>

record pruning_queue =
  nBlocks :: uint32
  pq_hashes :: "uint256 list"
  initialPruningDone :: bool

definition PruningQueue_new :: "uint32 \<Rightarrow> pruning_queue" where
  "PruningQueue_new n = \<lparr>nBlocks = n, pq_hashes = [], initialPruningDone = False\<rparr>"

text \<open>The loop \<open>while (hashes.size () > nBlocks)\<close>, by recursion on the queue.\<close>

fun release_old :: "'st storage_interface \<Rightarrow> nat \<Rightarrow> uint256 list \<Rightarrow> ('st tx_manager \<times> uint256 list, unit) exec" where
  "release_old si n [] mx = Some (Returned (), (fst mx, []))"
| "release_old si n (h # hs) mx =
     (if length (h # hs) > n then
        exec_seq (with_storage (st_ReleaseUndoData si h)) (\<lambda>_ mx. release_old si n hs (fst mx, hs)) (fst mx, h # hs)
      else Some (Returned (), (fst mx, h # hs)))"

definition PruneIfTooLong :: "'st storage_interface \<Rightarrow> ('st tx_manager \<times> pruning_queue, unit) exec" where
  "PruneIfTooLong si mq =
     (let q = snd mq in
      if length (pq_hashes q) \<le> unat (nBlocks q) then Some (Returned (), mq)
      else do {
        (r, mx) \<leftarrow> ActiveTransaction si (release_old si (unat (nBlocks q)) (pq_hashes q)) (fst mq, pq_hashes q);
        Some (r, (fst mx, q\<lparr>pq_hashes := snd mx\<rparr>))
      })"

definition SetDesiredSize :: "'st storage_interface \<Rightarrow> uint32 \<Rightarrow> ('st tx_manager \<times> pruning_queue, unit) exec" where
  "SetDesiredSize si n mq = PruneIfTooLong si (fst mq, (snd mq)\<lparr>nBlocks := n\<rparr>)"

definition PruningQueue_Reset :: "pruning_queue \<Rightarrow> pruning_queue" where
  "PruningQueue_Reset q = q\<lparr>pq_hashes := [], initialPruningDone := False\<rparr>"

definition AttachBlock ::
    "'st storage_interface \<Rightarrow> uint256 \<Rightarrow> uint32 \<Rightarrow> ('st tx_manager \<times> pruning_queue, unit) exec" where
  "AttachBlock si hash height mq =
     (let q = (snd mq)\<lparr>pq_hashes := pq_hashes (snd mq) @ [hash]\<rparr>;
          n = length (pq_hashes q)
      in
      if \<not> initialPruningDone q \<and> n \<ge> unat (nBlocks q) then
        do {
          CHECK (unat (height + 1) \<ge> n);
          let frontHeight = height + 1 - of_nat n;
          exec_seq
            (\<lambda>mq. if frontHeight > 0
               then ActiveTransaction si (with_storage (st_PruneUndoData si (frontHeight - 1))) mq
               else Some (Returned (), mq))
            (\<lambda>_ mq. PruneIfTooLong si (fst mq, (snd mq)\<lparr>initialPruningDone := True\<rparr>))
            (fst mq, q)
        }
      else PruneIfTooLong si (fst mq, q))"

definition PQ_DetachBlock :: "pruning_queue \<Rightarrow> pruning_queue" where
  "PQ_DetachBlock q = (if pq_hashes q = [] then q else q\<lparr>pq_hashes := butlast (pq_hashes q)\<rparr>)"

end
