(* ===== verification/Storage_Contract.thy ===== *)
theory Storage_Contract
  imports Storage
begin

text \<open>
  The promises of a storage, and what the layers on top of it keep.

  The abstract content of a storage is the current block with its state, and the undo data.  At any
  time a set of contents is \<open>restorable\<close>: a rollback or a crash leads to one of them.
  (\<open>MemoryStorage\<close> cannot roll back, so there it is the present content; a database restores the
  content at the beginning of the transaction.)  A property that holds of every content the code
  passes through therefore survives rollbacks and crashes.  The flag \<open>unreliable\<close> says whether
  operations may throw at all.

  Statements about computations that may throw are triples: from a state with the first property
  the computation does not abort, and it leaves the second property when it returns and the third
  one when it throws.
\<close>

subsection \<open>Triples\<close>

definition triple :: "('s \<Rightarrow> bool) \<Rightarrow> ('s, 'a) exec \<Rightarrow> ('a \<Rightarrow> 's \<Rightarrow> bool) \<Rightarrow> ('s \<Rightarrow> bool) \<Rightarrow> bool" where
  "triple P f Q E \<longleftrightarrow>
     (\<forall>s. P s \<longrightarrow> (\<exists>r s'. f s = Some (r, s') \<and>
        (case r of Returned x \<Rightarrow> Q x s' | RetryWithNewTransaction \<Rightarrow> E s')))"

lemma tripleI:
  assumes "\<And>s. P s \<Longrightarrow> \<exists>r s'. f s = Some (r, s') \<and>
    (case r of Returned x \<Rightarrow> Q x s' | RetryWithNewTransaction \<Rightarrow> E s')"
  shows "triple P f Q E"
  using assms by (simp add: triple_def)

lemma tripleE:
  assumes "triple P f Q E" "P s"
  obtains x s' where "f s = Some (Returned x, s')" "Q x s'"
    | s' where "f s = Some (RetryWithNewTransaction, s')" "E s'"
proof -
  obtain r s' where "f s = Some (r, s')"
    "case r of Returned x \<Rightarrow> Q x s' | RetryWithNewTransaction \<Rightarrow> E s'"
    using assms by (auto simp: triple_def)
  then show thesis
    using that by (cases r) auto
qed

lemma tripleD:
  assumes "triple P f Q E" "P s"
  shows "\<exists>r s'. f s = Some (r, s') \<and>
    (case r of Returned x \<Rightarrow> Q x s' | RetryWithNewTransaction \<Rightarrow> E s')"
  using assms by (simp add: triple_def)

lemma triple_weaken:
  assumes "triple P f Q E" "\<And>s. P' s \<Longrightarrow> P s" "\<And>x s. Q x s \<Longrightarrow> Q' x s" "\<And>s. E s \<Longrightarrow> E' s"
  shows "triple P' f Q' E'"
proof (rule tripleI)
  fix s
  assume "P' s"
  then have "P s"
    by (rule assms(2))
  then show "\<exists>r s'. f s = Some (r, s') \<and>
      (case r of Returned x \<Rightarrow> Q' x s' | RetryWithNewTransaction \<Rightarrow> E' s')"
    by (rule tripleE [OF assms(1)]) (simp_all add: assms(3,4))
qed

lemma triple_seq:
  assumes "triple P f Q E" "\<And>x. triple (Q x) (g x) R E"
  shows "triple P (exec_seq f g) R E"
proof (rule tripleI)
  fix s
  assume P: "P s"
  show "\<exists>r s'. exec_seq f g s = Some (r, s') \<and>
      (case r of Returned x \<Rightarrow> R x s' | RetryWithNewTransaction \<Rightarrow> E s')"
  proof (rule tripleE [OF assms(1) P])
    fix x t
    assume f: "f s = Some (Returned x, t)" and Q: "Q x t"
    show ?thesis
      by (rule tripleE [OF assms(2) Q]) (simp_all add: exec_seq_def f)
  next
    fix t
    assume "f s = Some (RetryWithNewTransaction, t)" "E t"
    then show ?thesis
      by (simp add: exec_seq_def)
  qed
qed

lemma triple_ex:
  assumes "\<And>c. triple (P c) f Q E"
  shows "triple (\<lambda>s. \<exists>c. P c s) f Q E"
  using assms unfolding triple_def by blast

lemma triple_pure:
  assumes "\<And>s. b \<Longrightarrow> triple P f Q E"
  shows "triple (\<lambda>s. b \<and> P s) f Q E"
  using assms unfolding triple_def by blast

subsection \<open>Contents\<close>

record contents =
  cur :: "(uint256 \<times> string) option"
  undos :: "uint256 \<rightharpoonup> uint32 \<times> string"

text \<open>What the update operations may do to the content.\<close>

definition upd_current :: "uint256 \<Rightarrow> string \<Rightarrow> contents \<Rightarrow> contents \<Rightarrow> bool" where
  "upd_current h d c c' \<longleftrightarrow> c' = c\<lparr>cur := Some (h, d)\<rparr>"

definition upd_add :: "uint256 \<Rightarrow> uint32 \<Rightarrow> string \<Rightarrow> contents \<Rightarrow> contents \<Rightarrow> bool" where
  "upd_add h ht d c c' \<longleftrightarrow>
     c' = c\<lparr>undos := (undos c)(h \<mapsto> (ht, d))\<rparr> \<or> undos c h \<noteq> None \<and> c' = c"

definition upd_release :: "uint256 \<Rightarrow> contents \<Rightarrow> contents \<Rightarrow> bool" where
  "upd_release h c c' \<longleftrightarrow> c' = c\<lparr>undos := (undos c)(h := None)\<rparr> \<or> c' = c"

definition upd_prune :: "uint32 \<Rightarrow> contents \<Rightarrow> contents \<Rightarrow> bool" where
  "upd_prune height c c' \<longleftrightarrow>
     cur c' = cur c \<and> undos c' \<subseteq>\<^sub>m undos c \<and>
     (\<forall>h ht d. undos c h = Some (ht, d) \<and> ht > height \<longrightarrow> undos c' h = Some (ht, d))"

lemmas upd_defs = upd_current_def upd_add_def upd_release_def upd_prune_def

text \<open>A storage is idle or has an open transaction; after an operation has thrown, it may be in a state
  where only a rollback is possible.  (\<open>Invalid\<close> states are those that cannot arise.)\<close>

datatype storage_phase = Idle | Open | Failed | Invalid

definition needs_end :: "storage_phase \<Rightarrow> bool" where
  "needs_end p \<longleftrightarrow> p = Open \<or> p = Failed"

lemma needs_end_simps [simp]: "needs_end Open" "needs_end Failed" "\<not> needs_end Idle" "\<not> needs_end Invalid"
  by (simp_all add: needs_end_def)

definition updating ::
    "bool \<Rightarrow> ('st \<Rightarrow> storage_phase) \<Rightarrow> ('st \<Rightarrow> contents) \<Rightarrow> ('st \<Rightarrow> contents set) \<Rightarrow>
     (contents \<Rightarrow> contents \<Rightarrow> bool) \<Rightarrow> ('st, unit) exec \<Rightarrow> bool" where
  "updating unreliable phase view restorable upd op \<longleftrightarrow>
     (\<forall>st. phase st = Open \<longrightarrow> (\<exists>r st'. op st = Some (r, st') \<and>
        (case r of
           Returned _ \<Rightarrow> phase st' = Open \<and> upd (view st) (view st') \<and>
             restorable st' \<subseteq> insert (view st') (restorable st)
         | RetryWithNewTransaction \<Rightarrow> unreliable \<and> needs_end (phase st') \<and> restorable st' \<subseteq> restorable st)))"

subsection \<open>The contract\<close>

locale transactional =
  fixes si :: "'st storage_interface"
    and unreliable :: bool
    and phase :: "'st \<Rightarrow> storage_phase"
    and view :: "'st \<Rightarrow> contents"
    and restorable :: "'st \<Rightarrow> contents set"
  assumes begin_law: "phase st = Idle \<Longrightarrow> \<exists>st'. st_BeginTransaction si st = Some st' \<and> phase st' = Open \<and>
      view st' = view st \<and> restorable st' \<subseteq> insert (view st) (restorable st)"
    and commit_law: "phase st = Open \<Longrightarrow> \<exists>r st'. st_CommitTransaction si st = Some (r, st') \<and>
      (case r of
         Returned _ \<Rightarrow> phase st' = Idle \<and> view st' = view st \<and> restorable st' \<subseteq> insert (view st) (restorable st)
       | RetryWithNewTransaction \<Rightarrow> unreliable \<and> needs_end (phase st') \<and> restorable st' \<subseteq> restorable st)"
    and rollback_law: "needs_end (phase st) \<Longrightarrow> \<exists>st'. st_RollbackTransaction si st = Some st' \<and> phase st' = Idle \<and>
      view st' \<in> restorable st \<and> restorable st' \<subseteq> restorable st"
begin

text \<open>A transaction is open on the storage exactly while one is open on the manager or commits are
  batched.  The number of batched commits cannot wrap around.\<close>

definition tm_inv :: "'st tx_manager \<Rightarrow> bool" where
  "tm_inv m \<longleftrightarrow>
     batchSize m \<noteq> 0 \<and>
     (if inTransaction m \<or> batchedCommits m \<noteq> 0 then needs_end (phase (tm_storage m)) else phase (tm_storage m) = Idle) \<and>
     (commitFailed m \<longrightarrow> batchedCommits m \<noteq> 0 \<and> \<not> inTransaction m) \<and>
     (\<not> commitFailed m \<longrightarrow> batchedCommits m \<noteq> - 1 \<and> (\<not> inTransaction m \<longrightarrow> batchedCommits m < batchSize m))"

definition restorable_ok :: "(contents \<Rightarrow> bool) \<Rightarrow> 'st tx_manager \<Rightarrow> bool" where
  "restorable_ok P m \<longleftrightarrow> (\<forall>c\<in>restorable (tm_storage m). P c)"

text \<open>The manager at rest and within a transaction, with content \<open>c\<close>, where \<open>P\<close> holds of
  everything a rollback may lead to.\<close>

definition at_rest :: "(contents \<Rightarrow> bool) \<Rightarrow> contents \<Rightarrow> 'st tx_manager \<Rightarrow> bool" where
  "at_rest P c m \<longleftrightarrow> tm_inv m \<and> \<not> inTransaction m \<and> \<not> commitFailed m \<and> phase (tm_storage m) \<noteq> Failed \<and> view (tm_storage m) = c \<and>
     P c \<and> restorable_ok P m"

definition within :: "(contents \<Rightarrow> bool) \<Rightarrow> contents \<Rightarrow> 'st tx_manager \<Rightarrow> bool" where
  "within P c m \<longleftrightarrow> tm_inv m \<and> inTransaction m \<and> phase (tm_storage m) = Open \<and> view (tm_storage m) = c \<and> P c \<and> restorable_ok P m"

definition broken :: "(contents \<Rightarrow> bool) \<Rightarrow> 'st tx_manager \<Rightarrow> bool" where
  "broken P m \<longleftrightarrow> unreliable \<and> tm_inv m \<and> (inTransaction m \<or> commitFailed m) \<and> restorable_ok P m"

text \<open>The exceptional end of a transaction: everything batched is gone.\<close>

definition rolled_back :: "(contents \<Rightarrow> bool) \<Rightarrow> 'st tx_manager \<Rightarrow> bool" where
  "rolled_back P m \<longleftrightarrow> unreliable \<and> batchedCommits m = 0 \<and> (\<exists>c. at_rest P c m)"

lemmas tm_defs = tm_inv_def restorable_ok_def at_rest_def within_def broken_def

lemma at_rest_new:
  "phase st = Idle \<Longrightarrow> P (view st) \<Longrightarrow> \<forall>c\<in>restorable st. P c \<Longrightarrow> at_rest P (view st) (TransactionManager_new st)"
  by (simp add: tm_defs TransactionManager_new_def)

lemma TM_begin:
  assumes "at_rest P c m"
  shows "\<exists>m'. TM_BeginTransaction si m = Some m' \<and> within P c m'"
proof (cases "batchedCommits m = 0")
  case True
  then have "phase (tm_storage m) = Idle"
    using assms by (simp add: tm_defs)
  then obtain st' where "st_BeginTransaction si (tm_storage m) = Some st'" "phase st' = Open"
    "view st' = view (tm_storage m)" "restorable st' \<subseteq> insert (view (tm_storage m)) (restorable (tm_storage m))"
    using begin_law by blast
  then show ?thesis
    using assms True by (auto simp: TM_BeginTransaction_def tm_defs)
next
  case False
  then show ?thesis
    using assms by (auto simp: needs_end_def TM_BeginTransaction_def tm_defs)
qed

lemma Flush_triple:
  "triple (\<lambda>m. \<not> inTransaction m \<and> \<not> commitFailed m \<and> batchedCommits m \<noteq> 0 \<and> phase (tm_storage m) = Open \<and>
      batchSize m \<noteq> 0 \<and> view (tm_storage m) = c \<and> P c \<and> restorable_ok P m)
    (Flush si) (\<lambda>_ m. batchedCommits m = 0 \<and> at_rest P c m) (broken P)"
proof (rule tripleI)
  fix m
  assume m: "\<not> inTransaction m \<and> \<not> commitFailed m \<and> batchedCommits m \<noteq> 0 \<and> phase (tm_storage m) = Open \<and>
      batchSize m \<noteq> 0 \<and> view (tm_storage m) = c \<and> P c \<and> restorable_ok P m"
  then obtain r st' where c: "st_CommitTransaction si (tm_storage m) = Some (r, st')"
    "case r of Returned _ \<Rightarrow> phase st' = Idle \<and> view st' = view (tm_storage m) \<and>
        restorable st' \<subseteq> insert (view (tm_storage m)) (restorable (tm_storage m))
      | RetryWithNewTransaction \<Rightarrow> unreliable \<and> needs_end (phase st') \<and> restorable st' \<subseteq> restorable (tm_storage m)"
    using commit_law by blast
  show "\<exists>r m'. Flush si m = Some (r, m') \<and>
      (case r of Returned _ \<Rightarrow> batchedCommits m' = 0 \<and> at_rest P c m' | RetryWithNewTransaction \<Rightarrow> broken P m')"
    using m c unfolding tm_defs Flush_def by (cases r) (auto simp: word_gt_0)
qed

lemma TM_commit: "triple (within P c) (TM_CommitTransaction si) (\<lambda>_. at_rest P c) (broken P)"
proof (rule tripleI)
  fix m
  assume m: "within P c m"
  define m' where "m' = m\<lparr>inTransaction := False, batchedCommits := batchedCommits m + 1\<rparr>"
  have nz: "batchedCommits m + 1 \<noteq> 0"
    using m by (auto simp: tm_defs add_eq_0_iff2)
  have step: "TM_CommitTransaction si m =
      (if batchedCommits m + 1 \<ge> batchSize m then Flush si m' else Some (Returned (), m'))"
    using m by (auto simp: TM_CommitTransaction_def tm_defs m'_def)
  show "\<exists>r m'. TM_CommitTransaction si m = Some (r, m') \<and>
      (case r of Returned _ \<Rightarrow> at_rest P c m' | RetryWithNewTransaction \<Rightarrow> broken P m')"
  proof (cases "batchedCommits m + 1 \<ge> batchSize m")
    case True
    have "\<not> inTransaction m' \<and> \<not> commitFailed m' \<and> batchedCommits m' \<noteq> 0 \<and> phase (tm_storage m') = Open \<and>
        batchSize m' \<noteq> 0 \<and> view (tm_storage m') = c \<and> P c \<and> restorable_ok P m'"
      using m nz by (auto simp: tm_defs m'_def)
    then show ?thesis
      by (rule tripleE [OF Flush_triple]) (simp_all add: step True)
  next
    case False
    then have "batchedCommits m + 1 \<noteq> - 1"
      by (metis word_n1_ge)
    then have "at_rest P c m'"
      using m nz False by (auto simp: tm_defs m'_def)
    then show ?thesis
      using False by (simp add: step)
  qed
qed

lemma TM_rollback:
  assumes "tm_inv m" "inTransaction m \<or> commitFailed m" "restorable_ok P m"
  shows "\<exists>m'. TM_RollbackTransaction si m = Some m' \<and> batchedCommits m' = 0 \<and> (\<exists>c. at_rest P c m')"
proof -
  have "needs_end (phase (tm_storage m))"
    using assms by (auto simp: tm_defs)
  moreover from this obtain st' where "st_RollbackTransaction si (tm_storage m) = Some st'"
    "phase st' = Idle" "view st' \<in> restorable (tm_storage m)" "restorable st' \<subseteq> restorable (tm_storage m)"
    using rollback_law by blast
  ultimately show ?thesis
    using assms by (auto simp: TM_RollbackTransaction_def tm_defs word_gt_0)
qed

lemma TryAbort:
  assumes "at_rest P c m"
  shows "\<exists>m' c'. TryAbortTransaction si m = Some m' \<and> batchedCommits m' = 0 \<and> phase (tm_storage m') = Idle \<and>
    at_rest P c' m' \<and> batchSize m' = batchSize m"
proof (cases "batchedCommits m = 0")
  case True
  then show ?thesis
    using assms by (auto simp: TryAbortTransaction_def tm_defs)
next
  case False
  then have "needs_end (phase (tm_storage m))"
    using assms by (simp add: tm_defs)
  moreover from this obtain st' where "st_RollbackTransaction si (tm_storage m) = Some st'"
    "phase st' = Idle" "view st' \<in> restorable (tm_storage m)" "restorable st' \<subseteq> restorable (tm_storage m)"
    using rollback_law by blast
  ultimately show ?thesis
    using assms False by (auto simp: TryAbortTransaction_def tm_defs word_gt_0)
qed

lemma SetBatchSize_triple:
  assumes "sz \<noteq> 0"
  shows "triple (at_rest P c) (SetBatchSize si sz)
    (\<lambda>_ m. at_rest P c m \<and> (sz = 1 \<longrightarrow> batchedCommits m = 0)) (broken P)"
proof (rule tripleI)
  fix m
  assume m: "at_rest P c m"
  define m' where "m' = m\<lparr>batchSize := sz\<rparr>"
  have step: "SetBatchSize si sz m = (if batchedCommits m \<ge> sz then Flush si m' else Some (Returned (), m'))"
    using m assms by (simp add: SetBatchSize_def tm_defs m'_def word_le_sub1)
  show "\<exists>r m'. SetBatchSize si sz m = Some (r, m') \<and>
      (case r of Returned _ \<Rightarrow> at_rest P c m' \<and> (sz = 1 \<longrightarrow> batchedCommits m' = 0)
       | RetryWithNewTransaction \<Rightarrow> broken P m')"
  proof (cases "batchedCommits m \<ge> sz")
    case True
    then have "batchedCommits m \<noteq> 0"
      using assms by auto
    then have "\<not> inTransaction m' \<and> \<not> commitFailed m' \<and> batchedCommits m' \<noteq> 0 \<and> phase (tm_storage m') = Open \<and>
        batchSize m' \<noteq> 0 \<and> view (tm_storage m') = c \<and> P c \<and> restorable_ok P m'"
      using m assms by (auto simp: needs_end_def tm_defs m'_def)
    then show ?thesis
      by (rule tripleE [OF Flush_triple]) (simp_all add: step True)
  next
    case False
    then have "at_rest P c m'"
      using m assms by (auto simp: tm_defs m'_def word_gt_0 not_le split: if_splits)
    moreover have "sz = 1 \<longrightarrow> batchedCommits m = 0"
      using False word_le_sub1 [of "batchedCommits m"] by auto
    ultimately show ?thesis
      using False by (simp add: step m'_def)
  qed
qed

text \<open>The rule for a scope with an active transaction.\<close>

lemma ActiveTransaction_triple:
  assumes body: "triple (\<lambda>mx. within P c (fst mx) \<and> X (snd mx)) body
      (\<lambda>_ mx. \<exists>c'. within P c' (fst mx) \<and> Q c' (snd mx)) (\<lambda>mx. broken P (fst mx))"
  shows "triple (\<lambda>mx. at_rest P c (fst mx) \<and> X (snd mx)) (ActiveTransaction si body)
      (\<lambda>_ mx. \<exists>c'. at_rest P c' (fst mx) \<and> Q c' (snd mx)) (\<lambda>mx. rolled_back P (fst mx))"
proof (rule tripleI)
  fix mx :: "'st tx_manager \<times> 'a"
  assume pre: "at_rest P c (fst mx) \<and> X (snd mx)"
  obtain m where m: "TM_BeginTransaction si (fst mx) = Some m" "within P c m"
    using TM_begin pre by blast
  define commit where
    "commit = (\<lambda>(_ :: unit) mx. do { (r, m) \<leftarrow> TM_CommitTransaction si (fst mx); Some (r, (m, snd mx :: 'a)) })"
  have "triple (\<lambda>mx. \<exists>c'. within P c' (fst mx) \<and> Q c' (snd mx)) (commit ())
      (\<lambda>_ mx. \<exists>c'. at_rest P c' (fst mx) \<and> Q c' (snd mx)) (\<lambda>mx. broken P (fst mx))"
  proof (rule tripleI, elim exE conjE)
    fix mx :: "'st tx_manager \<times> 'a" and c'
    assume "within P c' (fst mx)" and Q: "Q c' (snd mx)"
    then show "\<exists>r mx'. commit () mx = Some (r, mx') \<and> (case r of
        Returned _ \<Rightarrow> \<exists>c'. at_rest P c' (fst mx') \<and> Q c' (snd mx')
      | RetryWithNewTransaction \<Rightarrow> broken P (fst mx'))"
      by - (rule tripleE [OF TM_commit], assumption, auto simp: commit_def)
  qed
  then have *: "triple (\<lambda>mx. within P c (fst mx) \<and> X (snd mx)) (exec_seq body commit)
      (\<lambda>_ mx. \<exists>c'. at_rest P c' (fst mx) \<and> Q c' (snd mx)) (\<lambda>mx. broken P (fst mx))"
    by (intro triple_seq [OF body]) simp
  have step: "ActiveTransaction si body mx = do {
      (r, mx) \<leftarrow> exec_seq body commit (m, snd mx);
      (case r of
          Returned _ \<Rightarrow> Some (Returned (), mx)
        | RetryWithNewTransaction \<Rightarrow>
            do { m \<leftarrow> TM_RollbackTransaction si (fst mx); Some (RetryWithNewTransaction, (m, snd mx)) }) }"
    by (simp add: ActiveTransaction_def m commit_def)
  have "within P c (fst (m, snd mx)) \<and> X (snd (m, snd mx))"
    using m pre by simp
  then show "\<exists>r mx'. ActiveTransaction si body mx = Some (r, mx') \<and> (case r of
        Returned _ \<Rightarrow> \<exists>c'. at_rest P c' (fst mx') \<and> Q c' (snd mx')
      | RetryWithNewTransaction \<Rightarrow> rolled_back P (fst mx'))"
  proof (rule tripleE [OF *])
    fix t
    assume t: "exec_seq body commit (m, snd mx) = Some (RetryWithNewTransaction, t)" "broken P (fst t)"
    moreover have unreliable
      using t(2) by (simp add: broken_def)
    moreover obtain m' where "TM_RollbackTransaction si (fst t) = Some m'" "batchedCommits m' = 0"
      "\<exists>c. at_rest P c m'"
      using TM_rollback [of "fst t" P] t(2) by (auto simp: broken_def)
    ultimately show ?thesis
      unfolding rolled_back_def step by simp
  qed (simp add: step)
qed

text \<open>An update of the storage within a transaction.\<close>

lemma update_triple:
  assumes op: "updating unreliable phase view restorable upd op"
    and P: "\<And>c'. upd c c' \<Longrightarrow> P c'"
  shows "triple (\<lambda>mx. within P c (fst mx) \<and> X (snd mx)) (with_storage op)
    (\<lambda>_ mx. \<exists>c'. within P c' (fst mx) \<and> upd c c' \<and> X (snd mx)) (\<lambda>mx. broken P (fst mx))"
proof (rule tripleI)
  fix mx :: "'st tx_manager \<times> 'a"
  assume pre: "within P c (fst mx) \<and> X (snd mx)"
  define st where "st = tm_storage (fst mx)"
  have st: "phase st = Open" "view st = c" "\<forall>c\<in>restorable st. P c"
    using pre by (auto simp: tm_defs st_def)
  then obtain r st' where op': "op st = Some (r, st')"
    "case r of
       Returned _ \<Rightarrow> phase st' = Open \<and> upd (view st) (view st') \<and> restorable st' \<subseteq> insert (view st') (restorable st)
     | RetryWithNewTransaction \<Rightarrow> unreliable \<and> needs_end (phase st') \<and> restorable st' \<subseteq> restorable st"
    using op unfolding updating_def by blast
  show "\<exists>r mx'. with_storage op mx = Some (r, mx') \<and> (case r of
        Returned _ \<Rightarrow> \<exists>c'. within P c' (fst mx') \<and> upd c c' \<and> X (snd mx')
      | RetryWithNewTransaction \<Rightarrow> broken P (fst mx'))"
  proof (cases r)
    case (Returned u)
    have "P (view st')"
      using P op' st Returned by simp
    then have "within P (view st') ((fst mx)\<lparr>tm_storage := st'\<rparr>)"
      using pre op' st Returned unfolding tm_defs by auto
    then show ?thesis
      using pre op' st Returned by (auto simp: with_storage_def st_def)
  next
    case RetryWithNewTransaction
    have "broken P ((fst mx)\<lparr>tm_storage := st'\<rparr>)"
      using pre op' st RetryWithNewTransaction unfolding tm_defs by auto
    then show ?thesis
      using op' RetryWithNewTransaction by (simp add: with_storage_def st_def)
  qed
qed

lemma update2_triple:
  assumes op1: "updating unreliable phase view restorable upd1 op1"
    and op2: "updating unreliable phase view restorable upd2 op2"
    and P: "\<And>c1. upd1 c c1 \<Longrightarrow> P c1" "\<And>c1 c2. upd1 c c1 \<Longrightarrow> upd2 c1 c2 \<Longrightarrow> P c2"
  shows "triple (\<lambda>mx. within P c (fst mx) \<and> X (snd mx)) (exec_seq (with_storage op1) (\<lambda>_. with_storage op2))
    (\<lambda>_ mx. \<exists>c2. within P c2 (fst mx) \<and> ((\<exists>c1. upd1 c c1 \<and> upd2 c1 c2) \<and> X (snd mx))) (\<lambda>mx. broken P (fst mx))"
proof (rule triple_seq [OF update_triple [OF op1 P(1), where X = X]], assumption, rule triple_ex)
  fix c1
  have *: "triple (\<lambda>mx. within P c1 (fst mx) \<and> X (snd mx)) (with_storage op2)
    (\<lambda>_ mx. \<exists>c2. within P c2 (fst mx) \<and> upd2 c1 c2 \<and> X (snd mx)) (\<lambda>mx. broken P (fst mx))" if "upd1 c c1"
    by (rule update_triple [OF op2 P(2) [OF that]])
  have "triple (\<lambda>mx. upd1 c c1 \<and> within P c1 (fst mx) \<and> X (snd mx)) (with_storage op2)
    (\<lambda>_ mx. \<exists>c2. within P c2 (fst mx) \<and> ((\<exists>c1. upd1 c c1 \<and> upd2 c1 c2) \<and> X (snd mx))) (\<lambda>mx. broken P (fst mx))"
    by (rule triple_pure, rule triple_weaken [OF *]) auto
  then show "triple (\<lambda>mx. within P c1 (fst mx) \<and> upd1 c c1 \<and> X (snd mx)) (with_storage op2)
    (\<lambda>_ mx. \<exists>c2. within P c2 (fst mx) \<and> ((\<exists>c1. upd1 c c1 \<and> upd2 c1 c2) \<and> X (snd mx))) (\<lambda>mx. broken P (fst mx))"
    by (rule triple_weaken) auto
qed

end

locale storage_contract = transactional +
  assumes hash_law: "phase st \<in> {Idle, Open} \<Longrightarrow> st_GetCurrentBlockHash si st = map_option fst (cur (view st))"
    and state_law: "phase st \<in> {Idle, Open} \<Longrightarrow> st_GetCurrentGameState si st = map_option snd (cur (view st))"
    and undo_law: "phase st \<in> {Idle, Open} \<Longrightarrow> st_GetUndoData si h st = map_option snd (undos (view st) h)"
    and clear_law: "phase st = Idle \<Longrightarrow> \<exists>st'. st_Clear si st = Some st' \<and> phase st' = Idle \<and>
      view st' = \<lparr>cur = None, undos = Map.empty\<rparr> \<and> restorable st' \<subseteq> {\<lparr>cur = None, undos = Map.empty\<rparr>}"
    and set_law: "wf_uint256 h \<Longrightarrow> updating unreliable phase view restorable (upd_current h d) (st_SetCurrentGameState si h d)"
    and add_law: "updating unreliable phase view restorable (upd_add h ht d) (st_AddUndoData si h ht d)"
    and release_law: "updating unreliable phase view restorable (upd_release h) (st_ReleaseUndoData si h)"
    and prune_law: "updating unreliable phase view restorable (upd_prune ht) (st_PruneUndoData si ht)"
begin

lemma lift_updating:
  assumes "updating unreliable phase view restorable upd op"
  shows "updating unreliable (\<lambda>c. phase (wrapped c)) (\<lambda>c. view (wrapped c)) (\<lambda>c. restorable (wrapped c)) upd
    (lift_exec op)"
  unfolding updating_def
proof (intro allI impI)
  fix c :: "'a cached_storage"
  assume "phase (wrapped c) = Open"
  then obtain r st' where "op (wrapped c) = Some (r, st')"
    "case r of
       Returned _ \<Rightarrow> phase st' = Open \<and> upd (view (wrapped c)) (view st') \<and> restorable st' \<subseteq> insert (view st') (restorable (wrapped c))
     | RetryWithNewTransaction \<Rightarrow> unreliable \<and> needs_end (phase st') \<and> restorable st' \<subseteq> restorable (wrapped c)"
    using assms unfolding updating_def by blast
  then show "\<exists>r c'. lift_exec op c = Some (r, c') \<and>
      (case r of
         Returned _ \<Rightarrow> phase (wrapped c') = Open \<and> upd (view (wrapped c)) (view (wrapped c')) \<and>
           restorable (wrapped c') \<subseteq> insert (view (wrapped c')) (restorable (wrapped c))
       | RetryWithNewTransaction \<Rightarrow> unreliable \<and> needs_end (phase (wrapped c')) \<and> restorable (wrapped c') \<subseteq> restorable (wrapped c))"
    by (cases r) (simp_all add: lift_exec_def)
qed

lemma set_with_height_updating:
  assumes "wf_uint256 h"
  shows "updating unreliable (\<lambda>c. phase (wrapped c)) (\<lambda>c. view (wrapped c)) (\<lambda>c. restorable (wrapped c))
    (upd_current h d) (SetCurrentGameStateWithHeight si h ht d)"
  using lift_updating [OF set_law [OF assms], of d]
  unfolding updating_def SetCurrentGameStateWithHeight_def exec_seq_def
  by (fastforce split: outcome.splits)

end

text \<open>The wrapper with the cached height is transactional like the storage it wraps.\<close>

sublocale storage_contract \<subseteq> cached: transactional "StorageWithCachedHeight si" unreliable
  "\<lambda>c. phase (wrapped c)" "\<lambda>c. view (wrapped c)" "\<lambda>c. restorable (wrapped c)"
proof unfold_locales
  fix c :: "'a cached_storage"
  assume c: "phase (wrapped c) = Idle"
  show "\<exists>c'. st_BeginTransaction (StorageWithCachedHeight si) c = Some c' \<and> phase (wrapped c') = Open \<and>
      view (wrapped c') = view (wrapped c) \<and> restorable (wrapped c') \<subseteq> insert (view (wrapped c)) (restorable (wrapped c))"
    using begin_law [OF c] by (auto simp: StorageWithCachedHeight_def)
next
  fix c :: "'a cached_storage"
  assume c: "phase (wrapped c) = Open"
  then obtain r st' where st': "st_CommitTransaction si (wrapped c) = Some (r, st')"
    "case r of
       Returned _ \<Rightarrow> phase st' = Idle \<and> view st' = view (wrapped c) \<and>
         restorable st' \<subseteq> insert (view (wrapped c)) (restorable (wrapped c))
     | RetryWithNewTransaction \<Rightarrow> unreliable \<and> needs_end (phase st') \<and> restorable st' \<subseteq> restorable (wrapped c)"
    using commit_law by blast
  then show "\<exists>r c'. st_CommitTransaction (StorageWithCachedHeight si) c = Some (r, c') \<and>
      (case r of
         Returned _ \<Rightarrow> phase (wrapped c') = Idle \<and> view (wrapped c') = view (wrapped c) \<and>
           restorable (wrapped c') \<subseteq> insert (view (wrapped c)) (restorable (wrapped c))
       | RetryWithNewTransaction \<Rightarrow> unreliable \<and> needs_end (phase (wrapped c')) \<and> restorable (wrapped c') \<subseteq> restorable (wrapped c))"
    by (cases r) (simp_all add: StorageWithCachedHeight_def lift_exec_def)
next
  fix c :: "'a cached_storage"
  assume c: "needs_end (phase (wrapped c))"
  show "\<exists>c'. st_RollbackTransaction (StorageWithCachedHeight si) c = Some c' \<and> phase (wrapped c') = Idle \<and>
      view (wrapped c') \<in> restorable (wrapped c) \<and> restorable (wrapped c') \<subseteq> restorable (wrapped c)"
    using rollback_law [OF c] by (auto simp: StorageWithCachedHeight_def)
qed

subsection \<open>The in-memory storage keeps the contract\<close>

definition memory_view :: "memory_storage \<Rightarrow> contents" where
  "memory_view st =
     \<lparr>cur = (if hasState st then Some (currentBlock st, currentState st) else None), undos = undoData st\<rparr>"

definition memory_phase :: "memory_storage \<Rightarrow> storage_phase" where
  "memory_phase st = (if startedTxn st then Open else Idle)"

lemma memory_phase_simps [simp]:
  "memory_phase st = Open \<longleftrightarrow> startedTxn st" "memory_phase st = Idle \<longleftrightarrow> \<not> startedTxn st"
  "memory_phase st \<noteq> Failed" "needs_end (memory_phase st) \<longleftrightarrow> startedTxn st"
  by (simp_all add: memory_phase_def)

interpretation memory: storage_contract MemoryStorage False memory_phase memory_view "\<lambda>st. {memory_view st}"
proof unfold_locales
  show "updating False memory_phase memory_view (\<lambda>st. {memory_view st}) (upd_add h ht d)
      (st_AddUndoData MemoryStorage h ht d)" for h ht d
    by (auto simp: updating_def MemoryStorage_def MemoryStorage_defs upd_defs memory_view_def
        intro!: ext split: option.splits)
  show "updating False memory_phase memory_view (\<lambda>st. {memory_view st}) (upd_prune ht)
      (st_PruneUndoData MemoryStorage ht)" for ht
    by (auto simp: updating_def MemoryStorage_def MemoryStorage_defs upd_defs memory_view_def map_le_def
        split: option.splits if_splits)
qed (auto simp: MemoryStorage_def MemoryStorage_defs memory_view_def updating_def upd_defs)

end
