(* ===== verification/SQLite_Database.thy ===== *)
theory SQLite_Database
  imports Storage_Contract
begin

text \<open>
  Connections to an SQLite database: the first half of \<open>src/xayagame/sqlitestorage.cpp\<close> and
  \<open>sqlitestorage.hpp\<close>.

  Modelled are the values of columns and parameters, the cache of prepared statements with the
  handles on it, and the execution of statements.  SQLite itself is a parameter: a record of
  functions on connections of any type.  What its documentation says of them is the locale
  \<open>sqlite_documented\<close>.  It relates a connection to the contents that it sees, the contents of the
  file, which is what is left after a crash and what other connections see, and the stack of
  savepoints: \<open>SAVEPOINT\<close> pushes a name; \<open>RELEASE\<close> removes the most recent savepoint with that name and
  all later ones, and commits when the stack becomes empty; \<open>ROLLBACK TO\<close> restores the contents at
  the most recent savepoint with that name, which stays on the stack.  A write outside of all
  savepoints is committed at once.

  Shown here: what is written to a column is read back, with the exception of large 32-bit numbers;
  and no two handles ever share a prepared statement.
\<close>

subsection \<open>Columns\<close>

text \<open>What is bound to a parameter of a statement, and what is read from a column.\<close>

definition Bind_int64 :: "64 word \<Rightarrow> int" where
  "Bind_int64 val = sint val"

definition Bind_uint64 :: "64 word \<Rightarrow> int run" where
  "Bind_uint64 val = do { CHECK (uint val \<le> 2 ^ 63 - 1); Some (Bind_int64 val) }"

definition Bind_int :: "32 word \<Rightarrow> int" where
  "Bind_int val = Bind_int64 (scast val)"

definition Bind_unsigned :: "uint32 \<Rightarrow> int run" where
  "Bind_unsigned val = Bind_uint64 (ucast val)"

definition Bind_bool :: "bool \<Rightarrow> int" where
  "Bind_bool val = Bind_int (if val then 1 else 0)"

definition Bind_uint256 :: "uint256 \<Rightarrow> string" where
  "Bind_uint256 val = GetBinaryString val"

definition Get_int64 :: "int \<Rightarrow> 64 word" where
  "Get_int64 col = word_of_int col"

definition Get_uint64 :: "int \<Rightarrow> 64 word run" where
  "Get_uint64 col = (let val = Get_int64 col in do { CHECK (sint val \<ge> 0); Some val })"

definition Get_int :: "int \<Rightarrow> 32 word run" where
  "Get_int col =
     (let val = Get_int64 col
      in do { CHECK (sint val \<le> 2 ^ 31 - 1); CHECK (sint val \<ge> - (2 ^ 31)); Some (word_of_int (sint val)) })"

definition Get_unsigned :: "int \<Rightarrow> uint32 run" where
  "Get_unsigned col = do { val \<leftarrow> Get_int col; CHECK (sint val \<ge> 0); Some val }"

definition Get_bool :: "int \<Rightarrow> bool run" where
  "Get_bool col = do { val \<leftarrow> Get_int col; CHECK (val = 0 \<or> val = 1); Some (val \<noteq> 0) }"

definition Get_uint256 :: "string \<Rightarrow> uint256 run" where
  "Get_uint256 col = do { CHECK (length col = NUM_BYTES); Some (FromBlob (bytes_of_string col)) }"

lemma Get_int64_Bind [simp]: "Get_int64 (Bind_int64 w) = w"
  by (simp add: Get_int64_def Bind_int64_def)

lemma sint_stored:
  "uint (w :: 64 word) < 2 ^ 63 \<Longrightarrow> sint w = uint w" "uint (n :: 32 word) < 2 ^ 31 \<Longrightarrow> sint n = uint n"
  by (simp_all add: sint_uint signed_take_bit_int_eq_self order_trans [of _ 0])

lemma Bind_uint64_eq: "Bind_uint64 w = (if uint w < 2 ^ 63 then Some (uint w) else None)"
  using sint_stored(1) [of w] by (auto simp: Bind_uint64_def Bind_int64_def bind_CHECK)

lemma Bind_unsigned_eq: "Bind_unsigned n = Some (uint n)"
proof -
  have "uint (ucast n :: 64 word) = uint n" "uint n < 2 ^ 32"
    using unsigned_less [of n, where ?'a = int] by (simp_all add: unsigned_ucast_eq take_bit_int_eq_self_iff)
  then show ?thesis
    by (simp add: Bind_unsigned_def Bind_uint64_eq)
qed

lemma sint_column: "- (2 ^ 63) \<le> k \<Longrightarrow> k < 2 ^ 63 \<Longrightarrow> sint (word_of_int k :: 64 word) = k"
  by (simp add: sint_sbintrunc' signed_take_bit_int_eq_self_iff)

lemma Get_uint256_Bind: "wf_uint256 u \<Longrightarrow> Get_uint256 (Bind_uint256 u) = Some u"
  by (simp add: Get_uint256_def Bind_uint256_def GetBinaryString_def FromBlob_def wf_uint256_def bind_CHECK)

lemma Get_int_eq:
  assumes "- (2 ^ 63) \<le> k" "k < 2 ^ 63"
  shows "Get_int k = (if - (2 ^ 31) \<le> k \<and> k < 2 ^ 31 then Some (word_of_int k) else None)"
  unfolding Get_int_def Get_int64_def Let_def sint_column [OF assms] by (auto simp: bind_CHECK)

lemma Bind_Get_unsigned:
  "Option.bind (Bind_unsigned n) Get_unsigned = (if uint n < 2 ^ 31 then Some n else None)"
proof -
  have n: "0 \<le> uint n" "uint n < 2 ^ 32"
    using unsigned_less [of n, where ?'a = int] by simp_all
  then have "Get_int (uint n) = (if uint n < 2 ^ 31 then Some n else None)"
    by (subst Get_int_eq) (simp_all add: order_trans [of _ 0 "uint n"])
  then show ?thesis
    using sint_stored(2) [of n] by (simp add: Bind_unsigned_eq Get_unsigned_def bind_CHECK)
qed

lemma Get_bool_Bind: "Get_bool (Bind_bool b) = Some b"
  by (cases b) (simp_all add: Get_bool_def Bind_bool_def Bind_int_def Get_int_def Bind_int64_def Get_int64_def bind_CHECK)

text \<open>C35. Column values: a block hash and a flag are read back as they were written, and a 64-bit number is
  either refused or read back.  But every 32-bit number is accepted, and only those that fit in a
  signed one are read back; reading a larger one aborts.\<close>

theorem columns_roundtrip:
  assumes "wf_uint256 u"
  shows "Get_uint256 (Bind_uint256 u) = Some u \<and> Get_bool (Bind_bool b) = Some b \<and>
    Option.bind (Bind_uint64 w) Get_uint64 = (if uint w < 2 ^ 63 then Some w else None) \<and>
    Bind_unsigned n \<noteq> None \<and> Option.bind (Bind_unsigned n) Get_unsigned = (if uint n < 2 ^ 31 then Some n else None)"
proof (intro conjI)
  show "Option.bind (Bind_uint64 w) Get_uint64 = (if uint w < 2 ^ 63 then Some w else None)"
    using sint_stored(1) [of w] by (simp add: Bind_uint64_eq Get_uint64_def Get_int64_def bind_CHECK Let_def)
  show "Bind_unsigned n \<noteq> None"
    by (simp add: Bind_unsigned_eq)
qed (use assms in \<open>simp_all add: Get_uint256_Bind Get_bool_Bind Bind_Get_unsigned\<close>)

theorem columns_roundtrip_witness:
  "Get_uint256 (Bind_uint256 (replicate 32 5)) = Some (replicate 32 5) \<and>
    Option.bind (Bind_unsigned 0x80000000) Get_unsigned = None"
  using columns_roundtrip [of "replicate 32 5" True 0 "0x80000000"] by (simp add: wf_uint256_def NUM_BYTES_def)

subsection \<open>Prepared statements\<close>

text \<open>The cache of a connection is the list of its entries in the order of their creation; an entry is
  referred to by its position.  The entries for one SQL string are searched in that order.\<close>

record cached_statement =
  cs_sql :: string
  cs_used :: bool

definition PrepareRo :: "string \<Rightarrow> cached_statement list \<Rightarrow> nat \<times> cached_statement list" where
  "PrepareRo sql cache =
     (case find (\<lambda>i. cs_sql (cache ! i) = sql \<and> \<not> cs_used (cache ! i)) [0..<length cache] of
        Some i \<Rightarrow> (i, cache[i := (cache ! i)\<lparr>cs_used := True\<rparr>])
      | None \<Rightarrow> (length cache, cache @ [\<lparr>cs_sql = sql, cs_used = True\<rparr>]))"

text \<open>A \<open>Statement\<close> holds an entry or, after it has been moved from, none.\<close>

type_synonym statement = "nat option"

definition Statement_Clear :: "statement \<Rightarrow> cached_statement list \<Rightarrow> cached_statement list" where
  "Statement_Clear s cache =
     (case s of None \<Rightarrow> cache | Some i \<Rightarrow> cache[i := (cache ! i)\<lparr>cs_used := False\<rparr>])"

definition Statement_assign ::
    "statement \<Rightarrow> statement \<Rightarrow> cached_statement list \<Rightarrow> statement \<times> statement \<times> cached_statement list" where
  "Statement_assign this other cache = (other, None, Statement_Clear this cache)"

definition Statement_ro :: "statement \<Rightarrow> nat run" where
  "Statement_ro s = do { CHECK (s \<noteq> None); s }"

definition clear_preparedStatements :: "cached_statement list \<Rightarrow> unit run" where
  "clear_preparedStatements cache = CHECK (list_all (\<lambda>e. \<not> cs_used e) cache)"

text \<open>The code that uses a connection prepares statements, moves the handles around and drops them.\<close>

record statements =
  stmt_cache :: "cached_statement list"
  stmt_handles :: "statement list"

inductive statement_step :: "statements \<Rightarrow> statements \<Rightarrow> bool" where
  prepare: "PrepareRo sql (stmt_cache s) = (i, cache) \<Longrightarrow>
    statement_step s \<lparr>stmt_cache = cache, stmt_handles = stmt_handles s @ [Some i]\<rparr>"
| assign: "Statement_assign (hs ! k) (hs ! j) (stmt_cache s) = (x, y, cache) \<Longrightarrow> hs = stmt_handles s \<Longrightarrow>
    k < length hs \<Longrightarrow> j < length hs \<Longrightarrow> k \<noteq> j \<Longrightarrow>
    statement_step s \<lparr>stmt_cache = cache, stmt_handles = hs[k := x, j := y]\<rparr>"
| destroy: "stmt_handles s = hs @ h # hs' \<Longrightarrow>
    statement_step s \<lparr>stmt_cache = Statement_Clear h (stmt_cache s), stmt_handles = hs @ hs'\<rparr>"

inductive_cases statement_stepE: "statement_step s s'"

text \<open>Every entry in use is held by exactly one handle.\<close>

definition holders :: "statements \<Rightarrow> nat \<Rightarrow> nat" where
  "holders s i = count_list (stmt_handles s) (Some i)"

definition statements_ok :: "statements \<Rightarrow> bool" where
  "statements_ok s \<longleftrightarrow>
     (\<forall>i. holders s i = (if i < length (stmt_cache s) \<and> cs_used (stmt_cache s ! i) then 1 else 0))"

lemma PrepareRo_cases:
  assumes "PrepareRo sql cache = (i, cache')"
  obtains (reused) "i < length cache" "cs_sql (cache ! i) = sql" "\<not> cs_used (cache ! i)"
      "cache' = cache[i := (cache ! i)\<lparr>cs_used := True\<rparr>]"
    | (created) "i = length cache" "cache' = cache @ [\<lparr>cs_sql = sql, cs_used = True\<rparr>]"
  using assms unfolding PrepareRo_def by (auto split: option.splits simp: find_Some_iff)

lemma count_list_update:
  "k < length xs \<Longrightarrow> count_list (xs[k := y]) z + (if xs ! k = z then 1 else 0) = count_list xs z + (if y = z then 1 else 0)"
proof (induction xs arbitrary: k)
  case (Cons x xs)
  show ?case
    using Cons.IH [of "k - 1"] Cons.prems by (cases k) (auto split: if_splits)
qed simp

lemma prepare_ok:
  assumes "statements_ok s" "PrepareRo sql (stmt_cache s) = (i, cache)"
  shows "statements_ok \<lparr>stmt_cache = cache, stmt_handles = stmt_handles s @ [Some i]\<rparr>"
  using assms(2)
proof (cases rule: PrepareRo_cases)
  case reused
  then show ?thesis
    using assms(1) by (auto simp: statements_ok_def holders_def nth_list_update)
next
  case created
  then show ?thesis
    using assms(1) by (auto simp: statements_ok_def holders_def nth_append)
qed

lemma clear_ok:
  assumes ok: "statements_ok s" and h: "h \<in> set (stmt_handles s)"
    and hs: "\<And>x. count_list hs (Some x) + (if h = Some x then 1 else 0) = holders s x"
  shows "statements_ok \<lparr>stmt_cache = Statement_Clear h (stmt_cache s), stmt_handles = hs\<rparr>"
proof (cases h)
  case None
  then show ?thesis
    using ok hs by (simp add: statements_ok_def holders_def Statement_Clear_def)
next
  case (Some i)
  have "holders s i \<noteq> 0"
    using h Some by (simp add: holders_def count_list_0_iff)
  then have i: "i < length (stmt_cache s)" "cs_used (stmt_cache s ! i)" "holders s i = 1"
    using ok by (auto simp: statements_ok_def split: if_splits)
  show ?thesis
    unfolding statements_ok_def
  proof (intro allI)
    fix x
    show "holders \<lparr>stmt_cache = Statement_Clear h (stmt_cache s), stmt_handles = hs\<rparr> x =
        (if x < length (stmt_cache \<lparr>stmt_cache = Statement_Clear h (stmt_cache s), stmt_handles = hs\<rparr>) \<and>
            cs_used (stmt_cache \<lparr>stmt_cache = Statement_Clear h (stmt_cache s), stmt_handles = hs\<rparr> ! x) then 1 else 0)"
      using ok i hs [of x] Some
      by (cases "x = i") (auto simp: statements_ok_def holders_def Statement_Clear_def nth_list_update split: if_splits)
  qed
qed

lemma statement_step_ok:
  assumes "statement_step s s'" "statements_ok s"
  shows "statements_ok s'"
  using assms(1)
proof cases
  case (prepare sql i cache)
  then show ?thesis
    using prepare_ok [OF assms(2)] by simp
next
  case (assign hs k j x y cache)
  have "count_list (hs[k := hs ! j, j := None]) (Some z) + (if hs ! k = Some z then 1 else 0) = holders s z" for z
    using count_list_update [of k hs "hs ! j" "Some z"] count_list_update [of j "hs[k := hs ! j]" None "Some z"] assign
    by (auto simp: holders_def split: if_splits)
  then show ?thesis
    using clear_ok [OF assms(2), of "hs ! k" "hs[k := hs ! j, j := None]"] assign by (simp add: Statement_assign_def)
next
  case (destroy hs h hs')
  then show ?thesis
    using clear_ok [OF assms(2), of h "hs @ hs'"] by (simp add: holders_def)
qed

text \<open>C33. Prepared statements are exclusive: whatever is prepared, moved and dropped on a new connection, no
  two handles refer to the same prepared statement, and when no handle holds a statement any more, the
  connection can be closed without an abort.\<close>

theorem statements_exclusive:
  assumes "statement_step\<^sup>*\<^sup>* \<lparr>stmt_cache = [], stmt_handles = []\<rparr> s"
  shows "(\<forall>k j i. k < length (stmt_handles s) \<and> j < length (stmt_handles s) \<and> k \<noteq> j \<and>
      stmt_handles s ! k = Some i \<longrightarrow> stmt_handles s ! j \<noteq> Some i) \<and>
    (set (stmt_handles s) \<subseteq> {None} \<longrightarrow> clear_preparedStatements (stmt_cache s) = Some ())"
proof -
  have ok: "statements_ok s"
    using assms
  proof (induction rule: rtranclp_induct)
    case base
    show ?case
      by (simp add: statements_ok_def holders_def)
  next
    case (step y z)
    show ?case
      by (rule statement_step_ok [OF step(2) step.IH])
  qed
  have "stmt_handles s ! j \<noteq> Some i"
    if "k < length (stmt_handles s)" "j < length (stmt_handles s)" "k \<noteq> j" "stmt_handles s ! k = Some i" for k j i
  proof
    assume "stmt_handles s ! j = Some i"
    then have "count_list (stmt_handles s) (Some i) > 1"
      using that count_list_update [of k "stmt_handles s" None "Some i"]
        count_list_update [of j "(stmt_handles s)[k := None]" None "Some i"] by (simp split: if_splits)
    then show False
      using ok by (auto simp: statements_ok_def holders_def split: if_splits)
  qed
  moreover have "clear_preparedStatements (stmt_cache s) = Some ()" if "set (stmt_handles s) \<subseteq> {None}"
  proof -
    have "holders s i = 0" for i
      using that by (auto simp: holders_def count_list_0_iff)
    then have "\<not> cs_used (stmt_cache s ! i)" if "i < length (stmt_cache s)" for i
      using ok that by (metis statements_ok_def zero_neq_one)
    then show ?thesis
      by (simp add: clear_preparedStatements_def list_all_length)
  qed
  ultimately show ?thesis
    by blast
qed

definition two_statements :: statements where
  "two_statements = \<lparr>stmt_cache = replicate 2 \<lparr>cs_sql = ''SELECT 1'', cs_used = True\<rparr>, stmt_handles = [Some 0, Some 1]\<rparr>"

theorem statements_exclusive_witness:
  "statement_step\<^sup>*\<^sup>* \<lparr>stmt_cache = [], stmt_handles = []\<rparr> two_statements \<and>
    stmt_handles two_statements ! 0 = Some 0 \<and> stmt_handles two_statements ! 1 \<noteq> Some 0"
proof -
  let ?e = "\<lparr>cs_sql = ''SELECT 1'', cs_used = True\<rparr>"
  have "statement_step \<lparr>stmt_cache = [], stmt_handles = []\<rparr> \<lparr>stmt_cache = [?e], stmt_handles = [] @ [Some 0]\<rparr>"
    using statement_step.prepare [of "''SELECT 1''" "\<lparr>stmt_cache = [], stmt_handles = []\<rparr>" 0 "[?e]"]
    by (simp add: PrepareRo_def)
  moreover have "statement_step \<lparr>stmt_cache = [?e], stmt_handles = [] @ [Some 0]\<rparr> two_statements"
    using statement_step.prepare [of "''SELECT 1''" "\<lparr>stmt_cache = [?e], stmt_handles = [] @ [Some 0]\<rparr>" 1 "[?e, ?e]"]
    by (simp add: PrepareRo_def two_statements_def numeral_2_eq_2)
  ultimately have run: "statement_step\<^sup>*\<^sup>* \<lparr>stmt_cache = [], stmt_handles = []\<rparr> two_statements"
    by (meson converse_rtranclp_into_rtranclp rtranclp.rtrancl_refl)
  show ?thesis
    using run statements_exclusive [OF run] by (simp add: two_statements_def)
qed

subsection \<open>SQL statements\<close>

text \<open>The tables of the storage, and all further ones in the same database.\<close>

record 'd sqlite_tables =
  xayagame_current :: "string \<rightharpoonup> string"
  xayagame_undo :: "string \<rightharpoonup> string \<times> int"
  further_tables :: 'd

text \<open>The statements of the storage with their bound values, except for the queries.  A statement on
  further tables is given by its effect on them.\<close>

datatype 'd sql =
    Savepoint string
  | Release string
  | Rollback_to string
  | Create_tables
  | Insert_current string string
  | Insert_undo string string int
  | Delete_undo string
  | Delete_undo_upto int
  | Update_further "'d \<Rightarrow> 'd"

text \<open>SQLite: executing a statement tells whether there is a row, and \<open>None\<close> is an error code; a query
  for a key has a list of rows; \<open>sqlite_recreate\<close> closes the connection, removes the file and opens it
  again; \<open>sqlite_snapshot\<close> opens a second connection and starts a read transaction on it.\<close>

record ('c, 'd) sqlite_api =
  sqlite_step :: "'d sql \<Rightarrow> 'c \<Rightarrow> (bool \<times> 'c) run"
  select_current :: "string \<Rightarrow> 'c \<Rightarrow> string list"
  select_undo :: "string \<Rightarrow> 'c \<Rightarrow> string list"
  select_further :: "'c \<Rightarrow> 'd"
  sqlite_recreate :: "'c \<Rightarrow> 'c run"
  sqlite_snapshot :: "'c \<Rightarrow> 'c"

definition Statement_Execute :: "('c, 'd) sqlite_api \<Rightarrow> 'd sql \<Rightarrow> 'c \<Rightarrow> 'c run" where
  "Statement_Execute api q c = do { (more, c) \<leftarrow> sqlite_step api q c; CHECK (\<not> more); Some c }"

text \<open>A query that has at most one row: \<open>Step\<close>, the value of the column, and a check that there is no
  further row.\<close>

fun single_row :: "('v \<Rightarrow> 'a run) \<Rightarrow> 'v list \<Rightarrow> 'a option run" where
  "single_row get [] = Some None"
| "single_row get (v # rows) = do { x \<leftarrow> get v; CHECK (rows = []); Some (Some x) }"

subsection \<open>What the documentation says\<close>

record 't sql_connection =
  sql_file :: 't
  sql_stack :: "(string \<times> 't) list"
  sql_now :: 't

definition sql_open :: "'t \<Rightarrow> 't sql_connection" where
  "sql_open t = \<lparr>sql_file = t, sql_stack = [], sql_now = t\<rparr>"

definition sql_write :: "('t \<Rightarrow> 't) \<Rightarrow> 't sql_connection \<Rightarrow> 't sql_connection" where
  "sql_write f c =
     (let t = f (sql_now c)
      in c\<lparr>sql_now := t, sql_file := (if sql_stack c = [] then t else sql_file c)\<rparr>)"

definition SAVEPOINT :: "string \<Rightarrow> 't sql_connection \<Rightarrow> 't sql_connection" where
  "SAVEPOINT nm c = c\<lparr>sql_stack := (nm, sql_now c) # sql_stack c\<rparr>"

definition from_savepoint :: "string \<Rightarrow> 't sql_connection \<Rightarrow> (string \<times> 't) list" where
  "from_savepoint nm c = dropWhile (\<lambda>s. fst s \<noteq> nm) (sql_stack c)"

definition RELEASE :: "string \<Rightarrow> 't sql_connection \<Rightarrow> 't sql_connection option" where
  "RELEASE nm c =
     (case from_savepoint nm c of
        [] \<Rightarrow> None
      | _ # rest \<Rightarrow> Some (c\<lparr>sql_stack := rest, sql_file := (if rest = [] then sql_now c else sql_file c)\<rparr>))"

definition ROLLBACK_TO :: "string \<Rightarrow> 't sql_connection \<Rightarrow> 't sql_connection option" where
  "ROLLBACK_TO nm c =
     (case from_savepoint nm c of
        [] \<Rightarrow> None
      | s # rest \<Rightarrow> Some (c\<lparr>sql_stack := s # rest, sql_now := snd s\<rparr>))"

fun table_effect :: "'d sql \<Rightarrow> 'd sqlite_tables \<Rightarrow> 'd sqlite_tables" where
  "table_effect (Insert_current k v) t = t\<lparr>xayagame_current := (xayagame_current t)(k \<mapsto> v)\<rparr>"
| "table_effect (Insert_undo h d ht) t = t\<lparr>xayagame_undo := (xayagame_undo t)(h \<mapsto> (d, ht))\<rparr>"
| "table_effect (Delete_undo h) t = t\<lparr>xayagame_undo := (xayagame_undo t)(h := None)\<rparr>"
| "table_effect (Delete_undo_upto n) t = t\<lparr>xayagame_undo := (\<lambda>h. case xayagame_undo t h of
       None \<Rightarrow> None
     | Some (d, ht) \<Rightarrow> if ht \<le> n then None else Some (d, ht))\<rparr>"
| "table_effect (Update_further f) t = t\<lparr>further_tables := f (further_tables t)\<rparr>"
| "table_effect _ t = t"

fun sql_meaning :: "'d sql \<Rightarrow> 'd sqlite_tables sql_connection \<Rightarrow> 'd sqlite_tables sql_connection option" where
  "sql_meaning (Savepoint nm) c = Some (SAVEPOINT nm c)"
| "sql_meaning (Release nm) c = RELEASE nm c"
| "sql_meaning (Rollback_to nm) c = ROLLBACK_TO nm c"
| "sql_meaning q c = Some (sql_write (table_effect q) c)"

definition empty_tables :: "'d \<Rightarrow> 'd sqlite_tables" where
  "empty_tables d = \<lparr>xayagame_current = Map.empty, xayagame_undo = Map.empty, further_tables = d\<rparr>"

definition option_rows :: "'a option \<Rightarrow> 'a list" where
  "option_rows x = (case x of None \<Rightarrow> [] | Some y \<Rightarrow> [y])"

lemma single_row_option: "single_row get (option_rows x) = (case x of None \<Rightarrow> Some None | Some y \<Rightarrow> map_option Some (get y))"
  by (cases x) (auto simp: option_rows_def map_option_case split: option.splits)

lemma from_savepoint_simps:
  "from_savepoint nm (SAVEPOINT nm' c) = (if nm' = nm then (nm', sql_now c) # sql_stack c else from_savepoint nm c)"
  "from_savepoint nm (sql_write f c) = from_savepoint nm c"
  by (simp_all add: from_savepoint_def SAVEPOINT_def sql_write_def Let_def)

lemma set_from_savepoint: "set (from_savepoint nm c) \<subseteq> set (sql_stack c)"
  by (auto simp: from_savepoint_def dest: set_dropWhileD)

lemma sql_simps [simp]:
  "sql_now (sql_write f c) = f (sql_now c)" "sql_stack (sql_write f c) = sql_stack c"
  "sql_file (sql_write f c) = (if sql_stack c = [] then f (sql_now c) else sql_file c)"
  "sql_now (SAVEPOINT nm c) = sql_now c" "sql_file (SAVEPOINT nm c) = sql_file c"
  "sql_stack (SAVEPOINT nm c) = (nm, sql_now c) # sql_stack c"
  "sql_now (sql_open t) = t" "sql_file (sql_open t) = t" "sql_stack (sql_open t) = []"
  by (simp_all add: sql_write_def SAVEPOINT_def sql_open_def Let_def)

locale sqlite_documented =
  fixes api :: "('c, 'd) sqlite_api"
    and conn :: "'c \<Rightarrow> 'd sqlite_tables sql_connection"
    and no_tables :: 'd
  assumes step_law: "map_option (map_prod (\<lambda>more. more) conn) (sqlite_step api q c) =
      map_option (Pair False) (sql_meaning q (conn c))"
    and current_law: "select_current api k c = option_rows (xayagame_current (sql_now (conn c)) k)"
    and undo_law: "select_undo api h c = option_rows (map_option fst (xayagame_undo (sql_now (conn c)) h))"
    and further_law: "select_further api c = further_tables (sql_now (conn c))"
    and recreate_law: "\<exists>c'. sqlite_recreate api c = Some c' \<and> conn c' = sql_open (empty_tables no_tables)"
    and snapshot_law: "conn (sqlite_snapshot api c) = sql_open (sql_file (conn c))"
begin

lemma execute_meaning:
  "map_option conn (Statement_Execute api q c) = sql_meaning q (conn c)"
  using step_law [of q c] unfolding Statement_Execute_def
  by (cases "sqlite_step api q c"; cases "sql_meaning q (conn c)") auto

lemma execute_ex: "sql_meaning q (conn c) = Some t \<Longrightarrow> \<exists>c'. Statement_Execute api q c = Some c' \<and> conn c' = t"
  using execute_meaning [of q c] by (auto simp: map_option_case split: option.splits)

end

text \<open>A database that behaves as documented.\<close>

definition reference_sqlite :: "'d \<Rightarrow> ('d sqlite_tables sql_connection, 'd) sqlite_api" where
  "reference_sqlite d =
     \<lparr>sqlite_step = (\<lambda>q c. map_option (Pair False) (sql_meaning q c)),
      select_current = (\<lambda>k c. option_rows (xayagame_current (sql_now c) k)),
      select_undo = (\<lambda>h c. option_rows (map_option fst (xayagame_undo (sql_now c) h))),
      select_further = (\<lambda>c. further_tables (sql_now c)),
      sqlite_recreate = (\<lambda>c. Some (sql_open (empty_tables d))),
      sqlite_snapshot = (\<lambda>c. sql_open (sql_file c))\<rparr>"

interpretation reference: sqlite_documented "reference_sqlite d" "\<lambda>c. c" d for d
  by unfold_locales (simp_all add: reference_sqlite_def option.map_comp comp_def)

end
