(* ===== verification/Pending_Moves.thy ===== *)
theory Pending_Moves
  imports Uint256 Json
begin

text \<open>
  The processing of pending moves for any game: \<open>src/xayagame/pendingmoves.cpp\<close>.

  The processor keeps the known pending moves by transaction ID and the blocks attached last.  The
  game's own \<open>Clear\<close> and \<open>AddPendingMove\<close> are a record of functions on its pending state \<open>'p\<close>; the
  confirmed state and block, which the code puts into a context while a callback runs, are arguments
  of \<open>AddPendingMove\<close>.  The reply of the call \<open>getrawmempool\<close> is an argument.
\<close>

definition BLOCK_QUEUE_SIZE :: nat where
  "BLOCK_QUEUE_SIZE = 100"

record 'p pending_callbacks =
  cb_Clear :: "'p \<Rightarrow> 'p run"
  cb_AddPendingMove :: "string \<Rightarrow> json \<Rightarrow> json \<Rightarrow> 'p \<Rightarrow> 'p run"

record 'p pending_processor =
  pm_pending :: "uint256 \<rightharpoonup> json"
  pm_blockQueue :: "json list"
  pm_state :: 'p

definition GetMoveTxid :: "json \<Rightarrow> uint256 run" where
  "GetMoveTxid mv =
     do { let txidVal = json_get mv ''txid''; CHECK (isString txidVal); FromHex (asString txidVal) }"

text \<open>The loop of \<open>Reset\<close> over the transactions in the mempool; \<open>ctx\<close> is the context where there is
  a last block.\<close>

fun reset_loop ::
    "'p pending_callbacks \<Rightarrow> string \<Rightarrow> json option \<Rightarrow> (uint256 \<rightharpoonup> json) \<Rightarrow> json list \<Rightarrow>
     (uint256 \<rightharpoonup> json) \<times> 'p \<Rightarrow> ((uint256 \<rightharpoonup> json) \<times> 'p) run" where
  "reset_loop cb state ctx known [] np = Some np"
| "reset_loop cb state ctx known (txidStr # rest) np =
     do {
       CHECK (isString txidStr);
       txid \<leftarrow> FromHex (asString txidStr);
       (case known txid of
          None \<Rightarrow> reset_loop cb state ctx known rest np
        | Some mv \<Rightarrow>
            do {
              let newPending = (case fst np txid of None \<Rightarrow> (fst np)(txid \<mapsto> mv) | Some _ \<Rightarrow> fst np);
              p \<leftarrow> (case ctx of None \<Rightarrow> Some (snd np) | Some blk \<Rightarrow> cb_AddPendingMove cb state blk mv (snd np));
              reset_loop cb state ctx known rest (newPending, p)
            })
     }"

definition PendingMoves_Reset ::
    "'p pending_callbacks \<Rightarrow> json \<Rightarrow> string \<Rightarrow> 'p pending_processor \<Rightarrow> 'p pending_processor run" where
  "PendingMoves_Reset cb mempool state pp =
     do {
       p \<leftarrow> cb_Clear cb (pm_state pp);
       let ctx = (if pm_blockQueue pp = [] then None else Some (last (pm_blockQueue pp)));
       CHECK (case ctx of None \<Rightarrow> True | Some blk \<Rightarrow> isObject blk);
       (newPending, p) \<leftarrow> reset_loop cb state ctx (pm_pending pp) (json_array mempool) (Map.empty, p);
       Some (pp\<lparr>pm_pending := newPending, pm_state := p\<rparr>)
     }"

definition ProcessAttachedBlock ::
    "'p pending_callbacks \<Rightarrow> json \<Rightarrow> string \<Rightarrow> json \<Rightarrow> 'p pending_processor \<Rightarrow> 'p pending_processor run" where
  "ProcessAttachedBlock cb mempool state blockData pp =
     do {
       let blk = json_get blockData ''block'';
       CHECK (isObject blk);
       let queue = (if pm_blockQueue pp \<noteq> [] \<and> json_get (last (pm_blockQueue pp)) ''hash'' \<noteq> json_get blk ''parent''
                    then [] else pm_blockQueue pp);
       let queue = queue @ [blk];
       let queue = drop (length queue - BLOCK_QUEUE_SIZE) queue;
       PendingMoves_Reset cb mempool state (pp\<lparr>pm_blockQueue := queue\<rparr>)
     }"

fun insert_moves :: "json list \<Rightarrow> (uint256 \<rightharpoonup> json) \<Rightarrow> (uint256 \<rightharpoonup> json) run" where
  "insert_moves [] known = Some known"
| "insert_moves (mv # mvs) known =
     do {
       txid \<leftarrow> GetMoveTxid mv;
       insert_moves mvs (case known txid of None \<Rightarrow> known(txid \<mapsto> mv) | Some _ \<Rightarrow> known)
     }"

definition ProcessDetachedBlock ::
    "'p pending_callbacks \<Rightarrow> json \<Rightarrow> string \<Rightarrow> json \<Rightarrow> 'p pending_processor \<Rightarrow> 'p pending_processor run" where
  "ProcessDetachedBlock cb mempool state blockData pp =
     do {
       let mvArray = json_get blockData ''moves'';
       CHECK (isArray mvArray);
       known \<leftarrow> insert_moves (json_array mvArray) (pm_pending pp);
       let queue = pm_blockQueue pp;
       let queue = (if queue = [] then []
                    else if last queue = json_get blockData ''block'' then butlast queue else []);
       PendingMoves_Reset cb mempool state (pp\<lparr>pm_pending := known, pm_blockQueue := queue\<rparr>)
     }"

definition ProcessMove ::
    "'p pending_callbacks \<Rightarrow> string \<Rightarrow> json \<Rightarrow> 'p pending_processor \<Rightarrow> 'p pending_processor run" where
  "ProcessMove cb state mv pp =
     do {
       txid \<leftarrow> GetMoveTxid mv;
       (case pm_pending pp txid of
          Some _ \<Rightarrow> Some pp
        | None \<Rightarrow>
            do {
              let pp = pp\<lparr>pm_pending := (pm_pending pp)(txid \<mapsto> mv)\<rparr>;
              if pm_blockQueue pp = [] then Some pp
              else do {
                let blk = last (pm_blockQueue pp);
                CHECK (isObject blk);
                p \<leftarrow> cb_AddPendingMove cb state blk mv (pm_state pp);
                Some (pp\<lparr>pm_state := p\<rparr>)
              }
            })
     }"

end
