(* ===== verification/Game.thy ===== *)
theory Game
  imports Storage Game_Logic Pending_Moves "HOL-Library.AList"
begin

text \<open>
  The daemon that follows the blockchain: \<open>src/xayagame/game.cpp\<close>, and the dispatch of ZMQ messages
  to it in \<open>zmqsubscriber.cpp\<close>.

  The object is a record passed through.  It holds the transaction manager, which holds the storage
  with its cached height; the pruning queue and the pending-move processor are optional as in the
  code.  The game, the storage interface, the callbacks for pending moves and SHA-256 are in a record
  \<open>game_env\<close>; the answers of Xaya Core to the calls made while a notification is handled are in a
  record \<open>daemon\<close>.  The mutex serialises the handlers, so that each is one function.  An exception
  that leaves a handler terminates the process and is an abort.
\<close>

datatype sync_state = UNKNOWN | PREGENESIS | OUT_OF_SYNC | CATCHING_UP | UP_TO_DATE

definition StateToString :: "sync_state \<Rightarrow> string" where
  "StateToString s =
     (case s of
        UNKNOWN \<Rightarrow> ''unknown''
      | PREGENESIS \<Rightarrow> ''pregenesis''
      | OUT_OF_SYNC \<Rightarrow> ''out-of-sync''
      | CATCHING_UP \<Rightarrow> ''catching-up''
      | UP_TO_DATE \<Rightarrow> ''up-to-date'')"

record ('st, 'p) game =
  g_gameId :: string
  g_chain :: Chain
  g_state :: sync_state
  g_genesisHeight :: uint32
  g_genesisHash :: uint256
  g_targetBlockHash :: uint256
  g_reqToken :: string
  g_tm :: "'st cached_storage tx_manager"
  g_pruning :: "pruning_queue option"
  g_pending :: "'p pending_processor option"
  g_pendingStateVersion :: int
  g_transactionBatchSize :: uint32

record ('st, 'p) game_env =
  ge_storage :: "'st storage_interface"
  ge_logic :: game_logic
  ge_callbacks :: "'p pending_callbacks"
  ge_sha :: "string \<Rightarrow> uint256"

record daemon =
  bestblockhash :: string
  blocks :: uint32
  getblockhash :: "uint32 \<Rightarrow> string"
  game_sendupdates :: "string \<Rightarrow> string \<times> string"
  getblockheader_height :: "string \<Rightarrow> int option"
  getrawmempool :: json

text \<open>\<open>asUInt\<close> of jsoncpp: null is zero, a real number is truncated, and everything that is not in
  range throws.\<close>

definition json_asUInt :: "json \<Rightarrow> uint32 run" where
  "json_asUInt v =
     (case v of
        JNull \<Rightarrow> Some 0
      | JBool b \<Rightarrow> Some (if b then 1 else 0)
      | JInt i \<Rightarrow> if 0 \<le> i \<and> i < 2 ^ 32 then Some (word_of_int i) else None
      | JReal m e \<Rightarrow>
          if m < 0 then None
          else if e \<ge> 0 then (if m * 2 ^ nat e < 2 ^ 32 then Some (word_of_int (m * 2 ^ nat e)) else None)
          else if m \<le> (2 ^ 32 - 1) * 2 ^ nat (- e) then Some (word_of_int (m div 2 ^ nat (- e)))
          else None
      | _ \<Rightarrow> None)"

definition block_field :: "json \<Rightarrow> string \<Rightarrow> json" where
  "block_field blockData k = json_get (json_get blockData ''block'') k"

definition g_context :: "('st, 'p) game \<Rightarrow> processor_context" where
  "g_context g = \<lparr>pc_chain = g_chain g, pc_gameId = g_gameId g\<rparr>"

definition g_storage :: "('st, 'p) game \<Rightarrow> 'st cached_storage" where
  "g_storage g = tm_storage (g_tm g)"

abbreviation cached :: "('st, 'p) game_env \<Rightarrow> 'st cached_storage storage_interface" where
  "cached env \<equiv> StorageWithCachedHeight (ge_storage env)"

subsection \<open>Construction\<close>

text \<open>The constructor and \<open>SetStorage\<close>, after the connection to the daemon has told the chain.\<close>

definition ChainFromString :: "string \<Rightarrow> Chain run" where
  "ChainFromString s =
     (if s = ''main'' then Some MAIN
      else if s = ''test'' then Some TEST
      else if s = ''regtest'' then Some REGTEST
      else LOG_FATAL)"

definition Game_new ::
    "string \<Rightarrow> string \<Rightarrow> 'st \<Rightarrow> 'p pending_processor option \<Rightarrow> ('st, 'p) game run" where
  "Game_new i chainStr st pp =
     do {
       c \<leftarrow> ChainFromString chainStr;
       Some \<lparr>g_gameId = i, g_chain = c, g_state = UNKNOWN, g_genesisHeight = 0, g_genesisHash = SetNull,
         g_targetBlockHash = SetNull, g_reqToken = [],
         g_tm = TransactionManager_new \<lparr>crossCheck = (c = REGTEST), height_cache = None, wrapped = st\<rparr>,
         g_pruning = None, g_pending = pp, g_pendingStateVersion = 1, g_transactionBatchSize = 1000\<rparr>
     }"

definition EnablePruning :: "('st, 'p) game_env \<Rightarrow> uint32 \<Rightarrow> ('st, 'p) game \<Rightarrow> ('st, 'p) game run" where
  "EnablePruning env n g =
     (case g_pruning g of
        None \<Rightarrow> Some (g\<lparr>g_pruning := Some (PruningQueue_new n)\<rparr>)
      | Some q \<Rightarrow>
          do {
            (r, mq) \<leftarrow> SetDesiredSize (cached env) n (g_tm g, q);
            CHECK (r = Returned ());
            Some (g\<lparr>g_tm := fst mq, g_pruning := Some (snd mq)\<rparr>)
          })"

subsection \<open>Updates of the state for a block\<close>

definition UpdateStateForAttach ::
    "('st, 'p) game_env \<Rightarrow> uint256 \<Rightarrow> uint256 \<Rightarrow> json \<Rightarrow> (('st, 'p) game, bool) exec" where
  "UpdateStateForAttach env parent hash blockData g =
     do {
       currentHash \<leftarrow> st_GetCurrentBlockHash (cached env) (g_storage g);
       if currentHash \<noteq> parent then Some (Returned False, g)
       else do {
         oldState \<leftarrow> st_GetCurrentGameState (cached env) (g_storage g);
         height \<leftarrow> json_asUInt (block_field blockData ''height'');
         (r, mx) \<leftarrow> ActiveTransaction (cached env)
           (\<lambda>mx. do {
              (newState, undo) \<leftarrow> ProcessForward (ge_sha env) (g_context g) (ge_logic env) oldState blockData;
              exec_seq (with_storage (st_AddUndoData (cached env) hash height undo))
                (\<lambda>_. with_storage (SetCurrentGameStateWithHeight (ge_storage env) hash height newState)) mx
            }) (g_tm g, ());
         Some (case r of Returned _ \<Rightarrow> Returned True | RetryWithNewTransaction \<Rightarrow> RetryWithNewTransaction,
           g\<lparr>g_tm := fst mx\<rparr>)
       }
     }"

definition UpdateStateForDetach ::
    "('st, 'p) game_env \<Rightarrow> uint256 \<Rightarrow> uint256 \<Rightarrow> json \<Rightarrow> (('st, 'p) game, bool) exec" where
  "UpdateStateForDetach env parent hash blockData g =
     do {
       currentHash \<leftarrow> st_GetCurrentBlockHash (cached env) (g_storage g);
       if currentHash \<noteq> hash then Some (Returned False, g)
       else
         case st_GetUndoData (cached env) hash (g_storage g) of
           None \<Rightarrow>
             do {
               m \<leftarrow> TryAbortTransaction (cached env) (g_tm g);
               st \<leftarrow> st_Clear (cached env) (tm_storage m);
               Some (Returned False, g\<lparr>g_tm := m\<lparr>tm_storage := st\<rparr>\<rparr>)
             }
         | Some undo \<Rightarrow>
             do {
               newState \<leftarrow> st_GetCurrentGameState (cached env) (g_storage g);
               (r, mx) \<leftarrow> ActiveTransaction (cached env)
                 (\<lambda>mx. do {
                    oldState \<leftarrow> ProcessBackwards (ge_sha env) (g_context g) (ge_logic env) newState blockData undo;
                    height \<leftarrow> json_asUInt (block_field blockData ''height'');
                    CHECK (height > 0);
                    exec_seq (with_storage (SetCurrentGameStateWithHeight (ge_storage env) parent (height - 1) oldState))
                      (\<lambda>_. with_storage (st_ReleaseUndoData (cached env) hash)) mx
                  }) (g_tm g, ());
               Some (case r of Returned _ \<Rightarrow> Returned True | RetryWithNewTransaction \<Rightarrow> RetryWithNewTransaction,
                 g\<lparr>g_tm := fst mx\<rparr>)
             }
     }"

definition IsReqtokenRelevant :: "('st, 'p) game \<Rightarrow> json \<Rightarrow> bool" where
  "IsReqtokenRelevant g d =
     (let msgReqToken = (if isMember d ''reqtoken'' then asString (json_get d ''reqtoken'') else [])
      in if g_state g = CATCHING_UP then msgReqToken = g_reqToken g else msgReqToken = [])"

subsection \<open>Synchronisation\<close>

definition set_batch_size :: "('st, 'p) game_env \<Rightarrow> uint32 \<Rightarrow> ('st, 'p) game \<Rightarrow> ('st, 'p) game run" where
  "set_batch_size env sz g =
     do { (r, m) \<leftarrow> SetBatchSize (cached env) sz (g_tm g); CHECK (r = Returned ()); Some (g\<lparr>g_tm := m\<rparr>) }"

definition SyncFromCurrentState ::
    "('st, 'p) game_env \<Rightarrow> daemon \<Rightarrow> uint256 \<Rightarrow> ('st, 'p) game \<Rightarrow> ('st, 'p) game run" where
  "SyncFromCurrentState env d currentHash g =
     do {
       CHECK (g_state g = OUT_OF_SYNC);
       daemonBestHash \<leftarrow> FromHex (bestblockhash d);
       if daemonBestHash = currentHash then set_batch_size env 1 (g\<lparr>g_state := UP_TO_DATE\<rparr>)
       else do {
         let (toblock, reqtoken) = game_sendupdates d (ToHex currentHash);
         g \<leftarrow> set_batch_size env (g_transactionBatchSize g) (g\<lparr>g_state := CATCHING_UP\<rparr>);
         target \<leftarrow> FromHex toblock;
         Some (g\<lparr>g_targetBlockHash := target, g_reqToken := reqtoken\<rparr>)
       }
     }"

text \<open>The loop that stores the initial state until the storage does not throw.\<close>

partial_function (option) store_genesis ::
    "'st storage_interface \<Rightarrow> uint256 \<Rightarrow> uint32 \<Rightarrow> string \<Rightarrow> 'st cached_storage tx_manager \<Rightarrow>
     'st cached_storage tx_manager option" where
  "store_genesis si hash height genesisData m =
     do {
       (r, mx) \<leftarrow> ActiveTransaction (StorageWithCachedHeight si)
         (with_storage (SetCurrentGameStateWithHeight si hash height genesisData)) (m, ());
       (case r of
          Returned _ \<Rightarrow> Some (fst mx)
        | RetryWithNewTransaction \<Rightarrow> store_genesis si hash height genesisData (fst mx))
     }"

declare store_genesis.simps [code]

text \<open>The genesis height and hash are asked from the game once.\<close>

definition cache_genesis :: "('st, 'p) game_env \<Rightarrow> ('st, 'p) game \<Rightarrow> ('st, 'p) game run" where
  "cache_genesis env g =
     (if IsNull (g_genesisHash g) then
        do {
          (_, height, hashHex) \<leftarrow> GetInitialState (ge_sha env) (g_context g) (ge_logic env);
          hash \<leftarrow> FromHex hashHex;
          Some (g\<lparr>g_genesisHeight := height, g_genesisHash := hash\<rparr>)
        }
      else Some g)"

text \<open>From the genesis block on, the initial state is stored and the daemon syncs from there.\<close>

definition start_from_genesis :: "('st, 'p) game_env \<Rightarrow> daemon \<Rightarrow> ('st, 'p) game \<Rightarrow> ('st, 'p) game run" where
  "start_from_genesis env d g =
     do {
       m \<leftarrow> TryAbortTransaction (cached env) (g_tm g);
       st \<leftarrow> st_Clear (cached env) (tm_storage m);
       (genesisData, height, hashHex) \<leftarrow> GetInitialState (ge_sha env) (g_context g) (ge_logic env);
       hash \<leftarrow> FromHex hashHex;
       blockHash \<leftarrow> FromHex (getblockhash d height);
       CHECK (blockHash = hash);
       m \<leftarrow> store_genesis (ge_storage env) hash height genesisData (m\<lparr>tm_storage := st\<rparr>);
       SyncFromCurrentState env d hash
         (g\<lparr>g_state := OUT_OF_SYNC, g_genesisHeight := height, g_genesisHash := hash, g_tm := m\<rparr>)
     }"

definition ReinitialiseState :: "('st, 'p) game_env \<Rightarrow> daemon \<Rightarrow> ('st, 'p) game \<Rightarrow> ('st, 'p) game run" where
  "ReinitialiseState env d g =
     (case st_GetCurrentBlockHash (cached env) (g_storage g) of
        Some currentHash \<Rightarrow> SyncFromCurrentState env d currentHash (g\<lparr>g_state := OUT_OF_SYNC\<rparr>)
      | None \<Rightarrow>
          do {
            g \<leftarrow> cache_genesis env (g\<lparr>g_state := UNKNOWN\<rparr>);
            if blocks d < g_genesisHeight g then
              Some (g\<lparr>g_state := PREGENESIS, g_targetBlockHash := g_genesisHash g\<rparr>)
            else start_from_genesis env d g
          })"

subsection \<open>Notifications\<close>

definition NotifyPendingStateChange :: "('st, 'p) game \<Rightarrow> ('st, 'p) game run" where
  "NotifyPendingStateChange g =
     do {
       CHECK (g_pendingStateVersion g > 0);
       Some (g\<lparr>g_pendingStateVersion := g_pendingStateVersion g + 1\<rparr>)
     }"

definition reset_pruning :: "('st, 'p) game \<Rightarrow> ('st, 'p) game" where
  "reset_pruning g = g\<lparr>g_pruning := map_option PruningQueue_Reset (g_pruning g)\<rparr>"

text \<open>The switch on the state, and the pruning queue, within the \<open>try\<close> block of \<open>BlockAttach\<close>.  The
  result says whether the state has to be reinitialised.\<close>

definition attach_for_state ::
    "('st, 'p) game_env \<Rightarrow> uint256 \<Rightarrow> uint256 \<Rightarrow> json \<Rightarrow> (('st, 'p) game, bool) exec" where
  "attach_for_state env parent hash d g =
     (case g_state g of
        PREGENESIS \<Rightarrow> Some (Returned (hash = g_targetBlockHash g), g)
      | CATCHING_UP \<Rightarrow>
          exec_seq (UpdateStateForAttach env parent hash d)
            (\<lambda>ok g. Some (Returned (\<not> ok \<or> hash = g_targetBlockHash g), g)) g
      | UP_TO_DATE \<Rightarrow>
          exec_seq (UpdateStateForAttach env parent hash d) (\<lambda>ok g. Some (Returned (\<not> ok), g)) g
      | _ \<Rightarrow> LOG_FATAL)"

definition attach_pruning :: "('st, 'p) game_env \<Rightarrow> uint256 \<Rightarrow> uint32 \<Rightarrow> (('st, 'p) game, unit) exec" where
  "attach_pruning env hash height g =
     (case g_pruning g of
        None \<Rightarrow> Some (Returned (), g)
      | Some q \<Rightarrow>
          do {
            (r, mq) \<leftarrow> AttachBlock (cached env) hash height (g_tm g, q);
            Some (r, g\<lparr>g_tm := fst mq, g_pruning := Some (snd mq)\<rparr>)
          })"

text \<open>The part after the \<open>try\<close> block: reinitialise where needed, then update the pending moves with
  \<open>process\<close>.\<close>

definition update_pending ::
    "('st, 'p) game_env \<Rightarrow> (string \<Rightarrow> 'p pending_processor \<Rightarrow> 'p pending_processor run) \<Rightarrow>
     ('st, 'p) game \<Rightarrow> ('st, 'p) game run" where
  "update_pending env process g =
     (case g_pending g of
        Some pp \<Rightarrow>
          if g_state g = UP_TO_DATE then
            do {
              state \<leftarrow> st_GetCurrentGameState (cached env) (g_storage g);
              pp \<leftarrow> process state pp;
              NotifyPendingStateChange (g\<lparr>g_pending := Some pp\<rparr>)
            }
          else Some g
      | None \<Rightarrow> Some g)"

definition after_block ::
    "('st, 'p) game_env \<Rightarrow> daemon \<Rightarrow> (string \<Rightarrow> 'p pending_processor \<Rightarrow> 'p pending_processor run) \<Rightarrow>
     bool outcome \<times> ('st, 'p) game \<Rightarrow> ('st, 'p) game run" where
  "after_block env d process rg =
     do {
       let needReinit = (case fst rg of Returned b \<Rightarrow> b | RetryWithNewTransaction \<Rightarrow> True);
       g \<leftarrow> (if needReinit then ReinitialiseState env d (snd rg) else Some (snd rg));
       update_pending env process g
     }"

definition BlockAttach ::
    "('st, 'p) game_env \<Rightarrow> daemon \<Rightarrow> string \<Rightarrow> json \<Rightarrow> bool \<Rightarrow> ('st, 'p) game \<Rightarrow> ('st, 'p) game run" where
  "BlockAttach env d i blk seqMismatch g =
     do {
       CHECK (i = g_gameId g);
       parent \<leftarrow> FromHex (asString (block_field blk ''parent''));
       hash \<leftarrow> FromHex (asString (block_field blk ''hash''));
       if seqMismatch then do { g \<leftarrow> ReinitialiseState env d g; Some (reset_pruning g) }
       else if \<not> IsReqtokenRelevant g blk then Some g
       else do {
         height \<leftarrow> json_asUInt (block_field blk ''height'');
         rg \<leftarrow> exec_seq (attach_for_state env parent hash blk)
           (\<lambda>needReinit. exec_seq (attach_pruning env hash height) (\<lambda>_ g. Some (Returned needReinit, g))) g;
         after_block env d (\<lambda>state. ProcessAttachedBlock (ge_callbacks env) (getrawmempool d) state blk) rg
       }
     }"

definition detach_for_state ::
    "('st, 'p) game_env \<Rightarrow> uint256 \<Rightarrow> uint256 \<Rightarrow> json \<Rightarrow> (('st, 'p) game, bool) exec" where
  "detach_for_state env parent hash d g =
     (case g_state g of
        PREGENESIS \<Rightarrow> Some (Returned False, g)
      | CATCHING_UP \<Rightarrow>
          exec_seq (UpdateStateForDetach env parent hash d)
            (\<lambda>ok g. Some (Returned (\<not> ok \<or> parent = g_targetBlockHash g), g)) g
      | UP_TO_DATE \<Rightarrow>
          exec_seq (UpdateStateForDetach env parent hash d) (\<lambda>ok g. Some (Returned (\<not> ok), g)) g
      | _ \<Rightarrow> LOG_FATAL)"

definition BlockDetach ::
    "('st, 'p) game_env \<Rightarrow> daemon \<Rightarrow> string \<Rightarrow> json \<Rightarrow> bool \<Rightarrow> ('st, 'p) game \<Rightarrow> ('st, 'p) game run" where
  "BlockDetach env d i blk seqMismatch g =
     do {
       CHECK (i = g_gameId g);
       parent \<leftarrow> FromHex (asString (block_field blk ''parent''));
       hash \<leftarrow> FromHex (asString (block_field blk ''hash''));
       if seqMismatch then do { g \<leftarrow> ReinitialiseState env d g; Some (reset_pruning g) }
       else if \<not> IsReqtokenRelevant g blk then Some g
       else do {
         rg \<leftarrow> exec_seq (detach_for_state env parent hash blk)
           (\<lambda>needReinit g. Some (Returned needReinit, g\<lparr>g_pruning := map_option PQ_DetachBlock (g_pruning g)\<rparr>)) g;
         after_block env d
           (\<lambda>state pp. do {
              height \<leftarrow> json_asUInt (block_field blk ''height'');
              CHECK (height > 0);
              ProcessDetachedBlock (ge_callbacks env) (getrawmempool d) state blk pp
            }) rg
       }
     }"

definition PendingMove ::
    "('st, 'p) game_env \<Rightarrow> string \<Rightarrow> json \<Rightarrow> ('st, 'p) game \<Rightarrow> ('st, 'p) game run" where
  "PendingMove env i mv g =
     do {
       CHECK (i = g_gameId g);
       txid \<leftarrow> FromHex (asString (json_get mv ''txid''));
       if g_state g = UP_TO_DATE then
         do {
           hash \<leftarrow> st_GetCurrentBlockHash (cached env) (g_storage g);
           pp \<leftarrow> g_pending g;
           state \<leftarrow> st_GetCurrentGameState (cached env) (g_storage g);
           pp \<leftarrow> ProcessMove (ge_callbacks env) state mv pp;
           NotifyPendingStateChange (g\<lparr>g_pending := Some pp\<rparr>)
         }
       else Some g
     }"

subsection \<open>Messages\<close>

datatype topic_type = ATTACH | DETACH | PENDING

definition CheckTopicPrefix :: "string \<Rightarrow> string \<Rightarrow> string option" where
  "CheckTopicPrefix topic p = (if take (length p) topic = p then Some (drop (length p) topic) else None)"

definition parse_topic :: "string \<Rightarrow> (topic_type \<times> string) run" where
  "parse_topic topic =
     (case CheckTopicPrefix topic ''game-block-attach json '' of
        Some i \<Rightarrow> Some (ATTACH, i)
      | None \<Rightarrow>
          (case CheckTopicPrefix topic ''game-block-detach json '' of
             Some i \<Rightarrow> Some (DETACH, i)
           | None \<Rightarrow>
               (case CheckTopicPrefix topic ''game-pending-move json '' of
                  Some i \<Rightarrow> Some (PENDING, i)
                | None \<Rightarrow> LOG_FATAL)))"

record zmq_message =
  msg_topic :: string
  msg_payload :: json
  msg_seq :: uint32

text \<open>One round of the loop in \<open>Listen\<close>, with the daemon as the only listener; the payload is parsed.\<close>

definition Listen_step ::
    "('st, 'p) game_env \<Rightarrow> daemon \<Rightarrow> zmq_message \<Rightarrow> (string \<rightharpoonup> uint32) \<times> ('st, 'p) game \<Rightarrow>
     ((string \<rightharpoonup> uint32) \<times> ('st, 'p) game) run" where
  "Listen_step env d msg sg =
     do {
       (ty, i) \<leftarrow> parse_topic (msg_topic msg);
       let seqMismatch = (case fst sg (msg_topic msg) of None \<Rightarrow> True | Some s \<Rightarrow> msg_seq msg \<noteq> s + 1);
       let lastSeq = (fst sg)(msg_topic msg \<mapsto> msg_seq msg);
       if i \<noteq> g_gameId (snd sg) then Some (lastSeq, snd sg)
       else do {
         g \<leftarrow> (case ty of
                ATTACH \<Rightarrow> BlockAttach env d i (msg_payload msg) seqMismatch (snd sg)
              | DETACH \<Rightarrow> BlockDetach env d i (msg_payload msg) seqMismatch (snd sg)
              | PENDING \<Rightarrow> PendingMove env i (msg_payload msg) (snd sg));
         Some (lastSeq, g)
       }
     }"

text \<open>The loop over the messages received; each comes with the answers of the daemon while it is
  handled.\<close>

fun Listen ::
    "('st, 'p) game_env \<Rightarrow> (daemon \<times> zmq_message) list \<Rightarrow> (string \<rightharpoonup> uint32) \<times> ('st, 'p) game \<Rightarrow>
     ((string \<rightharpoonup> uint32) \<times> ('st, 'p) game) run" where
  "Listen env [] sg = Some sg"
| "Listen env ((d, msg) # ms) sg = do { sg \<leftarrow> Listen_step env d msg sg; Listen env ms sg }"

subsection \<open>Reports\<close>

definition GetHeightForBlockHash :: "daemon \<Rightarrow> uint256 \<Rightarrow> uint32 run" where
  "GetHeightForBlockHash d hash =
     do { height \<leftarrow> getblockheader_height d (ToHex hash); CHECK (height \<ge> 0); Some (word_of_int height) }"

definition state_header :: "('st, 'p) game \<Rightarrow> (string \<times> json) list" where
  "state_header g =
     [(''gameid'', JString (g_gameId g)), (''chain'', JString (ChainToString (g_chain g))),
      (''state'', JString (StateToString (g_state g)))]"

definition GetCustomStateData ::
    "('st, 'p) game_env \<Rightarrow> daemon \<Rightarrow> string \<Rightarrow> (string \<Rightarrow> uint256 \<Rightarrow> uint32 \<Rightarrow> json run) \<Rightarrow> ('st, 'p) game \<Rightarrow>
     (json \<times> ('st, 'p) game) run" where
  "GetCustomStateData env d jsonField cb g =
     do {
       (found, st) \<leftarrow> GetCurrentBlockHashWithHeight (ge_storage env) (GetHeightForBlockHash d) (g_storage g);
       let g = g\<lparr>g_tm := (g_tm g)\<lparr>tm_storage := st\<rparr>\<rparr>;
       (case found of
          None \<Rightarrow> Some (JObject (state_header g), g)
        | Some (hash, height) \<Rightarrow>
            do {
              gameState \<leftarrow> st_GetCurrentGameState (cached env) (g_storage g);
              v \<leftarrow> cb gameState hash height;
              Some (JObject (AList.update jsonField v (state_header g @
                [(''blockhash'', JString (ToHex hash)), (''height'', JInt (uint height))])), g)
            })
     }"

definition GetCurrentJsonState ::
    "('st, 'p) game_env \<Rightarrow> daemon \<Rightarrow> (string \<Rightarrow> json run) \<Rightarrow> ('st, 'p) game \<Rightarrow> (json \<times> ('st, 'p) game) run" where
  "GetCurrentJsonState env d toJson g = GetCustomStateData env d ''gamestate'' (\<lambda>state hash height. toJson state) g"

definition GetNullJsonState ::
    "('st, 'p) game_env \<Rightarrow> daemon \<Rightarrow> ('st, 'p) game \<Rightarrow> (json \<times> ('st, 'p) game) run" where
  "GetNullJsonState env d g =
     do {
       (res, g) \<leftarrow> GetCustomStateData env d ''data'' (\<lambda>state hash height. Some JNull) g;
       Some (JObject (filter (\<lambda>(k, v). k \<noteq> ''data'') (json_fields res)), g)
     }"

text \<open>\<open>pendingEnabled\<close> is what \<open>zmq.IsPendingEnabled ()\<close> returns; without it the caller gets an error
  of the RPC interface, which is \<open>Inl\<close>.\<close>

definition UnlockedPendingJsonState ::
    "('st, 'p) game_env \<Rightarrow> daemon \<Rightarrow> ('p \<Rightarrow> json run) \<Rightarrow> bool \<Rightarrow> ('st, 'p) game \<Rightarrow>
     ((string + json) \<times> ('st, 'p) game) run" where
  "UnlockedPendingJsonState env d toJson pendingEnabled g =
     (if \<not> pendingEnabled then Some (Inl ''pending moves are not tracked'', g)
      else do {
        pp \<leftarrow> g_pending g;
        (found, st) \<leftarrow> GetCurrentBlockHashWithHeight (ge_storage env) (GetHeightForBlockHash d) (g_storage g);
        let g = g\<lparr>g_tm := (g_tm g)\<lparr>tm_storage := st\<rparr>\<rparr>;
        v \<leftarrow> toJson (pm_state pp);
        Some (Inr (JObject ((''version'', JInt (g_pendingStateVersion g)) # state_header g @
          (case found of
             None \<Rightarrow> []
           | Some (hash, height) \<Rightarrow> [(''blockhash'', JString (ToHex hash)), (''height'', JInt (uint height))]) @
          [(''pending'', v)])), g)
      })"

subsection \<open>Waiting for changes\<close>

text \<open>While a call waits on a condition variable the mutex is free, and the listener handles
  notifications.  The argument \<open>later\<close> is the object at the time the call goes on: the one given, when
  the subscriber is not running, and otherwise the result of the notifications in between.\<close>

definition WAITFORCHANGE_ALWAYS_BLOCK :: int where
  "WAITFORCHANGE_ALWAYS_BLOCK = 0"

definition WaitForChange ::
    "('st, 'p) game_env \<Rightarrow> bool \<Rightarrow> ('st, 'p) game \<Rightarrow> uint256 \<Rightarrow> ('st, 'p) game \<Rightarrow> uint256" where
  "WaitForChange env zmqRunning later oldBlock g =
     (let current = (\<lambda>g. st_GetCurrentBlockHash (cached env) (g_storage g));
          waited = (case current (if zmqRunning then later else g) of None \<Rightarrow> SetNull | Some newBlock \<Rightarrow> newBlock)
      in case current g of
           Some newBlock \<Rightarrow> if \<not> IsNull oldBlock \<and> newBlock \<noteq> oldBlock then newBlock else waited
         | None \<Rightarrow> waited)"

definition WaitForPendingChange ::
    "('st, 'p) game_env \<Rightarrow> daemon \<Rightarrow> ('p \<Rightarrow> json run) \<Rightarrow> bool \<Rightarrow> bool \<Rightarrow> ('st, 'p) game \<Rightarrow> int \<Rightarrow> ('st, 'p) game \<Rightarrow>
     ((string + json) \<times> ('st, 'p) game) run" where
  "WaitForPendingChange env d toJson zmqRunning pendingEnabled later oldVersion g =
     (if oldVersion \<noteq> WAITFORCHANGE_ALWAYS_BLOCK \<and> oldVersion \<noteq> g_pendingStateVersion g
      then UnlockedPendingJsonState env d toJson pendingEnabled g
      else UnlockedPendingJsonState env d toJson pendingEnabled
        (if zmqRunning \<and> pendingEnabled then later else g))"

subsection \<open>Detection of the ZMQ endpoints\<close>

text \<open>The loop over the notifications; the state is the addresses for blocks and for pending moves and
  whether one for blocks was found.\<close>

fun detect_endpoints :: "json list \<Rightarrow> string \<times> string \<times> bool \<Rightarrow> (string \<times> string \<times> bool) run" where
  "detect_endpoints [] (blk, pend, found) = Some (blk, pend, found)"
| "detect_endpoints (val # vals) (blk, pend, found) =
     (if \<not> isString (json_get val ''type'') then detect_endpoints vals (blk, pend, found)
      else do {
        CHECK (isString (json_get val ''address''));
        let address = asString (json_get val ''address'');
        CHECK (address \<noteq> []);
        let type = asString (json_get val ''type'');
        detect_endpoints vals
          (if type = ''pubgameblocks'' then (address, pend, True)
           else if type = ''pubgamepending'' then (blk, address, found)
           else (blk, pend, found))
      })"

definition DetectZmqEndpoint :: "json list \<Rightarrow> string \<times> string \<Rightarrow> (bool \<times> string \<times> string) run" where
  "DetectZmqEndpoint notifications addrs =
     do {
       (blk, pend, found) \<leftarrow> detect_endpoints notifications (fst addrs, snd addrs, False);
       Some (found, blk, pend)
     }"

end
