(* ===== verification/Pruning.thy ===== *)
theory Pruning
  imports Storage_Contract
begin

text \<open>
  The pruning queue on a storage that keeps the contract: what it releases, and that the undo data
  of the last \<open>nBlocks\<close> blocks stays, so that a reorganisation of that depth can be handled.
\<close>

subsection \<open>Releasing undo data\<close>

text \<open>\<open>shrunk D c c'\<close>: at most the undo data of the blocks in \<open>D\<close> is gone.\<close>

definition shrunk :: "uint256 set \<Rightarrow> contents \<Rightarrow> contents \<Rightarrow> bool" where
  "shrunk D c c' \<longleftrightarrow> cur c' = cur c \<and> undos c' \<subseteq>\<^sub>m undos c \<and> (\<forall>h. h \<notin> D \<longrightarrow> undos c' h = undos c h)"

lemma shrunk_refl [simp]: "shrunk D c c"
  by (simp add: shrunk_def)

lemma shrunk_trans: "shrunk D c c' \<Longrightarrow> shrunk D' c' c'' \<Longrightarrow> shrunk (D \<union> D') c c''"
  by (auto simp: shrunk_def intro: map_le_trans)

lemma shrunk_mono: "shrunk D c c' \<Longrightarrow> D \<subseteq> D' \<Longrightarrow> shrunk D' c c'"
  by (auto simp: shrunk_def)

lemma upd_release_shrunk: "upd_release h c c' \<Longrightarrow> shrunk {h} c c'"
  by (auto simp: upd_release_def shrunk_def map_le_def split: if_splits)

lemma upd_prune_shrunk:
  "upd_prune ht c c' \<Longrightarrow> shrunk {h. \<exists>k d. undos c h = Some (k, d) \<and> k \<le> ht} c c'"
proof -
  assume *: "upd_prune ht c c'"
  have "undos c' h = undos c h" if "\<not> (\<exists>k d. undos c h = Some (k, d) \<and> k \<le> ht)" for h
  proof (cases "undos c h")
    case None
    then show ?thesis
      using * by (metis upd_prune_def domIff map_le_implies_dom_le subsetD)
  next
    case (Some e)
    then show ?thesis
      using * that by (cases e) (auto simp: upd_prune_def not_le)
  qed
  with * show ?thesis
    by (auto simp: shrunk_def upd_prune_def)
qed

text \<open>A property of contents that does not need undo data to be there.\<close>

definition shrink_closed :: "(contents \<Rightarrow> bool) \<Rightarrow> bool" where
  "shrink_closed P \<longleftrightarrow> (\<forall>D c c'. P c \<longrightarrow> shrunk D c c' \<longrightarrow> P c')"

text \<open>After an operation the queue is the suffix of the desired length, and at most the undo data of
  what has dropped out is gone.\<close>

definition pruned :: "uint256 list \<Rightarrow> uint32 \<Rightarrow> contents \<Rightarrow> contents \<Rightarrow> pruning_queue \<Rightarrow> bool" where
  "pruned hs n c c' q \<longleftrightarrow>
     (let k = length hs - unat n in pq_hashes q = drop k hs \<and> nBlocks q = n \<and> shrunk (set (take k hs)) c c')"

text \<open>Besides what drops out of the queue, the first pruning removes what is below its front.\<close>

definition below_front :: "uint32 \<Rightarrow> nat \<Rightarrow> contents \<Rightarrow> uint256 set" where
  "below_front height n c = {h. \<exists>k d. undos c h = Some (k, d) \<and> unat k + n < unat height + 1}"

lemma front_height:
  assumes "height \<noteq> - 1" "n \<le> unat height + 1"
  shows "unat (height + 1 - of_nat n) = unat (height :: uint32) + 1 - n"
proof -
  have h1: "unat (height + 1) = unat height + 1"
    using assms(1) by (metis Suc_eq_plus1 unatSuc add.commute add_eq_0_iff)
  moreover have "unat (of_nat n :: uint32) = n"
    using assms(2) unsigned_less [of "height + 1", where ?'a = nat] by (simp add: h1 unat_of_nat)
  ultimately show ?thesis
    using assms(2) by (simp add: unat_sub word_le_nat_alt)
qed

lemma cached_ops [simp]:
  "st_GetCurrentBlockHash (StorageWithCachedHeight si) c = st_GetCurrentBlockHash si (wrapped c)"
  "st_GetCurrentGameState (StorageWithCachedHeight si) c = st_GetCurrentGameState si (wrapped c)"
  "st_GetUndoData (StorageWithCachedHeight si) h c = st_GetUndoData si h (wrapped c)"
  "st_AddUndoData (StorageWithCachedHeight si) h ht d = lift_exec (st_AddUndoData si h ht d)"
  "st_ReleaseUndoData (StorageWithCachedHeight si) h = lift_exec (st_ReleaseUndoData si h)"
  "st_PruneUndoData (StorageWithCachedHeight si) ht = lift_exec (st_PruneUndoData si ht)"
  by (simp_all add: StorageWithCachedHeight_def)

context storage_contract
begin

lemma release_old_triple:
  assumes "shrink_closed P"
  shows "triple (\<lambda>mx. cached.within P c (fst mx) \<and> snd mx = hs) (release_old (StorageWithCachedHeight si) n hs)
    (\<lambda>_ mx. \<exists>c'. cached.within P c' (fst mx) \<and>
       (snd mx = drop (length hs - n) hs \<and> shrunk (set (take (length hs - n) hs)) c c'))
    (\<lambda>mx. cached.broken P (fst mx))"
proof (induction hs arbitrary: c)
  case Nil
  show ?case
    by (rule tripleI) auto
next
  case (Cons h hs)
  show ?case
  proof (cases "length (h # hs) > n")
    case False
    then show ?thesis
      by (intro tripleI) (auto simp: not_less)
  next
    case True
    then have len: "length (h # hs) - n = Suc (length hs - n)" "Suc (length hs) - n = Suc (length hs - n)"
      by simp_all
    have P: "P c'" if "P c" "upd_release h c c'" for c'
      using assms that upd_release_shrunk unfolding shrink_closed_def by blast
    have step: "release_old (StorageWithCachedHeight si) n (h # hs) mx =
        exec_seq (with_storage (lift_exec (st_ReleaseUndoData si h)))
          (\<lambda>_ mx. release_old (StorageWithCachedHeight si) n hs (fst mx, hs)) (fst mx, h # hs)" for mx
      using True by simp
    have rest: "triple (\<lambda>mx. \<exists>c'. cached.within P c' (fst mx) \<and> upd_release h c c' \<and> snd mx = h # hs)
       (\<lambda>mx. release_old (StorageWithCachedHeight si) n hs (fst mx, hs))
       (\<lambda>_ mx. \<exists>c'. cached.within P c' (fst mx) \<and> (snd mx = drop (length (h # hs) - n) (h # hs) \<and>
          shrunk (set (take (length (h # hs) - n) (h # hs))) c c'))
       (\<lambda>mx. cached.broken P (fst mx))"
    proof (rule tripleI, elim exE conjE)
      fix mx :: "'a cached_storage tx_manager \<times> uint256 list" and c1
      assume w: "cached.within P c1 (fst mx)" and r: "upd_release h c c1"
      have pre: "cached.within P c1 (fst (fst mx, hs)) \<and> snd (fst mx, hs) = hs"
        using w by simp
      have sh: "shrunk (set (take (length (h # hs) - n) (h # hs))) c c'"
        if "shrunk (set (take (length hs - n) hs)) c1 c'" for c'
        using shrunk_trans [OF upd_release_shrunk [OF r] that] unfolding len by simp
      show "\<exists>r mx'. release_old (StorageWithCachedHeight si) n hs (fst mx, hs) = Some (r, mx') \<and> (case r of
          Returned _ \<Rightarrow> \<exists>c'. cached.within P c' (fst mx') \<and> (snd mx' = drop (length (h # hs) - n) (h # hs) \<and>
            shrunk (set (take (length (h # hs) - n) (h # hs))) c c')
        | RetryWithNewTransaction \<Rightarrow> cached.broken P (fst mx'))"
        by (rule tripleE [OF Cons.IH pre]) (use sh in \<open>auto simp: len\<close>)
    qed
    show ?thesis
    proof (rule tripleI)
      fix mx :: "'a cached_storage tx_manager \<times> uint256 list"
      assume pre: "cached.within P c (fst mx) \<and> snd mx = h # hs"
      then have "P c"
        by (simp add: cached.within_def)
      have "triple (\<lambda>mx. cached.within P c (fst mx) \<and> snd mx = h # hs)
          (exec_seq (with_storage (lift_exec (st_ReleaseUndoData si h)))
            (\<lambda>_ mx. release_old (StorageWithCachedHeight si) n hs (fst mx, hs)))
          (\<lambda>_ mx. \<exists>c'. cached.within P c' (fst mx) \<and> (snd mx = drop (length (h # hs) - n) (h # hs) \<and>
            shrunk (set (take (length (h # hs) - n) (h # hs))) c c'))
          (\<lambda>mx. cached.broken P (fst mx))"
        by (rule triple_seq [OF cached.update_triple [OF lift_updating [OF release_law] P [OF \<open>P c\<close>],
              where X = "\<lambda>x. x = h # hs"] rest])
      then show "\<exists>r mx'. release_old (StorageWithCachedHeight si) n (h # hs) mx = Some (r, mx') \<and> (case r of
          Returned _ \<Rightarrow> \<exists>c'. cached.within P c' (fst mx') \<and> (snd mx' = drop (length (h # hs) - n) (h # hs) \<and>
            shrunk (set (take (length (h # hs) - n) (h # hs))) c c')
        | RetryWithNewTransaction \<Rightarrow> cached.broken P (fst mx'))"
        using pre unfolding step triple_def by simp
    qed
  qed
qed

subsection \<open>The queue\<close>

lemma PruneIfTooLong_triple:
  assumes "shrink_closed P"
  shows "triple (\<lambda>mq. cached.at_rest P c (fst mq) \<and> snd mq = q) (PruneIfTooLong (StorageWithCachedHeight si))
    (\<lambda>_ mq. \<exists>c'. cached.at_rest P c' (fst mq) \<and> pruned (pq_hashes q) (nBlocks q) c c' (snd mq) \<and>
       initialPruningDone (snd mq) = initialPruningDone q)
    (\<lambda>mq. cached.rolled_back P (fst mq))"
proof (rule tripleI, elim conjE)
  fix mq :: "'a cached_storage tx_manager \<times> pruning_queue"
  assume rest: "cached.at_rest P c (fst mq)" and q: "snd mq = q"
  let ?n = "unat (nBlocks q)" and ?hs = "pq_hashes q"
  show "\<exists>r mq'. PruneIfTooLong (StorageWithCachedHeight si) mq = Some (r, mq') \<and> (case r of
      Returned _ \<Rightarrow> \<exists>c'. cached.at_rest P c' (fst mq') \<and> pruned ?hs (nBlocks q) c c' (snd mq') \<and>
        initialPruningDone (snd mq') = initialPruningDone q
    | RetryWithNewTransaction \<Rightarrow> cached.rolled_back P (fst mq'))"
  proof (cases "length ?hs \<le> ?n")
    case True
    then show ?thesis
      using rest q by (auto simp: PruneIfTooLong_def pruned_def Let_def)
  next
    case False
    have pre: "cached.at_rest P c (fst (fst mq, ?hs)) \<and> snd (fst mq, ?hs) = ?hs"
      using rest by simp
    show ?thesis
      by (rule tripleE [OF cached.ActiveTransaction_triple [OF release_old_triple [OF assms, where n = ?n]] pre])
        (use False q in \<open>auto simp: PruneIfTooLong_def pruned_def Let_def\<close>)
  qed
qed

lemma prune_front_triple:
  assumes "shrink_closed P"
  shows "triple (\<lambda>mq. cached.at_rest P c (fst mq) \<and> snd mq = q)
    (\<lambda>mq. if fh > 0
       then ActiveTransaction (StorageWithCachedHeight si) (with_storage (lift_exec (st_PruneUndoData si (fh - 1)))) mq
       else Some (Returned (), mq))
    (\<lambda>_ mq. \<exists>c'. cached.at_rest P c' (fst mq) \<and> shrunk {h. \<exists>k d. undos c h = Some (k, d) \<and> k < fh} c c' \<and> snd mq = q)
    (\<lambda>mq. cached.rolled_back P (fst mq))"
proof (rule tripleI, elim conjE)
  fix mq :: "'a cached_storage tx_manager \<times> 'b"
  assume rest: "cached.at_rest P c (fst mq)" and q: "snd mq = q"
  define body where "body = (with_storage (lift_exec (st_PruneUndoData si (fh - 1))) ::
    ('a cached_storage tx_manager \<times> 'b, unit) exec)"
  have "P c"
    using rest by (simp add: cached.at_rest_def)
  have pc: "P c'" if "upd_prune (fh - 1) c c'" for c'
    using assms \<open>P c\<close> upd_prune_shrunk [OF that] unfolding shrink_closed_def by blast
  have below: "k < fh" if "fh > 0" "k \<le> fh - 1" for k
    using that unat_minus_one [of fh] unat_gt_0 [of fh] by (simp add: word_le_nat_alt word_less_nat_alt word_gt_0)
  have sh: "shrunk {h. \<exists>k d. undos c h = Some (k, d) \<and> k < fh} c c'" if "fh > 0" "upd_prune (fh - 1) c c'" for c'
  proof (rule shrunk_mono [OF upd_prune_shrunk [OF that(2)]])
    show "{h. \<exists>k d. undos c h = Some (k, d) \<and> k \<le> fh - 1} \<subseteq> {h. \<exists>k d. undos c h = Some (k, d) \<and> k < fh}"
      using below that(1) by blast
  qed
  have "triple (\<lambda>mq. cached.at_rest P c (fst mq) \<and> snd mq = q) (ActiveTransaction (StorageWithCachedHeight si) body)
      (\<lambda>_ mq. \<exists>c'. cached.at_rest P c' (fst mq) \<and> (upd_prune (fh - 1) c c' \<and> snd mq = q))
      (\<lambda>mq. cached.rolled_back P (fst mq))"
    unfolding body_def
    by (rule cached.ActiveTransaction_triple
        [OF cached.update_triple [OF lift_updating [OF prune_law] pc, where X = "\<lambda>x. x = q"]])
  then have act: "triple (\<lambda>mq. cached.at_rest P c (fst mq) \<and> snd mq = q) (ActiveTransaction (StorageWithCachedHeight si) body)
      (\<lambda>_ mq. \<exists>c'. cached.at_rest P c' (fst mq) \<and> shrunk {h. \<exists>k d. undos c h = Some (k, d) \<and> k < fh} c c' \<and> snd mq = q)
      (\<lambda>mq. cached.rolled_back P (fst mq))" if "fh > 0"
    by (rule triple_weaken) (use sh that in blast)+
  show "\<exists>r mq'. (if fh > 0 then ActiveTransaction (StorageWithCachedHeight si)
        (with_storage (lift_exec (st_PruneUndoData si (fh - 1)))) mq else Some (Returned (), mq)) = Some (r, mq') \<and>
      (case r of
         Returned _ \<Rightarrow> \<exists>c'. cached.at_rest P c' (fst mq') \<and>
           shrunk {h. \<exists>k d. undos c h = Some (k, d) \<and> k < fh} c c' \<and> snd mq' = q
       | RetryWithNewTransaction \<Rightarrow> cached.rolled_back P (fst mq'))"
  proof (cases "fh > 0")
    case True
    then show ?thesis
      using tripleD [OF act [OF True], of mq] rest q unfolding body_def by simp
  next
    case False
    then show ?thesis
      using rest q by (auto intro: exI [of _ c])
  qed
qed

lemma AttachBlock_triple:
  assumes P: "shrink_closed P" and height: "height \<noteq> - 1" and len: "length (pq_hashes q) \<le> unat height"
  shows "triple (\<lambda>mq. cached.at_rest P c (fst mq) \<and> snd mq = q) (AttachBlock (StorageWithCachedHeight si) hash height)
    (\<lambda>_ mq. \<exists>c' c''. cached.at_rest P c'' (fst mq) \<and> pruned (pq_hashes q @ [hash]) (nBlocks q) c' c'' (snd mq) \<and>
       shrunk (below_front height (length (pq_hashes q) + 1) c) c c')
    (\<lambda>mq. cached.rolled_back P (fst mq))"
proof (rule tripleI, elim conjE)
  fix mq :: "'a cached_storage tx_manager \<times> pruning_queue"
  assume rest: "cached.at_rest P c (fst mq)" and q: "snd mq = q"
  define hs where "hs = pq_hashes q @ [hash]"
  define q' where "q' = q\<lparr>pq_hashes := hs\<rparr>"
  define fh where "fh = height + 1 - of_nat (length hs)"
  define first where "first = (\<lambda>mq :: 'a cached_storage tx_manager \<times> pruning_queue. if fh > 0
    then ActiveTransaction (StorageWithCachedHeight si) (with_storage (lift_exec (st_PruneUndoData si (fh - 1)))) mq
    else Some (Returned (), mq))"
  define E where "E = (\<lambda>mq :: 'a cached_storage tx_manager \<times> pruning_queue. cached.rolled_back P (fst mq))"
  define Post where "Post = (\<lambda>(_ :: unit) mq. \<exists>c' c''. cached.at_rest P c'' (fst mq) \<and>
     pruned hs (nBlocks q) c' c'' (snd mq) \<and> shrunk (below_front height (length hs) c) c c')"
  have h1: "unat (height + 1) = unat height + 1"
    using height by (metis Suc_eq_plus1 unatSuc add.commute add_eq_0_iff)
  have below: "{h. \<exists>k d. undos c h = Some (k, d) \<and> k < fh} \<subseteq> below_front height (length hs) c"
    using front_height [OF height, of "length hs"] len
    by (auto simp: below_front_def fh_def hs_def word_less_nat_alt)
  have step: "AttachBlock (StorageWithCachedHeight si) hash height mq =
     (if \<not> initialPruningDone q \<and> length hs \<ge> unat (nBlocks q)
      then exec_seq first (\<lambda>_ mq. PruneIfTooLong (StorageWithCachedHeight si)
        (fst mq, (snd mq)\<lparr>initialPruningDone := True\<rparr>)) (fst mq, q')
      else PruneIfTooLong (StorageWithCachedHeight si) (fst mq, q'))"
    using q len unfolding AttachBlock_def first_def fh_def q'_def hs_def by (simp add: h1 h1 [unfolded add.commute [of height]] Let_def algebra_simps cong: if_cong)
  have prune: "triple (\<lambda>mq. \<exists>c'. cached.at_rest P c' (fst mq) \<and> shrunk (below_front height (length hs) c) c c' \<and>
       pq_hashes (f (snd mq)) = hs \<and> nBlocks (f (snd mq)) = nBlocks q)
      (\<lambda>mq. PruneIfTooLong (StorageWithCachedHeight si) (fst mq, f (snd mq))) Post E" for f
  proof (rule tripleI, elim exE conjE)
    fix mq :: "'a cached_storage tx_manager \<times> pruning_queue" and c'
    assume "cached.at_rest P c' (fst mq)" and sh: "shrunk (below_front height (length hs) c) c c'"
      and qq: "pq_hashes (f (snd mq)) = hs" "nBlocks (f (snd mq)) = nBlocks q"
    then have pre: "cached.at_rest P c' (fst (fst mq, f (snd mq))) \<and> snd (fst mq, f (snd mq)) = f (snd mq)"
      by simp
    show "\<exists>r s'. PruneIfTooLong (StorageWithCachedHeight si) (fst mq, f (snd mq)) = Some (r, s') \<and>
        (case r of Returned x \<Rightarrow> Post x s' | RetryWithNewTransaction \<Rightarrow> E s')"
      by (rule tripleE [OF PruneIfTooLong_triple [OF P] pre]) (use sh qq in \<open>auto simp: Post_def E_def\<close>)
  qed
  have front: "triple (\<lambda>mq. cached.at_rest P c (fst mq) \<and> snd mq = q') first
      (\<lambda>_ mq. \<exists>c'. cached.at_rest P c' (fst mq) \<and> shrunk (below_front height (length hs) c) c c' \<and>
        pq_hashes ((snd mq)\<lparr>initialPruningDone := True\<rparr>) = hs \<and>
        nBlocks ((snd mq)\<lparr>initialPruningDone := True\<rparr>) = nBlocks q) E"
    unfolding first_def E_def
    by (rule triple_weaken [OF prune_front_triple [OF P, where q = q' and fh = fh]])
      (use shrunk_mono [OF _ below] in \<open>auto simp: q'_def\<close>)
  have "\<exists>r mq'. AttachBlock (StorageWithCachedHeight si) hash height mq = Some (r, mq') \<and> (case r of
      Returned x \<Rightarrow> Post x mq' | RetryWithNewTransaction \<Rightarrow> E mq')"
  proof (cases "\<not> initialPruningDone q \<and> length hs \<ge> unat (nBlocks q)")
    case True
    then show ?thesis
      using tripleD [OF triple_seq [OF front prune], of "(fst mq, q')"] rest unfolding step by simp
  next
    case False
    have "\<exists>c'. cached.at_rest P c' (fst (fst mq, q')) \<and> shrunk (below_front height (length hs) c) c c' \<and>
       pq_hashes (snd (fst mq, q')) = hs \<and> nBlocks (snd (fst mq, q')) = nBlocks q"
      using rest by (auto simp: q'_def intro: exI [of _ c])
    then show ?thesis
      using tripleD [OF prune [of "\<lambda>q. q"], of "(fst mq, q')"] unfolding step if_not_P [OF False] by simp
  qed
  then show "\<exists>r mq'. AttachBlock (StorageWithCachedHeight si) hash height mq = Some (r, mq') \<and> (case r of
      Returned _ \<Rightarrow> \<exists>c' c''. cached.at_rest P c'' (fst mq') \<and>
        pruned (pq_hashes q @ [hash]) (nBlocks q) c' c'' (snd mq') \<and>
        shrunk (below_front height (length (pq_hashes q) + 1) c) c c'
    | RetryWithNewTransaction \<Rightarrow> cached.rolled_back P (fst mq'))"
    unfolding Post_def E_def hs_def length_append_singleton Suc_eq_plus1 .
qed

end

subsection \<open>The undo data of recent blocks is kept\<close>

text \<open>A manager between two transactions, on the in-memory storage.\<close>

definition resting :: "memory_storage cached_storage tx_manager \<Rightarrow> bool" where
  "resting m \<longleftrightarrow>
     \<not> inTransaction m \<and> \<not> commitFailed m \<and> batchedCommits m < batchSize m \<and>
     (startedTxn (wrapped (tm_storage m)) \<longleftrightarrow> batchedCommits m \<noteq> 0)"

text \<open>The blocks \<open>hs\<close> are the last ones of a chain that ends at \<open>height\<close>, and have undo data.\<close>

definition recent_blocks :: "uint32 \<Rightarrow> uint256 list \<Rightarrow> (uint256 \<rightharpoonup> uint32 \<times> string) \<Rightarrow> bool" where
  "recent_blocks height hs u \<longleftrightarrow> distinct hs \<and>
     (\<forall>i < length hs. \<exists>k d. u (hs ! i) = Some (k, d) \<and> unat k + length hs = unat height + 1 + i)"

lemma resting_iff:
  "memory.cached.at_rest (\<lambda>_. True) c m \<longleftrightarrow> resting m \<and> memory_view (wrapped (tm_storage m)) = c"
proof -
  have "batchedCommits m < batchSize m \<Longrightarrow> batchedCommits m \<noteq> - 1 \<and> batchSize m \<noteq> 0"
    by (metis word_n1_ge not_le word_not_simps(1))
  then show ?thesis
    unfolding memory.cached.tm_defs resting_def by auto
qed

text \<open>C31. Pruning keeps what is needed: when a block is attached to a queue that mirrors the last
  blocks of the chain, the operation completes, the queue then holds the last \<open>nBlocks\<close> of them, the
  undo data of each block in the queue and the current state are unchanged, and the manager is again
  between two transactions.\<close>

theorem pruning_keeps_recent:
  assumes "resting m" "height \<noteq> - 1"
    and "recent_blocks height (pq_hashes q @ [hash]) (undoData (wrapped (tm_storage m)))"
  shows "\<exists>m' q'. AttachBlock (StorageWithCachedHeight MemoryStorage) hash height (m, q) = Some (Returned (), (m', q')) \<and>
    resting m' \<and>
    pq_hashes q' = drop (length (pq_hashes q) + 1 - unat (nBlocks q)) (pq_hashes q @ [hash]) \<and>
    (\<forall>h\<in>set (pq_hashes q'). undoData (wrapped (tm_storage m')) h = undoData (wrapped (tm_storage m)) h) \<and>
    cur (memory_view (wrapped (tm_storage m'))) = cur (memory_view (wrapped (tm_storage m)))"
proof -
  define hs where "hs = pq_hashes q @ [hash]"
  define c where "c = memory_view (wrapped (tm_storage m))"
  have u: "undoData st = undos (memory_view st)" for st
    by (simp add: memory_view_def)
  have heights: "\<exists>k d. undos c (hs ! i) = Some (k, d) \<and> unat k + length hs = unat height + 1 + i"
    if "i < length hs" for i
    using assms(3) that by (simp add: recent_blocks_def u hs_def c_def)
  have dist: "distinct hs"
    using assms(3) by (simp add: recent_blocks_def hs_def)
  have len: "length (pq_hashes q) \<le> unat height"
    using heights [of 0] by (auto simp: hs_def)
  have front: "h \<notin> below_front height (length hs) c" if "h \<in> set hs" for h
    using that heights by (force simp: in_set_conv_nth below_front_def)
  have pre: "memory.cached.at_rest (\<lambda>_. True) c (fst (m, q)) \<and> snd (m, q) = q"
    using assms(1) by (simp add: resting_iff c_def)
  have closed: "shrink_closed (\<lambda>_. True)"
    by (simp add: shrink_closed_def)
  show ?thesis
  proof (rule tripleE [OF memory.AttachBlock_triple [OF closed assms(2) len, of c hash] pre], elim exE conjE)
    fix u mq c' c''
    assume run: "AttachBlock (StorageWithCachedHeight MemoryStorage) hash height (m, q) = Some (Returned u, mq)"
      and rest: "memory.cached.at_rest (\<lambda>_. True) c'' (fst mq)"
      and pruned: "pruned (pq_hashes q @ [hash]) (nBlocks q) c' c'' (snd mq)"
      and sh: "shrunk (below_front height (length (pq_hashes q) + 1) c) c c'"
    have q': "pq_hashes (snd mq) = drop (length hs - unat (nBlocks q)) hs"
      and sh': "shrunk (set (take (length hs - unat (nBlocks q)) hs)) c' c''"
      using pruned by (simp_all add: pruned_def hs_def Let_def)
    have "undos c'' h = undos c h" if "h \<in> set (pq_hashes (snd mq))" for h
    proof -
      have "h \<in> set hs" "h \<notin> set (take (length hs - unat (nBlocks q)) hs)"
        using that dist set_take_disj_set_drop_if_distinct [of hs] by (auto simp: q' dest: in_set_dropD)
      then show ?thesis
        using sh sh' front by (simp add: shrunk_def hs_def)
    qed
    moreover have "resting (fst mq)" "memory_view (wrapped (tm_storage (fst mq))) = c''"
      using rest by (simp_all add: resting_iff)
    moreover have "cur c'' = cur c"
      using sh sh' by (simp add: shrunk_def)
    ultimately show ?thesis
      using run q' by (cases mq) (simp add: u hs_def c_def)
  qed (simp add: memory.cached.rolled_back_def)
qed

theorem pruning_keeps_recent_witness:
  "\<exists>m' q'. AttachBlock (StorageWithCachedHeight MemoryStorage) [2] 8
      (TransactionManager_new \<lparr>crossCheck = False, height_cache = None, wrapped = MemoryStorage_new\<lparr>
         undoData := [[1] \<mapsto> (7, ''a''), [2] \<mapsto> (8, ''b'')]\<rparr>\<rparr>,
       \<lparr>nBlocks = 1, pq_hashes = [[1]], initialPruningDone = True\<rparr>) = Some (Returned (), (m', q')) \<and>
    pq_hashes q' = [[2]] \<and> undoData (wrapped (tm_storage m')) [2] = Some (8, ''b'')"
  using pruning_keeps_recent [of "TransactionManager_new \<lparr>crossCheck = False, height_cache = None,
        wrapped = MemoryStorage_new\<lparr>undoData := [[1] \<mapsto> (7, ''a''), [2] \<mapsto> (8, ''b'')]\<rparr>\<rparr>" 8
      "\<lparr>nBlocks = 1, pq_hashes = [[1]], initialPruningDone = True\<rparr>" "[2]"]
  by (fastforce simp: resting_def TransactionManager_new_def MemoryStorage_new_def recent_blocks_def less_Suc_eq)

end
