(* ===== verification/Game_Sync.thy ===== *)
theory Game_Sync
  imports Game Pruning
begin

text \<open>
  The daemon keeps the right state: whatever notifications arrive, and whether or not the storage
  throws and rolls back, the stored state is the one that the game computes by processing the blocks
  from its genesis block up to the stored block.

  The abstract specification is the relation \<open>state_at\<close> between blocks and states.  The lemmas are
  proved in the locale \<open>synced_daemon\<close>, for every storage with the contract of
  \<open>Storage_Contract\<close> and every game whose blocks can be undone.
\<close>

subsection \<open>The chain and the states along it\<close>

record block_chain =
  bc_parent :: "uint256 \<Rightarrow> uint256"
  bc_height :: "uint256 \<Rightarrow> nat"
  bc_data :: "uint256 \<Rightarrow> json"

text \<open>\<open>state_at\<close>: the state at a block by replay from the genesis block.\<close>

inductive state_at ::
    "block_chain \<Rightarrow> (string \<times> uint32 \<times> string) run \<Rightarrow> (string \<Rightarrow> json \<Rightarrow> (string \<times> string) run) \<Rightarrow>
     uint256 \<Rightarrow> string \<Rightarrow> bool" for ch initial forward where
  state_at_genesis: "initial = Some (s, ht, hx) \<Longrightarrow> FromHex hx = Some h \<Longrightarrow> state_at ch initial forward h s"
| state_at_attach: "state_at ch initial forward (bc_parent ch h) s \<Longrightarrow>
    bc_height ch h = Suc (bc_height ch (bc_parent ch h)) \<Longrightarrow>
    forward s (bc_data ch h) = Some (s', u) \<Longrightarrow> state_at ch initial forward h s'"

lemma state_at_height:
  assumes "state_at ch initial forward h s" "initial = Some (s0, ht, hx)" "FromHex hx = Some g"
  shows "h = g \<and> s = s0 \<or> bc_height ch h > bc_height ch g"
  using assms by (induction rule: state_at.induct) auto

text \<open>The replay is a function of the block.\<close>

lemma state_at_unique:
  assumes "state_at ch initial forward h s" "state_at ch initial forward h t"
  shows "s = t"
  using assms
proof (induction arbitrary: t rule: state_at.induct)
  case (state_at_genesis s ht hx h)
  then show ?case
    using state_at_height by fastforce
next
  case (state_at_attach h s s' u)
  have start: "\<exists>s0 ht hx g. initial = Some (s0, ht, hx) \<and> FromHex hx = Some g"
    using state_at_attach.hyps(1) by (induction rule: state_at.induct) auto
  then obtain s0 ht hx g where g: "initial = Some (s0, ht, hx)" "FromHex hx = Some g"
    by blast
  have "bc_height ch h > bc_height ch g"
    using state_at_height [OF state_at_attach.hyps(1) g] state_at_attach.hyps(2) by auto
  then have "h \<noteq> g"
    by auto
  from state_at_attach.prems this show ?case
  proof (cases rule: state_at.cases)
    case (state_at_attach s2 u2)
    then show ?thesis
      using state_at_attach.IH \<open>forward s (bc_data ch h) = Some (s', u)\<close> by fastforce
  qed (use g in auto)
qed

text \<open>What a storage should hold: the current state is the right one for its block, and undo data
  belongs to its block.\<close>

definition right_contents ::
    "block_chain \<Rightarrow> (string \<times> uint32 \<times> string) run \<Rightarrow> (string \<Rightarrow> json \<Rightarrow> (string \<times> string) run) \<Rightarrow> contents \<Rightarrow> bool" where
  "right_contents ch initial forward c \<longleftrightarrow>
     (\<forall>h s. cur c = Some (h, s) \<longrightarrow> state_at ch initial forward h s) \<and>
     (\<forall>h k u. undos c h = Some (k, u) \<longrightarrow>
        (\<exists>s s'. state_at ch initial forward (bc_parent ch h) s \<and> forward s (bc_data ch h) = Some (s', u)))"

subsection \<open>Notifications\<close>

text \<open>A notification about a block of the chain: it names the block and its parent, and the game
  processes its data like the block's.\<close>

definition notification_ok ::
    "block_chain \<Rightarrow> (string \<Rightarrow> json \<Rightarrow> (string \<times> string) run) \<Rightarrow> (string \<Rightarrow> json \<Rightarrow> string \<Rightarrow> string run) \<Rightarrow> json \<Rightarrow> bool" where
  "notification_ok ch forward backwards blk \<longleftrightarrow>
     (\<forall>h p. FromHex (asString (block_field blk ''hash'')) = Some h \<longrightarrow>
            FromHex (asString (block_field blk ''parent'')) = Some p \<longrightarrow>
        bc_parent ch h = p \<and> bc_height ch h = Suc (bc_height ch p) \<and>
        (\<forall>s. forward s blk = forward s (bc_data ch h)) \<and> (\<forall>s u. backwards s blk u = backwards s (bc_data ch h) u))"

definition message_ok ::
    "block_chain \<Rightarrow> (string \<Rightarrow> json \<Rightarrow> (string \<times> string) run) \<Rightarrow> (string \<Rightarrow> json \<Rightarrow> string \<Rightarrow> string run) \<Rightarrow> zmq_message \<Rightarrow> bool" where
  "message_ok ch forward backwards msg \<longleftrightarrow>
     (\<forall>ty i. parse_topic (msg_topic msg) = Some (ty, i) \<longrightarrow> ty \<noteq> PENDING \<longrightarrow>
        notification_ok ch forward backwards (msg_payload msg))"

subsection \<open>Results of computations with a triple\<close>

lemma triple_result:
  assumes "triple P f Q E" "P s" "f s = Some (r, s')"
  shows "case r of Returned x \<Rightarrow> Q x s' | RetryWithNewTransaction \<Rightarrow> E s'"
  using tripleD [OF assms(1,2)] assms(3) by auto

lemma ActiveTransaction_None:
  "(\<And>mx. body mx = None) \<Longrightarrow> ActiveTransaction si body mx = None"
  by (simp add: ActiveTransaction_def exec_seq_def split: Option.bind_splits)

text \<open>The batch size is changed by \<open>SetBatchSize\<close> only.\<close>

lemma Flush_batchSize: "Flush si m = Some (r, m') \<Longrightarrow> batchSize m' = batchSize m"
  by (auto simp: Flush_def elim!: bind_SomeE split: outcome.splits if_splits)

lemma TM_batchSize:
  "TM_BeginTransaction si m = Some m' \<Longrightarrow> batchSize m' = batchSize m"
  "TM_CommitTransaction si m = Some (r, m') \<Longrightarrow> batchSize m' = batchSize m"
  "TM_RollbackTransaction si m = Some m' \<Longrightarrow> batchSize m' = batchSize m"
  "TryAbortTransaction si m = Some m' \<Longrightarrow> batchSize m' = batchSize m"
  by (auto simp: TM_BeginTransaction_def TM_CommitTransaction_def TM_RollbackTransaction_def TryAbortTransaction_def
      Let_def dest: Flush_batchSize elim!: bind_SomeE split: if_splits)

lemma SetBatchSize_batchSize: "SetBatchSize si sz m = Some (r, m') \<Longrightarrow> batchSize m' = sz"
  by (auto simp: SetBatchSize_def Let_def dest: Flush_batchSize elim!: bind_SomeE split: if_splits)

definition keeps_batchSize :: "('st tx_manager \<times> 'x, 'a) exec \<Rightarrow> bool" where
  "keeps_batchSize f \<longleftrightarrow> (\<forall>mx r mx'. f mx = Some (r, mx') \<longrightarrow> batchSize (fst mx') = batchSize (fst mx))"

lemma keepsI:
  "(\<And>m x r m' x'. f (m, x) = Some (r, (m', x')) \<Longrightarrow> batchSize m' = batchSize m) \<Longrightarrow> keeps_batchSize f"
  unfolding keeps_batchSize_def by (metis prod.collapse)

lemma keepsD:
  "keeps_batchSize f \<Longrightarrow> f mx = Some (r, mx') \<Longrightarrow> batchSize (fst mx') = batchSize (fst mx)"
  unfolding keeps_batchSize_def by blast

lemma keeps_with_storage: "keeps_batchSize (with_storage op)"
  by (auto simp: keeps_batchSize_def with_storage_def elim!: bind_SomeE)

lemma keeps_seq:
  assumes "keeps_batchSize f" "\<And>x. keeps_batchSize (g x)"
  shows "keeps_batchSize (exec_seq f g)"
proof (rule keepsI)
  fix m x r m' x'
  assume "exec_seq f g (m, x) = Some (r, (m', x'))"
  then obtain r1 mx1 where f: "f (m, x) = Some (r1, mx1)"
    and g: "(case r1 of Returned y \<Rightarrow> g y mx1 | RetryWithNewTransaction \<Rightarrow> Some (RetryWithNewTransaction, mx1)) = Some (r, (m', x'))"
    by (auto simp: exec_seq_def elim!: bind_SomeE)
  show "batchSize m' = batchSize m"
    using keepsD [OF assms(1) f] keepsD [OF assms(2), of _ mx1 r "(m', x')"] g by (cases r1) auto
qed

lemma keeps_ActiveTransaction:
  assumes "keeps_batchSize body"
  shows "keeps_batchSize (ActiveTransaction si body)"
proof (rule keepsI)
  fix m x r m' x'
  assume run: "ActiveTransaction si body (m, x) = Some (r, (m', x'))"
  have c: "keeps_batchSize (\<lambda>mx. do { (r, m) \<leftarrow> TM_CommitTransaction si (fst mx); Some (r, (m, snd mx)) })"
    by (auto simp: keeps_batchSize_def dest: TM_batchSize(2) elim!: bind_SomeE)
  obtain m1 r2 mx2 where m1: "TM_BeginTransaction si m = Some m1"
    and b: "exec_seq body (\<lambda>_ mx. do { (r, m) \<leftarrow> TM_CommitTransaction si (fst mx); Some (r, (m, snd mx)) }) (m1, x) = Some (r2, mx2)"
    and e: "(case r2 of Returned _ \<Rightarrow> Some (Returned (), mx2)
        | RetryWithNewTransaction \<Rightarrow>
            do { m \<leftarrow> TM_RollbackTransaction si (fst mx2); Some (RetryWithNewTransaction, (m, snd mx2)) }) = Some (r, (m', x'))"
    using run by (auto simp: ActiveTransaction_def elim!: bind_SomeE)
  have "batchSize (fst mx2) = batchSize m"
    using keepsD [OF keeps_seq [OF assms c] b] TM_batchSize(1) [OF m1] by simp
  then show "batchSize m' = batchSize m"
    using e by (cases r2) (auto dest: TM_batchSize(3) elim!: bind_SomeE)
qed

lemma keeps_release_old: "keeps_batchSize (release_old si n hs)"
proof (induction hs)
  case Nil
  then show ?case
    by (simp add: keeps_batchSize_def)
next
  case (Cons h hs)
  have r: "keeps_batchSize (\<lambda>mx. release_old si n hs (fst mx, hs))"
    by (rule keepsI) (use keepsD [OF Cons] in fastforce)
  show ?case
    by (rule keepsI) (use keepsD [OF keeps_seq [OF keeps_with_storage r]] in \<open>fastforce split: if_splits\<close>)
qed

lemma keeps_PruneIfTooLong: "keeps_batchSize (PruneIfTooLong si)"
proof (rule keepsI)
  fix m q r m' q'
  assume "PruneIfTooLong si (m, q) = Some (r, (m', q'))"
  then show "batchSize m' = batchSize m"
    using keepsD [OF keeps_ActiveTransaction [OF keeps_release_old], of si si "unat (nBlocks q)" "pq_hashes q" "(m, pq_hashes q)"]
    by (auto simp: PruneIfTooLong_def Let_def elim!: bind_SomeE split: if_splits)
qed

lemma keeps_AttachBlock: "keeps_batchSize (AttachBlock si hash height)"
proof (rule keepsI)
  fix m q r m' q'
  assume run: "AttachBlock si hash height (m, q) = Some (r, (m', q'))"
  have p: "keeps_batchSize (\<lambda>mq. PruneIfTooLong si (fst mq, f (snd mq)))" for f
    by (rule keepsI) (use keepsD [OF keeps_PruneIfTooLong] in fastforce)
  have i: "keeps_batchSize (\<lambda>mq :: 'a tx_manager \<times> pruning_queue. if fh > 0
      then ActiveTransaction si (with_storage (st_PruneUndoData si (fh - 1))) mq else Some (Returned (), mq))" for fh
    by (rule keepsI) (use keepsD [OF keeps_ActiveTransaction [OF keeps_with_storage]] in \<open>fastforce split: if_splits\<close>)
  show "batchSize m' = batchSize m"
  proof (cases "\<not> initialPruningDone q \<and> Suc (length (pq_hashes q)) \<ge> unat (nBlocks q)")
    case True
    define fh where "fh = height + 1 - of_nat (length (pq_hashes q @ [hash]))"
    have "exec_seq (\<lambda>mq :: 'a tx_manager \<times> pruning_queue. if fh > 0
        then ActiveTransaction si (with_storage (st_PruneUndoData si (fh - 1))) mq else Some (Returned (), mq))
      (\<lambda>_ mq. PruneIfTooLong si (fst mq, (snd mq)\<lparr>initialPruningDone := True\<rparr>))
      (m, q\<lparr>pq_hashes := pq_hashes q @ [hash]\<rparr>) = Some (r, (m', q'))"
      using run True unfolding AttachBlock_def Let_def fh_def [symmetric]
      by (simp add: bind_CHECK fh_def cong: if_cong split: if_splits)
    then show ?thesis
      using keepsD [OF keeps_seq [OF i p]] by fastforce
  next
    case False
    then show ?thesis
      using run keepsD [OF p [of "\<lambda>q. q\<lparr>pq_hashes := pq_hashes q @ [hash]\<rparr>"], of "(m, q)"]
      unfolding AttachBlock_def Let_def by auto
  qed
qed

lemma BlockAttach_SomeE:
  assumes run: "BlockAttach env d i blk mismatch g = Some g'"
    and p: "FromHex (asString (block_field blk ''parent'')) = Some p"
    and h: "FromHex (asString (block_field blk ''hash'')) = Some h"
  obtains (reinit) g1 where "ReinitialiseState env d g = Some g1" "g' = reset_pruning g1"
    | (ignored) "g' = g"
    | (handled) height rg process where "exec_seq (attach_for_state env p h blk)
         (\<lambda>needReinit. exec_seq (attach_pruning env h height) (\<lambda>_ g. Some (Returned needReinit, g))) g = Some rg"
        "after_block env d process rg = Some g'"
proof -
  have "i = g_gameId g"
    using run by (auto simp: BlockAttach_def elim!: bind_SomeE)
  note run = run [unfolded BlockAttach_def p h Option.bind.simps this CHECK_simps simp_thms]
  show thesis
  proof (cases mismatch)
    case True
    then show thesis
      using run reinit by (auto elim!: bind_SomeE)
  next
    case False
    show thesis
    proof (cases "IsReqtokenRelevant g blk")
      case True
      show thesis
        using run unfolding if_not_P [OF False] using True by (auto elim!: bind_SomeE intro: handled)
    next
      case False': False
      then show thesis
        using run False ignored by simp
    qed
  qed
qed

lemma BlockDetach_SomeE:
  assumes run: "BlockDetach env d i blk mismatch g = Some g'"
    and p: "FromHex (asString (block_field blk ''parent'')) = Some p"
    and h: "FromHex (asString (block_field blk ''hash'')) = Some h"
  obtains (reinit) g1 where "ReinitialiseState env d g = Some g1" "g' = reset_pruning g1"
    | (ignored) "g' = g"
    | (handled) rg process where "exec_seq (detach_for_state env p h blk)
         (\<lambda>needReinit g. Some (Returned needReinit, g\<lparr>g_pruning := map_option PQ_DetachBlock (g_pruning g)\<rparr>)) g = Some rg"
        "after_block env d process rg = Some g'"
proof -
  have "i = g_gameId g"
    using run by (auto simp: BlockDetach_def elim!: bind_SomeE)
  note run = run [unfolded BlockDetach_def p h Option.bind.simps this CHECK_simps simp_thms]
  show thesis
  proof (cases mismatch)
    case True
    then show thesis
      using run reinit by (auto elim!: bind_SomeE)
  next
    case False
    show thesis
    proof (cases "IsReqtokenRelevant g blk")
      case True
      show thesis
        using run unfolding if_not_P [OF False] using True by (auto elim!: bind_SomeE intro: handled)
    next
      case False': False
      then show thesis
        using run False ignored by simp
    qed
  qed
qed

subsection \<open>The daemon on a storage with the contract\<close>

locale synced_daemon = storage_contract si unreliable phase view restorable + undoable_game logic
  for si :: "'st storage_interface"
    and unreliable :: bool
    and phase :: "'st \<Rightarrow> storage_phase"
    and view :: "'st \<Rightarrow> contents"
    and restorable :: "'st \<Rightarrow> contents set"
    and logic :: game_logic +
  fixes env :: "('st, 'p) game_env"
    and pc :: processor_context
    and ch :: block_chain
  assumes env_storage: "ge_storage env = si"
    and env_logic: "ge_logic env = logic"
begin

abbreviation forward :: "string \<Rightarrow> json \<Rightarrow> (string \<times> string) run" where
  "forward \<equiv> ProcessForward (ge_sha env) pc logic"

abbreviation backwards :: "string \<Rightarrow> json \<Rightarrow> string \<Rightarrow> string run" where
  "backwards \<equiv> ProcessBackwards (ge_sha env) pc logic"

abbreviation right_state :: "uint256 \<Rightarrow> string \<Rightarrow> bool" where
  "right_state \<equiv> state_at ch (GetInitialState (ge_sha env) pc logic) forward"

abbreviation good :: "contents \<Rightarrow> bool" where
  "good \<equiv> right_contents ch (GetInitialState (ge_sha env) pc logic) forward"

lemmas good_def = right_contents_def

lemma good_shrink: "shrink_closed good"
  unfolding shrink_closed_def good_def shrunk_def map_le_def by (metis domI)

lemma good_empty [simp]: "good \<lparr>cur = None, undos = Map.empty\<rparr>"
  by (simp add: good_def)

lemma good_current: "good c \<Longrightarrow> cur c = Some (h, s) \<Longrightarrow> right_state h s"
  by (simp add: good_def)

lemma good_set: "good c \<Longrightarrow> right_state h s \<Longrightarrow> upd_current h s c c' \<Longrightarrow> good c'"
  by (simp add: good_def upd_current_def)

lemma good_add:
  assumes "good c" "upd_add h ht u c c'" "right_state (bc_parent ch h) s" "forward s (bc_data ch h) = Some (s', u)"
  shows "good c'"
  using assms unfolding good_def upd_add_def by (auto split: if_splits) blast

lemma good_release: "good c \<Longrightarrow> upd_release h c c' \<Longrightarrow> good c'"
  using good_shrink upd_release_shrunk unfolding shrink_closed_def by blast

lemma storage_current:
  assumes "cached.at_rest P c (g_tm g)"
  shows "st_GetCurrentBlockHash si (wrapped (g_storage g)) = map_option fst (cur c)"
    "st_GetCurrentGameState si (wrapped (g_storage g)) = map_option snd (cur c)"
    "st_GetUndoData si h (wrapped (g_storage g)) = map_option snd (undos c h)"
  using assms by (auto simp: cached.tm_defs g_storage_def needs_end_def hash_law state_law undo_law split: if_splits)

subsection \<open>Attaching a block\<close>

text \<open>The result of an update of the state for a block.\<close>

definition updated :: "('st, 'p) game \<Rightarrow> uint256 \<Rightarrow> contents \<Rightarrow> bool outcome \<Rightarrow> ('st, 'p) game \<Rightarrow> contents \<Rightarrow> bool" where
  "updated g h c r g' c' \<longleftrightarrow>
     cached.at_rest good c' (g_tm g') \<and> batchSize (g_tm g') = batchSize (g_tm g) \<and> g' = g\<lparr>g_tm := g_tm g'\<rparr> \<and>
     (r = Returned True \<longrightarrow> (\<exists>s. cur c' = Some (h, s))) \<and>
     (r = RetryWithNewTransaction \<longrightarrow> unreliable)"

lemma attach_body:
  assumes wf: "wf_uint256 h" and "good c" and s: "right_state (bc_parent ch h) s"
    and height: "bc_height ch h = Suc (bc_height ch (bc_parent ch h))"
    and fw: "forward s (bc_data ch h) = Some (s', u)"
  shows "triple (\<lambda>mx. cached.within good c (fst mx) \<and> snd mx = ())
      (exec_seq (with_storage (lift_exec (st_AddUndoData si h ht u)))
        (\<lambda>_. with_storage (SetCurrentGameStateWithHeight si h ht s')))
      (\<lambda>_ mx. \<exists>c2. cached.within good c2 (fst mx) \<and>
        ((\<exists>c1. upd_add h ht u c c1 \<and> upd_current h s' c1 c2) \<and> snd mx = ())) (\<lambda>mx. cached.broken good (fst mx))"
  by (rule cached.update2_triple [OF lift_updating [OF add_law] set_with_height_updating [OF wf]])
    (use good_add [OF \<open>good c\<close> _ s fw] good_set [OF _ state_at_attach [OF s height fw]] in blast)+

lemma attach_transaction:
  assumes wf: "wf_uint256 h" and rest: "cached.at_rest good c m" and s: "right_state (bc_parent ch h) s"
    and height: "bc_height ch h = Suc (bc_height ch (bc_parent ch h))"
    and fw: "forward s (bc_data ch h) = Some (s', u)"
    and run: "ActiveTransaction (StorageWithCachedHeight si)
      (exec_seq (with_storage (lift_exec (st_AddUndoData si h ht u)))
        (\<lambda>_. with_storage (SetCurrentGameStateWithHeight si h ht s'))) (m, ()) = Some (r, mx)"
  shows "(\<exists>c'. cached.at_rest good c' (fst mx) \<and> (r = Returned () \<longrightarrow> cur c' = Some (h, s'))) \<and>
    batchSize (fst mx) = batchSize m \<and> (r = RetryWithNewTransaction \<longrightarrow> unreliable)"
proof -
  have c: "good c"
    using rest by (simp add: cached.at_rest_def)
  have keep: "batchSize (fst mx) = batchSize m"
    using keepsD [OF keeps_ActiveTransaction [OF keeps_seq [OF keeps_with_storage keeps_with_storage]] run] by simp
  have "case r of
      Returned x \<Rightarrow> \<exists>c2. cached.at_rest good c2 (fst mx) \<and>
        ((\<exists>c1. upd_add h ht u c c1 \<and> upd_current h s' c1 c2) \<and> snd mx = ())
    | RetryWithNewTransaction \<Rightarrow> cached.rolled_back good (fst mx)"
    by (rule triple_result [OF cached.ActiveTransaction_triple [OF attach_body [OF wf c s height fw]] _ run]) (use rest in simp)
  then show ?thesis
    using keep by (cases r) (auto simp: upd_current_def cached.rolled_back_def)
qed

lemma attach_update:
  assumes wf: "wf_uint256 h" and rest: "cached.at_rest good c (g_tm g)" and pc: "g_context g = pc"
    and p: "bc_parent ch h = p" and height: "bc_height ch h = Suc (bc_height ch p)"
    and blk: "\<And>s. forward s blk = forward s (bc_data ch h)"
    and run: "UpdateStateForAttach env p h blk g = Some (r, g')"
  shows "\<exists>c'. updated g h c r g' c'"
proof -
  obtain h0 s where cur: "cur c = Some (h0, s)"
    using run by (auto simp: UpdateStateForAttach_def env_storage storage_current [OF rest] elim!: bind_SomeE)
  show ?thesis
  proof (cases "h0 = p")
    case False
    then have "r = Returned False" "g' = g"
      using run by (simp_all add: UpdateStateForAttach_def env_storage storage_current [OF rest] cur)
    then show ?thesis
      using rest by (auto simp: updated_def)
  next
    case True
    define body where "body = (\<lambda>ht. \<lambda>mx :: 'st cached_storage tx_manager \<times> unit. do {
        (newState, undo) \<leftarrow> forward s (bc_data ch h);
        exec_seq (with_storage (lift_exec (st_AddUndoData si h ht undo)))
          (\<lambda>_. with_storage (SetCurrentGameStateWithHeight si h ht newState)) mx })"
    obtain ht r' mx where at: "ActiveTransaction (StorageWithCachedHeight si) (body ht) (g_tm g, ()) = Some (r', mx)"
      and r: "r = (case r' of Returned _ \<Rightarrow> Returned True | RetryWithNewTransaction \<Rightarrow> RetryWithNewTransaction)"
      and g': "g' = g\<lparr>g_tm := fst mx\<rparr>"
      using run True unfolding UpdateStateForAttach_def body_def
      by (auto simp: env_storage env_logic storage_current [OF rest] cur pc blk elim!: bind_SomeE)
    obtain s' u where fw: "forward s (bc_data ch h) = Some (s', u)"
      using at ActiveTransaction_None [of "body ht" "StorageWithCachedHeight si" "(g_tm g, ())"]
      by (cases "forward s (bc_data ch h)") (auto simp: body_def)
    have "right_state (bc_parent ch h) s"
      using rest cur True p by (auto simp: cached.at_rest_def intro: good_current)
    then have "(\<exists>c'. cached.at_rest good c' (fst mx) \<and> (r' = Returned () \<longrightarrow> cur c' = Some (h, s'))) \<and>
        batchSize (fst mx) = batchSize (g_tm g) \<and> (r' = RetryWithNewTransaction \<longrightarrow> unreliable)"
      using at height p by (intro attach_transaction [OF wf rest _ _ fw]) (simp_all add: body_def fw)
    then show ?thesis
      unfolding updated_def by (cases r') (auto simp: r g')
  qed
qed

subsection \<open>Detaching a block\<close>

lemma clear_storage:
  assumes "cached.at_rest good c m"
  obtains m' st where "TryAbortTransaction (StorageWithCachedHeight si) m = Some m'"
    "st_Clear (StorageWithCachedHeight si) (tm_storage m') = Some st"
    "cached.at_rest good \<lparr>cur = None, undos = Map.empty\<rparr> (m'\<lparr>tm_storage := st\<rparr>)"
    "batchSize m' = batchSize m"
proof -
  obtain m' c' where m': "TryAbortTransaction (StorageWithCachedHeight si) m = Some m'"
    "batchedCommits m' = 0" "phase (wrapped (tm_storage m')) = Idle" "cached.at_rest good c' m'"
    "batchSize m' = batchSize m"
    using cached.TryAbort [OF assms] by blast
  obtain st where "st_Clear si (wrapped (tm_storage m')) = Some st" "phase st = Idle"
    "view st = \<lparr>cur = None, undos = Map.empty\<rparr>" "restorable st \<subseteq> {\<lparr>cur = None, undos = Map.empty\<rparr>}"
    using clear_law [OF m'(3)] by blast
  moreover from this have "\<forall>c\<in>restorable st. good c"
    by auto
  ultimately show thesis
    using m' that by (simp add: StorageWithCachedHeight_def cached.tm_defs)
qed

lemma detach_body:
  assumes wf: "wf_uint256 p" and "good c" and s: "right_state p s"
  shows "triple (\<lambda>mx. cached.within good c (fst mx) \<and> snd mx = ())
      (exec_seq (with_storage (SetCurrentGameStateWithHeight si p ht s))
        (\<lambda>_. with_storage (lift_exec (st_ReleaseUndoData si h))))
      (\<lambda>_ mx. \<exists>c2. cached.within good c2 (fst mx) \<and>
        ((\<exists>c1. upd_current p s c c1 \<and> upd_release h c1 c2) \<and> snd mx = ())) (\<lambda>mx. cached.broken good (fst mx))"
  by (rule cached.update2_triple [OF set_with_height_updating [OF wf] lift_updating [OF release_law]])
    (use good_set [OF \<open>good c\<close> s] good_release in blast)+

lemma detach_transaction:
  assumes wf: "wf_uint256 p" and rest: "cached.at_rest good c m" and s: "right_state p s"
    and run: "ActiveTransaction (StorageWithCachedHeight si)
      (exec_seq (with_storage (SetCurrentGameStateWithHeight si p ht s))
        (\<lambda>_. with_storage (lift_exec (st_ReleaseUndoData si h)))) (m, ()) = Some (r, mx)"
  shows "(\<exists>c'. cached.at_rest good c' (fst mx) \<and> (r = Returned () \<longrightarrow> cur c' = Some (p, s))) \<and>
    batchSize (fst mx) = batchSize m \<and> (r = RetryWithNewTransaction \<longrightarrow> unreliable)"
proof -
  have c: "good c"
    using rest by (simp add: cached.at_rest_def)
  have keep: "batchSize (fst mx) = batchSize m"
    using keepsD [OF keeps_ActiveTransaction [OF keeps_seq [OF keeps_with_storage keeps_with_storage]] run] by simp
  have "case r of
      Returned x \<Rightarrow> \<exists>c2. cached.at_rest good c2 (fst mx) \<and>
        ((\<exists>c1. upd_current p s c c1 \<and> upd_release h c1 c2) \<and> snd mx = ())
    | RetryWithNewTransaction \<Rightarrow> cached.rolled_back good (fst mx)"
    by (rule triple_result [OF cached.ActiveTransaction_triple [OF detach_body [OF wf c s]] _ run]) (use rest in simp)
  then show ?thesis
    using keep by (cases r) (auto simp: upd_current_def upd_release_def cached.rolled_back_def)
qed

text \<open>The undo data of the current block gives back the state of its parent.\<close>

lemma undo_gives_parent:
  assumes "good c" "cur c = Some (h, s)" "undos c h = Some (k, u)"
    and height: "bc_height ch h = Suc (bc_height ch (bc_parent ch h))"
  shows "\<exists>s0. backwards s (bc_data ch h) u = Some s0 \<and> right_state (bc_parent ch h) s0"
proof -
  obtain s0 s1 where s0: "right_state (bc_parent ch h) s0" and fw: "forward s0 (bc_data ch h) = Some (s1, u)"
    using assms(1,3) unfolding good_def by blast
  have "s = s1"
    using state_at_unique [OF good_current [OF assms(1,2)] state_at_attach [OF s0 height fw]] .
  then show ?thesis
    using s0 backwards_forward [OF fw] by blast
qed

lemma detach_update:
  assumes wf: "wf_uint256 p" and rest: "cached.at_rest good c (g_tm g)" and pc: "g_context g = pc"
    and p: "bc_parent ch h = p" and height: "bc_height ch h = Suc (bc_height ch p)"
    and blk: "\<And>s u. backwards s blk u = backwards s (bc_data ch h) u"
    and run: "UpdateStateForDetach env p h blk g = Some (r, g')"
  shows "\<exists>c'. updated g p c r g' c'"
proof -
  have c: "good c"
    using rest by (simp add: cached.at_rest_def)
  obtain h0 s where cur: "cur c = Some (h0, s)"
    using run by (auto simp: UpdateStateForDetach_def env_storage storage_current [OF rest] elim!: bind_SomeE)
  consider (other) "h0 \<noteq> h" | (missing) "h0 = h" "undos c h = None" | (undo) k u where "h0 = h" "undos c h = Some (k, u)"
    by (cases "undos c h") auto
  then show ?thesis
  proof cases
    case other
    then have "r = Returned False" "g' = g"
      using run by (simp_all add: UpdateStateForDetach_def env_storage storage_current [OF rest] cur)
    then show ?thesis
      using rest by (auto simp: updated_def)
  next
    case missing
    obtain m' st where "TryAbortTransaction (StorageWithCachedHeight si) (g_tm g) = Some m'"
      "st_Clear (StorageWithCachedHeight si) (tm_storage m') = Some st"
      "cached.at_rest good \<lparr>cur = None, undos = Map.empty\<rparr> (m'\<lparr>tm_storage := st\<rparr>)"
      "batchSize m' = batchSize (g_tm g)"
      using clear_storage [OF rest] .
    then show ?thesis
      using run missing by (auto simp: UpdateStateForDetach_def env_storage storage_current [OF rest] cur updated_def)
  next
    case undo
    obtain s0 where bw: "backwards s (bc_data ch h) u = Some s0" and s0: "right_state p s0"
      using undo_gives_parent [OF c _ undo(2)] cur undo(1) height p by auto
    define body where "body = (\<lambda>mx :: 'st cached_storage tx_manager \<times> unit. do {
        height \<leftarrow> json_asUInt (block_field blk ''height'');
        CHECK (height > 0);
        exec_seq (with_storage (SetCurrentGameStateWithHeight si p (height - 1) s0))
          (\<lambda>_. with_storage (lift_exec (st_ReleaseUndoData si h))) mx })"
    obtain r' mx where at: "ActiveTransaction (StorageWithCachedHeight si) body (g_tm g, ()) = Some (r', mx)"
      and r: "r = (case r' of Returned _ \<Rightarrow> Returned True | RetryWithNewTransaction \<Rightarrow> RetryWithNewTransaction)"
      and g': "g' = g\<lparr>g_tm := fst mx\<rparr>"
      using run undo unfolding UpdateStateForDetach_def body_def
      by (auto simp: env_storage env_logic storage_current [OF rest] cur pc blk bw elim!: bind_SomeE)
    have "\<exists>ht. json_asUInt (block_field blk ''height'') = Some ht \<and> ht > 0"
    proof (rule ccontr)
      assume "\<nexists>ht. json_asUInt (block_field blk ''height'') = Some ht \<and> ht > 0"
      then have "body mx = None" for mx
        by (cases "json_asUInt (block_field blk ''height'')") (auto simp: body_def bind_CHECK)
      then show False
        using at ActiveTransaction_None [of body] by simp
    qed
    then obtain ht where ht: "json_asUInt (block_field blk ''height'') = Some ht" "ht > 0"
      by blast
    have "(\<exists>c'. cached.at_rest good c' (fst mx) \<and> (r' = Returned () \<longrightarrow> cur c' = Some (p, s0))) \<and>
        batchSize (fst mx) = batchSize (g_tm g) \<and> (r' = RetryWithNewTransaction \<longrightarrow> unreliable)"
      using at by (intro detach_transaction [OF wf rest s0]) (simp add: body_def ht bind_CHECK)
    then show ?thesis
      unfolding updated_def by (cases r') (auto simp: r g')
  qed
qed

subsection \<open>Synchronisation\<close>

text \<open>The invariant between notifications.\<close>

definition synced :: "('st, 'p) game \<Rightarrow> bool" where
  "synced g \<longleftrightarrow> g_context g = pc \<and> g_state g \<in> {PREGENESIS, CATCHING_UP, UP_TO_DATE} \<and>
     (g_state g = UP_TO_DATE \<longrightarrow> batchSize (g_tm g) = 1) \<and>
     (\<exists>c. cached.at_rest good c (g_tm g) \<and> (g_state g \<noteq> PREGENESIS \<longrightarrow> cur c \<noteq> None))"

lemma g_context_simps [simp]:
  "g_context (g\<lparr>g_state := x\<rparr>) = g_context g" "g_context (g\<lparr>g_tm := m\<rparr>) = g_context g"
  "g_context (g\<lparr>g_targetBlockHash := t\<rparr>) = g_context g" "g_context (g\<lparr>g_reqToken := k\<rparr>) = g_context g"
  "g_context (g\<lparr>g_pruning := q\<rparr>) = g_context g" "g_context (g\<lparr>g_pending := pp\<rparr>) = g_context g"
  "g_context (g\<lparr>g_pendingStateVersion := v\<rparr>) = g_context g"
  "g_context (g\<lparr>g_genesisHeight := n\<rparr>) = g_context g" "g_context (g\<lparr>g_genesisHash := h\<rparr>) = g_context g"
  by (simp_all add: g_context_def)

lemma set_batch_size_ok:
  assumes "cached.at_rest good c (g_tm g)" "set_batch_size env sz g = Some g'"
  obtains m where "g' = g\<lparr>g_tm := m\<rparr>" "cached.at_rest good c m" "batchSize m = sz"
proof -
  obtain m where m: "SetBatchSize (StorageWithCachedHeight si) sz (g_tm g) = Some (Returned (), m)" "g' = g\<lparr>g_tm := m\<rparr>"
    using assms(2) by (auto simp: set_batch_size_def env_storage elim!: bind_SomeE)
  have "sz \<noteq> 0"
    using m(1) by (auto simp: SetBatchSize_def elim!: bind_SomeE)
  then show thesis
    using triple_result [OF cached.SetBatchSize_triple assms(1) m(1)] SetBatchSize_batchSize [OF m(1)] m(2) that by simp
qed

lemma sync_ok:
  assumes rest: "cached.at_rest good c (g_tm g)" and cur: "cur c \<noteq> None" and pc: "g_context g = pc"
    and run: "SyncFromCurrentState env d h g = Some g'"
  shows "synced g'"
proof -
  obtain best where best: "FromHex (bestblockhash d) = Some best"
    using run by (auto simp: SyncFromCurrentState_def elim!: bind_SomeE)
  show ?thesis
  proof (cases "best = h")
    case True
    then have "set_batch_size env 1 (g\<lparr>g_state := UP_TO_DATE\<rparr>) = Some g'"
      using run best by (auto simp: SyncFromCurrentState_def elim!: bind_SomeE)
    then obtain m where "g' = g\<lparr>g_state := UP_TO_DATE, g_tm := m\<rparr>" "cached.at_rest good c m" "batchSize m = 1"
      using rest by (auto elim!: set_batch_size_ok [rotated])
    then show ?thesis
      using cur pc by (auto simp: synced_def)
  next
    case False
    obtain toblock tok where upd: "game_sendupdates d (ToHex h) = (toblock, tok)"
      by (cases "game_sendupdates d (ToHex h)")
    obtain g1 t where g1: "set_batch_size env (g_transactionBatchSize g) (g\<lparr>g_state := CATCHING_UP\<rparr>) = Some g1"
      "g' = g1\<lparr>g_targetBlockHash := t, g_reqToken := tok\<rparr>"
      using run best False upd by (auto simp: SyncFromCurrentState_def elim!: bind_SomeE)
    then obtain m where "g1 = g\<lparr>g_state := CATCHING_UP, g_tm := m\<rparr>" "cached.at_rest good c m"
      using rest by (auto elim!: set_batch_size_ok [rotated])
    then show ?thesis
      using cur pc by (auto simp: synced_def g1(2))
  qed
qed

lemma store_genesis_ok:
  assumes "wf_uint256 h" "store_genesis si h ht s m = Some m'" "cached.at_rest good c m" "right_state h s"
  shows "\<exists>c'. cached.at_rest good c' m' \<and> cur c' = Some (h, s)"
proof -
  have "si0 = si \<and> wf_uint256 h \<longrightarrow> (\<forall>c. cached.at_rest good c m \<longrightarrow> right_state h s \<longrightarrow>
      (\<exists>c'. cached.at_rest good c' m' \<and> cur c' = Some (h, s)))"
    if "store_genesis si0 h ht s m = Some m'" for si0 h ht s m m'
    using that
  proof (rule store_genesis.raw_induct [rotated], intro impI allI)
    fix rec si0 h ht s m m' c
    assume IH: "\<And>si0 h ht s m m'. rec si0 h ht s m = Some m' \<Longrightarrow> si0 = si \<and> wf_uint256 h \<longrightarrow> (\<forall>c. cached.at_rest good c m \<longrightarrow>
        right_state h s \<longrightarrow> (\<exists>c'. cached.at_rest good c' m' \<and> cur c' = Some (h, s)))"
      and step: "do { (r, mx) \<leftarrow> ActiveTransaction (StorageWithCachedHeight si0)
          (with_storage (SetCurrentGameStateWithHeight si0 h ht s)) (m, ());
        (case r of Returned x \<Rightarrow> Some (fst mx) | RetryWithNewTransaction \<Rightarrow> rec si0 h ht s (fst mx)) } = Some m'"
      and si0': "si0 = si \<and> wf_uint256 h" and c: "cached.at_rest good c m" and hs: "right_state h s"
    have si0: "si0 = si" and wf: "wf_uint256 h"
      using si0' by simp_all
    have g: "good c"
      using c by (simp add: cached.at_rest_def)
    obtain r mx where at: "ActiveTransaction (StorageWithCachedHeight si)
        (with_storage (SetCurrentGameStateWithHeight si h ht s)) (m, ()) = Some (r, mx)"
      and rest: "(case r of Returned x \<Rightarrow> Some (fst mx)
        | RetryWithNewTransaction \<Rightarrow> rec si h ht s (fst mx)) = Some m'"
      using step unfolding si0 by (auto elim!: bind_SomeE)
    have pre: "cached.at_rest good c (fst (m, ())) \<and> snd (m, ()) = ()"
      using c by simp
    have "case r of
        Returned x \<Rightarrow> \<exists>c'. cached.at_rest good c' (fst mx) \<and> (upd_current h s c c' \<and> snd mx = ())
      | RetryWithNewTransaction \<Rightarrow> cached.rolled_back good (fst mx)"
      by (rule triple_result [OF cached.ActiveTransaction_triple
            [OF cached.update_triple [OF set_with_height_updating [OF wf] good_set [OF g hs], where X = "\<lambda>x. x = ()"]] pre at])
    then show "\<exists>c'. cached.at_rest good c' m' \<and> cur c' = Some (h, s)"
      using rest IH hs wf by (cases r) (auto simp: upd_current_def cached.rolled_back_def)
  qed
  then show ?thesis
    using assms by blast
qed

lemma genesis_ok:
  assumes rest: "cached.at_rest good c (g_tm g)" and pc: "g_context g = pc"
    and run: "start_from_genesis env d g = Some g'"
  shows "synced g'"
proof -
  obtain m' st where clear: "TryAbortTransaction (StorageWithCachedHeight si) (g_tm g) = Some m'"
    "st_Clear (StorageWithCachedHeight si) (tm_storage m') = Some st"
    and rest': "cached.at_rest good \<lparr>cur = None, undos = Map.empty\<rparr> (m'\<lparr>tm_storage := st\<rparr>)"
    using clear_storage [OF rest] by metis
  obtain s ht hx h m where init: "GetInitialState (ge_sha env) pc logic = Some (s, ht, hx)" "FromHex hx = Some h"
    and store: "store_genesis si h ht s (m'\<lparr>tm_storage := st\<rparr>) = Some m"
    and sync: "SyncFromCurrentState env d h
         (g\<lparr>g_state := OUT_OF_SYNC, g_genesisHeight := ht, g_genesisHash := h, g_tm := m\<rparr>) = Some g'"
    using run by (auto simp: start_from_genesis_def env_storage env_logic pc clear elim!: bind_SomeE)
  obtain c' where "cached.at_rest good c' m" "cur c' = Some (h, s)"
    using store_genesis_ok [OF FromHex_wf [OF init(2)] store rest' state_at_genesis [OF init]] by blast
  then show ?thesis
    by (intro sync_ok [OF _ _ _ sync, of c']) (simp_all add: pc)
qed

lemma reinit_ok:
  assumes rest: "cached.at_rest good c (g_tm g)" and pc: "g_context g = pc"
    and run: "ReinitialiseState env d g = Some g'"
  shows "synced g'"
proof (cases "cur c")
  case (Some hs)
  then have "SyncFromCurrentState env d (fst hs) (g\<lparr>g_state := OUT_OF_SYNC\<rparr>) = Some g'"
    using run by (simp add: ReinitialiseState_def env_storage storage_current [OF rest])
  then show ?thesis
    using rest pc Some by (intro sync_ok [of c]) auto
next
  case None
  obtain g1 where g1: "cache_genesis env (g\<lparr>g_state := UNKNOWN\<rparr>) = Some g1"
    and run1: "(if blocks d < g_genesisHeight g1 then
        Some (g1\<lparr>g_state := PREGENESIS, g_targetBlockHash := g_genesisHash g1\<rparr>)
      else start_from_genesis env d g1) = Some g'"
    using run None by (auto simp: ReinitialiseState_def env_storage storage_current [OF rest] elim!: bind_SomeE)
  have "g_context g1 = pc" "g_tm g1 = g_tm g"
    using g1 pc by (auto simp: cache_genesis_def elim!: bind_SomeE split: if_splits)
  then show ?thesis
    using run1 rest genesis_ok [of c g1] by (auto simp: synced_def split: if_splits)
qed

subsection \<open>Handlers\<close>

text \<open>What the \<open>try\<close> block of a handler leaves.\<close>

definition block_done :: "bool outcome \<Rightarrow> ('st, 'p) game \<Rightarrow> bool" where
  "block_done r g \<longleftrightarrow> g_context g = pc \<and> (\<exists>c. cached.at_rest good c (g_tm g)) \<and> (r = Returned False \<longrightarrow> synced g)"

lemma synced_done: "synced g \<Longrightarrow> block_done r g"
  by (auto simp: block_done_def synced_def)

lemma updated_done:
  assumes "synced g" "updated g h c r g' c'"
  shows "r = Returned b \<Longrightarrow> block_done (Returned (\<not> b)) g'"
    "r = Returned b \<Longrightarrow> block_done (Returned (b \<longrightarrow> x)) g'"
    "r = RetryWithNewTransaction \<Longrightarrow> block_done RetryWithNewTransaction g'"
proof -
  have g': "g' = g\<lparr>g_tm := g_tm g'\<rparr>" "cached.at_rest good c' (g_tm g')" "batchSize (g_tm g') = batchSize (g_tm g)"
    "r = Returned True \<Longrightarrow> cur c' \<noteq> None"
    using assms(2) by (auto simp: updated_def)
  have ctx: "g_context g' = pc" "g_state g' = g_state g"
    by (subst g'(1), use assms(1) in \<open>simp add: synced_def\<close>)+
  then have "synced g'" if "r = Returned True"
    using assms(1) g' that by (auto simp: synced_def)
  then show "r = Returned b \<Longrightarrow> block_done (Returned (\<not> b)) g'"
    "r = Returned b \<Longrightarrow> block_done (Returned (b \<longrightarrow> x)) g'"
    "r = RetryWithNewTransaction \<Longrightarrow> block_done RetryWithNewTransaction g'"
    using ctx g' by (auto simp: block_done_def)
qed

lemma exec_seq_SomeE:
  assumes "exec_seq f k s = Some (r, s')"
  obtains x s1 where "f s = Some (Returned x, s1)" "k x s1 = Some (r, s')"
    | "f s = Some (RetryWithNewTransaction, s')" "r = RetryWithNewTransaction"
  using assms by (auto simp: exec_seq_def elim!: bind_SomeE split: outcome.splits)

lemma for_state_done:
  assumes s: "synced g" and upd: "\<And>r1 g1. update g = Some (r1, g1) \<Longrightarrow> \<exists>c'. updated g h c r1 g1 c'"
  shows "exec_seq update (\<lambda>ok g. Some (Returned (\<not> ok), g)) g = Some (r, g') \<Longrightarrow> block_done r g'"
    "exec_seq update (\<lambda>ok g. Some (Returned (\<not> ok \<or> t = g_targetBlockHash g), g)) g = Some (r, g') \<Longrightarrow> block_done r g'"
  using upd updated_done [OF s] by (fastforce elim!: exec_seq_SomeE)+

lemma attach_for_state_ok:
  assumes wf: "wf_uint256 h" and s: "synced g" and run: "attach_for_state env p h blk g = Some (r, g')"
    and blk: "bc_parent ch h = p" "bc_height ch h = Suc (bc_height ch p)"
      "\<And>s. forward s blk = forward s (bc_data ch h)"
  shows "block_done r g'"
proof -
  obtain c where c: "cached.at_rest good c (g_tm g)" "g_context g = pc"
    using s by (auto simp: synced_def)
  note upd = attach_update [OF wf c blk]
  show ?thesis
    using run for_state_done [OF s upd] synced_done [OF s] unfolding attach_for_state_def
    by (cases "g_state g") (auto simp: LOG_FATAL_def)
qed

lemma detach_for_state_ok:
  assumes wf: "wf_uint256 p" and s: "synced g" and run: "detach_for_state env p h blk g = Some (r, g')"
    and blk: "bc_parent ch h = p" "bc_height ch h = Suc (bc_height ch p)"
      "\<And>s u. backwards s blk u = backwards s (bc_data ch h) u"
  shows "block_done r g'"
proof -
  obtain c where c: "cached.at_rest good c (g_tm g)" "g_context g = pc"
    using s by (auto simp: synced_def)
  note upd = detach_update [OF wf c blk]
  show ?thesis
    using run for_state_done [OF s upd] synced_done [OF s] unfolding detach_for_state_def
    by (cases "g_state g") (auto simp: LOG_FATAL_def)
qed

lemma AttachBlock_ok:
  assumes rest: "cached.at_rest good c m"
    and run: "AttachBlock (StorageWithCachedHeight si) hash height (m, q) = Some (r, (m', q'))"
  shows "\<exists>c'. cached.at_rest good c' m' \<and> (r = Returned () \<longrightarrow> cur c' = cur c)"
proof -
  have prune: "\<exists>c'. cached.at_rest good c' (fst mq) \<and> (r = Returned () \<longrightarrow> cur c' = cur c1)"
    if "PruneIfTooLong (StorageWithCachedHeight si) (m1, q1) = Some (r, mq)" "cached.at_rest good c1 m1" for m1 q1 r mq c1
    using triple_result [OF PruneIfTooLong_triple [OF good_shrink] _ that(1), of c1 q1] that(2)
    by (cases r) (auto simp: pruned_def shrunk_def Let_def cached.rolled_back_def)
  define fh where "fh = height + 1 - of_nat (length (pq_hashes q @ [hash]))"
  define q1 where "q1 = q\<lparr>pq_hashes := pq_hashes q @ [hash]\<rparr>"
  define first where "first = (\<lambda>mq :: 'st cached_storage tx_manager \<times> pruning_queue. if fh > 0
    then ActiveTransaction (StorageWithCachedHeight si) (with_storage (lift_exec (st_PruneUndoData si (fh - 1)))) mq
    else Some (Returned (), mq))"
  have front: "\<exists>c'. cached.at_rest good c' (fst mq) \<and> (r = Returned () \<longrightarrow> cur c' = cur c)"
    if "first (m, q1) = Some (r, mq)" for r mq
    using triple_result [OF prune_front_triple [OF good_shrink] _ that [unfolded first_def], of c q1] rest
    by (cases r) (auto simp: shrunk_def cached.rolled_back_def)
  consider (first) "exec_seq first (\<lambda>_ mq. PruneIfTooLong (StorageWithCachedHeight si)
      (fst mq, (snd mq)\<lparr>initialPruningDone := True\<rparr>)) (m, q1) = Some (r, (m', q'))"
    | (rest) "PruneIfTooLong (StorageWithCachedHeight si) (m, q1) = Some (r, (m', q'))"
    using run unfolding AttachBlock_def Let_def first_def q1_def fh_def
    by (simp add: bind_CHECK cong: if_cong split: if_splits)
  then show ?thesis
  proof cases
    case first
    then show ?thesis
    proof (cases rule: exec_seq_SomeE)
      case (1 x mq)
      obtain c1 where "cached.at_rest good c1 (fst mq)" "cur c1 = cur c"
        using front [OF 1(1)] by auto
      then show ?thesis
        using prune [OF 1(2)] by fastforce
    next
      case 2
      then show ?thesis
        using front [OF 2(1)] by auto
    qed
  next
    case rest
    then show ?thesis
      using prune [OF rest assms(1)] by simp
  qed
qed

lemma attach_pruning_ok:
  assumes fin: "block_done (Returned b) g" and run: "attach_pruning env hash height g = Some (r, g')"
  shows "block_done (case r of Returned _ \<Rightarrow> Returned b | RetryWithNewTransaction \<Rightarrow> RetryWithNewTransaction) g'"
proof (cases "g_pruning g")
  case None
  then show ?thesis
    using fin run by (auto simp: attach_pruning_def)
next
  case (Some q)
  obtain m' q' where at: "AttachBlock (StorageWithCachedHeight si) hash height (g_tm g, q) = Some (r, (m', q'))"
    and g': "g' = g\<lparr>g_tm := m', g_pruning := Some q'\<rparr>"
    using run Some by (auto simp: attach_pruning_def env_storage elim!: bind_SomeE)
  have ctx: "g_context g = pc"
    using fin by (simp add: block_done_def)
  have bs: "batchSize m' = batchSize (g_tm g)"
    using keepsD [OF keeps_AttachBlock at] by simp
  obtain c where c: "cached.at_rest good c (g_tm g)" "b = False \<longrightarrow> g_state g \<noteq> PREGENESIS \<longrightarrow> cur c \<noteq> None"
    using fin by (cases b) (auto simp: block_done_def synced_def)
  obtain c' where c': "cached.at_rest good c' m'" "r = Returned () \<longrightarrow> cur c' = cur c"
    using AttachBlock_ok [OF c(1) at] by blast
  have "synced g'" if "r = Returned ()" "b = False"
    using that c c' bs ctx fin by (auto simp: synced_def block_done_def g')
  then show ?thesis
    using c' ctx by (cases r) (auto simp: block_done_def g')
qed

lemma update_pending_ok: "synced g \<Longrightarrow> update_pending env process g = Some g' \<Longrightarrow> synced g'"
  by (auto simp: update_pending_def NotifyPendingStateChange_def synced_def elim!: bind_SomeE split: option.splits if_splits)

lemma after_block_ok:
  assumes fin: "block_done (fst rg) (snd rg)" and run: "after_block env d process rg = Some g'"
  shows "synced g'"
proof -
  define reinit where "reinit = (case fst rg of Returned b \<Rightarrow> b | RetryWithNewTransaction \<Rightarrow> True)"
  obtain g where g: "(if reinit then ReinitialiseState env d (snd rg) else Some (snd rg)) = Some g"
    and pend: "update_pending env process g = Some g'"
    using run unfolding after_block_def reinit_def Let_def by (rule bind_SomeE)
  have "synced g"
  proof (cases reinit)
    case True
    then show ?thesis
      using fin g reinit_ok by (auto simp: block_done_def)
  next
    case False
    then show ?thesis
      using fin g by (auto simp: block_done_def reinit_def split: outcome.splits)
  qed
  then show ?thesis
    using pend by (rule update_pending_ok)
qed

lemma synced_pruning [simp]: "synced (g\<lparr>g_pruning := q\<rparr>) = synced g"
  by (simp add: synced_def)

lemma block_done_pruning [simp]: "block_done r (g\<lparr>g_pruning := q\<rparr>) = block_done r g"
  by (simp add: block_done_def)

lemma synced_reinit: "synced g \<Longrightarrow> ReinitialiseState env d g = Some g' \<Longrightarrow> synced g'"
  unfolding synced_def [of g] using reinit_ok by blast

lemma BlockAttach_ok:
  assumes s: "synced g" and ok: "notification_ok ch forward backwards blk"
    and run: "BlockAttach env d i blk mismatch g = Some g'"
  shows "synced g'"
proof -
  obtain p h where p: "FromHex (asString (block_field blk ''parent'')) = Some p"
    and h: "FromHex (asString (block_field blk ''hash'')) = Some h"
    using run by (auto simp: BlockAttach_def elim!: bind_SomeE)
  have blk: "bc_parent ch h = p" "bc_height ch h = Suc (bc_height ch p)" "\<And>s. forward s blk = forward s (bc_data ch h)"
    using ok p h by (auto simp: notification_ok_def)
  consider (reinit) g1 where "ReinitialiseState env d g = Some g1" "g' = reset_pruning g1"
    | (ignored) "g' = g"
    | (handled) height rg process where "exec_seq (attach_for_state env p h blk)
         (\<lambda>needReinit. exec_seq (attach_pruning env h height) (\<lambda>_ g. Some (Returned needReinit, g))) g = Some rg"
        "after_block env d process rg = Some g'"
    using run p h by (rule BlockAttach_SomeE)
  then show ?thesis
  proof cases
    case reinit
    then show ?thesis
      using synced_reinit [OF s] by (simp add: reset_pruning_def)
  next
    case ignored
    then show ?thesis
      using s by simp
  next
    case handled
    obtain r g1 where rg: "rg = (r, g1)"
      by (cases rg)
    from handled(1) have "block_done r g1"
      unfolding rg
    proof (cases rule: exec_seq_SomeE)
      case (1 b g0)
      have b: "block_done (Returned b) g0"
        by (rule attach_for_state_ok [OF FromHex_wf [OF h] s 1(1) blk])
      from 1(2) show ?thesis
        by (cases rule: exec_seq_SomeE) (use attach_pruning_ok [OF b] in fastforce)+
    next
      case 2
      then show ?thesis
        using attach_for_state_ok [OF FromHex_wf [OF h] s 2(1) blk] by simp
    qed
    then show ?thesis
      using after_block_ok [OF _ handled(2)] by (simp add: rg)
  qed
qed

lemma BlockDetach_ok:
  assumes s: "synced g" and ok: "notification_ok ch forward backwards blk"
    and run: "BlockDetach env d i blk mismatch g = Some g'"
  shows "synced g'"
proof -
  obtain p h where p: "FromHex (asString (block_field blk ''parent'')) = Some p"
    and h: "FromHex (asString (block_field blk ''hash'')) = Some h"
    using run by (auto simp: BlockDetach_def elim!: bind_SomeE)
  have blk: "bc_parent ch h = p" "bc_height ch h = Suc (bc_height ch p)"
    "\<And>s u. backwards s blk u = backwards s (bc_data ch h) u"
    using ok p h by (auto simp: notification_ok_def)
  consider (reinit) g1 where "ReinitialiseState env d g = Some g1" "g' = reset_pruning g1"
    | (ignored) "g' = g"
    | (handled) rg process where "exec_seq (detach_for_state env p h blk)
         (\<lambda>needReinit g. Some (Returned needReinit, g\<lparr>g_pruning := map_option PQ_DetachBlock (g_pruning g)\<rparr>)) g = Some rg"
        "after_block env d process rg = Some g'"
    using run p h by (rule BlockDetach_SomeE)
  then show ?thesis
  proof cases
    case reinit
    then show ?thesis
      using synced_reinit [OF s] by (simp add: reset_pruning_def)
  next
    case ignored
    then show ?thesis
      using s by simp
  next
    case handled
    obtain r g1 where rg: "rg = (r, g1)"
      by (cases rg)
    from handled(1) have "block_done r g1"
      unfolding rg by (cases rule: exec_seq_SomeE) (use detach_for_state_ok [OF FromHex_wf [OF p] s _ blk] in auto)
    then show ?thesis
      using after_block_ok [OF _ handled(2)] by (simp add: rg)
  qed
qed

lemma PendingMove_ok: "synced g \<Longrightarrow> PendingMove env i mv g = Some g' \<Longrightarrow> synced g'"
  by (auto simp: PendingMove_def NotifyPendingStateChange_def synced_def elim!: bind_SomeE split: if_splits)

subsection \<open>Sequences of messages\<close>

lemma Listen_step_ok:
  assumes s: "synced (snd sg)" and ok: "message_ok ch forward backwards msg"
    and run: "Listen_step env d msg sg = Some sg'"
  shows "synced (snd sg')"
proof -
  obtain ty i where t: "parse_topic (msg_topic msg) = Some (ty, i)"
    using run by (auto simp: Listen_step_def elim!: bind_SomeE)
  note run = run [unfolded Listen_step_def t Option.bind.simps prod.case]
  show ?thesis
  proof (cases "i = g_gameId (snd sg)")
    case False
    then show ?thesis
      using run s by simp (metis snd_conv)
  next
    case True
    have n: "ty \<noteq> PENDING \<Longrightarrow> notification_ok ch forward backwards (msg_payload msg)"
      using ok t by (simp add: message_ok_def)
    show ?thesis
      using run True BlockAttach_ok [OF s n] BlockDetach_ok [OF s n] PendingMove_ok [OF s]
      by (cases ty) (auto simp: Let_def elim!: bind_SomeE)
  qed
qed

lemma Listen_ok:
  assumes "synced (snd sg)" "\<And>d msg. (d, msg) \<in> set ms \<Longrightarrow> message_ok ch forward backwards msg"
    and "Listen env ms sg = Some sg'"
  shows "synced (snd sg')"
  using assms
proof (induction ms arbitrary: sg)
  case (Cons dm ms)
  obtain d msg sg1 where 1: "dm = (d, msg)" "Listen_step env d msg sg = Some sg1" "Listen env ms sg1 = Some sg'"
    using Cons.prems(3) by (cases dm) (auto elim!: bind_SomeE)
  show ?case
    by (rule Cons.IH [OF Listen_step_ok [OF Cons.prems(1) _ 1(2)] _ 1(3)]) (use Cons.prems(2) 1(1) in auto)
qed simp

lemma start_ok:
  assumes "Game_new i chainStr st pp = Some g0" "g_context g0 = pc" "phase st = Idle" "\<forall>c\<in>insert (view st) (restorable st). good c"
    and "ReinitialiseState env d (g0\<lparr>g_pruning := q\<rparr>) = Some g"
  shows "synced g"
proof -
  have "cached.at_rest good (view st) (TransactionManager_new \<lparr>crossCheck = x, height_cache = None, wrapped = st\<rparr>)" for x
    using cached.at_rest_new [of "\<lparr>crossCheck = x, height_cache = None, wrapped = st\<rparr>" good] assms(3,4) by simp
  then have "cached.at_rest good (view st) (g_tm (g0\<lparr>g_pruning := q\<rparr>))"
    using assms(1) by (auto simp: Game_new_def elim!: bind_SomeE)
  then show ?thesis
    by (rule reinit_ok) (use assms(2,5) in auto)
qed

lemma synced_means:
  assumes "synced g"
  shows "(\<forall>c\<in>insert (view (wrapped (g_storage g))) (restorable (wrapped (g_storage g))). good c) \<and> g_state g \<in> {PREGENESIS, CATCHING_UP, UP_TO_DATE} \<and>
    (g_state g \<noteq> PREGENESIS \<longrightarrow> st_GetCurrentBlockHash si (wrapped (g_storage g)) \<noteq> None) \<and>
    (g_state g = UP_TO_DATE \<longrightarrow> phase (wrapped (g_storage g)) = Idle)"
proof -
  obtain c where c: "cached.at_rest good c (g_tm g)" "g_state g \<noteq> PREGENESIS \<longrightarrow> cur c \<noteq> None"
    using assms unfolding synced_def by auto
  have "st_GetCurrentBlockHash si (wrapped (g_storage g)) = map_option fst (cur c)"
    by (rule storage_current [OF c(1)])
  then show ?thesis
    using assms c unfolding synced_def by (auto simp: cached.tm_defs g_storage_def)
qed

end

subsection \<open>Soundness of the stored state\<close>

text \<open>The contracts hold for the in-memory storage and games with small states.\<close>

interpretation memory_daemon: synced_daemon MemoryStorage False memory_phase memory_view "\<lambda>st. {memory_view st}"
    "CachingGame initial updateState"
    "\<lparr>ge_storage = MemoryStorage, ge_logic = CachingGame initial updateState, ge_callbacks = cb, ge_sha = sha\<rparr>" pc ch
  for initial updateState cb sha pc ch
  by unfold_locales simp_all

subsection \<open>An example\<close>

text \<open>A game that counts blocks, on a chain of two blocks; the second one is announced, missed, asked
  for again and attached.\<close>

definition demo_hash :: "nat \<Rightarrow> string" where
  "demo_hash n = replicate 63 CHR ''0'' @ [hex_digit (of_nat n)]"

definition demo_logic :: game_logic where
  "demo_logic = CachingGame (\<lambda>_. Some (''start'', 0, demo_hash 7)) (\<lambda>_ s _. Some (s @ ''+''))"

definition demo_env :: "(memory_storage, unit) game_env" where
  "demo_env = \<lparr>ge_storage = MemoryStorage, ge_logic = demo_logic,
     ge_callbacks = \<lparr>cb_Clear = Some, cb_AddPendingMove = (\<lambda>_ _ _. Some)\<rparr>, ge_sha = (\<lambda>_. replicate 32 1)\<rparr>"

definition demo_block :: "nat \<Rightarrow> nat \<Rightarrow> string \<Rightarrow> json" where
  "demo_block p n tok = JObject
     [(''block'', JObject [(''hash'', JString (demo_hash n)), (''parent'', JString (demo_hash p)),
        (''height'', JInt 1), (''rngseed'', JString (demo_hash 1))]),
      (''reqtoken'', JString tok)]"

definition demo_daemon :: "nat \<Rightarrow> daemon" where
  "demo_daemon n = \<lparr>bestblockhash = demo_hash n, blocks = 1, getblockhash = (\<lambda>_. demo_hash 7),
     game_sendupdates = (\<lambda>_. (demo_hash n, ''tok'')), getblockheader_height = (\<lambda>_. None), getrawmempool = JArray []\<rparr>"

definition demo_new :: "(memory_storage, unit) game" where
  "demo_new = the (Game_new ''g'' ''regtest'' MemoryStorage_new None)"

definition demo_start :: "(memory_storage, unit) game" where
  "demo_start = the (ReinitialiseState demo_env (demo_daemon 7) demo_new)"

definition demo_messages :: "(daemon \<times> zmq_message) list" where
  "demo_messages =
     [(demo_daemon 8, \<lparr>msg_topic = ''game-block-attach json g'', msg_payload = demo_block 7 8 [], msg_seq = 5\<rparr>),
      (demo_daemon 8, \<lparr>msg_topic = ''game-block-attach json g'', msg_payload = demo_block 7 8 ''tok'', msg_seq = 6\<rparr>)]"

text \<open>Blocks 8 and 9 are both built on the genesis block 7.\<close>

definition demo_chain :: block_chain where
  "demo_chain = \<lparr>bc_parent = (\<lambda>_. the (FromHex (demo_hash 7))),
     bc_height = (\<lambda>h. if h = the (FromHex (demo_hash 7)) then 0 else 1),
     bc_data = (\<lambda>h. if h = the (FromHex (demo_hash 8)) then demo_block 7 8 [] else demo_block 7 9 [])\<rparr>"

lemma demo_new_eq: "Game_new ''g'' ''regtest'' MemoryStorage_new None = Some demo_new"
  by (simp add: demo_new_def Game_new_def ChainFromString_def)

lemma demo_start_eq: "ReinitialiseState demo_env (demo_daemon 7) (demo_new\<lparr>g_pruning := None\<rparr>) = Some demo_start"
proof -
  have "ReinitialiseState demo_env (demo_daemon 7) demo_new \<noteq> None"
    by code_simp
  moreover have "demo_new\<lparr>g_pruning := None\<rparr> = demo_new"
    by (simp add: demo_new_def Game_new_def ChainFromString_def)
  ultimately show ?thesis
    by (auto simp: demo_start_def)
qed

lemma demo_run:
  "map_option (\<lambda>(seqs, g). (g_state g, cur (memory_view (wrapped (g_storage g))))) (Listen demo_env demo_messages (Map.empty, demo_start))
     = Some (UP_TO_DATE, Some (the (FromHex (demo_hash 8)), ''start+''))"
  by code_simp

lemma demo_process:
  "ProcessForward sha pc demo_logic s (demo_block p n tok) = ProcessForward sha pc demo_logic s (demo_block p n [])"
  "ProcessBackwards sha pc demo_logic s (demo_block p n tok) u = ProcessBackwards sha pc demo_logic s (demo_block p n []) u"
  by (simp_all add: ProcessForward_def ProcessBackwards_def BlockRngSeed_def demo_block_def json_get_def demo_logic_def
      CachingGame_def Caching_ProcessForward_def Caching_ProcessBackwards_def)

lemma demo_hashes:
  "FromHex (demo_hash 7) \<noteq> None" "FromHex (demo_hash 8) \<noteq> None" "FromHex (demo_hash 9) \<noteq> None"
  "FromHex (demo_hash 7) \<noteq> FromHex (demo_hash 8)" "FromHex (demo_hash 7) \<noteq> FromHex (demo_hash 9)"
  "FromHex (demo_hash 8) \<noteq> FromHex (demo_hash 9)"
  by code_simp+

lemma demo_notification:
  assumes "n = 8 \<or> n = 9"
  shows "notification_ok demo_chain (ProcessForward sha pc demo_logic) (ProcessBackwards sha pc demo_logic) (demo_block 7 n tok)"
proof -
  have "block_field (demo_block 7 n tok) ''hash'' = JString (demo_hash n)"
    "block_field (demo_block 7 n tok) ''parent'' = JString (demo_hash 7)"
    by (simp_all add: block_field_def demo_block_def json_get_def)
  then show ?thesis
    using demo_hashes assms unfolding notification_ok_def by (auto simp: demo_chain_def demo_process [of _ _ _ _ _ tok])
qed

lemma demo_fresh:
  "memory_phase MemoryStorage_new = Idle" "\<forall>c\<in>insert (memory_view MemoryStorage_new) {memory_view MemoryStorage_new}. right_contents ch i f c"
  by (simp_all add: MemoryStorage_new_def memory_view_def right_contents_def)

lemma demo_env_simps [simp]: "ge_storage demo_env = MemoryStorage" "ge_logic demo_env = demo_logic"
  by (simp_all add: demo_env_def)

lemma demo_undoable: "undoable_game demo_logic"
  unfolding demo_logic_def by (rule caching.undoable_game_axioms)

lemma demo_messages_ok:
  "(d, msg) \<in> set demo_messages \<Longrightarrow>
   message_ok demo_chain (ProcessForward sha pc demo_logic) (ProcessBackwards sha pc demo_logic) msg"
  using demo_notification by (auto simp: demo_messages_def message_ok_def)

text \<open>C1. The stored state is right: take a storage that keeps its contract (it may throw and roll
  back at any time) and a game whose blocks can be undone.  Start the daemon, with any pruning queue,
  on a storage that is closed and whose contents are right, also those a crash may leave, and let it handle any sequence of messages
  about blocks of the chain, with any gaps in the sequence numbers, any reorganisations and any
  answers of the daemon.  As long as the process has not aborted, the current state in the storage is
  the one obtained by processing the blocks from the genesis block to the current block, all undo data
  belongs to its block, the same is true of everything that a rollback or a crash may lead to, the daemon is before genesis, catching up or up to date, it has a current
  state unless it is before genesis, and when it is up to date no transaction is left open.\<close>

theorem game_state_sound:
  assumes contract: "storage_contract (ge_storage env) unreliable phase view restorable"
    and undoable: "undoable_game (ge_logic env)"
    and new: "Game_new i chainStr st pp = Some g0"
    and fresh: "phase st = Idle"
      "\<forall>c\<in>insert (view st) (restorable st). right_contents ch (GetInitialState (ge_sha env) (g_context g0) (ge_logic env))
         (ProcessForward (ge_sha env) (g_context g0) (ge_logic env)) c"
    and start: "ReinitialiseState env d (g0\<lparr>g_pruning := q\<rparr>) = Some g1"
    and messages: "\<And>d msg. (d, msg) \<in> set ms \<Longrightarrow> message_ok ch
         (ProcessForward (ge_sha env) (g_context g0) (ge_logic env))
         (ProcessBackwards (ge_sha env) (g_context g0) (ge_logic env)) msg"
    and run: "Listen env ms (Map.empty, g1) = Some (seqs, g)"
  shows "(\<forall>c\<in>insert (view (wrapped (g_storage g))) (restorable (wrapped (g_storage g))).
      right_contents ch (GetInitialState (ge_sha env) (g_context g0) (ge_logic env))
        (ProcessForward (ge_sha env) (g_context g0) (ge_logic env)) c) \<and>
    g_state g \<in> {PREGENESIS, CATCHING_UP, UP_TO_DATE} \<and>
    (g_state g \<noteq> PREGENESIS \<longrightarrow> st_GetCurrentBlockHash (ge_storage env) (wrapped (g_storage g)) \<noteq> None) \<and>
    (g_state g = UP_TO_DATE \<longrightarrow> phase (wrapped (g_storage g)) = Idle)"
proof -
  have d: "synced_daemon (ge_storage env) unreliable phase view restorable (ge_logic env) env"
    using contract undoable by (simp add: synced_daemon_def synced_daemon_axioms_def)
  have "synced_daemon.synced phase view restorable (ge_logic env) env (g_context g0) ch g1"
    by (rule synced_daemon.start_ok [OF d new refl fresh start])
  then have "synced_daemon.synced phase view restorable (ge_logic env) env (g_context g0) ch g"
    using synced_daemon.Listen_ok [OF d _ messages run] by simp
  then show ?thesis
    by (rule synced_daemon.synced_means [OF d])
qed

theorem game_state_sound_witness:
  "\<exists>seqs g. Listen demo_env demo_messages (Map.empty, demo_start) = Some (seqs, g) \<and> g_state g = UP_TO_DATE \<and>
     state_at demo_chain (GetInitialState (ge_sha demo_env) (g_context demo_new) (ge_logic demo_env))
       (ProcessForward (ge_sha demo_env) (g_context demo_new) (ge_logic demo_env)) (the (FromHex (demo_hash 8))) ''start+''"
proof -
  obtain seqs g where run: "Listen demo_env demo_messages (Map.empty, demo_start) = Some (seqs, g)"
    and g: "g_state g = UP_TO_DATE" "cur (memory_view (wrapped (g_storage g))) = Some (the (FromHex (demo_hash 8)), ''start+'')"
    using demo_run by auto
  have contract: "storage_contract (ge_storage demo_env) False memory_phase memory_view (\<lambda>st. {memory_view st})"
    using memory.storage_contract_axioms by simp
  have undoable: "undoable_game (ge_logic demo_env)"
    using demo_undoable by simp
  have ok: "message_ok demo_chain (ProcessForward (ge_sha demo_env) (g_context demo_new) (ge_logic demo_env))
       (ProcessBackwards (ge_sha demo_env) (g_context demo_new) (ge_logic demo_env)) msg"
    if "(d, msg) \<in> set demo_messages" for d msg
    using demo_messages_ok [OF that] by simp
  from game_state_sound [OF contract undoable demo_new_eq demo_fresh demo_start_eq ok run] show ?thesis
    using run g by (auto simp: right_contents_def)
qed

end
