(* ===== verification/Catch_Up.thy ===== *)
theory Catch_Up
  imports Game_Sync
begin

text \<open>
  Catching up: when the daemon has asked for the blocks from its current one to the tip and they
  arrive, first the detached and then the attached ones or in any other order that is a walk along
  the chain, then it ends up to date, at the tip and with the right state.
\<close>

subsection \<open>Walks along the chain\<close>

text \<open>A step is an attached (\<open>True\<close>) or detached block with its notification; a walk gives the blocks
  the steps lead to.\<close>

type_synonym sync_step = "bool \<times> uint256 \<times> json"

fun walk :: "block_chain \<Rightarrow> uint256 \<Rightarrow> sync_step list \<Rightarrow> uint256 list option" where
  "walk ch p [] = Some []"
| "walk ch p ((att, h, b) # steps) =
     (let q = (if att then h else bc_parent ch h) in
      if p = (if att then bc_parent ch h else h) then map_option (Cons q) (walk ch q steps) else None)"

fun detached :: "sync_step list \<Rightarrow> uint256 list" where
  "detached [] = []"
| "detached ((att, h, b) # steps) = (if att then detached steps else h # detached steps)"

fun process_steps ::
    "('st, 'p) game_env \<Rightarrow> daemon \<Rightarrow> string \<Rightarrow> sync_step list \<Rightarrow> ('st, 'p) game \<Rightarrow> ('st, 'p) game run" where
  "process_steps env d i [] g = Some g"
| "process_steps env d i ((att, h, b) # steps) g =
     do {
       g \<leftarrow> (if att then BlockAttach env d i b False g else BlockDetach env d i b False g);
       process_steps env d i steps g
     }"

text \<open>A notification for block \<open>h\<close> that answers the request \<open>tok\<close>.\<close>

definition answers :: "block_chain \<Rightarrow> string \<Rightarrow> uint256 \<Rightarrow> json \<Rightarrow> bool" where
  "answers ch tok h b \<longleftrightarrow>
     FromHex (asString (block_field b ''hash'')) = Some h \<and>
     FromHex (asString (block_field b ''parent'')) = Some (bc_parent ch h) \<and>
     isMember b ''reqtoken'' \<and> asString (json_get b ''reqtoken'') = tok \<and>
     (\<exists>ht. json_asUInt (block_field b ''height'') = Some ht \<and> ht > 0)"

context synced_daemon
begin

text \<open>The daemon waits for the blocks to \<open>T\<close>.\<close>

definition waiting :: "string \<Rightarrow> string \<Rightarrow> uint256 \<Rightarrow> contents \<Rightarrow> ('st, 'p) game \<Rightarrow> bool" where
  "waiting i tok T c g \<longleftrightarrow>
     cached.at_rest good c (g_tm g) \<and> g_context g = pc \<and> g_gameId g = i \<and> g_state g = CATCHING_UP \<and>
     g_reqToken g = tok \<and> g_targetBlockHash g = T \<and> g_pruning g = None \<and> g_pending g = None"

lemma reliable_storage: "\<not> unreliable \<Longrightarrow> \<not> cached.rolled_back P m" "\<not> unreliable \<Longrightarrow> \<not> cached.broken P m"
  unfolding cached.rolled_back_def cached.broken_def by blast+

lemma attach_progress:
  assumes wf: "wf_uint256 h" and reliable: "\<not> unreliable" and w: "waiting i tok T c g" and cur: "cur c = Some (bc_parent ch h, s)"
    and height: "bc_height ch h = Suc (bc_height ch (bc_parent ch h))"
    and fw: "forward s (bc_data ch h) = Some (s', u)" and blk: "forward s b = forward s (bc_data ch h)"
    and ht: "json_asUInt (block_field b ''height'') = Some ht"
  obtains m' c' where "UpdateStateForAttach env (bc_parent ch h) h b g = Some (Returned True, g\<lparr>g_tm := m'\<rparr>)"
    "cached.at_rest good c' m'" "cur c' = Some (h, s')" "dom (undos c) \<subseteq> dom (undos c')"
proof -
  have rest: "cached.at_rest good c (g_tm g)" "g_context g = pc"
    using w by (auto simp: waiting_def)
  have "good c"
    using rest(1) by (simp add: cached.at_rest_def)
  note c = this good_current [OF this cur]
  let ?body = "exec_seq (with_storage (lift_exec (st_AddUndoData si h ht u)))
    (\<lambda>_. with_storage (SetCurrentGameStateWithHeight si h ht s'))"
  have pre: "cached.at_rest good c (fst (g_tm g, ())) \<and> snd (g_tm g, ()) = ()"
    using rest by simp
  have eq: "UpdateStateForAttach env (bc_parent ch h) h b g = do {
      (r, mx) \<leftarrow> ActiveTransaction (StorageWithCachedHeight si) ?body (g_tm g, ());
      Some (case r of Returned _ \<Rightarrow> Returned True | RetryWithNewTransaction \<Rightarrow> RetryWithNewTransaction, g\<lparr>g_tm := fst mx\<rparr>) }"
    using rest by (simp add: UpdateStateForAttach_def env_storage env_logic storage_current [OF rest(1)] cur ht blk fw)
  show thesis
  proof (rule tripleE [OF cached.ActiveTransaction_triple [OF attach_body [OF wf c height fw, of ht]] pre], elim exE conjE)
    fix x mx c2 c1
    assume *: "ActiveTransaction (StorageWithCachedHeight si) ?body (g_tm g, ()) = Some (Returned x, mx)"
      "cached.at_rest good c2 (fst mx)" "upd_add h ht u c c1" "upd_current h s' c1 c2"
    have "cur c2 = Some (h, s')" "dom (undos c) \<subseteq> dom (undos c2)"
      using *(3,4) by (auto simp: upd_defs)
    then show thesis
      using that [of "fst mx" c2] *(1,2) by (simp add: eq)
  qed (use reliable_storage [OF reliable] in blast)
qed

lemma detach_progress:
  assumes wf: "wf_uint256 (bc_parent ch h)" and reliable: "\<not> unreliable" and w: "waiting i tok T c g" and cur: "cur c = Some (h, s)"
    and undo: "undos c h = Some (k, u)"
    and height: "bc_height ch h = Suc (bc_height ch (bc_parent ch h))"
    and blk: "\<And>s u. backwards s b u = backwards s (bc_data ch h) u"
    and ht: "json_asUInt (block_field b ''height'') = Some ht" "ht > 0"
  obtains m' c' s' where "UpdateStateForDetach env (bc_parent ch h) h b g = Some (Returned True, g\<lparr>g_tm := m'\<rparr>)"
    "cached.at_rest good c' m'" "cur c' = Some (bc_parent ch h, s')" "dom (undos c) - {h} \<subseteq> dom (undos c')"
proof -
  have rest: "cached.at_rest good c (g_tm g)" "g_context g = pc"
    using w by (auto simp: waiting_def)
  then have c: "good c"
    by (simp add: cached.at_rest_def)
  obtain s0 where s0: "backwards s (bc_data ch h) u = Some s0" "right_state (bc_parent ch h) s0"
    using undo_gives_parent [OF c cur undo height] by blast
  let ?body = "exec_seq (with_storage (SetCurrentGameStateWithHeight si (bc_parent ch h) (ht - 1) s0))
    (\<lambda>_. with_storage (lift_exec (st_ReleaseUndoData si h)))"
  have pre: "cached.at_rest good c (fst (g_tm g, ())) \<and> snd (g_tm g, ()) = ()"
    using rest by simp
  have eq: "UpdateStateForDetach env (bc_parent ch h) h b g = do {
      (r, mx) \<leftarrow> ActiveTransaction (StorageWithCachedHeight si) ?body (g_tm g, ());
      Some (case r of Returned _ \<Rightarrow> Returned True | RetryWithNewTransaction \<Rightarrow> RetryWithNewTransaction, g\<lparr>g_tm := fst mx\<rparr>) }"
    using rest by (simp add: UpdateStateForDetach_def env_storage env_logic storage_current [OF rest(1)] cur undo ht blk s0)
  show thesis
  proof (rule tripleE [OF cached.ActiveTransaction_triple [OF detach_body [OF wf c s0(2), of "ht - 1" h]] pre], elim exE conjE)
    fix x mx c2 c1
    assume *: "ActiveTransaction (StorageWithCachedHeight si) ?body (g_tm g, ()) = Some (Returned x, mx)"
      "cached.at_rest good c2 (fst mx)" "upd_current (bc_parent ch h) s0 c c1" "upd_release h c1 c2"
    have "cur c2 = Some (bc_parent ch h, s0)" "dom (undos c) - {h} \<subseteq> dom (undos c2)"
      using *(3,4) by (auto simp: upd_defs)
    then show thesis
      using that [of "fst mx" c2 s0] *(1,2) by (simp add: eq)
  qed (use reliable_storage [OF reliable] in blast)
qed

text \<open>Reinitialising at the tip.\<close>

lemma reinit_at_tip:
  assumes reliable: "\<not> unreliable" and rest: "cached.at_rest good c (g_tm g)" and cur: "cur c = Some (T, s)"
    and tip: "FromHex (bestblockhash d) = Some T"
  obtains m where "ReinitialiseState env d g = Some (g\<lparr>g_state := UP_TO_DATE, g_tm := m\<rparr>)"
    "cached.at_rest good c m" "batchSize m = 1"
proof -
  have t: "triple (cached.at_rest good c) (SetBatchSize (StorageWithCachedHeight si) 1)
      (\<lambda>_ m. cached.at_rest good c m \<and> (1 = (1 :: uint32) \<longrightarrow> batchedCommits m = 0)) (cached.broken good)"
    by (rule cached.SetBatchSize_triple) simp
  show thesis
  proof (rule tripleE [OF t rest])
    fix x m
    assume *: "SetBatchSize (StorageWithCachedHeight si) 1 (g_tm g) = Some (Returned x, m)"
      "cached.at_rest good c m \<and> (1 = (1 :: uint32) \<longrightarrow> batchedCommits m = 0)"
    then show thesis
      using that [of m] SetBatchSize_batchSize [OF *(1)] tip
      by (simp add: ReinitialiseState_def SyncFromCurrentState_def set_batch_size_def env_storage storage_current [OF rest] cur)
  qed (use reliable_storage [OF reliable] in blast)
qed

text \<open>One notification: the daemon goes on waiting, or is up to date when it has reached the tip.\<close>

definition arrived :: "uint256 \<Rightarrow> ('st, 'p) game \<Rightarrow> bool" where
  "arrived T g \<longleftrightarrow> g_state g = UP_TO_DATE \<and> batchSize (g_tm g) = 1 \<and>
     (\<exists>c s. cached.at_rest good c (g_tm g) \<and> cur c = Some (T, s))"

lemma after_update:
  assumes reliable: "\<not> unreliable" and w: "waiting i tok T c g" and tip: "FromHex (bestblockhash d) = Some T"
    and rest: "cached.at_rest good c' m'" and cur: "cur c' = Some (q, s')"
  shows "\<exists>g'. after_block env d process (Returned (q = T), g\<lparr>g_tm := m'\<rparr>) = Some g' \<and>
    (q \<noteq> T \<longrightarrow> waiting i tok T c' g') \<and> (q = T \<longrightarrow> arrived T g')"
proof (cases "q = T")
  case False
  then show ?thesis
    using w rest by (simp add: after_block_def update_pending_def waiting_def)
next
  case True
  have "cached.at_rest good c' (g_tm (g\<lparr>g_tm := m'\<rparr>))" "cur c' = Some (T, s')"
    using rest cur True by auto
  then obtain m where "ReinitialiseState env d (g\<lparr>g_tm := m'\<rparr>) = Some (g\<lparr>g_tm := m'\<rparr>\<lparr>g_state := UP_TO_DATE, g_tm := m\<rparr>)"
    "cached.at_rest good c' m" "batchSize m = 1"
    using reinit_at_tip [OF reliable _ _ tip] by metis
  then show ?thesis
    using True w cur by (auto simp: after_block_def update_pending_def arrived_def waiting_def)
qed

lemma step_progress:
  assumes reliable: "\<not> unreliable" and w: "waiting i tok T c g" and tip: "FromHex (bestblockhash d) = Some T"
    and cur: "cur c = Some (if att then bc_parent ch h else h, s)"
    and ans: "answers ch tok h b" and ok: "notification_ok ch forward backwards b"
    and att: "att \<Longrightarrow> forward s (bc_data ch h) \<noteq> None" and det: "\<not> att \<Longrightarrow> undos c h \<noteq> None"
  defines "q \<equiv> (if att then h else bc_parent ch h)"
  shows "\<exists>g'. (if att then BlockAttach env d i b False g else BlockDetach env d i b False g) = Some g' \<and>
    (q = T \<longrightarrow> arrived T g') \<and>
    (q \<noteq> T \<longrightarrow> (\<exists>c' s'. waiting i tok T c' g' \<and> cur c' = Some (q, s') \<and> dom (undos c) - (if att then {} else {h}) \<subseteq> dom (undos c')))"
proof -
  have hex: "FromHex (asString (block_field b ''hash'')) = Some h"
    "FromHex (asString (block_field b ''parent'')) = Some (bc_parent ch h)"
    using ans by (auto simp: answers_def)
  have blk: "bc_height ch h = Suc (bc_height ch (bc_parent ch h))" "\<And>s. forward s b = forward s (bc_data ch h)"
    "\<And>s u. backwards s b u = backwards s (bc_data ch h) u"
    using ok hex by (auto simp: notification_ok_def)
  obtain ht where ht: "json_asUInt (block_field b ''height'') = Some ht" "ht > 0"
    using ans by (auto simp: answers_def)
  have g: "g_state g = CATCHING_UP" "g_pruning g = None" "g_gameId g = i" "g_targetBlockHash g = T" "IsReqtokenRelevant g b"
    using w ans by (auto simp: waiting_def answers_def IsReqtokenRelevant_def)
  show ?thesis
  proof (cases att)
    case True
    obtain s' u where fw: "forward s (bc_data ch h) = Some (s', u)"
      using att [OF True] by auto
    have cur': "cur c = Some (bc_parent ch h, s)"
      using cur True by simp
    obtain m' c' where upd: "UpdateStateForAttach env (bc_parent ch h) h b g = Some (Returned True, g\<lparr>g_tm := m'\<rparr>)"
      and c': "cached.at_rest good c' m'" "cur c' = Some (h, s')" "dom (undos c) \<subseteq> dom (undos c')"
      using attach_progress [OF FromHex_wf [OF hex(1)] reliable w cur' blk(1) fw blk(2) ht(1)] .
    have "BlockAttach env d i b False g = after_block env d
        (\<lambda>state. ProcessAttachedBlock (ge_callbacks env) (getrawmempool d) state b) (Returned (h = T), g\<lparr>g_tm := m'\<rparr>)"
      using g hex ht by (simp add: BlockAttach_def attach_for_state_def exec_seq_def upd attach_pruning_def)
    then show ?thesis
      using after_update [OF reliable w tip c'(1,2), of "\<lambda>state. ProcessAttachedBlock (ge_callbacks env) (getrawmempool d) state b"]
        True c' unfolding q_def by fastforce
  next
    case False
    obtain k u where u: "undos c h = Some (k, u)"
      using det [OF False] by auto
    have cur': "cur c = Some (h, s)"
      using cur False by simp
    obtain m' c' s' where upd: "UpdateStateForDetach env (bc_parent ch h) h b g = Some (Returned True, g\<lparr>g_tm := m'\<rparr>)"
      and c': "cached.at_rest good c' m'" "cur c' = Some (bc_parent ch h, s')" "dom (undos c) - {h} \<subseteq> dom (undos c')"
      using detach_progress [OF FromHex_wf [OF hex(2)] reliable w cur' u blk(1,3) ht] .
    define process where "process = (\<lambda>state pp. do { height \<leftarrow> json_asUInt (block_field b ''height''); CHECK (height > 0);
      ProcessDetachedBlock (ge_callbacks env) (getrawmempool d) state b pp })"
    have swap: "g\<lparr>g_tm := m', g_pruning := None\<rparr> = g\<lparr>g_pruning := None, g_tm := m'\<rparr>"
      by (cases g) simp
    have "BlockDetach env d i b False g = after_block env d process
        (Returned (bc_parent ch h = T), (g\<lparr>g_pruning := None\<rparr>)\<lparr>g_tm := m'\<rparr>)"
      using g hex by (simp add: BlockDetach_def detach_for_state_def exec_seq_def upd process_def swap)
    moreover have "waiting i tok T c (g\<lparr>g_pruning := None\<rparr>)"
      using w by (simp add: waiting_def)
    ultimately show ?thesis
      using after_update [OF reliable _ tip c'(1,2), of i tok c "g\<lparr>g_pruning := None\<rparr>" process] False c'
      unfolding q_def by fastforce
  qed
qed

lemma steps_arrive:
  assumes reliable: "\<not> unreliable" and tip: "FromHex (bestblockhash d) = Some T"
    and "waiting i tok T c g" "cur c = Some (p, s)" "walk ch p steps = Some (ps @ [T])" "T \<notin> set ps"
    and "\<And>att h b. (att, h, b) \<in> set steps \<Longrightarrow> answers ch tok h b \<and> notification_ok ch forward backwards b"
    and "\<And>h b s. (True, h, b) \<in> set steps \<Longrightarrow> forward s (bc_data ch h) \<noteq> None"
    and "distinct (detached steps)"
    and "set (detached steps) \<subseteq> dom (undos c)"
  shows "\<exists>g'. process_steps env d i steps g = Some g' \<and> arrived T g'"
  using assms(3-)
proof (induction steps arbitrary: c g p s ps)
  case Nil
  then show ?case
    by simp
next
  case (Cons step steps)
  obtain att h b where step: "step = (att, h, b)"
    by (cases step)
  define q where "q = (if att then h else bc_parent ch h)"
  have p: "p = (if att then bc_parent ch h else h)" and rest: "\<exists>qs. walk ch q steps = Some qs \<and> ps @ [T] = q # qs"
    using Cons.prems(3) by (auto simp: step Let_def q_def split: if_splits)
  have "\<exists>g'. (if att then BlockAttach env d i b False g else BlockDetach env d i b False g) = Some g' \<and>
      (q = T \<longrightarrow> arrived T g') \<and>
      (q \<noteq> T \<longrightarrow> (\<exists>c' s'. waiting i tok T c' g' \<and> cur c' = Some (q, s') \<and> dom (undos c) - (if att then {} else {h}) \<subseteq> dom (undos c')))"
    unfolding q_def
  proof (rule step_progress [OF reliable Cons.prems(1) tip])
    show "cur c = Some (if att then bc_parent ch h else h, s)"
      using Cons.prems(2) p by simp
    show "answers ch tok h b" "notification_ok ch forward backwards b"
      using Cons.prems(5) [of att h b] by (auto simp: step)
    show "forward s (bc_data ch h) \<noteq> None" if att
      using Cons.prems(6) [of h b s] that by (simp add: step)
    show "undos c h \<noteq> None" if "\<not> att"
      using Cons.prems(8) that by (auto simp: step)
  qed
  then obtain g' where g': "(if att then BlockAttach env d i b False g else BlockDetach env d i b False g) = Some g'"
    "q = T \<longrightarrow> arrived T g'"
    "q \<noteq> T \<longrightarrow> (\<exists>c' s'. waiting i tok T c' g' \<and> cur c' = Some (q, s') \<and>
      dom (undos c) - (if att then {} else {h}) \<subseteq> dom (undos c'))"
    by blast
  show ?case
  proof (cases ps)
    case Nil
    then have "q = T" "walk ch q steps = Some []"
      using rest by auto
    moreover from this have "steps = []"
      by (cases steps) (auto simp: Let_def split: if_splits)
    ultimately show ?thesis
      using g' by (simp add: step)
  next
    case (Cons q' qs)
    then have q: "q' = q" "walk ch q steps = Some (qs @ [T])" "q \<noteq> T" "T \<notin> set qs"
      using rest Cons.prems(4) by auto
    obtain c' s' where c': "waiting i tok T c' g'" "cur c' = Some (q, s')"
      "dom (undos c) - (if att then {} else {h}) \<subseteq> dom (undos c')"
      using g'(3) q(3) by blast
    have "\<exists>g''. process_steps env d i steps g' = Some g'' \<and> arrived T g''"
    proof (rule Cons.IH [OF c'(1,2) q(2,4)])
      show "distinct (detached steps)"
        using Cons.prems(7) by (auto simp: step split: if_splits)
      show "set (detached steps) \<subseteq> dom (undos c')"
      proof (rule subset_trans [OF _ c'(3)])
        show "set (detached steps) \<subseteq> dom (undos c) - (if att then {} else {h})"
          using Cons.prems(7,8) by (auto simp: step split: if_splits)
      qed
      show "answers ch tok h b \<and> notification_ok ch forward backwards b" if "(att, h, b) \<in> set steps" for att h b
        using Cons.prems(5) that by (meson list.set_intros(2))
      show "forward s (bc_data ch h) \<noteq> None" if "(True, h, b) \<in> set steps" for h b s
        using Cons.prems(6) that by (meson list.set_intros(2))
    qed
    then show ?thesis
      using g'(1) by (cases att) (auto simp: step)
  qed
qed

end

subsection \<open>Catching up completes\<close>

lemma resting_at_rest:
  assumes "resting m" "P (memory_view (wrapped (tm_storage m)))"
  shows "memory.cached.at_rest P (memory_view (wrapped (tm_storage m))) m"
  using assms resting_iff [of "memory_view (wrapped (tm_storage m))" m]
  unfolding memory.cached.at_rest_def memory.cached.restorable_ok_def by simp


text \<open>The example: block 8, the current one, is replaced by block 9.\<close>

definition demo_fork :: "(memory_storage, unit) game" where
  "demo_fork = the (ReinitialiseState demo_env (demo_daemon 9) (snd (the (Listen demo_env demo_messages (Map.empty, demo_start)))))"

definition demo_steps :: "sync_step list" where
  "demo_steps =
     [(False, the (FromHex (demo_hash 8)), demo_block 7 8 ''tok''), (True, the (FromHex (demo_hash 9)), demo_block 7 9 ''tok'')]"

lemma demo_fork_contents:
  "right_contents demo_chain (GetInitialState (ge_sha demo_env) (g_context demo_fork) demo_logic)
     (ProcessForward (ge_sha demo_env) (g_context demo_fork) demo_logic) (memory_view (wrapped (g_storage demo_fork)))"
proof -
  define pc where "pc = g_context demo_new"
  have d: "synced_daemon MemoryStorage False memory_phase memory_view (\<lambda>st. {memory_view st}) demo_logic demo_env"
    using memory.storage_contract_axioms demo_undoable by (simp add: synced_daemon_def synced_daemon_axioms_def)
  let ?synced = "synced_daemon.synced memory_phase memory_view (\<lambda>st. {memory_view st}) demo_logic demo_env pc demo_chain"
  have "?synced demo_start"
    by (rule synced_daemon.start_ok [OF d demo_new_eq _ demo_fresh demo_start_eq]) (simp add: pc_def)
  moreover obtain seqs g where g: "Listen demo_env demo_messages (Map.empty, demo_start) = Some (seqs, g)"
    using demo_run by auto
  ultimately have "?synced g"
    using synced_daemon.Listen_ok [OF d _ demo_messages_ok g] by simp
  moreover have "ReinitialiseState demo_env (demo_daemon 9) (snd (the (Listen demo_env demo_messages (Map.empty, demo_start)))) \<noteq> None"
    by code_simp
  then have "ReinitialiseState demo_env (demo_daemon 9) g = Some demo_fork"
    by (auto simp: demo_fork_def g)
  ultimately have "?synced demo_fork"
    by (rule synced_daemon.synced_reinit [OF d])
  moreover from this have "g_context demo_fork = pc"
    by (simp add: synced_daemon.synced_def [OF d])
  ultimately show ?thesis
    using synced_daemon.synced_means [OF d] by blast
qed

lemma demo_fork_eval:
  "map_option (\<lambda>g. (resting (g_tm g), g_state g, Option.is_none (g_pruning g), Option.is_none (g_pending g), g_gameId g,
      g_chain g, g_reqToken g, g_targetBlockHash g, cur (memory_view (wrapped (g_storage g))),
      undos (memory_view (wrapped (g_storage g))) (the (FromHex (demo_hash 8)))))
    (ReinitialiseState demo_env (demo_daemon 9) (snd (the (Listen demo_env demo_messages (Map.empty, demo_start))))) =
   Some (True, CATCHING_UP, True, True, ''g'', REGTEST, ''tok'', the (FromHex (demo_hash 9)),
     Some (the (FromHex (demo_hash 8)), ''start+''), Some (1, ''start''))"
  by code_simp

lemma demo_fork_facts:
  "resting (g_tm demo_fork)" "g_state demo_fork = CATCHING_UP" "g_pruning demo_fork = None" "g_pending demo_fork = None"
  "g_gameId demo_fork = ''g''" "g_chain demo_fork = REGTEST" "g_reqToken demo_fork = ''tok''"
  "g_targetBlockHash demo_fork = the (FromHex (demo_hash 9))"
  "cur (memory_view (wrapped (g_storage demo_fork))) = Some (the (FromHex (demo_hash 8)), ''start+'')"
  "undos (memory_view (wrapped (g_storage demo_fork))) (the (FromHex (demo_hash 8))) = Some (1, ''start'')"
  using demo_fork_eval by (auto simp: demo_fork_def Option.is_none_def)

lemma demo_steps_ok:
  assumes "(att, h, b) \<in> set demo_steps"
  shows "answers demo_chain ''tok'' h b \<and>
    notification_ok demo_chain (ProcessForward sha pc demo_logic) (ProcessBackwards sha pc demo_logic) b"
proof -
  have "answers demo_chain ''tok'' (the (FromHex (demo_hash n))) (demo_block 7 n ''tok'')" if "n = 8 \<or> n = 9" for n
    using that demo_hashes
    by (auto simp: answers_def block_field_def demo_block_def json_get_def isMember_def json_asUInt_def demo_chain_def)
  then show ?thesis
    using assms demo_notification by (auto simp: demo_steps_def)
qed

lemma demo_forward:
  "pc_chain pc = REGTEST \<Longrightarrow> pc_gameId pc = ''g'' \<Longrightarrow> ProcessForward sha pc demo_logic s (bc_data demo_chain h) \<noteq> None"
proof -
  have "FromHex (demo_hash 1) \<noteq> None"
    by code_simp
  then show "pc_chain pc = REGTEST \<Longrightarrow> pc_gameId pc = ''g'' \<Longrightarrow> ProcessForward sha pc demo_logic s (bc_data demo_chain h) \<noteq> None"
    by (auto simp: demo_chain_def ProcessForward_def GetGameId_def BlockRngSeed_def demo_block_def json_get_def demo_logic_def
        CachingGame_def Caching_ProcessForward_def)
qed


end
