(* ===== verification/SQLite_Storage.thy ===== *)
theory SQLite_Storage
  imports SQLite_Database Catch_Up
begin

text \<open>
  The storage in an SQLite database: the class \<open>SQLiteStorage\<close> of \<open>src/xayagame/sqlitestorage.cpp\<close>.

  The functions work on any SQLite library and are verified for one that behaves as documented.  The
  state of the storage is that after \<open>Initialise\<close>, when its connection is open.  The virtual function
  \<open>SetupSchema\<close> is a parameter, so that games can extend the schema.  Other threads may hold
  snapshots, which closing the database waits for; here they are counted.

  Shown: the storage keeps the contract of \<open>Storage_Contract\<close>, so that a daemon on it always has the
  right state, also after a crash; commits are durable as long as nothing is rolled back; and after a
  rollback nothing is durable any more.
\<close>

subsection \<open>The storage\<close>

record 'c sqlite_state =
  sq_db :: 'c
  sq_startedTransaction :: bool
  sq_snapshots :: uint32

definition Sq_SetupSchema :: "('c, 'd) sqlite_api \<Rightarrow> 'c \<Rightarrow> 'c run" where
  "Sq_SetupSchema api c = Statement_Execute api Create_tables c"

text \<open>Opening: \<open>opened\<close> is the connection that \<open>sqlite3_open_v2\<close> returns.  Before, there is no state.\<close>

definition OpenDatabase :: "('c \<Rightarrow> 'c run) \<Rightarrow> 'c \<Rightarrow> 'c run" where
  "OpenDatabase schema opened = schema opened"

definition Sq_Initialise :: "('c \<Rightarrow> 'c run) \<Rightarrow> 'c \<Rightarrow> 'c sqlite_state option \<Rightarrow> 'c sqlite_state run" where
  "Sq_Initialise schema opened st =
     (case st of
        Some st \<Rightarrow> Some st
      | None \<Rightarrow> do {
          c \<leftarrow> OpenDatabase schema opened;
          Some \<lparr>sq_db = c, sq_startedTransaction = False, sq_snapshots = 0\<rparr>
        })"

text \<open>Closing the database waits until no snapshot is left.\<close>

definition Sq_Clear :: "('c, 'd) sqlite_api \<Rightarrow> ('c \<Rightarrow> 'c run) \<Rightarrow> 'c sqlite_state \<Rightarrow> 'c sqlite_state run" where
  "Sq_Clear api schema st =
     do { c \<leftarrow> sqlite_recreate api (sq_db st); c \<leftarrow> OpenDatabase schema c; Some (st\<lparr>sq_db := c, sq_snapshots := 0\<rparr>) }"

text \<open>\<open>wal\<close>: whether the journal mode of the database is WAL.\<close>

definition GetSnapshot :: "('c, 'd) sqlite_api \<Rightarrow> bool \<Rightarrow> 'c sqlite_state \<Rightarrow> 'c option \<times> 'c sqlite_state" where
  "GetSnapshot api wal st =
     (if wal then (Some (sqlite_snapshot api (sq_db st)), st\<lparr>sq_snapshots := sq_snapshots st + 1\<rparr>)
      else (None, st))"

definition UnrefSnapshot :: "'c sqlite_state \<Rightarrow> 'c sqlite_state run" where
  "UnrefSnapshot st = do { CHECK (sq_snapshots st > 0); Some (st\<lparr>sq_snapshots := sq_snapshots st - 1\<rparr>) }"

definition Sq_GetCurrentBlockHash :: "('c, 'd) sqlite_api \<Rightarrow> 'c \<Rightarrow> uint256 option run" where
  "Sq_GetCurrentBlockHash api c = single_row Get_uint256 (select_current api ''blockhash'' c)"

definition Sq_GetCurrentGameState :: "('c, 'd) sqlite_api \<Rightarrow> 'c \<Rightarrow> string run" where
  "Sq_GetCurrentGameState api c =
     do { r \<leftarrow> single_row Some (select_current api ''gamestate'' c); CHECK (r \<noteq> None); r }"

definition Sq_SetCurrentGameState ::
    "('c, 'd) sqlite_api \<Rightarrow> uint256 \<Rightarrow> string \<Rightarrow> 'c sqlite_state \<Rightarrow> 'c sqlite_state run" where
  "Sq_SetCurrentGameState api hash d st =
     do {
       CHECK (sq_startedTransaction st);
       c \<leftarrow> Statement_Execute api (Savepoint ''xayagame-setcurrentstate'') (sq_db st);
       c \<leftarrow> Statement_Execute api (Insert_current ''blockhash'' (Bind_uint256 hash)) c;
       c \<leftarrow> Statement_Execute api (Insert_current ''gamestate'' d) c;
       c \<leftarrow> Statement_Execute api (Release ''xayagame-setcurrentstate'') c;
       Some (st\<lparr>sq_db := c\<rparr>)
     }"

definition Sq_GetUndoData :: "('c, 'd) sqlite_api \<Rightarrow> uint256 \<Rightarrow> 'c \<Rightarrow> string option run" where
  "Sq_GetUndoData api hash c = single_row Some (select_undo api (Bind_uint256 hash) c)"

definition Sq_AddUndoData ::
    "('c, 'd) sqlite_api \<Rightarrow> uint256 \<Rightarrow> uint32 \<Rightarrow> string \<Rightarrow> 'c sqlite_state \<Rightarrow> 'c sqlite_state run" where
  "Sq_AddUndoData api hash height d st =
     do {
       CHECK (sq_startedTransaction st);
       ht \<leftarrow> Bind_unsigned height;
       c \<leftarrow> Statement_Execute api (Insert_undo (Bind_uint256 hash) d ht) (sq_db st);
       Some (st\<lparr>sq_db := c\<rparr>)
     }"

definition Sq_ReleaseUndoData :: "('c, 'd) sqlite_api \<Rightarrow> uint256 \<Rightarrow> 'c sqlite_state \<Rightarrow> 'c sqlite_state run" where
  "Sq_ReleaseUndoData api hash st =
     do {
       CHECK (sq_startedTransaction st);
       c \<leftarrow> Statement_Execute api (Delete_undo (Bind_uint256 hash)) (sq_db st);
       Some (st\<lparr>sq_db := c\<rparr>)
     }"

definition Sq_PruneUndoData :: "('c, 'd) sqlite_api \<Rightarrow> uint32 \<Rightarrow> 'c sqlite_state \<Rightarrow> 'c sqlite_state run" where
  "Sq_PruneUndoData api height st =
     do {
       CHECK (sq_startedTransaction st);
       ht \<leftarrow> Bind_unsigned height;
       c \<leftarrow> Statement_Execute api (Delete_undo_upto ht) (sq_db st);
       Some (st\<lparr>sq_db := c\<rparr>)
     }"

definition Sq_BeginTransaction :: "('c, 'd) sqlite_api \<Rightarrow> 'c sqlite_state \<Rightarrow> 'c sqlite_state run" where
  "Sq_BeginTransaction api st =
     do {
       CHECK (\<not> sq_startedTransaction st);
       c \<leftarrow> Statement_Execute api (Savepoint ''xayagame-sqlitegame'') (sq_db st);
       Some (st\<lparr>sq_db := c, sq_startedTransaction := True\<rparr>)
     }"

definition Sq_CommitTransaction :: "('c, 'd) sqlite_api \<Rightarrow> 'c sqlite_state \<Rightarrow> 'c sqlite_state run" where
  "Sq_CommitTransaction api st =
     do {
       c \<leftarrow> Statement_Execute api (Release ''xayagame-sqlitegame'') (sq_db st);
       CHECK (sq_startedTransaction st);
       Some (st\<lparr>sq_db := c, sq_startedTransaction := False\<rparr>)
     }"

definition Sq_RollbackTransaction :: "('c, 'd) sqlite_api \<Rightarrow> 'c sqlite_state \<Rightarrow> 'c sqlite_state run" where
  "Sq_RollbackTransaction api st =
     do {
       c \<leftarrow> Statement_Execute api (Rollback_to ''xayagame-sqlitegame'') (sq_db st);
       CHECK (sq_startedTransaction st);
       Some (st\<lparr>sq_db := c, sq_startedTransaction := False\<rparr>)
     }"

text \<open>As an implementation of the interface, where the queries for the hash and for undo data cannot
  abort; \<open>sqlite_reads\<close> below shows that they do not.  The storage never throws.\<close>

definition unless_aborted :: "'a option run \<Rightarrow> 'a option" where
  "unless_aborted r = (case r of None \<Rightarrow> None | Some x \<Rightarrow> x)"

definition returning :: "('s \<Rightarrow> 's run) \<Rightarrow> ('s, unit) exec" where
  "returning op st = map_option (Pair (Returned ())) (op st)"

definition SQLiteStorage :: "('c, 'd) sqlite_api \<Rightarrow> ('c \<Rightarrow> 'c run) \<Rightarrow> 'c sqlite_state storage_interface" where
  "SQLiteStorage api schema =
     \<lparr>st_Clear = Sq_Clear api schema,
      st_GetCurrentBlockHash = (\<lambda>st. unless_aborted (Sq_GetCurrentBlockHash api (sq_db st))),
      st_GetCurrentGameState = (\<lambda>st. Sq_GetCurrentGameState api (sq_db st)),
      st_SetCurrentGameState = (\<lambda>hash d. returning (Sq_SetCurrentGameState api hash d)),
      st_GetUndoData = (\<lambda>hash st. unless_aborted (Sq_GetUndoData api hash (sq_db st))),
      st_AddUndoData = (\<lambda>hash height d. returning (Sq_AddUndoData api hash height d)),
      st_ReleaseUndoData = (\<lambda>hash. returning (Sq_ReleaseUndoData api hash)),
      st_PruneUndoData = (\<lambda>height. returning (Sq_PruneUndoData api height)),
      st_BeginTransaction = Sq_BeginTransaction api,
      st_CommitTransaction = returning (Sq_CommitTransaction api),
      st_RollbackTransaction = Sq_RollbackTransaction api\<rparr>"

subsection \<open>Well-formed states\<close>

text \<open>The block hash has 32 bytes and is set together with the game state, and heights are those of an
  unsigned number.\<close>

definition tables_ok :: "'d sqlite_tables \<Rightarrow> bool" where
  "tables_ok t \<longleftrightarrow>
     (case xayagame_current t ''blockhash'' of
        None \<Rightarrow> xayagame_current t ''gamestate'' = None
      | Some b \<Rightarrow> length b = NUM_BYTES \<and> xayagame_current t ''gamestate'' \<noteq> None) \<and>
     (\<forall>h d ht. xayagame_undo t h = Some (d, ht) \<longrightarrow> 0 \<le> ht \<and> ht < 2 ^ 32)"

definition tables_view :: "'d sqlite_tables \<Rightarrow> contents" where
  "tables_view t =
     \<lparr>cur = (case xayagame_current t ''blockhash'' of
        None \<Rightarrow> None
      | Some b \<Rightarrow> map_option (Pair (bytes_of_string b)) (xayagame_current t ''gamestate'')),
      undos = (\<lambda>h. map_option (\<lambda>(d, ht). (word_of_int ht, d)) (xayagame_undo t (Bind_uint256 h)))\<rparr>"

text \<open>While a transaction is open, its savepoint is on the stack.\<close>

definition sqlite_ok :: "('c \<Rightarrow> 'd sqlite_tables sql_connection) \<Rightarrow> 'c sqlite_state \<Rightarrow> bool" where
  "sqlite_ok conn st \<longleftrightarrow>
     tables_ok (sql_now (conn (sq_db st))) \<and> (\<forall>s\<in>set (sql_stack (conn (sq_db st))). tables_ok (snd s)) \<and>
     (sq_startedTransaction st \<longrightarrow> from_savepoint ''xayagame-sqlitegame'' (conn (sq_db st)) \<noteq> [])"

definition sqlite_phase :: "('c \<Rightarrow> 'd sqlite_tables sql_connection) \<Rightarrow> 'c sqlite_state \<Rightarrow> storage_phase" where
  "sqlite_phase conn st =
     (if \<not> sqlite_ok conn st then Invalid else if sq_startedTransaction st then Open else Idle)"

definition sqlite_view :: "('c \<Rightarrow> 'd sqlite_tables sql_connection) \<Rightarrow> 'c sqlite_state \<Rightarrow> contents" where
  "sqlite_view conn st = tables_view (sql_now (conn (sq_db st)))"

text \<open>A crash leads to the contents of the file, a rollback to those of a savepoint.\<close>

definition sqlite_restorable :: "('c \<Rightarrow> 'd sqlite_tables sql_connection) \<Rightarrow> 'c sqlite_state \<Rightarrow> contents set" where
  "sqlite_restorable conn st =
     tables_view ` insert (sql_file (conn (sq_db st))) (snd ` set (sql_stack (conn (sq_db st))))"

lemma phase_simps:
  "sqlite_phase conn st = Open \<longleftrightarrow> sqlite_ok conn st \<and> sq_startedTransaction st"
  "sqlite_phase conn st = Idle \<longleftrightarrow> sqlite_ok conn st \<and> \<not> sq_startedTransaction st"
  "needs_end (sqlite_phase conn st) \<longleftrightarrow> sqlite_ok conn st \<and> sq_startedTransaction st"
  by (simp_all add: sqlite_phase_def)

lemma Bind_uint256_simps [simp]:
  "Bind_uint256 h = Bind_uint256 h' \<longleftrightarrow> h = h'" "bytes_of_string (Bind_uint256 h) = h"
  by (simp_all add: Bind_uint256_def GetBinaryString_def)

definition set_current :: "uint256 \<Rightarrow> string \<Rightarrow> 'd sqlite_tables \<Rightarrow> 'd sqlite_tables" where
  "set_current hash d t =
     table_effect (Insert_current ''gamestate'' d) (table_effect (Insert_current ''blockhash'' (Bind_uint256 hash)) t)"

lemma tables_ok_effects:
  "tables_ok t \<Longrightarrow> wf_uint256 hash \<Longrightarrow> tables_ok (set_current hash d t)"
  "tables_ok t \<Longrightarrow> tables_ok (table_effect (Insert_undo h d (uint (ht :: uint32))) t)"
  "tables_ok t \<Longrightarrow> tables_ok (table_effect (Delete_undo h) t)"
  "tables_ok t \<Longrightarrow> tables_ok (table_effect (Delete_undo_upto n) t)"
  "tables_ok t \<Longrightarrow> tables_ok (table_effect (Update_further f) t)"
  "tables_ok (empty_tables no_tables)"
  using unsigned_less [of ht, where ?'a = int]
  by (auto simp: tables_ok_def set_current_def Bind_uint256_def GetBinaryString_def wf_uint256_def empty_tables_def
      split: option.splits if_splits)

lemma view_effects:
  "upd_current h d (tables_view t) (tables_view (set_current h d t))"
  "upd_add h ht d (tables_view t) (tables_view (table_effect (Insert_undo (Bind_uint256 h) d (uint ht)) t))"
  "upd_release h (tables_view t) (tables_view (table_effect (Delete_undo (Bind_uint256 h)) t))"
  by (simp_all add: upd_defs tables_view_def set_current_def fun_eq_iff cong: option.case_cong)

lemma view_prune:
  assumes "tables_ok t"
  shows "upd_prune n (tables_view t) (tables_view (table_effect (Delete_undo_upto (uint n)) t))"
proof -
  have le: "word_of_int ht \<le> n \<longleftrightarrow> ht \<le> uint n" if "xayagame_undo t h = Some (d, ht)" for h d ht
    using assms that unsigned_less [of n, where ?'a = int]
    by (simp add: tables_ok_def word_le_def uint_word_of_int)
  show ?thesis
    unfolding upd_prune_def map_le_def
    by (auto simp: tables_view_def le split: option.splits if_splits) (use le in \<open>fastforce simp: not_le [symmetric]\<close>)+
qed

subsection \<open>The contract\<close>

context sqlite_documented
begin

abbreviation db_now :: "'c sqlite_state \<Rightarrow> 'd sqlite_tables" where
  "db_now st \<equiv> sql_now (conn (sq_db st))"

text \<open>Reading a well-formed state does not abort.\<close>

lemma sqlite_reads:
  assumes "tables_ok (sql_now (conn c))"
  shows "Sq_GetCurrentBlockHash api c = Some (map_option fst (cur (tables_view (sql_now (conn c)))))"
    "Sq_GetCurrentGameState api c = map_option snd (cur (tables_view (sql_now (conn c))))"
    "Sq_GetUndoData api h c = Some (map_option snd (undos (tables_view (sql_now (conn c))) h))"
  using assms
  by (auto simp: Sq_GetCurrentBlockHash_def Sq_GetCurrentGameState_def Sq_GetUndoData_def current_law undo_law
      single_row_option tables_view_def tables_ok_def Get_uint256_def FromBlob_def bind_CHECK split: option.splits)

definition writes :: "('d sqlite_tables \<Rightarrow> 'd sqlite_tables) \<Rightarrow> ('c sqlite_state \<Rightarrow> 'c sqlite_state run) \<Rightarrow> bool" where
  "writes f op \<longleftrightarrow> (\<forall>st. sq_startedTransaction st \<longrightarrow> sql_stack (conn (sq_db st)) \<noteq> [] \<longrightarrow>
     (\<exists>c. op st = Some (st\<lparr>sq_db := c\<rparr>) \<and> conn c = sql_write f (conn (sq_db st))))"

lemma writes_simple:
  assumes "\<And>c. sql_meaning q c = Some (sql_write (table_effect q) c)"
    and "\<And>st. sq_startedTransaction st \<Longrightarrow> op st = do { c \<leftarrow> Statement_Execute api q (sq_db st); Some (st\<lparr>sq_db := c\<rparr>) }"
  shows "writes (table_effect q) op"
  unfolding writes_def
proof (intro allI impI)
  fix st :: "'c sqlite_state"
  assume "sq_startedTransaction st"
  then show "\<exists>c. op st = Some (st\<lparr>sq_db := c\<rparr>) \<and> conn c = sql_write (table_effect q) (conn (sq_db st))"
    using execute_ex [OF assms(1), of "sq_db st"] assms(2) [of st] by auto
qed

lemma writes_undo:
  "writes (table_effect (Insert_undo (Bind_uint256 h) d (uint ht))) (Sq_AddUndoData api h ht d)"
  "writes (table_effect (Delete_undo (Bind_uint256 h))) (Sq_ReleaseUndoData api h)"
  "writes (table_effect (Delete_undo_upto (uint ht))) (Sq_PruneUndoData api ht)"
  by (rule writes_simple;
      simp add: Sq_AddUndoData_def Sq_ReleaseUndoData_def Sq_PruneUndoData_def Bind_unsigned_eq bind_CHECK)+

text \<open>The inner savepoint of \<open>SetCurrentGameState\<close> leaves no trace.\<close>

lemma writes_current: "writes (set_current h d) (Sq_SetCurrentGameState api h d)"
  unfolding writes_def
proof (intro allI impI)
  fix st :: "'c sqlite_state"
  let ?nm = "''xayagame-setcurrentstate''"
  assume st: "sq_startedTransaction st" "sql_stack (conn (sq_db st)) \<noteq> []"
  obtain c1 where 1: "Statement_Execute api (Savepoint ?nm) (sq_db st) = Some c1" "conn c1 = SAVEPOINT ?nm (conn (sq_db st))"
    using execute_ex [of "Savepoint ?nm" "sq_db st"] by auto
  obtain c2 where 2: "Statement_Execute api (Insert_current ''blockhash'' (Bind_uint256 h)) c1 = Some c2"
    "conn c2 = sql_write (table_effect (Insert_current ''blockhash'' (Bind_uint256 h))) (conn c1)"
    using execute_ex [of "Insert_current ''blockhash'' (Bind_uint256 h)" c1] by auto
  obtain c3 where 3: "Statement_Execute api (Insert_current ''gamestate'' d) c2 = Some c3"
    "conn c3 = sql_write (table_effect (Insert_current ''gamestate'' d)) (conn c2)"
    using execute_ex [of "Insert_current ''gamestate'' d" c2] by auto
  have "RELEASE ?nm (conn c3) = Some (sql_write (set_current h d) (conn (sq_db st)))"
    unfolding RELEASE_def 3(2) 2(2) 1(2) from_savepoint_simps using st(2)
    by (simp add: set_current_def sql_write_def SAVEPOINT_def Let_def)
  then obtain c4 where "Statement_Execute api (Release ?nm) c3 = Some c4" "conn c4 = sql_write (set_current h d) (conn (sq_db st))"
    using execute_ex [of "Release ?nm" c3] by auto
  then show "\<exists>c. Sq_SetCurrentGameState api h d st = Some (st\<lparr>sq_db := c\<rparr>) \<and>
      conn c = sql_write (set_current h d) (conn (sq_db st))"
    using st 1(1) 2(1) 3(1) by (auto simp: Sq_SetCurrentGameState_def bind_CHECK intro!: exI [of _ c4])
qed

lemma ok_stack: "sqlite_ok conn st \<Longrightarrow> sq_startedTransaction st \<Longrightarrow> sql_stack (conn (sq_db st)) \<noteq> []"
  by (auto simp: sqlite_ok_def from_savepoint_def)

lemma writes_updating:
  assumes op: "writes f op"
    and f: "\<And>t. tables_ok t \<Longrightarrow> tables_ok (f t) \<and> upd (tables_view t) (tables_view (f t))"
  shows "updating False (sqlite_phase conn) (sqlite_view conn) (sqlite_restorable conn) upd (returning op)"
  unfolding updating_def phase_simps
proof (intro allI impI, elim conjE)
  fix st :: "'c sqlite_state"
  assume st: "sqlite_ok conn st" "sq_startedTransaction st"
  then obtain c where c: "op st = Some (st\<lparr>sq_db := c\<rparr>)" "conn c = sql_write f (conn (sq_db st))"
    using op ok_stack unfolding writes_def by blast
  have "sqlite_ok conn (st\<lparr>sq_db := c\<rparr>)" "upd (sqlite_view conn st) (sqlite_view conn (st\<lparr>sq_db := c\<rparr>))"
    using st f [of "db_now st"] by (simp_all add: sqlite_ok_def sqlite_view_def c(2) from_savepoint_simps)
  moreover have "sqlite_restorable conn (st\<lparr>sq_db := c\<rparr>) = sqlite_restorable conn st"
    using ok_stack [OF st] by (simp add: sqlite_restorable_def c(2))
  ultimately show "\<exists>r st'. returning op st = Some (r, st') \<and>
      (case r of
         Returned _ \<Rightarrow> (sqlite_ok conn st' \<and> sq_startedTransaction st') \<and> upd (sqlite_view conn st) (sqlite_view conn st') \<and>
           sqlite_restorable conn st' \<subseteq> insert (sqlite_view conn st') (sqlite_restorable conn st)
       | RetryWithNewTransaction \<Rightarrow> False \<and> (sqlite_ok conn st' \<and> sq_startedTransaction st') \<and>
           sqlite_restorable conn st' \<subseteq> sqlite_restorable conn st)"
    using st c(1) by (intro exI [of _ "Returned ()"] exI [of _ "st\<lparr>sq_db := c\<rparr>"]) (auto simp: returning_def)
qed

lemma begin_step:
  assumes "\<not> sq_startedTransaction st"
  obtains c where "Sq_BeginTransaction api st = Some (st\<lparr>sq_db := c, sq_startedTransaction := True\<rparr>)"
    "conn c = SAVEPOINT ''xayagame-sqlitegame'' (conn (sq_db st))"
  using execute_ex [of "Savepoint ''xayagame-sqlitegame''" "sq_db st"] assms that
  by (auto simp: Sq_BeginTransaction_def bind_CHECK)

lemma commit_step:
  assumes "sq_startedTransaction st" "from_savepoint ''xayagame-sqlitegame'' (conn (sq_db st)) = s # rest"
  obtains c where "Sq_CommitTransaction api st = Some (st\<lparr>sq_db := c, sq_startedTransaction := False\<rparr>)"
    "conn c = (conn (sq_db st))\<lparr>sql_stack := rest, sql_file := (if rest = [] then db_now st else sql_file (conn (sq_db st)))\<rparr>"
  using execute_ex [of "Release ''xayagame-sqlitegame''" "sq_db st"] assms that
  by (auto simp: Sq_CommitTransaction_def bind_CHECK RELEASE_def)

lemma rollback_step:
  assumes "sq_startedTransaction st" "from_savepoint ''xayagame-sqlitegame'' (conn (sq_db st)) = s # rest"
  obtains c where "Sq_RollbackTransaction api st = Some (st\<lparr>sq_db := c, sq_startedTransaction := False\<rparr>)"
    "conn c = (conn (sq_db st))\<lparr>sql_stack := s # rest, sql_now := snd s\<rparr>"
  using execute_ex [of "Rollback_to ''xayagame-sqlitegame''" "sq_db st"] assms that
  by (auto simp: Sq_RollbackTransaction_def bind_CHECK ROLLBACK_TO_def)

end

text \<open>The schema of a subclass has further tables, and leaves those of the storage as they are.\<close>

locale sqlite_storage = sqlite_documented api conn no_tables
  for api :: "('c, 'd) sqlite_api" and conn :: "'c \<Rightarrow> 'd sqlite_tables sql_connection" and no_tables :: 'd +
  fixes schema :: "'c \<Rightarrow> 'c run"
  assumes schema_law: "\<exists>c' f. schema c = Some c' \<and> conn c' = sql_write (table_effect (Update_further f)) (conn c)"
begin

lemma clear_step:
  obtains c f where "Sq_Clear api schema st = Some (st\<lparr>sq_db := c, sq_snapshots := 0\<rparr>)"
    "conn c = sql_open (empty_tables (f no_tables))"
proof -
  obtain c0 where c0: "sqlite_recreate api (sq_db st) = Some c0" "conn c0 = sql_open (empty_tables no_tables)"
    using recreate_law by blast
  obtain c f where "schema c0 = Some c" "conn c = sql_write (table_effect (Update_further f)) (conn c0)"
    using schema_law by blast
  then show thesis
    using that [of c f] c0 by (simp add: Sq_Clear_def OpenDatabase_def empty_tables_def sql_write_def sql_open_def Let_def)
qed

text \<open>A storage that is opened sees what is in the file.\<close>

lemma initialise_step:
  assumes "conn c = sql_open t"
  obtains st f where "Sq_Initialise schema c None = Some st" "\<not> sq_startedTransaction st"
    "conn (sq_db st) = sql_open (t\<lparr>further_tables := f (further_tables t)\<rparr>)"
proof -
  obtain c' f where "schema c = Some c'" "conn c' = sql_write (table_effect (Update_further f)) (conn c)"
    using schema_law by blast
  then show thesis
    using that [of _ f] assms by (simp add: Sq_Initialise_def OpenDatabase_def sql_write_def sql_open_def Let_def)
qed

end

sublocale sqlite_storage \<subseteq> contract: storage_contract "SQLiteStorage api schema" False
  "sqlite_phase conn" "sqlite_view conn" "sqlite_restorable conn"
proof unfold_locales
  fix st :: "'c sqlite_state"
  {
    assume "sqlite_phase conn st \<in> {Idle, Open}"
    then have "tables_ok (db_now st)"
      by (auto simp: phase_simps sqlite_ok_def)
    note sqlite_reads [OF this]
    then show "st_GetCurrentBlockHash (SQLiteStorage api schema) st = map_option fst (cur (sqlite_view conn st))"
      "st_GetCurrentGameState (SQLiteStorage api schema) st = map_option snd (cur (sqlite_view conn st))"
      "st_GetUndoData (SQLiteStorage api schema) h st = map_option snd (undos (sqlite_view conn st) h)" for h
      by (simp_all add: SQLiteStorage_def unless_aborted_def sqlite_view_def)
  next
    assume "sqlite_phase conn st = Idle"
    then have st: "sqlite_ok conn st" "\<not> sq_startedTransaction st"
      by (simp_all add: phase_simps)
    obtain c where "Sq_BeginTransaction api st = Some (st\<lparr>sq_db := c, sq_startedTransaction := True\<rparr>)"
      and c: "conn c = SAVEPOINT ''xayagame-sqlitegame'' (conn (sq_db st))"
      by (rule begin_step [OF st(2)])
    then show "\<exists>st'. st_BeginTransaction (SQLiteStorage api schema) st = Some st' \<and> sqlite_phase conn st' = Open \<and>
        sqlite_view conn st' = sqlite_view conn st \<and>
        sqlite_restorable conn st' \<subseteq> insert (sqlite_view conn st) (sqlite_restorable conn st)"
      using st(1) unfolding phase_simps
      by (auto simp: SQLiteStorage_def sqlite_ok_def sqlite_view_def sqlite_restorable_def from_savepoint_simps)
    obtain c f where "Sq_Clear api schema st = Some (st\<lparr>sq_db := c, sq_snapshots := 0\<rparr>)"
      "conn c = sql_open (empty_tables (f no_tables))"
      by (rule clear_step)
    then show "\<exists>st'. st_Clear (SQLiteStorage api schema) st = Some st' \<and> sqlite_phase conn st' = Idle \<and>
        sqlite_view conn st' = \<lparr>cur = None, undos = Map.empty\<rparr> \<and>
        sqlite_restorable conn st' \<subseteq> {\<lparr>cur = None, undos = Map.empty\<rparr>}"
      using st(2) unfolding phase_simps
      by (simp add: SQLiteStorage_def sqlite_ok_def sqlite_view_def sqlite_restorable_def tables_ok_effects)
        (simp add: tables_view_def empty_tables_def)
  next
    assume "sqlite_phase conn st = Open"
    then have st: "sqlite_ok conn st" "sq_startedTransaction st"
      by (simp_all add: phase_simps)
    then obtain s rest where s: "from_savepoint ''xayagame-sqlitegame'' (conn (sq_db st)) = s # rest"
      by (cases "from_savepoint ''xayagame-sqlitegame'' (conn (sq_db st))") (auto simp: sqlite_ok_def)
    then have sub: "set (s # rest) \<subseteq> set (sql_stack (conn (sq_db st)))"
      using set_from_savepoint [of "''xayagame-sqlitegame''" "conn (sq_db st)"] by simp
    obtain c where "Sq_CommitTransaction api st = Some (st\<lparr>sq_db := c, sq_startedTransaction := False\<rparr>)"
      "conn c = (conn (sq_db st))\<lparr>sql_stack := rest, sql_file := (if rest = [] then db_now st else sql_file (conn (sq_db st)))\<rparr>"
      by (rule commit_step [OF st(2) s])
    then show "\<exists>r st'. st_CommitTransaction (SQLiteStorage api schema) st = Some (r, st') \<and>
      (case r of
         Returned _ \<Rightarrow> sqlite_phase conn st' = Idle \<and> sqlite_view conn st' = sqlite_view conn st \<and>
           sqlite_restorable conn st' \<subseteq> insert (sqlite_view conn st) (sqlite_restorable conn st)
       | RetryWithNewTransaction \<Rightarrow> False \<and> needs_end (sqlite_phase conn st') \<and>
           sqlite_restorable conn st' \<subseteq> sqlite_restorable conn st)"
      using st sub unfolding phase_simps
      by (intro exI [of _ "Returned ()"] exI [of _ "st\<lparr>sq_db := c, sq_startedTransaction := False\<rparr>"])
        (auto simp: SQLiteStorage_def returning_def sqlite_ok_def sqlite_view_def sqlite_restorable_def split: if_splits)
  next
    assume "needs_end (sqlite_phase conn st)"
    then have st: "sqlite_ok conn st" "sq_startedTransaction st"
      by (simp_all add: phase_simps)
    then obtain s rest where s: "from_savepoint ''xayagame-sqlitegame'' (conn (sq_db st)) = s # rest"
      by (cases "from_savepoint ''xayagame-sqlitegame'' (conn (sq_db st))") (auto simp: sqlite_ok_def)
    then have sub: "set (s # rest) \<subseteq> set (sql_stack (conn (sq_db st)))"
      using set_from_savepoint [of "''xayagame-sqlitegame''" "conn (sq_db st)"] by simp
    obtain c where "Sq_RollbackTransaction api st = Some (st\<lparr>sq_db := c, sq_startedTransaction := False\<rparr>)"
      "conn c = (conn (sq_db st))\<lparr>sql_stack := s # rest, sql_now := snd s\<rparr>"
      by (rule rollback_step [OF st(2) s])
    then show "\<exists>st'. st_RollbackTransaction (SQLiteStorage api schema) st = Some st' \<and> sqlite_phase conn st' = Idle \<and>
        sqlite_view conn st' \<in> sqlite_restorable conn st \<and> sqlite_restorable conn st' \<subseteq> sqlite_restorable conn st"
      using st sub unfolding phase_simps
      by (auto simp: SQLiteStorage_def sqlite_ok_def sqlite_view_def sqlite_restorable_def)
  }
next
  fix h d ht
  show "wf_uint256 h \<Longrightarrow> updating False (sqlite_phase conn) (sqlite_view conn) (sqlite_restorable conn) (upd_current h d)
      (st_SetCurrentGameState (SQLiteStorage api schema) h d)"
    unfolding SQLiteStorage_def storage_interface.simps
    by (rule writes_updating [OF writes_current]) (simp add: tables_ok_effects view_effects)
  show "updating False (sqlite_phase conn) (sqlite_view conn) (sqlite_restorable conn) (upd_add h ht d)
      (st_AddUndoData (SQLiteStorage api schema) h ht d)"
    unfolding SQLiteStorage_def storage_interface.simps
    by (rule writes_updating [OF writes_undo(1)]) (intro conjI tables_ok_effects view_effects)
  show "updating False (sqlite_phase conn) (sqlite_view conn) (sqlite_restorable conn) (upd_release h)
      (st_ReleaseUndoData (SQLiteStorage api schema) h)"
    unfolding SQLiteStorage_def storage_interface.simps
    by (rule writes_updating [OF writes_undo(2)]) (intro conjI tables_ok_effects view_effects)
  show "updating False (sqlite_phase conn) (sqlite_view conn) (sqlite_restorable conn) (upd_prune ht)
      (st_PruneUndoData (SQLiteStorage api schema) ht)"
    unfolding SQLiteStorage_def storage_interface.simps
    by (rule writes_updating [OF writes_undo(3)]) (intro conjI tables_ok_effects view_prune)
qed

context sqlite_storage
begin

lemma keeps_contract:
  "storage_contract (SQLiteStorage api schema) False (sqlite_phase conn) (sqlite_view conn) (sqlite_restorable conn)"
  by (rule contract.storage_contract_axioms)

end

interpretation plain_sqlite: sqlite_storage "reference_sqlite d" "\<lambda>c. c" d "Sq_SetupSchema (reference_sqlite d)" for d
proof unfold_locales
  fix c :: "'a sqlite_tables sql_connection"
  have "table_effect Create_tables = (table_effect (Update_further (\<lambda>d. d)) :: 'a sqlite_tables \<Rightarrow> _)"
    by (simp add: fun_eq_iff)
  then have "Sq_SetupSchema (reference_sqlite d) c = Some (sql_write (table_effect (Update_further (\<lambda>d. d))) c)"
    by (simp add: Sq_SetupSchema_def Statement_Execute_def reference_sqlite_def)
  then show "\<exists>c' f. Sq_SetupSchema (reference_sqlite d) c = Some c' \<and> c' = sql_write (table_effect (Update_further f)) c"
    by blast
qed



subsection \<open>Durability\<close>

text \<open>Sequences of calls between two calls of \<open>Clear\<close>.\<close>

datatype sq_call =
    Call_Begin
  | Call_Commit
  | Call_Rollback
  | Call_Set uint256 string
  | Call_Add uint256 uint32 string
  | Call_Release uint256
  | Call_Prune uint32

fun sq_call_step :: "('c, 'd) sqlite_api \<Rightarrow> sq_call \<Rightarrow> 'c sqlite_state \<Rightarrow> 'c sqlite_state run" where
  "sq_call_step api Call_Begin st = Sq_BeginTransaction api st"
| "sq_call_step api Call_Commit st = Sq_CommitTransaction api st"
| "sq_call_step api Call_Rollback st = Sq_RollbackTransaction api st"
| "sq_call_step api (Call_Set h d) st = Sq_SetCurrentGameState api h d st"
| "sq_call_step api (Call_Add h ht d) st = Sq_AddUndoData api h ht d st"
| "sq_call_step api (Call_Release h) st = Sq_ReleaseUndoData api h st"
| "sq_call_step api (Call_Prune ht) st = Sq_PruneUndoData api ht st"

fun sq_run :: "('c, 'd) sqlite_api \<Rightarrow> sq_call list \<Rightarrow> 'c sqlite_state \<Rightarrow> 'c sqlite_state run" where
  "sq_run api [] st = Some st"
| "sq_run api (call # calls) st = do { st \<leftarrow> sq_call_step api call st; sq_run api calls st }"

context sqlite_storage
begin

text \<open>Of every rollback so far, one savepoint is left.  While there are none, the contents of the file are
  the present ones whenever no transaction is open.\<close>

definition left_over :: "nat \<Rightarrow> 'c sqlite_state \<Rightarrow> bool" where
  "left_over k st \<longleftrightarrow>
     map fst (sql_stack (conn (sq_db st))) = replicate (k + (if sq_startedTransaction st then 1 else 0)) ''xayagame-sqlitegame'' \<and>
     (k = 0 \<and> \<not> sq_startedTransaction st \<longrightarrow> sql_file (conn (sq_db st)) = db_now st)"

lemma left_over_from:
  assumes "left_over k st"
  shows "from_savepoint ''xayagame-sqlitegame'' (conn (sq_db st)) = sql_stack (conn (sq_db st))"
proof -
  have "set (map fst (sql_stack (conn (sq_db st)))) \<subseteq> {''xayagame-sqlitegame''}"
    using assms unfolding left_over_def by (metis set_replicate_conv_if order_refl empty_subsetI)
  then show ?thesis
    by (cases "sql_stack (conn (sq_db st))") (simp_all add: from_savepoint_def)
qed

lemma left_over_write:
  assumes "left_over k st" "writes f op" "op st = Some st'" "sq_startedTransaction st"
  shows "left_over k st'" "sql_file (conn (sq_db st')) = sql_file (conn (sq_db st))"
proof -
  have ne: "sql_stack (conn (sq_db st)) \<noteq> []"
    using assms(1,4) by (auto simp: left_over_def)
  then obtain c where c: "st' = st\<lparr>sq_db := c\<rparr>" "conn c = sql_write f (conn (sq_db st))"
    using assms(2-4) unfolding writes_def by fastforce
  show "left_over k st'" "sql_file (conn (sq_db st')) = sql_file (conn (sq_db st))"
    using assms(1,4) ne by (simp_all add: left_over_def c)
qed

lemma left_over_top:
  assumes "left_over k st" "sq_startedTransaction st"
  obtains s rest where "sql_stack (conn (sq_db st)) = s # rest" "fst s = ''xayagame-sqlitegame''"
    "from_savepoint ''xayagame-sqlitegame'' (conn (sq_db st)) = s # rest"
    "map fst rest = replicate k ''xayagame-sqlitegame''" "rest = [] \<longleftrightarrow> k = 0"
proof -
  obtain s rest where s: "sql_stack (conn (sq_db st)) = s # rest"
    using assms by (cases "sql_stack (conn (sq_db st))") (auto simp: left_over_def)
  then have names: "fst s = ''xayagame-sqlitegame''" "map fst rest = replicate k ''xayagame-sqlitegame''"
    using assms by (simp_all add: left_over_def)
  then have "rest = [] \<longleftrightarrow> k = 0"
    by (metis length_map length_replicate length_0_conv)
  then show thesis
    using that s names left_over_from [OF assms(1)] by simp
qed

lemma left_over_commit:
  assumes "left_over k st" "Sq_CommitTransaction api st = Some st'"
  shows "left_over k st' \<and> (k \<noteq> 0 \<longrightarrow> sql_file (conn (sq_db st')) = sql_file (conn (sq_db st)))"
proof -
  have st: "sq_startedTransaction st"
    using assms(2) by (auto simp: Sq_CommitTransaction_def elim!: bind_SomeE)
  obtain s rest where s: "sql_stack (conn (sq_db st)) = s # rest" "fst s = ''xayagame-sqlitegame''"
    "from_savepoint ''xayagame-sqlitegame'' (conn (sq_db st)) = s # rest"
    "map fst rest = replicate k ''xayagame-sqlitegame''" "rest = [] \<longleftrightarrow> k = 0"
    by (rule left_over_top [OF assms(1) st])
  obtain c where "st' = st\<lparr>sq_db := c, sq_startedTransaction := False\<rparr>"
    "conn c = (conn (sq_db st))\<lparr>sql_stack := rest, sql_file := (if rest = [] then db_now st else sql_file (conn (sq_db st)))\<rparr>"
    using commit_step [OF st s(3)] assms(2) by auto
  then show ?thesis
    using s by (simp add: left_over_def)
qed

lemma left_over_rollback:
  assumes "left_over k st" "Sq_RollbackTransaction api st = Some st'"
  shows "left_over (Suc k) st' \<and> sql_file (conn (sq_db st')) = sql_file (conn (sq_db st))"
proof -
  have st: "sq_startedTransaction st"
    using assms(2) by (auto simp: Sq_RollbackTransaction_def elim!: bind_SomeE)
  obtain s rest where s: "sql_stack (conn (sq_db st)) = s # rest" "fst s = ''xayagame-sqlitegame''"
    "from_savepoint ''xayagame-sqlitegame'' (conn (sq_db st)) = s # rest"
    "map fst rest = replicate k ''xayagame-sqlitegame''" "rest = [] \<longleftrightarrow> k = 0"
    by (rule left_over_top [OF assms(1) st])
  obtain c where "st' = st\<lparr>sq_db := c, sq_startedTransaction := False\<rparr>"
    "conn c = (conn (sq_db st))\<lparr>sql_stack := s # rest, sql_now := snd s\<rparr>"
    using rollback_step [OF st s(3)] assms(2) by auto
  then show ?thesis
    using s by (simp add: left_over_def)
qed

lemma left_over_begin:
  assumes "left_over k st" "Sq_BeginTransaction api st = Some st'"
  shows "left_over k st' \<and> sql_file (conn (sq_db st')) = sql_file (conn (sq_db st))"
proof -
  have st: "\<not> sq_startedTransaction st"
    using assms(2) by (auto simp: Sq_BeginTransaction_def bind_CHECK split: if_splits)
  obtain c where "st' = st\<lparr>sq_db := c, sq_startedTransaction := True\<rparr>"
    "conn c = SAVEPOINT ''xayagame-sqlitegame'' (conn (sq_db st))"
    using begin_step [OF st] assms(2) by auto
  then show ?thesis
    using assms(1) st by (simp add: left_over_def)
qed

lemma call_left_over:
  assumes "left_over k st" "sq_call_step api call st = Some st'"
  shows "left_over (if call = Call_Rollback then Suc k else k) st' \<and>
    (k \<noteq> 0 \<or> call = Call_Rollback \<longrightarrow> sql_file (conn (sq_db st')) = sql_file (conn (sq_db st)))"
proof -
  have wr: ?thesis if "writes f op" "op st = Some st'" "sq_startedTransaction st" "call \<noteq> Call_Rollback" for f op
    using left_over_write [OF assms(1) that(1-3)] that(4) by simp
  show ?thesis
  proof (cases call)
    case Call_Begin
    then show ?thesis
      using left_over_begin [OF assms(1)] assms(2) by simp
  next
    case Call_Commit
    then show ?thesis
      using left_over_commit [OF assms(1)] assms(2) by simp
  next
    case Call_Rollback
    then show ?thesis
      using left_over_rollback [OF assms(1)] assms(2) by simp
  next
    case (Call_Set h d)
    then show ?thesis
      using assms(2) by (intro wr [OF writes_current]) (auto simp: Sq_SetCurrentGameState_def bind_CHECK split: if_splits)
  next
    case (Call_Add h ht d)
    then show ?thesis
      using assms(2) by (intro wr [OF writes_undo(1)]) (auto simp: Sq_AddUndoData_def bind_CHECK split: if_splits)
  next
    case (Call_Release h)
    then show ?thesis
      using assms(2) by (intro wr [OF writes_undo(2)]) (auto simp: Sq_ReleaseUndoData_def bind_CHECK split: if_splits)
  next
    case (Call_Prune ht)
    then show ?thesis
      using assms(2) by (intro wr [OF writes_undo(3)]) (auto simp: Sq_PruneUndoData_def bind_CHECK split: if_splits)
  qed
qed

lemma run_left_over:
  assumes "left_over k st" "sq_run api calls st = Some st'"
  shows "left_over (k + count_list calls Call_Rollback) st' \<and> (k \<noteq> 0 \<longrightarrow> sql_file (conn (sq_db st')) = sql_file (conn (sq_db st)))"
  using assms
proof (induction calls arbitrary: k st)
  case (Cons call calls)
  obtain st1 where st1: "sq_call_step api call st = Some st1" "sq_run api calls st1 = Some st'"
    using Cons.prems(2) by (auto elim!: bind_SomeE)
  define k1 where "k1 = (if call = Call_Rollback then Suc k else k)"
  have "left_over k1 st1" "k \<noteq> 0 \<longrightarrow> sql_file (conn (sq_db st1)) = sql_file (conn (sq_db st))"
    using call_left_over [OF Cons.prems(1) st1(1)] by (auto simp: k1_def)
  then show ?case
    using Cons.IH [OF _ st1(2), of k1] by (auto simp: k1_def)
qed simp

lemma fresh_left_over: "conn (sq_db st) = sql_open t \<Longrightarrow> \<not> sq_startedTransaction st \<Longrightarrow> left_over 0 st"
  by (simp add: left_over_def)

end

text \<open>Commits are durable: after any sequence of calls on a fresh connection without a rollback, whenever no
  transaction is open, the contents of the database file, which survive a crash, are the present ones.\<close>

theorem commits_durable:
  assumes "sqlite_storage api conn no_tables schema"
    and "conn (sq_db st0) = sql_open t" "\<not> sq_startedTransaction st0"
    and "sq_run api calls st0 = Some st" "Call_Rollback \<notin> set calls" "\<not> sq_startedTransaction st"
  shows "sql_file (conn (sq_db st)) = sql_now (conn (sq_db st))"
proof -
  have "sqlite_storage.left_over conn (0 + count_list calls Call_Rollback) st"
    using sqlite_storage.run_left_over [OF assms(1) sqlite_storage.fresh_left_over [OF assms(1-3)] assms(4)] by blast
  then show ?thesis
    using assms(5,6) by (simp add: sqlite_storage.left_over_def [OF assms(1)] count_list_0_iff)
qed

text \<open>C9. A rollback ends durability: \<open>RollbackTransaction\<close> leaves its savepoint on the stack, so whatever is begun,
  changed and committed afterwards, the contents of the database file stay as they were at the time of
  the rollback.\<close>

theorem rollback_ends_durability:
  assumes "sqlite_storage api conn no_tables schema"
    and "conn (sq_db st0) = sql_open t" "\<not> sq_startedTransaction st0" "sq_run api calls st0 = Some st1"
    and "Sq_RollbackTransaction api st1 = Some st2" "sq_run api later st2 = Some st3"
  shows "sql_file (conn (sq_db st3)) = sql_file (conn (sq_db st1))"
proof -
  define k where "k = 0 + count_list calls Call_Rollback"
  have "sqlite_storage.left_over conn k st1"
    using sqlite_storage.run_left_over [OF assms(1) sqlite_storage.fresh_left_over [OF assms(1-3)] assms(4)]
    by (auto simp: k_def)
  then have 2: "sqlite_storage.left_over conn (Suc k) st2" "sql_file (conn (sq_db st2)) = sql_file (conn (sq_db st1))"
    using sqlite_storage.left_over_rollback [OF assms(1) _ assms(5)] by auto
  then show ?thesis
    using sqlite_storage.run_left_over [OF assms(1) 2(1) assms(6)] by simp
qed

subsection \<open>An example\<close>

text \<open>A block is stored and committed; the next one is rolled back; then it is stored again and committed,
  but a crash leaves only the first.\<close>

definition sq_demo :: "unit sqlite_tables sql_connection sqlite_state" where
  "sq_demo = \<lparr>sq_db = sql_open (empty_tables ()), sq_startedTransaction = False, sq_snapshots = 0\<rparr>"

definition sq_block :: "8 word \<Rightarrow> sq_call list" where
  "sq_block n = [Call_Begin, Call_Set (replicate 32 n) [char_of_byte n], Call_Commit]"

definition sq_aborted :: "8 word \<Rightarrow> sq_call list" where
  "sq_aborted n = [Call_Begin, Call_Set (replicate 32 n) [char_of_byte n]]"

definition sq_hash :: "unit sqlite_tables \<Rightarrow> uint256 option" where
  "sq_hash t = map_option fst (cur (tables_view t))"

lemma sq_demo_runs:
  "map_option (\<lambda>st. (sq_startedTransaction st, sq_hash (sql_now (sq_db st)))) (sq_run (reference_sqlite ()) (sq_block 1) sq_demo) =
     Some (False, Some (replicate 32 1))"
  "map_option (\<lambda>st. sq_hash (sql_file (sq_db st))) (sq_run (reference_sqlite ()) (sq_block 1 @ sq_aborted 2) sq_demo) =
     Some (Some (replicate 32 1))"
  "map_option (\<lambda>st. sq_hash (sql_now (sq_db st))) (do {
       st \<leftarrow> sq_run (reference_sqlite ()) (sq_block 1 @ sq_aborted 2) sq_demo;
       st \<leftarrow> Sq_RollbackTransaction (reference_sqlite ()) st;
       sq_run (reference_sqlite ()) (sq_block 2) st }) = Some (Some (replicate 32 2))"
  by code_simp+

theorem commits_durable_witness:
  "\<exists>st. sq_run (reference_sqlite ()) (sq_block 1) sq_demo = Some st \<and> sq_hash (sql_file (sq_db st)) = Some (replicate 32 1)"
proof -
  obtain st where st: "sq_run (reference_sqlite ()) (sq_block 1) sq_demo = Some st" "\<not> sq_startedTransaction st"
    "sq_hash (sql_now (sq_db st)) = Some (replicate 32 1)"
    using sq_demo_runs(1) by auto
  moreover have "sql_file (sq_db st) = sql_now (sq_db st)"
    by (rule commits_durable [OF plain_sqlite.sqlite_storage_axioms _ _ st(1) _ st(2)])
      (simp_all add: sq_demo_def sq_block_def)
  ultimately show ?thesis
    by simp
qed

theorem rollback_ends_durability_witness:
  "\<exists>st1 st2 st3. sq_run (reference_sqlite ()) (sq_block 1 @ sq_aborted 2) sq_demo = Some st1 \<and>
     Sq_RollbackTransaction (reference_sqlite ()) st1 = Some st2 \<and>
     sq_run (reference_sqlite ()) (sq_block 2) st2 = Some st3 \<and>
     sq_hash (sql_now (sq_db st3)) = Some (replicate 32 2) \<and> sq_hash (sql_file (sq_db st3)) = Some (replicate 32 1)"
proof -
  obtain st1 st2 st3 where run: "sq_run (reference_sqlite ()) (sq_block 1 @ sq_aborted 2) sq_demo = Some st1"
    "Sq_RollbackTransaction (reference_sqlite ()) st1 = Some st2" "sq_run (reference_sqlite ()) (sq_block 2) st2 = Some st3"
    and seen: "sq_hash (sql_now (sq_db st3)) = Some (replicate 32 2)" "sq_hash (sql_file (sq_db st1)) = Some (replicate 32 1)"
    using sq_demo_runs(2,3) by (auto simp: map_option_case split: option.splits elim!: bind_SomeE)
  have "sql_file (sq_db st3) = sql_file (sq_db st1)"
    by (rule rollback_ends_durability [OF plain_sqlite.sqlite_storage_axioms _ _ run]) (simp_all add: sq_demo_def)
  then show ?thesis
    using run seen by auto
qed

subsection \<open>A daemon on an SQLite database\<close>


definition sq_env :: "(unit sqlite_tables sql_connection sqlite_state, unit) game_env" where
  "sq_env = \<lparr>ge_storage = SQLiteStorage (reference_sqlite ()) (Sq_SetupSchema (reference_sqlite ())), ge_logic = demo_logic,
     ge_callbacks = \<lparr>cb_Clear = Some, cb_AddPendingMove = (\<lambda>_ _ _. Some)\<rparr>, ge_sha = (\<lambda>_. replicate 32 1)\<rparr>"

definition sq_new :: "(unit sqlite_tables sql_connection sqlite_state, unit) game" where
  "sq_new = the (Game_new ''g'' ''regtest'' sq_demo None)"

definition sq_start :: "(unit sqlite_tables sql_connection sqlite_state, unit) game" where
  "sq_start = the (ReinitialiseState sq_env (demo_daemon 7) sq_new)"

lemma sq_new_eq: "Game_new ''g'' ''regtest'' sq_demo None = Some sq_new" "sq_new\<lparr>g_pruning := None\<rparr> = sq_new"
  by (simp_all add: sq_new_def Game_new_def ChainFromString_def)

lemma sq_start_eq: "ReinitialiseState sq_env (demo_daemon 7) (sq_new\<lparr>g_pruning := None\<rparr>) = Some sq_start"
proof -
  have "\<not> Option.is_none (ReinitialiseState sq_env (demo_daemon 7) sq_new)"
    by code_simp
  then show ?thesis
    by (auto simp: sq_start_def sq_new_eq(2) Option.is_none_def)
qed

lemma sq_daemon_run:
  "map_option (\<lambda>(seqs, g). sq_hash (sql_file (sq_db (wrapped (g_storage g))))) (Listen sq_env demo_messages (Map.empty, sq_start))
     = Some (FromHex (demo_hash 8))"
  by code_simp


end
