(* ===== verification/SQLite_Game.thy ===== *)
theory SQLite_Game
  imports SQLite_Storage "HOL-Library.AList" "HOL-Library.Finite_Map" "HOL-Library.Countable"
begin

text \<open>
  Games that keep their state in an SQLite database: \<open>src/xayagame/sqlitegame.cpp\<close>.

  For the daemon the state of such a game is only a keyword, \<open>initial\<close> or \<open>block\<close> with the hash of the
  block; the data is in further tables of the database of the storage.  Undo data is the changeset that
  the session extension of SQLite has recorded.  That extension is a parameter like SQLite itself; the
  locale \<open>session_documented\<close> says that an inverted changeset, applied to the tables that the changes
  have led to, restores the tables from before (as documented for tables with a primary key, which
  the tables of the library have and those of a game must have).  The code of the game (the virtual functions) is a \<open>game_prog\<close>: a sequence of
  statements on and queries of the tables of the game, of uses of the automatic IDs, and of uses of the schema
  version.  An exception that leaves such code terminates the process.

  The tables of the library are \<open>xayagame_gamevars\<close>, at most one row with a flag and a schema version
  (whose column is missing in databases of old versions), and \<open>xayagame_autoids\<close>.

  Shown: IDs are never given out twice; undoing a block restores all tables of the game and the
  automatic IDs; and data for the RPC interface is only taken from a database at the requested block.
\<close>

subsection \<open>Tables\<close>

record 'g game_tables =
  xayagame_gamevars :: "(int \<times> string option) option"
  xayagame_autoids :: "(string, int) fmap"
  own_tables :: 'g

definition no_game_tables :: "'g \<Rightarrow> 'g game_tables" where
  "no_game_tables g = \<lparr>xayagame_gamevars = None, xayagame_autoids = fmempty, own_tables = g\<rparr>"

subsection \<open>Automatic IDs\<close>

record auto_id =
  nextValue :: "64 word"
  dbValue :: "64 word"

definition EMPTY_ID :: "64 word" where "EMPTY_ID = 0"

definition AutoId_new :: "('c, 'g game_tables) sqlite_api \<Rightarrow> string \<Rightarrow> 'c \<Rightarrow> auto_id run" where
  "AutoId_new api key c =
     (let i = (case fmlookup (xayagame_autoids (select_further api c)) key of
          Some v \<Rightarrow> \<lparr>nextValue = Get_int64 v, dbValue = Get_int64 v\<rparr>
        | None \<Rightarrow> \<lparr>nextValue = 1, dbValue = EMPTY_ID\<rparr>)
      in do { CHECK (nextValue i \<noteq> EMPTY_ID); Some i })"

definition GetNext :: "auto_id \<Rightarrow> 64 word \<times> auto_id" where
  "GetNext i = (nextValue i, i\<lparr>nextValue := nextValue i + 1\<rparr>)"

definition ReserveUpTo :: "64 word \<Rightarrow> auto_id \<Rightarrow> auto_id" where
  "ReserveUpTo n i = i\<lparr>nextValue := max (nextValue i) (n + 1)\<rparr>"

definition put_autoid :: "string \<Rightarrow> int \<Rightarrow> 'g game_tables \<Rightarrow> 'g game_tables" where
  "put_autoid key v t = t\<lparr>xayagame_autoids := fmupd key v (xayagame_autoids t)\<rparr>"

definition AutoId_Sync :: "('c, 'g game_tables) sqlite_api \<Rightarrow> string \<Rightarrow> auto_id \<Rightarrow> 'c \<Rightarrow> 'c run" where
  "AutoId_Sync api key i c =
     (if nextValue i = dbValue i then Some c
      else do { v \<leftarrow> Bind_uint64 (nextValue i); Statement_Execute api (Update_further (put_autoid key v)) c })"

text \<open>The active IDs by key.  Their destruction syncs each one; the statements are for different keys, so
  their order has no effect.\<close>

type_synonym active_ids = "(string \<times> auto_id) list"

definition ActiveAutoIds_Get ::
    "('c, 'g game_tables) sqlite_api \<Rightarrow> string \<Rightarrow> 'c \<Rightarrow> active_ids \<Rightarrow> (auto_id \<times> active_ids) run" where
  "ActiveAutoIds_Get api key c ids =
     (case map_of ids key of
        Some i \<Rightarrow> Some (i, ids)
      | None \<Rightarrow> do { i \<leftarrow> AutoId_new api key c; Some (i, (key, i) # ids) })"

fun sync_ids :: "('c, 'g game_tables) sqlite_api \<Rightarrow> active_ids \<Rightarrow> 'c \<Rightarrow> 'c run" where
  "sync_ids api [] c = Some c"
| "sync_ids api ((key, i) # ids) c = do { c \<leftarrow> AutoId_Sync api key i c; sync_ids api ids c }"

subsection \<open>The code of a game\<close>

datatype 'g game_prog =
    Finish
  | Write_sql "'g \<Rightarrow> 'g" "'g game_prog"
  | Query_sql "'g \<Rightarrow> 'g game_prog"
  | Next_id string "64 word \<Rightarrow> 'g game_prog"
  | Reserve_ids string "64 word" "'g game_prog"
  | Get_version "string \<Rightarrow> 'g game_prog"
  | Set_version string "'g game_prog"
  | Raise

definition write_own :: "('g \<Rightarrow> 'g) \<Rightarrow> 'g game_tables \<Rightarrow> 'g game_tables" where
  "write_own f t = t\<lparr>own_tables := f (own_tables t)\<rparr>"

definition GetSchemaVersion :: "('c, 'g game_tables) sqlite_api \<Rightarrow> 'c \<Rightarrow> string run" where
  "GetSchemaVersion api c = do { (_, version) \<leftarrow> xayagame_gamevars (select_further api c); version }"

definition set_version :: "string \<Rightarrow> 'g game_tables \<Rightarrow> 'g game_tables" where
  "set_version version t = t\<lparr>xayagame_gamevars := map_option (\<lambda>(i, _). (i, Some version)) (xayagame_gamevars t)\<rparr>"

definition SetSchemaVersion :: "('c, 'g game_tables) sqlite_api \<Rightarrow> string \<Rightarrow> 'c \<Rightarrow> 'c run" where
  "SetSchemaVersion api version c = Statement_Execute api (Update_further (set_version version)) c"

text \<open>Running the code on a connection with active IDs (\<open>Ids\<close>).\<close>

primrec run_prog :: "('c, 'g game_tables) sqlite_api \<Rightarrow> 'g game_prog \<Rightarrow> 'c \<times> active_ids \<Rightarrow> ('c \<times> active_ids) run" where
  "run_prog api Finish = (\<lambda>s. Some s)"
| "run_prog api (Write_sql f p) = (\<lambda>(c, ids).
     do { c \<leftarrow> Statement_Execute api (Update_further (write_own f)) c; run_prog api p (c, ids) })"
| "run_prog api (Query_sql q) = (\<lambda>(c, ids). run_prog api (q (own_tables (select_further api c))) (c, ids))"
| "run_prog api (Next_id key k) = (\<lambda>(c, ids).
     do {
       (i, ids) \<leftarrow> ActiveAutoIds_Get api key c ids;
       let (v, i) = GetNext i;
       run_prog api (k v) (c, AList.update key i ids)
     })"
| "run_prog api (Reserve_ids key n p) = (\<lambda>(c, ids).
     do {
       (i, ids) \<leftarrow> ActiveAutoIds_Get api key c ids;
       run_prog api p (c, AList.update key (ReserveUpTo n i) ids)
     })"
| "run_prog api (Get_version k) = (\<lambda>(c, ids). do { v \<leftarrow> GetSchemaVersion api c; run_prog api (k v) (c, ids) })"
| "run_prog api (Set_version v p) = (\<lambda>(c, ids). do { c \<leftarrow> SetSchemaVersion api v c; run_prog api p (c, ids) })"
| "run_prog api Raise = (\<lambda>s. None)"

definition with_active_ids :: "('c, 'g game_tables) sqlite_api \<Rightarrow> 'g game_prog \<Rightarrow> 'c \<Rightarrow> 'c run" where
  "with_active_ids api p c = do { (c, ids) \<leftarrow> run_prog api p (c, []); sync_ids api ids c }"


subsection \<open>The game\<close>

text \<open>The virtual functions that a game implements.\<close>

record 'g sqlite_rules =
  gr_SetupSchema :: "'g game_prog"
  gr_InitialStateBlock :: "uint32 \<times> string"
  gr_InitialiseState :: "'g game_prog"
  gr_UpdateState :: "game_context \<Rightarrow> json \<Rightarrow> 'g game_prog"
  gr_StateAsJson :: "'g \<Rightarrow> json run"

definition INITIAL_STATE :: string where "INITIAL_STATE = ''initial''"
definition BLOCKHASH_STATE :: string where "BLOCKHASH_STATE = ''block ''"

definition create_vars :: "'g game_tables \<Rightarrow> 'g game_tables" where
  "create_vars t = t\<lparr>xayagame_gamevars := (case xayagame_gamevars t of None \<Rightarrow> Some (0, None) | Some r \<Rightarrow> Some r)\<rparr>"

definition SG_SetupSchema :: "('c, 'g game_tables) sqlite_api \<Rightarrow> 'g sqlite_rules \<Rightarrow> 'c \<Rightarrow> 'c run" where
  "SG_SetupSchema api rules c =
     do {
       c \<leftarrow> Sq_SetupSchema api c;
       c \<leftarrow> Statement_Execute api (Update_further create_vars) c;
       c \<leftarrow> (case xayagame_gamevars (select_further api c) of
           Some (_, Some _) \<Rightarrow> Some c
         | _ \<Rightarrow> Statement_Execute api (Update_further (set_version [])) c);
       with_active_ids api (gr_SetupSchema rules) c
     }"

definition IsGameInitialised :: "('c, 'g game_tables) sqlite_api \<Rightarrow> 'c \<Rightarrow> bool run" where
  "IsGameInitialised api c = do { (i, _) \<leftarrow> xayagame_gamevars (select_further api c); Get_bool i }"

definition mark_initialised :: "'g game_tables \<Rightarrow> 'g game_tables" where
  "mark_initialised t = t\<lparr>xayagame_gamevars := map_option (\<lambda>(_, v). (1, v)) (xayagame_gamevars t)\<rparr>"

text \<open>The scope of the active IDs ends after the savepoint is released.\<close>

definition InitialiseGame :: "('c, 'g game_tables) sqlite_api \<Rightarrow> 'g sqlite_rules \<Rightarrow> 'c \<Rightarrow> 'c run" where
  "InitialiseGame api rules c =
     do {
       initialised \<leftarrow> IsGameInitialised api c;
       if initialised then Some c
       else do {
         c \<leftarrow> Statement_Execute api (Savepoint ''xayagame-stateinit'') c;
         (c, ids) \<leftarrow> run_prog api (gr_InitialiseState rules) (c, []);
         c \<leftarrow> Statement_Execute api (Update_further mark_initialised) c;
         c \<leftarrow> Statement_Execute api (Release ''xayagame-stateinit'') c;
         sync_ids api ids c
       }
     }"

definition CheckCurrentState :: "('c, 'g game_tables) sqlite_api \<Rightarrow> 'g sqlite_rules \<Rightarrow> 'c \<Rightarrow> string \<Rightarrow> bool run" where
  "CheckCurrentState api rules c state =
     do {
       current \<leftarrow> Sq_GetCurrentBlockHash api c;
       (case current of
          None \<Rightarrow> Some False
        | Some hash \<Rightarrow>
            if take (length BLOCKHASH_STATE) state = BLOCKHASH_STATE then
              if ToHex hash \<noteq> drop (length BLOCKHASH_STATE) state then Some False
              else do { initialised \<leftarrow> IsGameInitialised api c; CHECK initialised; Some True }
            else do {
              CHECK (state = INITIAL_STATE);
              if ToHex hash \<noteq> snd (gr_InitialStateBlock rules) then Some False
              else do { initialised \<leftarrow> IsGameInitialised api c; CHECK initialised; Some True }
            })
     }"

definition EnsureCurrentState :: "('c, 'g game_tables) sqlite_api \<Rightarrow> 'g sqlite_rules \<Rightarrow> 'c \<Rightarrow> string \<Rightarrow> unit run" where
  "EnsureCurrentState api rules c state = do { ok \<leftarrow> CheckCurrentState api rules c state; CHECK ok }"

definition GetInitialStateInternal ::
    "('c, 'g game_tables) sqlite_api \<Rightarrow> 'g sqlite_rules \<Rightarrow> 'c \<Rightarrow> (string \<times> uint32 \<times> string \<times> 'c) run" where
  "GetInitialStateInternal api rules c =
     (let (height, hashHex) = gr_InitialStateBlock rules
      in do { c \<leftarrow> InitialiseGame api rules c; Some (INITIAL_STATE, height, hashHex, c) })"

text \<open>The session extension: what was changed on a connection since the session was created, the inverse of
  a changeset, and its application, which aborts on a conflict.\<close>

record 'c session_api =
  session_changeset :: "'c \<Rightarrow> 'c \<Rightarrow> string"
  changeset_invert :: "string \<Rightarrow> string run"
  changeset_apply :: "string \<Rightarrow> 'c \<Rightarrow> 'c run"

definition SG_ProcessForwardInternal ::
    "('c, 'g game_tables) sqlite_api \<Rightarrow> 'c session_api \<Rightarrow> 'g sqlite_rules \<Rightarrow> game_context \<Rightarrow> string \<Rightarrow> json \<Rightarrow> 'c \<Rightarrow>
     (string \<times> string \<times> 'c) run" where
  "SG_ProcessForwardInternal api se rules ctx oldState blockData c =
     do {
       EnsureCurrentState api rules c oldState;
       let session = c;
       c \<leftarrow> with_active_ids api (gr_UpdateState rules ctx blockData) c;
       let undo = session_changeset se session c;
       Some (BLOCKHASH_STATE @ asString (block_field blockData ''hash''), undo, c)
     }"

definition SG_ProcessBackwardsInternal ::
    "('c, 'g game_tables) sqlite_api \<Rightarrow> 'c session_api \<Rightarrow> 'g sqlite_rules \<Rightarrow> string \<Rightarrow> json \<Rightarrow> string \<Rightarrow> 'c \<Rightarrow>
     (string \<times> 'c) run" where
  "SG_ProcessBackwardsInternal api se rules newState blockData undo c =
     do {
       EnsureCurrentState api rules c newState;
       changeset \<leftarrow> changeset_invert se undo;
       c \<leftarrow> changeset_apply se changeset c;
       Some (BLOCKHASH_STATE @ asString (block_field blockData ''parent''), c)
     }"

definition SG_GameStateToJson :: "('c, 'g game_tables) sqlite_api \<Rightarrow> 'g sqlite_rules \<Rightarrow> string \<Rightarrow> 'c \<Rightarrow> json run" where
  "SG_GameStateToJson api rules state c =
     do { EnsureCurrentState api rules c state; gr_StateAsJson rules (own_tables (select_further api c)) }"

text \<open>The callback \<open>cb\<close> of \<open>GetCustomStateData\<close> is called with the snapshot or with the main database.  The
  snapshot is released when the function returns.\<close>

definition SG_GetCustomStateData ::
    "('c, 'g game_tables) sqlite_api \<Rightarrow> 'g sqlite_rules \<Rightarrow> bool \<Rightarrow> ('c \<Rightarrow> json run) \<Rightarrow> string \<Rightarrow> 'c sqlite_state \<Rightarrow>
     (json \<times> 'c sqlite_state) run" where
  "SG_GetCustomStateData api rules wal cb state st =
     (case GetSnapshot api wal st of
        (None, st) \<Rightarrow> do { EnsureCurrentState api rules (sq_db st) state; res \<leftarrow> cb (sq_db st); Some (res, st) }
      | (Some snapshot, st) \<Rightarrow>
          do {
            ok \<leftarrow> CheckCurrentState api rules snapshot state;
            res \<leftarrow> (if ok then cb snapshot
              else do { EnsureCurrentState api rules (sq_db st) state; cb (sq_db st) });
            st \<leftarrow> UnrefSnapshot st;
            Some (res, st)
          })"

definition AccessConfirmedState :: "('c, 'g game_tables) sqlite_api \<Rightarrow> 'g sqlite_rules \<Rightarrow> string \<Rightarrow> 'c \<Rightarrow> 'c run" where
  "AccessConfirmedState api rules confirmed c = do { EnsureCurrentState api rules c confirmed; Some c }"

text \<open>The transactions of \<open>Game::UpdateStateForAttach\<close> and \<open>Game::UpdateStateForDetach\<close> with such a game, for
  the right current block and without batches of several blocks.  Missing undo data, where the daemon starts
  over, is \<open>None\<close> here.\<close>

definition sg_attach ::
    "('c, 'g game_tables) sqlite_api \<Rightarrow> 'c session_api \<Rightarrow> 'g sqlite_rules \<Rightarrow> game_context \<Rightarrow> uint256 \<Rightarrow> json \<Rightarrow>
     'c sqlite_state \<Rightarrow> 'c sqlite_state run" where
  "sg_attach api se rules ctx hash blk st =
     do {
       oldState \<leftarrow> Sq_GetCurrentGameState api (sq_db st);
       height \<leftarrow> json_asUInt (block_field blk ''height'');
       st \<leftarrow> Sq_BeginTransaction api st;
       (newState, undo, c) \<leftarrow> SG_ProcessForwardInternal api se rules ctx oldState blk (sq_db st);
       st \<leftarrow> Sq_AddUndoData api hash height undo (st\<lparr>sq_db := c\<rparr>);
       st \<leftarrow> Sq_SetCurrentGameState api hash newState st;
       Sq_CommitTransaction api st
     }"

definition sg_detach ::
    "('c, 'g game_tables) sqlite_api \<Rightarrow> 'c session_api \<Rightarrow> 'g sqlite_rules \<Rightarrow> uint256 \<Rightarrow> uint256 \<Rightarrow> json \<Rightarrow>
     'c sqlite_state \<Rightarrow> 'c sqlite_state run" where
  "sg_detach api se rules parent hash blk st =
     do {
       r \<leftarrow> Sq_GetUndoData api hash (sq_db st);
       undo \<leftarrow> r;
       newState \<leftarrow> Sq_GetCurrentGameState api (sq_db st);
       st \<leftarrow> Sq_BeginTransaction api st;
       (oldState, c) \<leftarrow> SG_ProcessBackwardsInternal api se rules newState blk undo (sq_db st);
       height \<leftarrow> json_asUInt (block_field blk ''height'');
       CHECK (height > 0);
       st \<leftarrow> Sq_SetCurrentGameState api parent oldState (st\<lparr>sq_db := c\<rparr>);
       st \<leftarrow> Sq_ReleaseUndoData api hash st;
       Sq_CommitTransaction api st
     }"

text \<open>A branch of blocks: context, hash and data of each, in the order of the chain after block \<open>p\<close>.\<close>

type_synonym sg_branch = "(game_context \<times> uint256 \<times> json) list"

fun attach_branch ::
    "('c, 'g game_tables) sqlite_api \<Rightarrow> 'c session_api \<Rightarrow> 'g sqlite_rules \<Rightarrow> sg_branch \<Rightarrow> 'c sqlite_state \<Rightarrow> 'c sqlite_state run" where
  "attach_branch api se rules [] st = Some st"
| "attach_branch api se rules ((ctx, h, blk) # bs) st =
     do { st \<leftarrow> sg_attach api se rules ctx h blk st; attach_branch api se rules bs st }"

fun detach_branch ::
    "('c, 'g game_tables) sqlite_api \<Rightarrow> 'c session_api \<Rightarrow> 'g sqlite_rules \<Rightarrow> uint256 \<Rightarrow> sg_branch \<Rightarrow> 'c sqlite_state \<Rightarrow> 'c sqlite_state run" where
  "detach_branch api se rules p [] st = Some st"
| "detach_branch api se rules p ((ctx, h, blk) # bs) st =
     do { st \<leftarrow> detach_branch api se rules h bs st; sg_detach api se rules p h blk st }"

fun branch_ok :: "uint256 \<Rightarrow> sg_branch \<Rightarrow> bool" where
  "branch_ok p [] \<longleftrightarrow> wf_uint256 p"
| "branch_ok p ((ctx, h, blk) # bs) \<longleftrightarrow> wf_uint256 p \<and> h \<notin> (fst \<circ> snd) ` set bs \<and>
     asString (block_field blk ''hash'') = ToHex h \<and> asString (block_field blk ''parent'') = ToHex p \<and>
     (\<exists>ht. json_asUInt (block_field blk ''height'') = Some ht \<and> ht > 0) \<and> branch_ok h bs"

subsection \<open>Automatic IDs are not reused\<close>

text \<open>The uses of one \<open>AutoId\<close>, with the values that were given out.\<close>

datatype id_use = Use_next | Use_reserve "64 word"

fun use_ids :: "id_use list \<Rightarrow> auto_id \<Rightarrow> (64 word) list \<times> auto_id" where
  "use_ids [] i = ([], i)"
| "use_ids (Use_next # us) i = (let (v, i) = GetNext i; (vs, i) = use_ids us i in (v # vs, i))"
| "use_ids (Use_reserve n # us) i = use_ids us (ReserveUpTo n i)"

text \<open>No overflow: the next value never reaches the largest 64-bit number.\<close>

fun ids_fit :: "id_use list \<Rightarrow> auto_id \<Rightarrow> bool" where
  "ids_fit [] i \<longleftrightarrow> True"
| "ids_fit (Use_next # us) i \<longleftrightarrow> nextValue i \<noteq> - 1 \<and> ids_fit us (snd (GetNext i))"
| "ids_fit (Use_reserve n # us) i \<longleftrightarrow> n \<noteq> - 1 \<and> ids_fit us (ReserveUpTo n i)"

lemma word_less_inc:
  assumes "(v :: 64 word) \<noteq> - 1"
  shows "v < v + 1"
proof -
  have "1 + v \<noteq> 0"
    using assms by (simp add: add_eq_0_iff)
  then show ?thesis
    by (simp add: word_less_nat_alt unatSuc add.commute [of v])
qed

lemma use_ids_sorted:
  assumes "ids_fit us i" "use_ids us i = (vs, i')"
  shows "sorted_wrt (<) vs \<and> (\<forall>v\<in>set vs. nextValue i \<le> v \<and> v < nextValue i') \<and> nextValue i \<le> nextValue i' \<and>
    (\<forall>n. Use_reserve n \<in> set us \<longrightarrow> n < nextValue i')"
  using assms
proof (induction us i arbitrary: vs rule: use_ids.induct)
  case (2 us i)
  obtain vs1 where vs1: "vs = nextValue i # vs1" "use_ids us (snd (GetNext i)) = (vs1, i')"
    using "2.prems"(2) by (auto simp: GetNext_def split: prod.splits)
  have lt: "nextValue i < nextValue (snd (GetNext i))"
    using "2.prems"(1) by (simp add: GetNext_def word_less_inc)
  have "ids_fit us (snd (GetNext i))"
    using "2.prems"(1) by simp
  note IH = "2.IH" [OF refl _ this vs1(2)]
  then show ?case
    using vs1 lt "2.prems"(1) by (auto simp: GetNext_def dest: order_less_le_trans)
next
  case (3 n us i)
  have "n < nextValue (ReserveUpTo n i)" "nextValue i \<le> nextValue (ReserveUpTo n i)"
    using "3.prems"(1) word_less_inc [of n] by (auto simp: ReserveUpTo_def less_max_iff_disj)
  then show ?case
    using 3 by (auto dest: order_less_le_trans order_trans)
qed simp

lemma use_ids_db: "use_ids us i = (vs, i') \<Longrightarrow> dbValue i' = dbValue i"
  by (induction us i arbitrary: vs rule: use_ids.induct) (auto simp: GetNext_def ReserveUpTo_def split: prod.splits)

text \<open>C34. Automatic IDs are not given out twice: an \<open>AutoId\<close> is opened, used, and closed, on a database in which
  nothing else changes its row.  Unless 64 bits overflow, the values that were given out are increasing,
  and the next \<open>AutoId\<close> of the same name can be opened and starts above all of them and above all
  reserved values.\<close>

theorem auto_ids_unique:
  assumes "sqlite_documented api conn no_tables"
    and new: "AutoId_new api key c = Some i" and used: "ids_fit us i" "use_ids us i = (vs, i')"
    and same: "fmlookup (xayagame_autoids (select_further api c1)) key = fmlookup (xayagame_autoids (select_further api c)) key"
    and sync: "AutoId_Sync api key i' c1 = Some c2"
  shows "\<exists>i2. AutoId_new api key c2 = Some i2 \<and> sorted_wrt (<) vs \<and>
    (\<forall>v\<in>set vs. nextValue i \<le> v \<and> v < nextValue i2) \<and> (\<forall>n. Use_reserve n \<in> set us \<longrightarrow> n < nextValue i2)"
proof -
  note ids = use_ids_sorted [OF used]
  have pos: "nextValue i \<noteq> 0" "nextValue i' \<noteq> 0"
    using new ids by (auto simp: AutoId_new_def EMPTY_ID_def Let_def bind_CHECK split: option.splits if_splits)
  have "\<exists>i2. AutoId_new api key c2 = Some i2 \<and> nextValue i2 = nextValue i'"
  proof (cases "nextValue i' = dbValue i'")
    case True
    then show ?thesis
      using new same sync pos use_ids_db [OF used(2)]
      by (auto simp: AutoId_Sync_def AutoId_new_def EMPTY_ID_def Let_def bind_CHECK split: option.splits if_splits)
  next
    case False
    then have b: "uint (nextValue i') < 2 ^ 63" "Statement_Execute api (Update_further (put_autoid key (uint (nextValue i')))) c1 = Some c2"
      using sync by (auto simp: AutoId_Sync_def Bind_uint64_eq split: if_splits)
    then have "conn c2 = sql_write (table_effect (Update_further (put_autoid key (uint (nextValue i'))))) (conn c1)"
      using sqlite_documented.execute_meaning [OF assms(1), of "Update_further (put_autoid key (uint (nextValue i')))" c1] by simp
    then show ?thesis
      using pos by (simp add: AutoId_new_def sqlite_documented.further_law [OF assms(1)] put_autoid_def Get_int64_def EMPTY_ID_def bind_CHECK Let_def)
  qed
  then show ?thesis
    using ids by auto
qed


subsection \<open>What the code of a game may do\<close>

text \<open>It changes further tables only, and not the flag that the game is initialised.\<close>

definition init_flag :: "'g game_tables \<Rightarrow> int option" where
  "init_flag t = map_option fst (xayagame_gamevars t)"

definition only_game :: "('g game_tables \<Rightarrow> 'g game_tables) \<Rightarrow> bool" where
  "only_game f \<longleftrightarrow> (\<forall>t. init_flag (f t) = init_flag t)"

lemma only_game_simps [simp]: "only_game (write_own f)" "only_game (put_autoid key n)" "only_game (set_version v)"
  by (auto simp: only_game_def init_flag_def write_own_def put_autoid_def set_version_def option.map_comp comp_def case_prod_beta)

definition touched :: "'g game_tables sqlite_tables sql_connection \<Rightarrow> 'g game_tables sqlite_tables sql_connection \<Rightarrow> bool" where
  "touched c c' \<longleftrightarrow> c' = c \<or> (\<exists>f. c' = sql_write (table_effect (Update_further f)) c \<and> only_game f)"

lemma sql_write_twice:
  "sql_write (table_effect (Update_further f)) (sql_write (table_effect (Update_further g)) c) =
     sql_write (table_effect (Update_further (f \<circ> g))) c"
  by (simp add: sql_write_def Let_def)

lemma touched_trans: "touched a b \<Longrightarrow> touched b c \<Longrightarrow> touched a c"
  unfolding touched_def by (auto simp: sql_write_twice only_game_def)

lemma touched_refl [simp]: "touched c c"
  by (simp add: touched_def)

lemma touchedI: "only_game f \<Longrightarrow> touched c (sql_write (table_effect (Update_further f)) c)"
  by (auto simp: touched_def)

lemma touched_tables:
  assumes "touched c c'"
  shows "sql_now c' = (sql_now c)\<lparr>further_tables := further_tables (sql_now c')\<rparr>"
    "init_flag (further_tables (sql_now c')) = init_flag (further_tables (sql_now c))"
  using assms by (auto simp: touched_def only_game_def)

locale session_documented = sqlite_documented api conn no_tables
  for api :: "('c, 'g game_tables) sqlite_api" and conn :: "'c \<Rightarrow> 'g game_tables sqlite_tables sql_connection"
    and no_tables :: "'g game_tables" +
  fixes se :: "'c session_api"
  assumes session_law: "touched (conn c0) (conn c1) \<Longrightarrow>
      further_tables (sql_now (conn c2)) = further_tables (sql_now (conn c1)) \<Longrightarrow>
      \<exists>inv c3. changeset_invert se (session_changeset se c0 c1) = Some inv \<and> changeset_apply se inv c2 = Some c3 \<and>
        conn c3 = sql_write (table_effect (Update_further (\<lambda>_. further_tables (sql_now (conn c0))))) (conn c2)"
begin

lemma execute_touched:
  assumes "Statement_Execute api (Update_further f) c = Some c'" "only_game f"
  shows "touched (conn c) (conn c')"
  using execute_meaning [of "Update_further f" c] assms touchedI by auto

lemma sync_touched: "sync_ids api ids c = Some c' \<Longrightarrow> touched (conn c) (conn c')"
proof (induction ids arbitrary: c)
  case (Cons ki ids)
  obtain key i where ki: "ki = (key, i)"
    by (cases ki)
  obtain c1 where "AutoId_Sync api key i c = Some c1" "sync_ids api ids c1 = Some c'"
    using Cons.prems ki by (auto elim!: bind_SomeE)
  moreover from this have "touched (conn c) (conn c1)"
    by (auto simp: AutoId_Sync_def split: if_splits elim!: bind_SomeE dest: execute_touched)
  ultimately show ?case
    using Cons.IH touched_trans by blast
qed simp

lemma run_touched: "run_prog api p (c, ids) = Some (c', ids') \<Longrightarrow> touched (conn c) (conn c')"
proof (induction p arbitrary: c ids)
  case (Write_sql f p)
  then show ?case
    by (auto elim!: bind_SomeE dest!: execute_touched intro: touched_trans)
next
  case (Set_version v p)
  then show ?case
    by (auto simp: SetSchemaVersion_def elim!: bind_SomeE dest!: execute_touched intro: touched_trans)
next
  case (Query_sql q)
  then show ?case
    using Query_sql.IH [OF rangeI] by simp
next
  case (Next_id key k)
  show ?case
    using Next_id.prems by (auto elim!: bind_SomeE split: prod.splits intro: Next_id.IH [OF rangeI])
next
  case (Get_version k)
  show ?case
    using Get_version.prems by (auto elim!: bind_SomeE intro: Get_version.IH [OF rangeI])
next
  case (Reserve_ids key n p)
  show ?case
    using Reserve_ids.prems by (auto elim!: bind_SomeE intro: Reserve_ids.IH)
qed simp_all

lemma with_ids_touched: "with_active_ids api p c = Some c' \<Longrightarrow> touched (conn c) (conn c')"
  by (auto simp: with_active_ids_def elim!: bind_SomeE dest!: run_touched sync_touched intro: touched_trans)

lemma check_means:
  assumes "CheckCurrentState api rules c state = Some True"
  shows "IsGameInitialised api c = Some True"
  using assms by (auto simp: CheckCurrentState_def split: option.splits if_splits elim!: bind_SomeE)

lemma initialised_flag: "IsGameInitialised api c = do { i \<leftarrow> init_flag (further_tables (sql_now (conn c))); Get_bool i }"
  by (cases "xayagame_gamevars (further_tables (sql_now (conn c)))")
    (auto simp: IsGameInitialised_def further_law init_flag_def split: prod.splits)

lemma undo_block:
  assumes fw: "SG_ProcessForwardInternal api se rules ctx old blk c0 = Some (new, undo, c1)"
    and c2: "further_tables (sql_now (conn c2)) = further_tables (sql_now (conn c1))"
      "Sq_GetCurrentBlockHash api c2 = Some (Some h)" "asString (block_field blk ''hash'') = ToHex h"
  shows "\<exists>c3. SG_ProcessBackwardsInternal api se rules new blk undo c2 =
      Some (BLOCKHASH_STATE @ asString (block_field blk ''parent''), c3) \<and>
    conn c3 = sql_write (table_effect (Update_further (\<lambda>_. further_tables (sql_now (conn c0))))) (conn c2)"
proof -
  have ini: "IsGameInitialised api c0 = Some True" and touched: "touched (conn c0) (conn c1)"
    and undo: "undo = session_changeset se c0 c1" and new: "new = BLOCKHASH_STATE @ ToHex h"
    using fw c2(3) by (auto simp: SG_ProcessForwardInternal_def EnsureCurrentState_def elim!: bind_SomeE dest: check_means with_ids_touched)
  have "IsGameInitialised api c2 = Some True"
    using ini touched_tables(2) [OF touched] c2(1) by (simp add: initialised_flag)
  then have "EnsureCurrentState api rules c2 new = Some ()"
    by (simp add: EnsureCurrentState_def CheckCurrentState_def c2(2) new)
  then show ?thesis
    using session_law [OF touched c2(1)] by (auto simp: SG_ProcessBackwardsInternal_def undo)
qed

lemma commit_top:
  assumes "sq_startedTransaction st" "sql_stack (conn (sq_db st)) = (''xayagame-sqlitegame'', t) # rest"
  shows "\<exists>st'. Sq_CommitTransaction api st = Some st' \<and> db_now st' = db_now st \<and> \<not> sq_startedTransaction st'"
proof -
  have "from_savepoint ''xayagame-sqlitegame'' (conn (sq_db st)) = (''xayagame-sqlitegame'', t) # rest"
    using assms(2) by (simp add: from_savepoint_def)
  then show ?thesis
    by (rule commit_step [OF assms(1)]) auto
qed

lemma write_runs:
  assumes "writes f op" "sq_startedTransaction st" "sql_stack (conn (sq_db st)) \<noteq> []"
  obtains c where "op st = Some (st\<lparr>sq_db := c\<rparr>)" "conn c = sql_write f (conn (sq_db st))"
  using assms unfolding writes_def by blast

lemma attach_effect:
  assumes run: "sg_attach api se rules ctx h blk st = Some st'"
  obtains old new undo c0 c1 ht where "SG_ProcessForwardInternal api se rules ctx old blk c0 = Some (new, undo, c1)"
    "sql_now (conn c0) = db_now st" "\<not> sq_startedTransaction st'"
    "db_now st' = set_current h new (table_effect (Insert_undo (Bind_uint256 h) undo (uint (ht :: uint32))) (sql_now (conn c1)))"
proof -
  obtain old ht st1 new undo c1 st2 st3 where 1: "Sq_BeginTransaction api st = Some st1"
    and fw: "SG_ProcessForwardInternal api se rules ctx old blk (sq_db st1) = Some (new, undo, c1)"
    and 2: "Sq_AddUndoData api h ht undo (st1\<lparr>sq_db := c1\<rparr>) = Some st2"
    and 3: "Sq_SetCurrentGameState api h new st2 = Some st3" and 4: "Sq_CommitTransaction api st3 = Some st'"
    using run by (auto simp: sg_attach_def elim!: bind_SomeE)
  have "\<not> sq_startedTransaction st"
    using 1 by (auto simp: Sq_BeginTransaction_def elim!: bind_SomeE)
  then obtain c0 where c0: "st1 = st\<lparr>sq_db := c0, sq_startedTransaction := True\<rparr>"
    "conn c0 = SAVEPOINT ''xayagame-sqlitegame'' (conn (sq_db st))"
    using begin_step [of st] 1 by auto
  have "touched (conn c0) (conn c1)"
    using fw c0(1) by (auto simp: SG_ProcessForwardInternal_def elim!: bind_SomeE dest: with_ids_touched)
  then have stack1: "sql_stack (conn c1) = (''xayagame-sqlitegame'', db_now st) # sql_stack (conn (sq_db st))"
    using c0(2) by (auto simp: touched_def)
  obtain c2 where c2: "st2 = st1\<lparr>sq_db := c2\<rparr>"
    "conn c2 = sql_write (table_effect (Insert_undo (Bind_uint256 h) undo (uint ht))) (conn c1)"
    by (rule write_runs [OF writes_undo(1) [of h undo ht], of "st1\<lparr>sq_db := c1\<rparr>"]) (use 2 stack1 c0(1) in auto)
  obtain c3 where c3: "st3 = st2\<lparr>sq_db := c3\<rparr>" "conn c3 = sql_write (set_current h new) (conn c2)"
    by (rule write_runs [OF writes_current [of h new], of st2]) (use 3 stack1 c0(1) c2 in auto)
  have "db_now st' = sql_now (conn c3) \<and> \<not> sq_startedTransaction st'"
    using commit_top [of st3] 4 stack1 c0(1) c2 c3 by auto
  then show thesis
    using that [OF fw, of ht] c0 c2(2) c3(2) by simp
qed

lemma detach_effect:
  assumes closed: "\<not> sq_startedTransaction st"
    and undo: "xayagame_undo (db_now st) (Bind_uint256 h) = Some (undo, k)"
    and state: "xayagame_current (db_now st) ''gamestate'' = Some new"
    and height: "json_asUInt (block_field blk ''height'') = Some ht" "ht > 0"
    and bw: "\<And>c. conn c = SAVEPOINT ''xayagame-sqlitegame'' (conn (sq_db st)) \<Longrightarrow>
      \<exists>c3. SG_ProcessBackwardsInternal api se rules new blk undo c = Some (s0, c3) \<and>
        conn c3 = sql_write (table_effect (Update_further (\<lambda>_. d))) (conn c)"
  shows "\<exists>st'. sg_detach api se rules p h blk st = Some st' \<and> \<not> sq_startedTransaction st' \<and>
    db_now st' = table_effect (Delete_undo (Bind_uint256 h)) (set_current p s0 ((db_now st)\<lparr>further_tables := d\<rparr>))"
proof -
  have reads: "Sq_GetUndoData api h (sq_db st) = Some (Some undo)" "Sq_GetCurrentGameState api (sq_db st) = Some new"
    using undo state by (simp_all add: Sq_GetUndoData_def Sq_GetCurrentGameState_def undo_law current_law option_rows_def)
  define st1 where "st1 = st\<lparr>sq_startedTransaction := True\<rparr>"
  have eq: "st\<lparr>sq_db := c, sq_startedTransaction := True\<rparr> = st1\<lparr>sq_db := c\<rparr>" for c
    by (cases st) (simp add: st1_def)
  obtain c0 where c0: "Sq_BeginTransaction api st = Some (st1\<lparr>sq_db := c0\<rparr>)"
    "conn c0 = SAVEPOINT ''xayagame-sqlitegame'' (conn (sq_db st))"
    by (rule begin_step [OF closed]) (simp add: eq)
  obtain c1 where c1: "SG_ProcessBackwardsInternal api se rules new blk undo c0 = Some (s0, c1)"
    "conn c1 = sql_write (table_effect (Update_further (\<lambda>_. d))) (conn c0)"
    using bw [OF c0(2)] by blast
  have stack1: "sql_stack (conn c1) = (''xayagame-sqlitegame'', db_now st) # sql_stack (conn (sq_db st))"
    by (simp add: c1(2) c0(2))
  obtain c2 where c2: "Sq_SetCurrentGameState api p s0 (st1\<lparr>sq_db := c1\<rparr>) = Some (st1\<lparr>sq_db := c2\<rparr>)"
    "conn c2 = sql_write (set_current p s0) (conn c1)"
    by (rule write_runs [OF writes_current [of p s0], of "st1\<lparr>sq_db := c1\<rparr>"]) (use stack1 st1_def in auto)
  obtain c3 where c3: "Sq_ReleaseUndoData api h (st1\<lparr>sq_db := c2\<rparr>) = Some (st1\<lparr>sq_db := c3\<rparr>)"
    "conn c3 = sql_write (table_effect (Delete_undo (Bind_uint256 h))) (conn c2)"
    by (rule write_runs [OF writes_undo(2) [of h], of "st1\<lparr>sq_db := c2\<rparr>"]) (use stack1 st1_def c2(2) in auto)
  obtain st' where "Sq_CommitTransaction api (st1\<lparr>sq_db := c3\<rparr>) = Some st'"
    "db_now st' = sql_now (conn c3)" "\<not> sq_startedTransaction st'"
    using commit_top [of "st1\<lparr>sq_db := c3\<rparr>"] stack1 st1_def c2(2) c3(2) by auto
  then show ?thesis
    using reads c0 c1 c2 c3 height by (auto simp: sg_detach_def bind_CHECK)
qed

lemma attach_runs:
  assumes closed: "\<not> sq_startedTransaction st"
    and state: "xayagame_current (db_now st) ''gamestate'' = Some old"
    and height: "json_asUInt (block_field blk ''height'') = Some ht"
    and fw: "\<And>c. conn c = SAVEPOINT ''xayagame-sqlitegame'' (conn (sq_db st)) \<Longrightarrow>
      \<exists>new undo c1. SG_ProcessForwardInternal api se rules ctx old blk c = Some (new, undo, c1) \<and> Q (further_tables (sql_now (conn c1)))"
  shows "\<exists>st'. sg_attach api se rules ctx h blk st = Some st' \<and> Q (further_tables (db_now st'))"
proof -
  have read: "Sq_GetCurrentGameState api (sq_db st) = Some old"
    using state by (simp add: Sq_GetCurrentGameState_def current_law option_rows_def)
  obtain c0 where c0: "Sq_BeginTransaction api st = Some (st\<lparr>sq_db := c0, sq_startedTransaction := True\<rparr>)"
    "conn c0 = SAVEPOINT ''xayagame-sqlitegame'' (conn (sq_db st))"
    by (rule begin_step [OF closed])
  obtain new undo c1 where c1: "SG_ProcessForwardInternal api se rules ctx old blk c0 = Some (new, undo, c1)"
    "Q (further_tables (sql_now (conn c1)))"
    using fw [OF c0(2)] by blast
  define st1 where "st1 = st\<lparr>sq_startedTransaction := True, sq_db := c1\<rparr>"
  have "touched (conn c0) (conn c1)"
    using c1(1) by (auto simp: SG_ProcessForwardInternal_def elim!: bind_SomeE dest: with_ids_touched)
  then have stack1: "sql_stack (conn (sq_db st1)) = (''xayagame-sqlitegame'', db_now st) # sql_stack (conn (sq_db st))"
    "sq_startedTransaction st1"
    using c0(2) by (auto simp: touched_def st1_def)
  obtain c2 where c2: "Sq_AddUndoData api h ht undo st1 = Some (st1\<lparr>sq_db := c2\<rparr>)"
    "conn c2 = sql_write (table_effect (Insert_undo (Bind_uint256 h) undo (uint ht))) (conn (sq_db st1))"
    by (rule write_runs [OF writes_undo(1) [of h undo ht], of st1]) (use stack1 in auto)
  obtain c3 where c3: "Sq_SetCurrentGameState api h new (st1\<lparr>sq_db := c2\<rparr>) = Some (st1\<lparr>sq_db := c3\<rparr>)"
    "conn c3 = sql_write (set_current h new) (conn c2)"
    by (rule write_runs [OF writes_current [of h new], of "st1\<lparr>sq_db := c2\<rparr>"]) (use stack1 c2(2) in auto)
  obtain st' where "Sq_CommitTransaction api (st1\<lparr>sq_db := c3\<rparr>) = Some st'" "db_now st' = sql_now (conn c3)"
    using commit_top [of "st1\<lparr>sq_db := c3\<rparr>"] stack1 c2(2) c3(2) by auto
  moreover have "sql_now (conn c1) = db_now st1"
    by (simp add: st1_def)
  ultimately show ?thesis
    using read c0 c1 c2 c3 height by (simp add: sg_attach_def st1_def [symmetric] set_current_def)
qed

lemma attach_detach:
  assumes ok: "branch_ok p ((ctx, h, blk) # bs)" and att: "sg_attach api se rules ctx h blk st = Some st1"
    and st2: "\<not> sq_startedTransaction st2" "further_tables (db_now st2) = further_tables (db_now st1)"
      "xayagame_current (db_now st2) = xayagame_current (db_now st1)"
      "xayagame_undo (db_now st2) (Bind_uint256 h) = xayagame_undo (db_now st1) (Bind_uint256 h)"
  shows "\<exists>st3. sg_detach api se rules p h blk st2 = Some st3 \<and> \<not> sq_startedTransaction st3 \<and>
    db_now st3 = table_effect (Delete_undo (Bind_uint256 h)) (set_current p (BLOCKHASH_STATE @ ToHex p)
      ((db_now st2)\<lparr>further_tables := further_tables (db_now st)\<rparr>))"
proof -
  have h: "wf_uint256 h" "asString (block_field blk ''hash'') = ToHex h" "asString (block_field blk ''parent'') = ToHex p"
    using ok by (cases bs; auto)+
  obtain hb where hb: "json_asUInt (block_field blk ''height'') = Some hb" "hb > 0"
    using ok by auto
  obtain old new undo c0 c1 ht where fw: "SG_ProcessForwardInternal api se rules ctx old blk c0 = Some (new, undo, c1)"
    and c0: "sql_now (conn c0) = db_now st" and st1:
      "db_now st1 = set_current h new (table_effect (Insert_undo (Bind_uint256 h) undo (uint (ht :: uint32))) (sql_now (conn c1)))"
    by (rule attach_effect [OF att])
  have rows: "xayagame_current (db_now st2) ''gamestate'' = Some new"
    "xayagame_current (db_now st2) ''blockhash'' = Some (Bind_uint256 h)"
    "xayagame_undo (db_now st2) (Bind_uint256 h) = Some (undo, uint ht)"
    "further_tables (db_now st2) = further_tables (sql_now (conn c1))"
    using st2 by (simp_all add: st1 set_current_def)
  show ?thesis
  proof (rule detach_effect [OF st2(1) rows(3,1) hb])
    fix c
    assume c: "conn c = SAVEPOINT ''xayagame-sqlitegame'' (conn (sq_db st2))"
    have "Sq_GetCurrentBlockHash api c = Some (Some h)"
      using rows(2) h(1) by (simp add: Sq_GetCurrentBlockHash_def current_law c option_rows_def Get_uint256_def FromBlob_def
          bind_CHECK Bind_uint256_def GetBinaryString_def wf_uint256_def)
    then show "\<exists>c3. SG_ProcessBackwardsInternal api se rules new blk undo c = Some (BLOCKHASH_STATE @ ToHex p, c3) \<and>
        conn c3 = sql_write (table_effect (Update_further (\<lambda>_. further_tables (db_now st)))) (conn c)"
      using undo_block [OF fw, of c h] rows(4) h(2,3) c c0 by simp
  qed
qed

lemma branch_undone:
  assumes "branch_ok p bs" "\<not> sq_startedTransaction st" "attach_branch api se rules bs st = Some st1"
  shows "\<exists>st2. detach_branch api se rules p bs st1 = Some st2 \<and> \<not> sq_startedTransaction st2 \<and>
    further_tables (db_now st2) = further_tables (db_now st) \<and>
    xayagame_current (db_now st2) = (if bs = [] then xayagame_current (db_now st)
      else (xayagame_current (db_now st))(''blockhash'' \<mapsto> Bind_uint256 p, ''gamestate'' \<mapsto> BLOCKHASH_STATE @ ToHex p)) \<and>
    (\<forall>h. h \<notin> (fst \<circ> snd) ` set bs \<longrightarrow> xayagame_undo (db_now st2) (Bind_uint256 h) = xayagame_undo (db_now st) (Bind_uint256 h))"
  using assms
proof (induction bs arbitrary: p st)
  case (Cons b bs)
  obtain ctx h blk where b: "b = (ctx, h, blk)"
    by (cases b)
  obtain sta where att: "sg_attach api se rules ctx h blk st = Some sta" and rest: "attach_branch api se rules bs sta = Some st1"
    using Cons.prems(3) b by (auto elim!: bind_SomeE)
  have ok: "branch_ok p ((ctx, h, blk) # bs)" "branch_ok h bs" "h \<notin> (fst \<circ> snd) ` set bs" and hash: "asString (block_field blk ''hash'') = ToHex h"
    using Cons.prems(1) b by auto
  obtain old new undo c0 c1 ht where fw: "SG_ProcessForwardInternal api se rules ctx old blk c0 = Some (new, undo, c1)"
    and c0: "sql_now (conn c0) = db_now st" "\<not> sq_startedTransaction sta" and sta:
      "db_now sta = set_current h new (table_effect (Insert_undo (Bind_uint256 h) undo (uint (ht :: uint32))) (sql_now (conn c1)))"
    by (rule attach_effect [OF att])
  have new: "new = BLOCKHASH_STATE @ ToHex h" and touched: "touched (conn c0) (conn c1)"
    using fw hash by (auto simp: SG_ProcessForwardInternal_def elim!: bind_SomeE dest: with_ids_touched)
  note old_rows = touched_tables(1) [OF touched, unfolded c0(1)]
  have cur: "(xayagame_current (db_now sta))(''blockhash'' \<mapsto> Bind_uint256 h, ''gamestate'' \<mapsto> BLOCKHASH_STATE @ ToHex h) =
      xayagame_current (db_now sta)"
    unfolding sta new set_current_def by (simp add: fun_upd_twist)
  obtain stb where stb: "detach_branch api se rules h bs st1 = Some stb" "\<not> sq_startedTransaction stb"
    "further_tables (db_now stb) = further_tables (db_now sta)" "xayagame_current (db_now stb) = xayagame_current (db_now sta)"
    "\<forall>k. k \<notin> (fst \<circ> snd) ` set bs \<longrightarrow> xayagame_undo (db_now stb) (Bind_uint256 k) = xayagame_undo (db_now sta) (Bind_uint256 k)"
    using Cons.IH [OF ok(2) c0(2) rest] unfolding cur if_cancel by blast
  obtain st3 where "sg_detach api se rules p h blk stb = Some st3" "\<not> sq_startedTransaction st3"
    and st3: "db_now st3 = table_effect (Delete_undo (Bind_uint256 h)) (set_current p (BLOCKHASH_STATE @ ToHex p)
      ((db_now stb)\<lparr>further_tables := further_tables (db_now st)\<rparr>))"
    using attach_detach [OF ok(1) att stb(2,3,4)] stb(5) ok(3) by blast
  moreover have "xayagame_current (db_now st3) = (xayagame_current (db_now st))(''blockhash'' \<mapsto> Bind_uint256 p, ''gamestate'' \<mapsto> BLOCKHASH_STATE @ ToHex p)"
    by (subst st3, simp add: set_current_def stb(4) sta, subst old_rows, simp add: fun_eq_iff)
  moreover have "xayagame_undo (db_now st3) (Bind_uint256 k) = xayagame_undo (db_now st) (Bind_uint256 k)"
    if "k \<noteq> h" "k \<notin> (fst \<circ> snd) ` set bs" for k
    using that stb(5) by (simp add: st3 set_current_def sta, subst old_rows) simp
  moreover have "further_tables (db_now st3) = further_tables (db_now st)"
    by (simp add: st3 set_current_def)
  ultimately show ?case
    by (intro exI [of _ st3] conjI) (simp_all add: stb(1) b del: fun_upd_apply)
qed simp

lemma schema_kept:
  assumes "\<And>c. with_active_ids api (gr_SetupSchema rules) c \<noteq> None"
  shows "sqlite_storage api conn no_tables (SG_SetupSchema api rules)"
proof unfold_locales
  fix c
  obtain c1 where 1: "Sq_SetupSchema api c = Some c1" "conn c1 = sql_write (table_effect (Update_further (\<lambda>d. d))) (conn c)"
    using execute_ex [of Create_tables c] by (auto simp: Sq_SetupSchema_def sql_write_def)
  obtain c2 where 2: "Statement_Execute api (Update_further create_vars) c1 = Some c2"
    "conn c2 = sql_write (table_effect (Update_further create_vars)) (conn c1)"
    using execute_ex [of "Update_further create_vars" c1] by auto
  obtain c3 where 3: "Statement_Execute api (Update_further (set_version [])) c2 = Some c3" "touched (conn c2) (conn c3)"
    using execute_ex [of "Update_further (set_version [])" c2] execute_touched by fastforce
  obtain c4 where 4: "SG_SetupSchema api rules c = Some c4" "touched (conn c2) (conn c4)"
    using assms 1(1) 2(1) 3 by (fastforce simp: SG_SetupSchema_def dest: with_ids_touched intro: touched_trans split: option.splits)
  then show "\<exists>c' f. SG_SetupSchema api rules c = Some c' \<and> conn c' = sql_write (table_effect (Update_further f)) (conn c)"
    using 1(2) 2(2) by (auto simp: touched_def sql_write_twice)
qed

end


subsection \<open>Data for the RPC interface\<close>

lemma check_block:
  assumes "CheckCurrentState api rules c (BLOCKHASH_STATE @ ToHex h) = Some True"
  shows "Sq_GetCurrentBlockHash api c = Some (Some h)" "IsGameInitialised api c = Some True"
  using assms by (auto simp: CheckCurrentState_def split: option.splits if_splits elim!: bind_SomeE dest: ToHex_inject)

text \<open>Data for the RPC interface belongs to the requested block: if \<open>GetCustomStateData\<close> returns for the state of
  block \<open>h\<close>, then its result was computed by the callback from a database, the snapshot or the main
  one, whose current block is \<open>h\<close> and whose game is initialised, and the snapshot has been released.\<close>

theorem custom_data_current:
  assumes "SG_GetCustomStateData api rules wal cb (BLOCKHASH_STATE @ ToHex h) st = Some (res, st')"
  shows "st' = st \<and> (\<exists>c\<in>{sq_db st, sqlite_snapshot api (sq_db st)}. cb c = Some res \<and>
    Sq_GetCurrentBlockHash api c = Some (Some h) \<and> IsGameInitialised api c = Some True)"
  using assms check_block [of api rules "sq_db st" h] check_block [of api rules "sqlite_snapshot api (sq_db st)" h]
  by (auto simp: SG_GetCustomStateData_def GetSnapshot_def UnrefSnapshot_def EnsureCurrentState_def
      split: if_splits elim!: bind_SomeE)

subsection \<open>A session extension, and an example\<close>

text \<open>A changeset that holds the old contents of all further tables, as a string.\<close>

definition tables_code :: "'g :: countable game_tables \<Rightarrow> string" where
  "tables_code t = replicate (to_nat (xayagame_gamevars t, xayagame_autoids t, own_tables t)) CHR ''x''"

definition tables_of_code :: "string \<Rightarrow> 'g :: countable game_tables" where
  "tables_of_code s = (case from_nat (length s) of (v, a, g) \<Rightarrow> \<lparr>xayagame_gamevars = v, xayagame_autoids = a, own_tables = g\<rparr>)"

declare tables_code_def [code del]

definition reference_session :: "'g :: countable game_tables sqlite_tables sql_connection session_api" where
  "reference_session =
     \<lparr>session_changeset = (\<lambda>c0 c1. tables_code (further_tables (sql_now c0))),
      changeset_invert = Some,
      changeset_apply = (\<lambda>s c. Some (sql_write (table_effect (Update_further (\<lambda>_. tables_of_code s))) c))\<rparr>"

lemma tables_of_code [simp]: "tables_of_code (tables_code t) = t"
  by (simp add: tables_of_code_def tables_code_def)

interpretation recorded: session_documented "reference_sqlite d" "\<lambda>c. c" d reference_session for d :: "'g :: countable game_tables"
  by unfold_locales (simp add: reference_session_def)

text \<open>A game that counts blocks and uses an ID for each.\<close>

definition counter_rules :: "nat sqlite_rules" where
  "counter_rules = \<lparr>gr_SetupSchema = Finish, gr_InitialStateBlock = (6, demo_hash 7), gr_InitialiseState = Write_sql (\<lambda>_. 0) Finish,
     gr_UpdateState = (\<lambda>ctx blk. Next_id ''block'' (\<lambda>v. Write_sql Suc Finish)), gr_StateAsJson = (\<lambda>n. Some (JInt (int n)))\<rparr>"

abbreviation counter_api :: "(nat game_tables sqlite_tables sql_connection, nat game_tables) sqlite_api" where
  "counter_api \<equiv> reference_sqlite (no_game_tables 0)"

interpretation counter: sqlite_storage counter_api "\<lambda>c. c" "no_game_tables 0" "SG_SetupSchema counter_api counter_rules"
  by (rule recorded.schema_kept) (simp add: with_active_ids_def counter_rules_def)

definition counter_genesis :: "nat game_tables sqlite_tables sql_connection sqlite_state" where
  "counter_genesis = the (do {
     c \<leftarrow> SG_SetupSchema counter_api counter_rules (sql_open (empty_tables (no_game_tables 0)));
     (s, ht, hash, c) \<leftarrow> GetInitialStateInternal counter_api counter_rules c;
     h \<leftarrow> FromHex hash;
     st \<leftarrow> Sq_BeginTransaction counter_api \<lparr>sq_db = c, sq_startedTransaction = False, sq_snapshots = 0\<rparr>;
     st \<leftarrow> Sq_SetCurrentGameState counter_api h s st;
     Sq_CommitTransaction counter_api st })"

definition counter_context :: game_context where
  "counter_context = Context_new \<lparr>pc_chain = REGTEST, pc_gameId = ''g''\<rparr> (replicate 32 1)"

definition counter_branch :: sg_branch where
  "counter_branch = [(counter_context, replicate 31 0 @ [8], demo_block 7 8 [])]"

lemma counter_start:
  "\<not> sq_startedTransaction counter_genesis" "own_tables (further_tables (sql_now (sq_db counter_genesis))) = 0"
  "xayagame_current (sql_now (sq_db counter_genesis)) ''gamestate'' = Some INITIAL_STATE"
  "json_asUInt (block_field (demo_block 7 8 []) ''height'') = Some 1"
  by code_simp+

lemma counter_forward:
  "map_option (\<lambda>(new, undo, c1). own_tables (further_tables (sql_now c1)))
     (SG_ProcessForwardInternal counter_api reference_session counter_rules counter_context INITIAL_STATE (demo_block 7 8 [])
       (SAVEPOINT ''xayagame-sqlitegame'' (sq_db counter_genesis))) = Some 1"
  by code_simp

lemma counter_branch_ok: "branch_ok (replicate 31 0 @ [7]) counter_branch"
proof -
  have "asString (block_field (demo_block 7 8 []) ''hash'') = ToHex (replicate 31 0 @ [8])"
    "asString (block_field (demo_block 7 8 []) ''parent'') = ToHex (replicate 31 0 @ [7])"
    by code_simp+
  then show ?thesis
    using counter_start(4) by (simp add: counter_branch_def wf_uint256_def NUM_BYTES_def)
qed


text \<open>Two values are given out and one more is reserved; the next \<open>AutoId\<close> starts after them.\<close>

theorem auto_ids_unique_witness:
  "\<exists>c2 i2. AutoId_Sync counter_api ''block'' \<lparr>nextValue = 6, dbValue = 0\<rparr> (sq_db counter_genesis) = Some c2 \<and>
     AutoId_new counter_api ''block'' c2 = Some i2 \<and> (2 :: 64 word) < nextValue i2 \<and> 5 < nextValue i2"
proof -
  define us where "us = [Use_next, Use_next, Use_reserve 5]"
  have used: "AutoId_new counter_api ''block'' (sq_db counter_genesis) = Some \<lparr>nextValue = 1, dbValue = 0\<rparr>"
    by code_simp
  have us: "ids_fit us \<lparr>nextValue = 1, dbValue = 0\<rparr>" "use_ids us \<lparr>nextValue = 1, dbValue = 0\<rparr> = ([1, 2], \<lparr>nextValue = 6, dbValue = 0\<rparr>)"
    unfolding us_def by code_simp+
  have "\<not> Option.is_none (AutoId_Sync counter_api ''block'' \<lparr>nextValue = 6, dbValue = 0\<rparr> (sq_db counter_genesis))"
    by code_simp
  then obtain c2 where c2: "AutoId_Sync counter_api ''block'' \<lparr>nextValue = 6, dbValue = 0\<rparr> (sq_db counter_genesis) = Some c2"
    by (auto simp: Option.is_none_def)
  from auto_ids_unique [OF reference.sqlite_documented_axioms used us refl c2] c2 show ?thesis
    by (auto simp: us_def)
qed

theorem custom_data_current_witness:
  "\<exists>c. (do { js \<leftarrow> SG_GameStateToJson counter_api counter_rules (BLOCKHASH_STATE @ demo_hash 7) c; Some js }) = Some (JInt 0) \<and>
     Sq_GetCurrentBlockHash counter_api c = Some (Some (replicate 31 0 @ [7]))"
proof -
  define cb where "cb = (\<lambda>c :: nat game_tables sqlite_tables sql_connection.
    SG_GameStateToJson counter_api counter_rules (BLOCKHASH_STATE @ demo_hash 7) c)"
  have "map_option fst (SG_GetCustomStateData counter_api counter_rules True cb (BLOCKHASH_STATE @ ToHex (replicate 31 0 @ [7]))
      counter_genesis) = Some (JInt 0)"
    unfolding cb_def by code_simp
  then obtain st' where "SG_GetCustomStateData counter_api counter_rules True cb (BLOCKHASH_STATE @ ToHex (replicate 31 0 @ [7]))
      counter_genesis = Some (JInt 0, st')"
    by auto
  from custom_data_current [OF this] show ?thesis
    by (auto simp: cb_def)
qed

end
