(* ===== verification/LMDB_Storage.thy ===== *)
theory LMDB_Storage
  imports Catch_Up "HOL-Library.List_Lexorder" "HOL-Library.Char_ord"
begin

text \<open>
  The storage in an LMDB database: \<open>src/xayagame/lmdbstorage.cpp\<close>.

  This is the storage whose operations may throw: when the memory map of the database is full, the
  exception \<open>RetryWithNewTransaction\<close> makes the daemon roll back, and the rollback doubles the map.
  LMDB itself is a parameter: a record of functions on environments of any type, which return a code.
  What its documentation says of them is the locale \<open>lmdb_documented\<close>: an environment has the
  committed contents, a map from keys to values, and the contents seen by the write transaction, if
  there is one; \<open>MDB_MAP_FULL\<close> may be reported by any operation that writes, except where there is room
  for sure, namely after the map has been doubled or the database has been emptied.

  An exception that leaves \<open>Initialise\<close>, \<open>BeginTransaction\<close>, \<open>Clear\<close> or \<open>RollbackTransaction\<close> (which runs in the destructor of the scope guard, where it
  terminates the process) is an abort.

  Shown: the codec of heights, the loop of \<open>PruneUndoData\<close> returns and removes exactly the entries it
  should, and the storage keeps the contract of \<open>Storage_Contract\<close>.
\<close>

unbundle bit_operations_syntax

subsection \<open>Keys and values\<close>

definition KEY_CURRENT_HASH :: string where "KEY_CURRENT_HASH = ''h''"
definition KEY_CURRENT_STATE :: string where "KEY_CURRENT_STATE = ''s''"
definition KEY_PREFIX_UNDO :: char where "KEY_PREFIX_UNDO = CHR ''u''"
definition KEY_NUM_RESIZES :: string where "KEY_NUM_RESIZES = ''r''"
definition UNDO_HEIGHT_BYTES :: nat where "UNDO_HEIGHT_BYTES = 4"

lemmas key_defs = KEY_CURRENT_HASH_def KEY_CURRENT_STATE_def KEY_PREFIX_UNDO_def KEY_NUM_RESIZES_def

definition KeyForUndoData :: "uint256 \<Rightarrow> string" where
  "KeyForUndoData hash = KEY_PREFIX_UNDO # GetBinaryString hash"

definition ValueToString :: "string \<Rightarrow> nat \<Rightarrow> string run" where
  "ValueToString val stripBytes = do { CHECK (length val \<ge> stripBytes); Some (drop stripBytes val) }"

text \<open>The loop of \<open>EncodeUnsigned\<close> fills the bytes from the last to the first.\<close>

fun encode_bytes :: "nat \<Rightarrow> uint32 \<Rightarrow> byte list \<Rightarrow> byte list \<times> uint32" where
  "encode_bytes 0 num bytes = (bytes, num)"
| "encode_bytes (Suc k) num bytes = encode_bytes k (drop_bit 8 num) (ucast (num AND 0xFF) # bytes)"

definition EncodeUnsigned :: "uint32 \<Rightarrow> string run" where
  "EncodeUnsigned num =
     (let (bytes, num) = encode_bytes UNDO_HEIGHT_BYTES num []
      in do { CHECK (num = 0); Some (string_of_bytes bytes) })"

definition DecodeUnsigned :: "string \<Rightarrow> uint32" where
  "DecodeUnsigned s = foldl (\<lambda>num b. push_bit 8 num OR ucast b) 0 (bytes_of_string (take UNDO_HEIGHT_BYTES s))"

lemma ucast_low_byte: "(ucast (w AND 0xFF :: uint32) :: byte) = ucast w"
proof -
  have mask: "(0xFF :: uint32) = mask 8"
    by (simp add: mask_eq_exp_minus_1)
  show ?thesis
    unfolding mask by (rule bit_word_eqI) (simp add: bit_simps)
qed

lemma bytes_join:
  "push_bit 8 (push_bit 8 (push_bit 8 (ucast (ucast (drop_bit 24 n) :: byte)) OR ucast (ucast (drop_bit 16 n) :: byte)) OR
     ucast (ucast (drop_bit 8 n) :: byte)) OR ucast (ucast n :: byte) = (n :: uint32)"
proof (rule bit_word_eqI)
  fix k
  assume "k < LENGTH(32)"
  then consider "k < 8" | "8 \<le> k" "k < 16" | "16 \<le> k" "k < 24" | "24 \<le> k" "k < 32"
    by fastforce
  then show "bit ((push_bit 8 (push_bit 8 (push_bit 8 (ucast (ucast (drop_bit 24 n) :: byte)) OR
       ucast (ucast (drop_bit 16 n) :: byte)) OR ucast (ucast (drop_bit 8 n) :: byte)) OR ucast (ucast n :: byte)) :: uint32) k = bit n k"
    by cases (auto simp: bit_simps)
qed

lemma encode_eq:
  "encode_bytes UNDO_HEIGHT_BYTES num [] =
     ([ucast (drop_bit 24 num), ucast (drop_bit 16 num), ucast (drop_bit 8 num), ucast num], 0)"
proof -
  have four: "UNDO_HEIGHT_BYTES = Suc (Suc (Suc (Suc 0)))"
    by (simp add: UNDO_HEIGHT_BYTES_def)
  have "drop_bit 32 num = 0"
    by (rule bit_word_eqI) (simp add: bit_simps)
  then show ?thesis
    unfolding four by (simp add: ucast_low_byte)
qed

lemma DecodeUnsigned_append:
  "length bs = UNDO_HEIGHT_BYTES \<Longrightarrow> DecodeUnsigned (string_of_bytes bs @ rest) = foldl (\<lambda>num b. push_bit 8 num OR ucast b) 0 bs"
  by (simp add: DecodeUnsigned_def)

lemma EncodeUnsigned_returns:
  obtains s where "EncodeUnsigned num = Some s" "length s = UNDO_HEIGHT_BYTES" "\<And>rest. DecodeUnsigned (s @ rest) = num"
proof -
  define bs :: "byte list" where
    "bs = [ucast (drop_bit 24 num), ucast (drop_bit 16 num), ucast (drop_bit 8 num), ucast num]"
  have "DecodeUnsigned (string_of_bytes bs @ rest) = num" for rest
    using bytes_join [of num] by (subst DecodeUnsigned_append) (simp_all add: bs_def UNDO_HEIGHT_BYTES_def)
  moreover have "EncodeUnsigned num = Some (string_of_bytes bs)" "length (string_of_bytes bs) = UNDO_HEIGHT_BYTES"
    by (simp_all add: EncodeUnsigned_def encode_eq bs_def bind_CHECK) (simp add: UNDO_HEIGHT_BYTES_def)
  ultimately show thesis
    using that by blast
qed

subsection \<open>LMDB\<close>

datatype mdb_code = MDB_SUCCESS | MDB_NOTFOUND | MDB_MAP_FULL | MDB_ERROR int

text \<open>Functions on the environment, which includes the one write transaction and the position of the
  cursor is given by its key.  \<open>mdb_get\<close> reads in the write transaction if there is one, and in a
  read transaction otherwise.\<close>

record 'e lmdb_api =
  mdb_txn_begin :: "'e \<Rightarrow> mdb_code \<times> 'e"
  mdb_dbi_open :: "'e \<Rightarrow> mdb_code \<times> 'e"
  mdb_put :: "string \<Rightarrow> string \<Rightarrow> 'e \<Rightarrow> mdb_code \<times> 'e"
  mdb_del :: "string \<Rightarrow> 'e \<Rightarrow> mdb_code \<times> 'e"
  mdb_get :: "string \<Rightarrow> 'e \<Rightarrow> mdb_code \<times> string"
  mdb_drop :: "'e \<Rightarrow> mdb_code \<times> 'e"
  mdb_txn_commit :: "'e \<Rightarrow> mdb_code \<times> 'e"
  mdb_txn_abort :: "'e \<Rightarrow> 'e"
  mdb_cursor_set_range :: "string \<Rightarrow> 'e \<Rightarrow> mdb_code \<times> string \<times> string"
  mdb_cursor_next :: "string \<Rightarrow> 'e \<Rightarrow> mdb_code \<times> string \<times> string"
  mdb_cursor_del :: "string \<Rightarrow> 'e \<Rightarrow> mdb_code \<times> 'e"
  mdb_env_open :: "'e \<Rightarrow> mdb_code \<times> 'e"
  mdb_env_mapsize :: "'e \<Rightarrow> 64 word"
  mdb_env_set_mapsize :: "64 word \<Rightarrow> 'e \<Rightarrow> mdb_code \<times> 'e"

subsection \<open>The storage\<close>

text \<open>\<open>lm_startedTxn\<close>: whether the pointer is not null.\<close>

record 'e lmdb_state =
  lm_env :: 'e
  lm_startedTxn :: bool
  lm_needsResize :: bool

definition CheckOk :: "mdb_code \<Rightarrow> ('e lmdb_state, unit) exec" where
  "CheckOk code st =
     (case code of
        MDB_SUCCESS \<Rightarrow> Some (Returned (), st)
      | MDB_MAP_FULL \<Rightarrow> do { CHECK (\<not> lm_needsResize st); Some (RetryWithNewTransaction, st\<lparr>lm_needsResize := True\<rparr>) }
      | _ \<Rightarrow> LOG_FATAL)"

definition lm_call :: "('e \<Rightarrow> mdb_code \<times> 'e) \<Rightarrow> ('e lmdb_state, unit) exec" where
  "lm_call f st = (let (code, e) = f (lm_env st) in CheckOk code (st\<lparr>lm_env := e\<rparr>))"

definition no_throw :: "('s, 'a) exec \<Rightarrow> 's \<Rightarrow> 's run" where
  "no_throw op st = do { (r, st) \<leftarrow> op st; (case r of Returned _ \<Rightarrow> Some st | RetryWithNewTransaction \<Rightarrow> None) }"

text \<open>Construction with a new environment, opening, and destruction.\<close>

definition LMDBStorage_new :: "'e \<Rightarrow> 'e lmdb_state" where
  "LMDBStorage_new e = \<lparr>lm_env = e, lm_startedTxn = False, lm_needsResize = False\<rparr>"

definition Lm_Initialise :: "'e lmdb_api \<Rightarrow> 'e lmdb_state \<Rightarrow> 'e lmdb_state run" where
  "Lm_Initialise api st = no_throw (lm_call (mdb_env_open api)) st"

definition LMDBStorage_destroy :: "'e lmdb_state \<Rightarrow> unit run" where
  "LMDBStorage_destroy st = do { CHECK (\<not> lm_startedTxn st); CHECK (\<not> lm_needsResize st) }"

text \<open>\<open>ReadTransaction::ReadData\<close>; an exception here is an abort.\<close>

definition ReadData :: "'e lmdb_api \<Rightarrow> string \<Rightarrow> 'e lmdb_state \<Rightarrow> string option run" where
  "ReadData api key st =
     (case mdb_get api key (lm_env st) of
        (MDB_SUCCESS, val) \<Rightarrow> Some (Some val)
      | (MDB_NOTFOUND, _) \<Rightarrow> Some None
      | _ \<Rightarrow> None)"

definition Lm_GetCurrentBlockHash :: "'e lmdb_api \<Rightarrow> 'e lmdb_state \<Rightarrow> uint256 option run" where
  "Lm_GetCurrentBlockHash api st =
     do {
       r \<leftarrow> ReadData api KEY_CURRENT_HASH st;
       (case r of
          None \<Rightarrow> Some None
        | Some val \<Rightarrow> do { CHECK (length val = NUM_BYTES); Some (Some (FromBlob (bytes_of_string val))) })
     }"

definition Lm_GetCurrentGameState :: "'e lmdb_api \<Rightarrow> 'e lmdb_state \<Rightarrow> string run" where
  "Lm_GetCurrentGameState api st =
     do { r \<leftarrow> ReadData api KEY_CURRENT_STATE st; val \<leftarrow> r; ValueToString val 0 }"

definition Lm_SetCurrentGameState :: "'e lmdb_api \<Rightarrow> uint256 \<Rightarrow> string \<Rightarrow> ('e lmdb_state, unit) exec" where
  "Lm_SetCurrentGameState api hash state st =
     do {
       CHECK (lm_startedTxn st);
       exec_seq (lm_call (mdb_put api KEY_CURRENT_HASH (GetBinaryString hash)))
         (\<lambda>_. lm_call (mdb_put api KEY_CURRENT_STATE state)) st
     }"

definition Lm_GetUndoData :: "'e lmdb_api \<Rightarrow> uint256 \<Rightarrow> 'e lmdb_state \<Rightarrow> string option run" where
  "Lm_GetUndoData api hash st =
     do {
       r \<leftarrow> ReadData api (KeyForUndoData hash) st;
       (case r of None \<Rightarrow> Some None | Some val \<Rightarrow> map_option Some (ValueToString val UNDO_HEIGHT_BYTES))
     }"

text \<open>The space is reserved first and then filled.\<close>

definition Lm_AddUndoData :: "'e lmdb_api \<Rightarrow> uint256 \<Rightarrow> uint32 \<Rightarrow> string \<Rightarrow> ('e lmdb_state, unit) exec" where
  "Lm_AddUndoData api hash height undo st =
     do {
       CHECK (lm_startedTxn st);
       bytes \<leftarrow> EncodeUnsigned height;
       lm_call (mdb_put api (KeyForUndoData hash) (bytes @ undo)) st
     }"

definition Lm_ReleaseUndoData :: "'e lmdb_api \<Rightarrow> uint256 \<Rightarrow> ('e lmdb_state, unit) exec" where
  "Lm_ReleaseUndoData api hash st =
     do {
       CHECK (lm_startedTxn st);
       (case mdb_del api (KeyForUndoData hash) (lm_env st) of
          (MDB_SUCCESS, e) \<Rightarrow> Some (Returned (), st\<lparr>lm_env := e\<rparr>)
        | (MDB_NOTFOUND, e) \<Rightarrow> Some (Returned (), st\<lparr>lm_env := e\<rparr>)
        | (code, e) \<Rightarrow> CheckOk code (st\<lparr>lm_env := e\<rparr>))
     }"

text \<open>\<open>Cursor::Seek\<close> and \<open>Cursor::Next\<close>: the entry that was found, or none.\<close>

definition cursor_entry :: "mdb_code \<times> string \<times> string \<Rightarrow> (string \<times> string) option run" where
  "cursor_entry r =
     (case r of
        (MDB_SUCCESS, kv) \<Rightarrow> Some (Some kv)
      | (MDB_NOTFOUND, _) \<Rightarrow> Some None
      | _ \<Rightarrow> None)"

partial_function (option) prune_entries ::
    "'e lmdb_api \<Rightarrow> uint32 \<Rightarrow> (string \<times> string) option \<Rightarrow> 'e lmdb_state \<Rightarrow> (unit outcome \<times> 'e lmdb_state) option" where
  "prune_entries api height next_entry st =
     (case next_entry of
        None \<Rightarrow> Some (Returned (), st)
      | Some (key, val) \<Rightarrow>
          if key = [] \<or> hd key \<noteq> KEY_PREFIX_UNDO then Some (Returned (), st)
          else do {
            CHECK (length val \<ge> UNDO_HEIGHT_BYTES);
            (r, st) \<leftarrow> (if DecodeUnsigned val \<le> height then lm_call (mdb_cursor_del api key) st else Some (Returned (), st));
            (case r of
               RetryWithNewTransaction \<Rightarrow> Some (RetryWithNewTransaction, st)
             | Returned _ \<Rightarrow>
                 do {
                   next_entry \<leftarrow> cursor_entry (mdb_cursor_next api key (lm_env st));
                   prune_entries api height next_entry st
                 })
          })"

declare prune_entries.simps [code]

definition Lm_PruneUndoData :: "'e lmdb_api \<Rightarrow> uint32 \<Rightarrow> ('e lmdb_state, unit) exec" where
  "Lm_PruneUndoData api height st =
     do {
       CHECK (lm_startedTxn st);
       first \<leftarrow> cursor_entry (mdb_cursor_set_range api [KEY_PREFIX_UNDO] (lm_env st));
       prune_entries api height first st
     }"

definition Lm_BeginTransaction :: "'e lmdb_api \<Rightarrow> ('e lmdb_state, unit) exec" where
  "Lm_BeginTransaction api st =
     do {
       CHECK (\<not> lm_needsResize st);
       CHECK (\<not> lm_startedTxn st);
       exec_seq (lm_call (mdb_txn_begin api)) (\<lambda>_ st. lm_call (mdb_dbi_open api) (st\<lparr>lm_startedTxn := True\<rparr>)) st
     }"

text \<open>The transaction is gone also when the commit fails.\<close>

definition Lm_CommitTransaction :: "'e lmdb_api \<Rightarrow> ('e lmdb_state, unit) exec" where
  "Lm_CommitTransaction api st =
     do {
       CHECK (\<not> lm_needsResize st);
       CHECK (lm_startedTxn st);
       (r, st) \<leftarrow> lm_call (mdb_txn_commit api) st;
       Some (r, st\<lparr>lm_startedTxn := False\<rparr>)
     }"

definition Resize :: "'e lmdb_api \<Rightarrow> 'e lmdb_state \<Rightarrow> 'e lmdb_state run" where
  "Resize api st =
     do {
       CHECK (\<not> lm_startedTxn st);
       let newSize = push_bit 1 (mdb_env_mapsize api (lm_env st));
       let st = st\<lparr>lm_needsResize := False\<rparr>;
       st \<leftarrow> no_throw (lm_call (mdb_env_set_mapsize api newSize)) st;
       st \<leftarrow> no_throw (Lm_BeginTransaction api) st;
       r \<leftarrow> ReadData api KEY_NUM_RESIZES st;
       numResizes \<leftarrow> (case r of
           None \<Rightarrow> Some 0
         | Some val \<Rightarrow> do { CHECK (length val = UNDO_HEIGHT_BYTES); Some (DecodeUnsigned val) });
       bytes \<leftarrow> EncodeUnsigned (numResizes + 1);
       st \<leftarrow> no_throw (lm_call (mdb_put api KEY_NUM_RESIZES bytes)) st;
       no_throw (Lm_CommitTransaction api) st
     }"

definition Lm_RollbackTransaction :: "'e lmdb_api \<Rightarrow> 'e lmdb_state \<Rightarrow> 'e lmdb_state run" where
  "Lm_RollbackTransaction api st =
     (let st = (if lm_startedTxn st then st\<lparr>lm_env := mdb_txn_abort api (lm_env st), lm_startedTxn := False\<rparr> else st)
      in if lm_needsResize st then Resize api (st\<lparr>lm_needsResize := False\<rparr>) else Some st)"

definition Lm_Clear :: "'e lmdb_api \<Rightarrow> 'e lmdb_state \<Rightarrow> 'e lmdb_state run" where
  "Lm_Clear api st =
     do {
       CHECK (\<not> lm_startedTxn st);
       st \<leftarrow> no_throw (Lm_BeginTransaction api) st;
       st \<leftarrow> no_throw (lm_call (mdb_drop api)) st;
       no_throw (Lm_CommitTransaction api) st
     }"

definition LMDBStorage :: "'e lmdb_api \<Rightarrow> 'e lmdb_state storage_interface" where
  "LMDBStorage api =
     \<lparr>st_Clear = Lm_Clear api,
      st_GetCurrentBlockHash = (\<lambda>st. Option.bind (Lm_GetCurrentBlockHash api st) (\<lambda>r. r)),
      st_GetCurrentGameState = Lm_GetCurrentGameState api,
      st_SetCurrentGameState = Lm_SetCurrentGameState api,
      st_GetUndoData = (\<lambda>hash st. Option.bind (Lm_GetUndoData api hash st) (\<lambda>r. r)),
      st_AddUndoData = Lm_AddUndoData api,
      st_ReleaseUndoData = Lm_ReleaseUndoData api,
      st_PruneUndoData = Lm_PruneUndoData api,
      st_BeginTransaction = no_throw (Lm_BeginTransaction api),
      st_CommitTransaction = Lm_CommitTransaction api,
      st_RollbackTransaction = Lm_RollbackTransaction api\<rparr>"

subsection \<open>What the documentation says\<close>

text \<open>What pruning leaves of the entries whose key satisfies \<open>P\<close>.\<close>

definition undo_key :: "string \<Rightarrow> bool" where
  "undo_key k \<longleftrightarrow> k \<noteq> [] \<and> hd k = KEY_PREFIX_UNDO"

definition prune_map :: "uint32 \<Rightarrow> (string \<Rightarrow> bool) \<Rightarrow> (string \<rightharpoonup> string) \<Rightarrow> (string \<rightharpoonup> string)" where
  "prune_map height P m k =
     (case m k of
        None \<Rightarrow> None
      | Some v \<Rightarrow> if P k \<and> undo_key k \<and> DecodeUnsigned v \<le> height then None else Some v)"

lemma prune_map_id: "(\<And>k. m k \<noteq> None \<Longrightarrow> P k \<Longrightarrow> \<not> undo_key k) \<Longrightarrow> prune_map height P m = m"
  by (rule ext) (force simp: prune_map_def split: option.splits)

lemma undo_key_between: "[KEY_PREFIX_UNDO] \<le> k \<Longrightarrow> k \<le> k' \<Longrightarrow> undo_key k' \<Longrightarrow> undo_key k"
  by (cases k; cases k') (auto simp: undo_key_def)

text \<open>The entry with the least key that satisfies \<open>P\<close>.\<close>

definition least_entry :: "(string \<rightharpoonup> string) \<Rightarrow> (string \<Rightarrow> bool) \<Rightarrow> mdb_code \<times> string \<times> string \<Rightarrow> bool" where
  "least_entry m P r \<longleftrightarrow>
     (if \<exists>k. m k \<noteq> None \<and> P k
      then \<exists>k v. r = (MDB_SUCCESS, k, v) \<and> m k = Some v \<and> P k \<and> (\<forall>k'. m k' \<noteq> None \<and> P k' \<longrightarrow> k \<le> k')
      else fst r = MDB_NOTFOUND)"

lemma least_entry_cursor:
  assumes "least_entry m P r"
  obtains (none) "cursor_entry r = Some None" "\<forall>k. m k = None \<or> \<not> P k"
    | (entry) k v where "cursor_entry r = Some (Some (k, v))" "m k = Some v" "P k" "\<And>k'. m k' \<noteq> None \<Longrightarrow> P k' \<Longrightarrow> k \<le> k'"
  using assms by (cases r) (auto simp: least_entry_def cursor_entry_def split: if_splits)

text \<open>\<open>committed\<close> are the contents that other transactions see, and that are left after a crash; \<open>seen\<close> are those
  of the write transaction.  In a \<open>roomy\<close> environment one small entry can be written, and in a \<open>settled\<close>
  one the transaction can be committed.\<close>

locale lmdb_documented =
  fixes api :: "'e lmdb_api"
    and committed :: "'e \<Rightarrow> string \<rightharpoonup> string"
    and seen :: "'e \<Rightarrow> (string \<rightharpoonup> string) option"
    and roomy :: "'e \<Rightarrow> bool"
    and settled :: "'e \<Rightarrow> bool"
  assumes begin_law: "seen e = None \<Longrightarrow> \<exists>e'. mdb_txn_begin api e = (MDB_SUCCESS, e') \<and> committed e' = committed e \<and>
      seen e' = Some (committed e) \<and> (roomy e \<longrightarrow> roomy e')"
    and open_law: "\<exists>e'. mdb_dbi_open api e = (MDB_SUCCESS, e') \<and> committed e' = committed e \<and> seen e' = seen e \<and>
      (roomy e \<longrightarrow> roomy e')"
    and put_law: "seen e = Some m \<Longrightarrow> \<exists>code e'. mdb_put api k v e = (code, e') \<and> committed e' = committed e \<and>
      (code = MDB_SUCCESS \<and> seen e' = Some (m(k \<mapsto> v)) \<and> (roomy e \<longrightarrow> settled e') \<or>
       code = MDB_MAP_FULL \<and> seen e' \<noteq> None \<and> \<not> roomy e)"
    and del_law: "seen e = Some m \<Longrightarrow> \<exists>code e'. mdb_del api k e = (code, e') \<and> committed e' = committed e \<and>
      (m k \<noteq> None \<and> code = MDB_SUCCESS \<and> seen e' = Some (m(k := None)) \<or>
       m k = None \<and> code = MDB_NOTFOUND \<and> seen e' = Some m \<or> code = MDB_MAP_FULL \<and> seen e' \<noteq> None)"
    and get_law: "(case seen e of None \<Rightarrow> committed e | Some m \<Rightarrow> m) k = Some v \<Longrightarrow> mdb_get api k e = (MDB_SUCCESS, v)"
      "(case seen e of None \<Rightarrow> committed e | Some m \<Rightarrow> m) k = None \<Longrightarrow> fst (mdb_get api k e) = MDB_NOTFOUND"
    and drop_law: "seen e \<noteq> None \<Longrightarrow> \<exists>e'. mdb_drop api e = (MDB_SUCCESS, e') \<and> committed e' = committed e \<and>
      seen e' = Some Map.empty \<and> settled e'"
    and commit_law: "seen e = Some m \<Longrightarrow> \<exists>code e'. mdb_txn_commit api e = (code, e') \<and> seen e' = None \<and>
      (code = MDB_SUCCESS \<and> committed e' = m \<or> code = MDB_MAP_FULL \<and> committed e' = committed e \<and> \<not> settled e)"
    and abort_law: "seen e \<noteq> None \<Longrightarrow> committed (mdb_txn_abort api e) = committed e \<and> seen (mdb_txn_abort api e) = None"
    and range_law: "seen e = Some m \<Longrightarrow> least_entry m (\<lambda>k'. k \<le> k') (mdb_cursor_set_range api k e)"
    and next_law: "seen e = Some m \<Longrightarrow> least_entry m (\<lambda>k'. k < k') (mdb_cursor_next api k e)"
    and cursor_del_law: "seen e = Some m \<Longrightarrow> m k \<noteq> None \<Longrightarrow> \<exists>code e'. mdb_cursor_del api k e = (code, e') \<and>
      committed e' = committed e \<and>
      (code = MDB_SUCCESS \<and> seen e' = Some (m(k := None)) \<or> code = MDB_MAP_FULL \<and> seen e' \<noteq> None)"
    and double_law: "seen e = None \<Longrightarrow> w = push_bit 1 (mdb_env_mapsize api e) \<Longrightarrow>
      \<exists>e'. mdb_env_set_mapsize api w e = (MDB_SUCCESS, e') \<and> committed e' = committed e \<and> seen e' = None \<and> roomy e'"
    and env_open_law: "\<exists>e'. mdb_env_open api e = (MDB_SUCCESS, e') \<and> committed e' = committed e \<and> seen e' = None"
    and finite_law: "seen e = Some m \<Longrightarrow> finite (dom m)"
begin

abbreviation lm_committed :: "'e lmdb_state \<Rightarrow> string \<rightharpoonup> string" where
  "lm_committed st \<equiv> committed (lm_env st)"

abbreviation lm_seen :: "'e lmdb_state \<Rightarrow> (string \<rightharpoonup> string) option" where
  "lm_seen st \<equiv> seen (lm_env st)"

text \<open>An operation in a transaction either changes the contents to \<open>m\<close> or throws.\<close>

definition written :: "'e lmdb_state \<Rightarrow> (string \<rightharpoonup> string) \<Rightarrow> unit outcome \<Rightarrow> 'e lmdb_state \<Rightarrow> bool" where
  "written st m r st' \<longleftrightarrow> lm_committed st' = lm_committed st \<and> lm_startedTxn st' = lm_startedTxn st \<and>
     (case r of
        Returned _ \<Rightarrow> lm_seen st' = Some m \<and> \<not> lm_needsResize st'
      | RetryWithNewTransaction \<Rightarrow> lm_seen st' \<noteq> None \<and> lm_needsResize st')"

lemma put_call:
  assumes "lm_seen st = Some m" "\<not> lm_needsResize st"
  shows "\<exists>r st'. lm_call (mdb_put api k v) st = Some (r, st') \<and> written st (m(k \<mapsto> v)) r st'"
  using put_law [OF assms(1), of k v] assms(2) by (auto simp: lm_call_def CheckOk_def written_def bind_CHECK)

lemma cursor_del_call:
  assumes "lm_seen st = Some m" "\<not> lm_needsResize st" "m k \<noteq> None"
  shows "\<exists>r st'. lm_call (mdb_cursor_del api k) st = Some (r, st') \<and> written st (m(k := None)) r st'"
  using cursor_del_law [OF assms(1,3)] assms(2) by (auto simp: lm_call_def CheckOk_def written_def bind_CHECK)

lemma release_call:
  assumes "lm_seen st = Some m" "\<not> lm_needsResize st" "lm_startedTxn st"
  shows "\<exists>r st'. Lm_ReleaseUndoData api h st = Some (r, st') \<and> written st (m(KeyForUndoData h := None)) r st'"
proof -
  obtain code e where e: "mdb_del api (KeyForUndoData h) (lm_env st) = (code, e)" "committed e = lm_committed st"
    "m (KeyForUndoData h) \<noteq> None \<and> code = MDB_SUCCESS \<and> seen e = Some (m(KeyForUndoData h := None)) \<or>
     m (KeyForUndoData h) = None \<and> code = MDB_NOTFOUND \<and> seen e = Some m \<or> code = MDB_MAP_FULL \<and> seen e \<noteq> None"
    using del_law [OF assms(1)] by blast
  have "m (KeyForUndoData h) = None \<Longrightarrow> m(KeyForUndoData h := None) = m"
    by auto
  then show ?thesis
    using assms e by (auto simp: Lm_ReleaseUndoData_def CheckOk_def written_def bind_CHECK)
qed

lemma current_call:
  assumes "lm_seen st = Some m" "\<not> lm_needsResize st" "lm_startedTxn st"
  shows "\<exists>r st'. Lm_SetCurrentGameState api h d st = Some (r, st') \<and>
    written st (m(KEY_CURRENT_HASH \<mapsto> GetBinaryString h, KEY_CURRENT_STATE \<mapsto> d)) r st'"
proof -
  obtain r1 st1 where 1: "lm_call (mdb_put api KEY_CURRENT_HASH (GetBinaryString h)) st = Some (r1, st1)"
    "written st (m(KEY_CURRENT_HASH \<mapsto> GetBinaryString h)) r1 st1"
    using put_call [OF assms(1,2)] by blast
  show ?thesis
  proof (cases r1)
    case (Returned u)
    then have "lm_seen st1 = Some (m(KEY_CURRENT_HASH \<mapsto> GetBinaryString h))" "\<not> lm_needsResize st1"
      using 1(2) by (simp_all add: written_def)
    then obtain r2 st2 where "lm_call (mdb_put api KEY_CURRENT_STATE d) st1 = Some (r2, st2)"
      "written st1 (m(KEY_CURRENT_HASH \<mapsto> GetBinaryString h, KEY_CURRENT_STATE \<mapsto> d)) r2 st2"
      using put_call by blast
    then show ?thesis
      using assms(3) 1 Returned by (simp add: Lm_SetCurrentGameState_def exec_seq_def bind_CHECK written_def)
  next
    case RetryWithNewTransaction
    then show ?thesis
      using assms(3) 1 by (simp add: Lm_SetCurrentGameState_def exec_seq_def bind_CHECK written_def)
  qed
qed

text \<open>One round of the loop, at an entry with undo data.\<close>

lemma prune_round:
  fixes height :: uint32
  assumes st: "lm_seen st = Some m" "\<not> lm_needsResize st"
    and key: "m key = Some val" "undo_key key" "length val \<ge> UNDO_HEIGHT_BYTES"
  defines "m1 \<equiv> (if DecodeUnsigned val \<le> height then m(key := None) else m)"
  obtains (throws) st1 where "prune_entries api height (Some (key, val)) st = Some (RetryWithNewTransaction, st1)"
      "written st m1 RetryWithNewTransaction st1"
    | (goes_on) st1 r nx where "prune_entries api height (Some (key, val)) st = prune_entries api height nx st1"
      "written st m1 (Returned ()) st1" "least_entry m1 ((<) key) r" "cursor_entry r = Some nx"
proof -
  define del where "del = (if DecodeUnsigned val \<le> height then lm_call (mdb_cursor_del api key) st else Some (Returned (), st))"
  obtain r1 st1 where 1: "del = Some (r1, st1)" "written st m1 r1 st1"
    using cursor_del_call [OF st, of key] key(1) st that unfolding del_def m1_def
    by (cases "DecodeUnsigned val \<le> height") (auto simp: written_def)
  have unfold: "prune_entries api height (Some (key, val)) st = (case r1 of
      RetryWithNewTransaction \<Rightarrow> Some (RetryWithNewTransaction, st1)
    | Returned _ \<Rightarrow> do { nx \<leftarrow> cursor_entry (mdb_cursor_next api key (lm_env st1)); prune_entries api height nx st1 })"
    using key(2,3) 1(1) unfolding del_def by (subst prune_entries.simps) (simp add: undo_key_def bind_CHECK)
  show thesis
  proof (cases r1)
    case RetryWithNewTransaction
    then show thesis
      using throws 1(2) unfold by simp
  next
    case (Returned u)
    then have "lm_seen st1 = Some m1"
      using 1(2) by (simp add: written_def)
    note nxt = next_law [OF this, of key]
    then obtain nx where "cursor_entry (mdb_cursor_next api key (lm_env st1)) = Some nx"
      by (cases rule: least_entry_cursor) auto
    then show thesis
      using goes_on [OF _ _ nxt] 1(2) unfold Returned by simp
  qed
qed

text \<open>What is left to do after a round.\<close>

lemma prune_map_round:
  fixes height :: uint32
  assumes "m key = Some val" "undo_key key" "P key" "\<And>k'. key \<le> k' \<Longrightarrow> P k'" "\<And>k. m k \<noteq> None \<Longrightarrow> P k \<Longrightarrow> key \<le> k"
  defines "m1 \<equiv> (if DecodeUnsigned val \<le> height then m(key := None) else m)"
  shows "prune_map height ((<) key) m1 = prune_map height P m" "{k \<in> dom m1. key < k} \<subset> {k \<in> dom m. P k}"
proof -
  have "k = key \<or> key < k" if "m k \<noteq> None" "P k" for k
    using assms(5) [OF that] by auto
  then show "prune_map height ((<) key) m1 = prune_map height P m"
    using assms(1-4) unfolding prune_map_def m1_def fun_eq_iff by (force split: option.splits)
  show "{k \<in> dom m1. key < k} \<subset> {k \<in> dom m. P k}"
    using assms(1,3,4) by (auto simp: m1_def)
qed

text \<open>The loop returns: every round has fewer keys in front of it.\<close>

lemma prune_entries_returns:
  assumes "lm_seen st = Some m" "\<not> lm_needsResize st"
    and P: "\<And>k. P k \<Longrightarrow> [KEY_PREFIX_UNDO] \<le> k" and up: "\<And>k k'. P k \<Longrightarrow> k \<le> k' \<Longrightarrow> P k'"
    and first: "least_entry m P r0" "cursor_entry r0 = Some nx"
    and long: "\<And>k v. undo_key k \<Longrightarrow> m k = Some v \<Longrightarrow> length v \<ge> UNDO_HEIGHT_BYTES"
  shows "\<exists>r st'. prune_entries api height nx st = Some (r, st') \<and> written st (prune_map height P m) r st'"
  using assms
proof (induction "card {k \<in> dom m. P k}" arbitrary: m st P r0 nx rule: less_induct)
  case (less m P st r0 nx)
  have ends: ?case if "\<And>k. m k \<noteq> None \<Longrightarrow> P k \<Longrightarrow> \<not> undo_key k" "\<And>k v. nx = Some (k, v) \<Longrightarrow> \<not> undo_key k"
    using that less.prems(1,2) prune_map_id [of m P height]
    by (cases nx) (auto simp: prune_entries.simps written_def undo_key_def)
  from less.prems(5) show ?case
  proof (cases rule: least_entry_cursor)
    case none
    show ?thesis
      by (rule ends) (use none less.prems(6) in \<open>simp_all, metis option.distinct(1)\<close>)
  next
    case (entry key val)
    have nx: "nx = Some (key, val)"
      using entry(1) less.prems(6) by simp
    show ?thesis
    proof (cases "undo_key key")
      case False
      show ?thesis
        by (rule ends) (use undo_key_between [OF less.prems(3) [OF entry(3)] entry(4)] False nx in auto)
    next
      case True
      define m1 where "m1 = (if DecodeUnsigned val \<le> height then m(key := None) else m)"
      have eq: "prune_map height ((<) key) m1 = prune_map height P m" and sub: "{k \<in> dom m1. key < k} \<subset> {k \<in> dom m. P k}"
        using prune_map_round [of m key val P height, OF entry(2) True entry(3) less.prems(4) [OF entry(3)] entry(4)] unfolding m1_def by blast+
      from less.prems(1,2) entry(2) True less.prems(7) [OF True entry(2)] show ?thesis
      proof (cases rule: prune_round [where height = height])
        case (throws st1)
        then show ?thesis
          using nx by (simp add: written_def)
      next
        case (goes_on st1 r nx1)
        have st1: "lm_seen st1 = Some m1" "\<not> lm_needsResize st1"
          using goes_on(2) by (simp_all add: written_def m1_def)
        have card: "card {k \<in> dom m1. key < k} < card {k \<in> dom m. P k}"
          using sub finite_law [OF less.prems(1)] by (intro psubset_card_mono) auto
        have "\<exists>r st'. prune_entries api height nx1 st1 = Some (r, st') \<and> written st1 (prune_map height ((<) key) m1) r st'"
          by (rule less.hyps [OF card st1 _ _ goes_on(3,4) [folded m1_def]])
            (use less.prems(3) [OF entry(3)] less.prems(7) in \<open>auto simp: m1_def split: if_splits\<close>)
        then show ?thesis
          using goes_on(1,2) nx unfolding eq by (auto simp: written_def split: outcome.splits)
      qed
    qed
  qed
qed

end

subsection \<open>Well-formed contents\<close>

text \<open>The block hash has 32 bytes and is set together with the state, undo data starts with a height, and the
  number of resizes is a number.\<close>

definition lmdb_map_ok :: "(string \<rightharpoonup> string) \<Rightarrow> bool" where
  "lmdb_map_ok m \<longleftrightarrow>
     (case m KEY_CURRENT_HASH of
        None \<Rightarrow> m KEY_CURRENT_STATE = None
      | Some b \<Rightarrow> length b = NUM_BYTES \<and> m KEY_CURRENT_STATE \<noteq> None) \<and>
     (\<forall>k v. undo_key k \<and> m k = Some v \<longrightarrow> length v \<ge> UNDO_HEIGHT_BYTES) \<and>
     (\<forall>v. m KEY_NUM_RESIZES = Some v \<longrightarrow> length v = UNDO_HEIGHT_BYTES)"

definition lmdb_map_view :: "(string \<rightharpoonup> string) \<Rightarrow> contents" where
  "lmdb_map_view m =
     \<lparr>cur = (case m KEY_CURRENT_HASH of
        None \<Rightarrow> None
      | Some b \<Rightarrow> map_option (Pair (bytes_of_string b)) (m KEY_CURRENT_STATE)),
      undos = (\<lambda>h. map_option (\<lambda>v. (DecodeUnsigned v, drop UNDO_HEIGHT_BYTES v)) (m (KeyForUndoData h)))\<rparr>"

lemma KeyForUndoData_simps [simp]:
  "KeyForUndoData h = KeyForUndoData h' \<longleftrightarrow> h = h'" "undo_key (KeyForUndoData h)"
  "KeyForUndoData h \<noteq> KEY_CURRENT_HASH" "KeyForUndoData h \<noteq> KEY_CURRENT_STATE" "KeyForUndoData h \<noteq> KEY_NUM_RESIZES"
  "\<not> undo_key KEY_CURRENT_HASH" "\<not> undo_key KEY_CURRENT_STATE" "\<not> undo_key KEY_NUM_RESIZES"
  "KEY_CURRENT_HASH \<noteq> KEY_CURRENT_STATE" "KEY_CURRENT_HASH \<noteq> KEY_NUM_RESIZES" "KEY_CURRENT_STATE \<noteq> KEY_NUM_RESIZES"
  "KEY_NUM_RESIZES \<noteq> KEY_CURRENT_HASH" "KEY_NUM_RESIZES \<noteq> KEY_CURRENT_STATE"
  by (auto simp: KeyForUndoData_def undo_key_def key_defs GetBinaryString_def)

lemma undo_key_other: "undo_key k \<Longrightarrow> k \<noteq> KEY_CURRENT_HASH \<and> k \<noteq> KEY_CURRENT_STATE \<and> k \<noteq> KEY_NUM_RESIZES"
  by (auto simp: undo_key_def key_defs)

lemma KeyForUndoData_other:
  "KEY_CURRENT_HASH \<noteq> KeyForUndoData h" "KEY_CURRENT_STATE \<noteq> KeyForUndoData h" "KEY_NUM_RESIZES \<noteq> KeyForUndoData h"
  by (metis KeyForUndoData_simps(3-5))+

lemma lmdb_set_current:
  assumes "lmdb_map_ok m" "wf_uint256 h"
  shows "lmdb_map_ok (m(KEY_CURRENT_HASH \<mapsto> GetBinaryString h, KEY_CURRENT_STATE \<mapsto> d)) \<and>
    upd_current h d (lmdb_map_view m) (lmdb_map_view (m(KEY_CURRENT_HASH \<mapsto> GetBinaryString h, KEY_CURRENT_STATE \<mapsto> d)))"
  using assms
  by (auto simp: lmdb_map_ok_def lmdb_map_view_def upd_current_def wf_uint256_def GetBinaryString_def undo_key_other)

lemma lmdb_add:
  assumes "lmdb_map_ok m" "length s = UNDO_HEIGHT_BYTES" "\<And>rest. DecodeUnsigned (s @ rest) = ht"
  shows "lmdb_map_ok (m(KeyForUndoData h \<mapsto> s @ d)) \<and>
    upd_add h ht d (lmdb_map_view m) (lmdb_map_view (m(KeyForUndoData h \<mapsto> s @ d)))"
  using assms
  by (auto simp: lmdb_map_ok_def lmdb_map_view_def upd_add_def KeyForUndoData_other fun_eq_iff cong: option.case_cong)

lemma lmdb_release:
  assumes "lmdb_map_ok m"
  shows "lmdb_map_ok (m(KeyForUndoData h := None)) \<and>
    upd_release h (lmdb_map_view m) (lmdb_map_view (m(KeyForUndoData h := None)))"
  using assms
  by (auto simp: lmdb_map_ok_def lmdb_map_view_def upd_release_def KeyForUndoData_other fun_eq_iff cong: option.case_cong)

lemma prune_map_other: "\<not> undo_key k \<Longrightarrow> prune_map height P m k = m k"
  by (simp add: prune_map_def split: option.splits)

lemma lmdb_prune:
  assumes "lmdb_map_ok m"
  shows "lmdb_map_ok (prune_map height P m) \<and> upd_prune height (lmdb_map_view m) (lmdb_map_view (prune_map height P m))"
proof
  have some: "prune_map height P m k = Some v \<Longrightarrow> m k = Some v" for k v
    by (auto simp: prune_map_def split: option.splits if_splits)
  have "length v \<ge> UNDO_HEIGHT_BYTES" if "undo_key k" "prune_map height P m k = Some v" for k v
    using assms that(1) some [OF that(2)] by (auto simp: lmdb_map_ok_def)
  then have "\<forall>k v. undo_key k \<and> prune_map height P m k = Some v \<longrightarrow> length v \<ge> UNDO_HEIGHT_BYTES"
    by blast
  then show "lmdb_map_ok (prune_map height P m)"
    using assms by (simp add: lmdb_map_ok_def prune_map_other cong: option.case_cong)
  have "undos (lmdb_map_view (prune_map height P m)) \<subseteq>\<^sub>m undos (lmdb_map_view m)"
    unfolding map_le_def
  proof
    fix h
    assume "h \<in> dom (undos (lmdb_map_view (prune_map height P m)))"
    then obtain v where "prune_map height P m (KeyForUndoData h) = Some v"
      by (auto simp: lmdb_map_view_def)
    then show "undos (lmdb_map_view (prune_map height P m)) h = undos (lmdb_map_view m) h"
      using some [of "KeyForUndoData h" v] by (simp add: lmdb_map_view_def)
  qed
  moreover have "cur (lmdb_map_view (prune_map height P m)) = cur (lmdb_map_view m)"
    by (simp add: lmdb_map_view_def prune_map_other cong: option.case_cong)
  moreover have "undos (lmdb_map_view (prune_map height P m)) h = Some (ht, d)"
    if "undos (lmdb_map_view m) h = Some (ht, d)" "ht > height" for h ht d
    using that by (auto simp: lmdb_map_view_def prune_map_def)
  ultimately show "upd_prune height (lmdb_map_view m) (lmdb_map_view (prune_map height P m))"
    by (simp add: upd_prune_def)
qed

lemma lmdb_resized:
  assumes "lmdb_map_ok m" "length s = UNDO_HEIGHT_BYTES"
  shows "lmdb_map_ok (m(KEY_NUM_RESIZES \<mapsto> s))" "lmdb_map_view (m(KEY_NUM_RESIZES \<mapsto> s)) = lmdb_map_view m"
  using assms by (auto simp: lmdb_map_ok_def lmdb_map_view_def undo_key_other cong: option.case_cong)

lemma resizes_read:
  assumes "lmdb_map_ok m"
  shows "\<exists>n. (case m KEY_NUM_RESIZES of
      None \<Rightarrow> Some 0
    | Some v \<Rightarrow> do { CHECK (length v = UNDO_HEIGHT_BYTES); Some (DecodeUnsigned v) }) = Some n"
  using assms by (cases "m KEY_NUM_RESIZES") (simp_all add: lmdb_map_ok_def)

definition lmdb_phase ::
    "('e \<Rightarrow> string \<rightharpoonup> string) \<Rightarrow> ('e \<Rightarrow> (string \<rightharpoonup> string) option) \<Rightarrow> 'e lmdb_state \<Rightarrow> storage_phase" where
  "lmdb_phase committed seen st =
     (if \<not> lmdb_map_ok (committed (lm_env st)) \<or> (lm_startedTxn st \<longleftrightarrow> seen (lm_env st) = None) then Invalid
      else if lm_needsResize st then Failed
      else case seen (lm_env st) of None \<Rightarrow> Idle | Some m \<Rightarrow> if lmdb_map_ok m then Open else Invalid)"

definition lmdb_view ::
    "('e \<Rightarrow> string \<rightharpoonup> string) \<Rightarrow> ('e \<Rightarrow> (string \<rightharpoonup> string) option) \<Rightarrow> 'e lmdb_state \<Rightarrow> contents" where
  "lmdb_view committed seen st =
     lmdb_map_view (case seen (lm_env st) of None \<Rightarrow> committed (lm_env st) | Some m \<Rightarrow> m)"

text \<open>Rollbacks and crashes lead to what was committed last.\<close>

definition lmdb_restorable :: "('e \<Rightarrow> string \<rightharpoonup> string) \<Rightarrow> 'e lmdb_state \<Rightarrow> contents set" where
  "lmdb_restorable committed st = {lmdb_map_view (committed (lm_env st))}"

lemma lmdb_phase_simps:
  "lmdb_phase committed seen st = Idle \<longleftrightarrow>
     lmdb_map_ok (committed (lm_env st)) \<and> \<not> lm_startedTxn st \<and> seen (lm_env st) = None \<and> \<not> lm_needsResize st"
  "lmdb_phase committed seen st = Open \<longleftrightarrow> lmdb_map_ok (committed (lm_env st)) \<and> lm_startedTxn st \<and> \<not> lm_needsResize st \<and>
     (\<exists>m. seen (lm_env st) = Some m \<and> lmdb_map_ok m)"
  "lmdb_phase committed seen st = Failed \<longleftrightarrow>
     lmdb_map_ok (committed (lm_env st)) \<and> (lm_startedTxn st \<longleftrightarrow> seen (lm_env st) \<noteq> None) \<and> lm_needsResize st"
  by (auto simp: lmdb_phase_def split: option.splits)


subsection \<open>The contract\<close>

context lmdb_documented
begin

abbreviation lm_contents :: "'e lmdb_state \<Rightarrow> string \<rightharpoonup> string" where
  "lm_contents st \<equiv> (case lm_seen st of None \<Rightarrow> lm_committed st | Some m \<Rightarrow> m)"

lemma ReadData_eq: "ReadData api k st = Some (lm_contents st k)"
proof (cases "lm_contents st k")
  case None
  then show ?thesis
    using get_law(2) [of "lm_env st" k] by (cases "mdb_get api k (lm_env st)") (simp add: ReadData_def)
next
  case (Some v)
  then show ?thesis
    using get_law(1) [of "lm_env st" k v] by (simp add: ReadData_def)
qed

lemma lmdb_reads:
  assumes "lmdb_map_ok (lm_contents st)"
  shows "Lm_GetCurrentBlockHash api st = Some (map_option fst (cur (lmdb_view committed seen st)))"
    "Lm_GetCurrentGameState api st = map_option snd (cur (lmdb_view committed seen st))"
    "Lm_GetUndoData api h st = Some (map_option snd (undos (lmdb_view committed seen st) h))"
proof -
  define m where "m = lm_contents st"
  have view: "lmdb_view committed seen st = lmdb_map_view m" and ok: "lmdb_map_ok m"
    using assms by (simp_all add: lmdb_view_def m_def)
  have read: "ReadData api k st = Some (m k)" for k
    by (simp add: ReadData_eq m_def)
  show "Lm_GetCurrentBlockHash api st = Some (map_option fst (cur (lmdb_view committed seen st)))"
    "Lm_GetCurrentGameState api st = map_option snd (cur (lmdb_view committed seen st))"
    using ok by (auto simp: Lm_GetCurrentBlockHash_def Lm_GetCurrentGameState_def read view lmdb_map_view_def
        lmdb_map_ok_def FromBlob_def ValueToString_def bind_CHECK split: option.splits)
  show "Lm_GetUndoData api h st = Some (map_option snd (undos (lmdb_view committed seen st) h))"
  proof (cases "m (KeyForUndoData h)")
    case (Some v)
    then have "length v \<ge> UNDO_HEIGHT_BYTES"
      using ok KeyForUndoData_simps(2) unfolding lmdb_map_ok_def by blast
    then show ?thesis
      using Some by (simp add: Lm_GetUndoData_def read view lmdb_map_view_def ValueToString_def bind_CHECK)
  qed (simp add: Lm_GetUndoData_def read view lmdb_map_view_def)
qed

lemma written_updating:
  assumes op: "\<And>st m. lm_seen st = Some m \<Longrightarrow> \<not> lm_needsResize st \<Longrightarrow> lm_startedTxn st \<Longrightarrow> lmdb_map_ok m \<Longrightarrow>
      \<exists>r st' m'. op st = Some (r, st') \<and> written st m' r st' \<and> lmdb_map_ok m' \<and> upd (lmdb_map_view m) (lmdb_map_view m')"
  shows "updating True (lmdb_phase committed seen) (lmdb_view committed seen) (lmdb_restorable committed) upd op"
  unfolding updating_def
proof (intro allI impI)
  fix st :: "'e lmdb_state"
  assume "lmdb_phase committed seen st = Open"
  then obtain m where m: "lmdb_map_ok (lm_committed st)" "lm_startedTxn st" "\<not> lm_needsResize st" "lm_seen st = Some m" "lmdb_map_ok m"
    unfolding lmdb_phase_simps by blast
  then obtain r st' m' where st': "op st = Some (r, st')" "written st m' r st'" "lmdb_map_ok m'"
    "upd (lmdb_map_view m) (lmdb_map_view m')"
    using op by blast
  have rest: "lmdb_restorable committed st' = lmdb_restorable committed st"
    using st'(2) by (simp add: lmdb_restorable_def written_def)
  show "\<exists>r st'. op st = Some (r, st') \<and>
      (case r of
         Returned _ \<Rightarrow> lmdb_phase committed seen st' = Open \<and> upd (lmdb_view committed seen st) (lmdb_view committed seen st') \<and>
           lmdb_restorable committed st' \<subseteq> insert (lmdb_view committed seen st') (lmdb_restorable committed st)
       | RetryWithNewTransaction \<Rightarrow> True \<and> needs_end (lmdb_phase committed seen st') \<and>
           lmdb_restorable committed st' \<subseteq> lmdb_restorable committed st)"
  proof (cases r)
    case (Returned u)
    then have "lmdb_phase committed seen st' = Open" "lmdb_view committed seen st = lmdb_map_view m"
      "lmdb_view committed seen st' = lmdb_map_view m'"
      using m st'(2,3) unfolding lmdb_phase_simps by (simp_all add: written_def lmdb_view_def)
    then show ?thesis
      using st' rest Returned by auto
  next
    case RetryWithNewTransaction
    then have "lmdb_phase committed seen st' = Failed"
      using m st'(2) unfolding lmdb_phase_simps by (simp add: written_def)
    then show ?thesis
      using st' rest RetryWithNewTransaction by simp
  qed
qed

lemma prune_call:
  assumes "lm_seen st = Some m" "\<not> lm_needsResize st" "lm_startedTxn st" "lmdb_map_ok m"
  shows "\<exists>r st'. Lm_PruneUndoData api height st = Some (r, st') \<and> written st (prune_map height ((\<le>) [KEY_PREFIX_UNDO]) m) r st'"
proof -
  note first = range_law [OF assms(1), of "[KEY_PREFIX_UNDO]"]
  then obtain nx where nx: "cursor_entry (mdb_cursor_set_range api [KEY_PREFIX_UNDO] (lm_env st)) = Some nx"
    by (cases rule: least_entry_cursor) auto
  have "\<exists>r st'. prune_entries api height nx st = Some (r, st') \<and> written st (prune_map height ((\<le>) [KEY_PREFIX_UNDO]) m) r st'"
    by (rule prune_entries_returns [OF assms(1,2) _ _ first nx]) (use assms(4) in \<open>auto simp: lmdb_map_ok_def\<close>)
  then show ?thesis
    using assms(3) nx by (simp add: Lm_PruneUndoData_def bind_CHECK)
qed

lemma begin_call:
  assumes "lm_seen st = None" "\<not> lm_startedTxn st" "\<not> lm_needsResize st"
  shows "\<exists>st'. no_throw (Lm_BeginTransaction api) st = Some st' \<and> lm_startedTxn st' \<and> \<not> lm_needsResize st' \<and>
    lm_committed st' = lm_committed st \<and> lm_seen st' = Some (lm_committed st) \<and> (roomy (lm_env st) \<longrightarrow> roomy (lm_env st'))"
proof -
  obtain e1 where e1: "mdb_txn_begin api (lm_env st) = (MDB_SUCCESS, e1)" "committed e1 = lm_committed st"
    "seen e1 = Some (lm_committed st)" "roomy (lm_env st) \<longrightarrow> roomy e1"
    using begin_law [OF assms(1)] by blast
  obtain e2 where "mdb_dbi_open api e1 = (MDB_SUCCESS, e2)" "committed e2 = committed e1" "seen e2 = seen e1" "roomy e1 \<longrightarrow> roomy e2"
    using open_law by blast
  then show ?thesis
    using assms(2,3) e1 by (simp add: no_throw_def Lm_BeginTransaction_def lm_call_def CheckOk_def exec_seq_def bind_CHECK)
qed

lemma commit_call:
  assumes "lm_seen st = Some m" "lm_startedTxn st" "\<not> lm_needsResize st"
  shows "\<exists>r st'. Lm_CommitTransaction api st = Some (r, st') \<and> \<not> lm_startedTxn st' \<and> lm_seen st' = None \<and>
    (case r of
       Returned _ \<Rightarrow> lm_committed st' = m \<and> \<not> lm_needsResize st'
     | RetryWithNewTransaction \<Rightarrow> \<not> settled (lm_env st) \<and> lm_committed st' = lm_committed st \<and> lm_needsResize st')"
  using commit_law [OF assms(1)] assms(2,3) by (auto simp: Lm_CommitTransaction_def lm_call_def CheckOk_def bind_CHECK)

lemma settled_commit:
  assumes "lm_seen st = Some m" "lm_startedTxn st" "\<not> lm_needsResize st" "settled (lm_env st)"
  shows "\<exists>st'. no_throw (Lm_CommitTransaction api) st = Some st' \<and> \<not> lm_startedTxn st' \<and> \<not> lm_needsResize st' \<and>
    lm_seen st' = None \<and> lm_committed st' = m"
proof -
  obtain r st' where st': "Lm_CommitTransaction api st = Some (r, st')" "\<not> lm_startedTxn st'" "lm_seen st' = None"
    "case r of Returned _ \<Rightarrow> lm_committed st' = m \<and> \<not> lm_needsResize st'
      | RetryWithNewTransaction \<Rightarrow> \<not> settled (lm_env st) \<and> lm_committed st' = lm_committed st \<and> lm_needsResize st'"
    using commit_call [OF assms(1-3)] by blast
  then show ?thesis
    using assms(4) by (cases r) (simp_all add: no_throw_def)
qed

lemma resize_call:
  assumes "lm_seen st = None" "\<not> lm_startedTxn st" "lmdb_map_ok (lm_committed st)"
  shows "\<exists>st' s. Resize api st = Some st' \<and> \<not> lm_startedTxn st' \<and> \<not> lm_needsResize st' \<and> lm_seen st' = None \<and>
    lm_committed st' = (lm_committed st)(KEY_NUM_RESIZES \<mapsto> s) \<and> length s = UNDO_HEIGHT_BYTES"
proof -
  define w where "w = push_bit 1 (mdb_env_mapsize api (lm_env st))"
  obtain e where e: "mdb_env_set_mapsize api w (lm_env st) = (MDB_SUCCESS, e)" "committed e = lm_committed st" "seen e = None" "roomy e"
    using double_law [OF assms(1) w_def] by blast
  define st1 where "st1 = st\<lparr>lm_needsResize := False, lm_env := e\<rparr>"
  have "no_throw (lm_call (mdb_env_set_mapsize api w)) (st\<lparr>lm_needsResize := False\<rparr>) = Some st1"
    using e by (simp add: no_throw_def lm_call_def CheckOk_def st1_def)
  moreover obtain st2 where st2: "no_throw (Lm_BeginTransaction api) st1 = Some st2" "lm_startedTxn st2" "\<not> lm_needsResize st2"
    "lm_committed st2 = lm_committed st" "lm_seen st2 = Some (lm_committed st)" "roomy (lm_env st2)"
    using begin_call [of st1] e assms(2) by (auto simp: st1_def)
  moreover have read: "ReadData api KEY_NUM_RESIZES st2 = Some (lm_committed st KEY_NUM_RESIZES)"
    by (simp add: ReadData_eq st2(5))
  moreover obtain n where "(case lm_committed st KEY_NUM_RESIZES of
       None \<Rightarrow> Some 0
     | Some v \<Rightarrow> do { CHECK (length v = UNDO_HEIGHT_BYTES); Some (DecodeUnsigned v) }) = Some n"
    using resizes_read [OF assms(3)] by blast
  moreover obtain s where s: "EncodeUnsigned (n + 1) = Some s" "length s = UNDO_HEIGHT_BYTES"
    by (rule EncodeUnsigned_returns)
  moreover obtain e3 where e3: "mdb_put api KEY_NUM_RESIZES s (lm_env st2) = (MDB_SUCCESS, e3)"
    "seen e3 = Some ((lm_committed st)(KEY_NUM_RESIZES \<mapsto> s))" "settled e3"
    using put_law [OF st2(5)] st2(6) by blast
  define st3 where "st3 = st2\<lparr>lm_env := e3\<rparr>"
  have "no_throw (lm_call (mdb_put api KEY_NUM_RESIZES s)) st2 = Some st3"
    using e3 by (simp add: no_throw_def lm_call_def CheckOk_def st3_def)
  moreover obtain st4 where "no_throw (Lm_CommitTransaction api) st3 = Some st4" "\<not> lm_startedTxn st4" "\<not> lm_needsResize st4"
    "lm_seen st4 = None" "lm_committed st4 = (lm_committed st)(KEY_NUM_RESIZES \<mapsto> s)"
    using settled_commit [of st3] e3 st2 by (auto simp: st3_def)
  ultimately show ?thesis
    using assms(2) unfolding Resize_def Let_def w_def by (auto simp: bind_CHECK intro!: exI [of _ s])
qed

lemma rollback_call:
  assumes "needs_end (lmdb_phase committed seen st)"
  shows "\<exists>st'. Lm_RollbackTransaction api st = Some st' \<and> lmdb_phase committed seen st' = Idle \<and>
    lmdb_map_view (lm_committed st') = lmdb_map_view (lm_committed st)"
proof -
  define st1 where "st1 = (if lm_startedTxn st then st\<lparr>lm_env := mdb_txn_abort api (lm_env st), lm_startedTxn := False\<rparr> else st)"
  have ok: "lmdb_map_ok (lm_committed st)" "lm_startedTxn st \<longleftrightarrow> lm_seen st \<noteq> None"
    using assms unfolding needs_end_def lmdb_phase_simps by auto
  then have st1: "lm_seen st1 = None" "\<not> lm_startedTxn st1" "lm_committed st1 = lm_committed st" "lm_needsResize st1 = lm_needsResize st"
    using abort_law [of "lm_env st"] by (auto simp: st1_def)
  show ?thesis
  proof (cases "lm_needsResize st")
    case False
    then have "Lm_RollbackTransaction api st = Some st1" "lmdb_phase committed seen st1 = Idle"
      using st1 ok unfolding lmdb_phase_simps by (simp_all add: Lm_RollbackTransaction_def st1_def Let_def)
    then show ?thesis
      using st1(3) by simp
  next
    case True
    define st2 where "st2 = st1\<lparr>lm_needsResize := False\<rparr>"
    obtain st' s where st': "Resize api st2 = Some st'" "\<not> lm_startedTxn st'" "\<not> lm_needsResize st'" "lm_seen st' = None"
      "lm_committed st' = (lm_committed st)(KEY_NUM_RESIZES \<mapsto> s)" "length s = UNDO_HEIGHT_BYTES"
      using resize_call [of st2] st1 ok by (auto simp: st2_def)
    have "Lm_RollbackTransaction api st = Some st'"
      using True st1(4) st'(1) by (simp add: Lm_RollbackTransaction_def st2_def st1_def Let_def)
    moreover have "lmdb_phase committed seen st' = Idle" "lmdb_map_view (lm_committed st') = lmdb_map_view (lm_committed st)"
      using st' lmdb_resized [OF ok(1) st'(6)] unfolding lmdb_phase_simps by simp_all
    ultimately show ?thesis
      by blast
  qed
qed

lemma clear_call:
  assumes "lm_seen st = None" "\<not> lm_startedTxn st" "\<not> lm_needsResize st"
  shows "\<exists>st'. Lm_Clear api st = Some st' \<and> \<not> lm_startedTxn st' \<and> \<not> lm_needsResize st' \<and> lm_seen st' = None \<and>
    lm_committed st' = Map.empty"
proof -
  obtain st1 where st1: "no_throw (Lm_BeginTransaction api) st = Some st1" "lm_startedTxn st1" "\<not> lm_needsResize st1"
    "lm_seen st1 \<noteq> None"
    using begin_call [OF assms] by auto
  then obtain e where e: "mdb_drop api (lm_env st1) = (MDB_SUCCESS, e)" "seen e = Some Map.empty" "settled e"
    using drop_law by blast
  then have "no_throw (lm_call (mdb_drop api)) st1 = Some (st1\<lparr>lm_env := e\<rparr>)"
    by (simp add: no_throw_def lm_call_def CheckOk_def)
  moreover obtain st2 where "no_throw (Lm_CommitTransaction api) (st1\<lparr>lm_env := e\<rparr>) = Some st2" "\<not> lm_startedTxn st2"
    "\<not> lm_needsResize st2" "lm_seen st2 = None" "lm_committed st2 = Map.empty"
    using settled_commit [of "st1\<lparr>lm_env := e\<rparr>"] e st1 by auto
  ultimately show ?thesis
    using st1 assms(2) by (simp add: Lm_Clear_def bind_CHECK)
qed

end


sublocale lmdb_documented \<subseteq> contract: storage_contract "LMDBStorage api" True
  "lmdb_phase committed seen" "lmdb_view committed seen" "lmdb_restorable committed"
proof unfold_locales
  fix st :: "'e lmdb_state"
  {
    assume "lmdb_phase committed seen st \<in> {Idle, Open}"
    then have "lmdb_map_ok (lm_contents st)"
      unfolding insert_iff lmdb_phase_simps by auto
    note lmdb_reads [OF this]
    then show "st_GetCurrentBlockHash (LMDBStorage api) st = map_option fst (cur (lmdb_view committed seen st))"
      "st_GetCurrentGameState (LMDBStorage api) st = map_option snd (cur (lmdb_view committed seen st))"
      "st_GetUndoData (LMDBStorage api) h st = map_option snd (undos (lmdb_view committed seen st) h)" for h
      by (simp_all add: LMDBStorage_def)
  next
    assume "lmdb_phase committed seen st = Idle"
    then have st: "lmdb_map_ok (lm_committed st)" "\<not> lm_startedTxn st" "lm_seen st = None" "\<not> lm_needsResize st"
      unfolding lmdb_phase_simps by simp_all
    show "\<exists>st'. st_BeginTransaction (LMDBStorage api) st = Some st' \<and> lmdb_phase committed seen st' = Open \<and>
        lmdb_view committed seen st' = lmdb_view committed seen st \<and>
        lmdb_restorable committed st' \<subseteq> insert (lmdb_view committed seen st) (lmdb_restorable committed st)"
      using begin_call [OF st(3,2,4)] st unfolding lmdb_phase_simps
      by (auto simp: LMDBStorage_def lmdb_view_def lmdb_restorable_def)
    show "\<exists>st'. st_Clear (LMDBStorage api) st = Some st' \<and> lmdb_phase committed seen st' = Idle \<and>
        lmdb_view committed seen st' = \<lparr>cur = None, undos = Map.empty\<rparr> \<and>
        lmdb_restorable committed st' \<subseteq> {\<lparr>cur = None, undos = Map.empty\<rparr>}"
      using clear_call [OF st(3,2,4)] unfolding lmdb_phase_simps
      by (auto simp: LMDBStorage_def lmdb_view_def lmdb_restorable_def lmdb_map_view_def lmdb_map_ok_def)
  next
    assume "lmdb_phase committed seen st = Open"
    then obtain m where st: "lmdb_map_ok (lm_committed st)" "lm_startedTxn st" "\<not> lm_needsResize st" "lm_seen st = Some m" "lmdb_map_ok m"
      unfolding lmdb_phase_simps by blast
    obtain r st' where st': "Lm_CommitTransaction api st = Some (r, st')" "\<not> lm_startedTxn st'" "lm_seen st' = None"
      "case r of Returned _ \<Rightarrow> lm_committed st' = m \<and> \<not> lm_needsResize st'
        | RetryWithNewTransaction \<Rightarrow> \<not> settled (lm_env st) \<and> lm_committed st' = lm_committed st \<and> lm_needsResize st'"
      using commit_call [OF st(4,2,3)] by blast
    then show "\<exists>r st'. st_CommitTransaction (LMDBStorage api) st = Some (r, st') \<and>
      (case r of
         Returned _ \<Rightarrow> lmdb_phase committed seen st' = Idle \<and> lmdb_view committed seen st' = lmdb_view committed seen st \<and>
           lmdb_restorable committed st' \<subseteq> insert (lmdb_view committed seen st) (lmdb_restorable committed st)
       | RetryWithNewTransaction \<Rightarrow> True \<and> needs_end (lmdb_phase committed seen st') \<and>
           lmdb_restorable committed st' \<subseteq> lmdb_restorable committed st)"
      using st unfolding needs_end_def lmdb_phase_simps
      by (cases r) (auto simp: LMDBStorage_def lmdb_view_def lmdb_restorable_def)
  next
    assume "needs_end (lmdb_phase committed seen st)"
    then obtain st' where "Lm_RollbackTransaction api st = Some st'" "lmdb_phase committed seen st' = Idle"
      "lmdb_map_view (lm_committed st') = lmdb_map_view (lm_committed st)"
      using rollback_call by blast
    moreover from this have "lm_seen st' = None"
      unfolding lmdb_phase_simps by simp
    ultimately show "\<exists>st'. st_RollbackTransaction (LMDBStorage api) st = Some st' \<and> lmdb_phase committed seen st' = Idle \<and>
        lmdb_view committed seen st' \<in> lmdb_restorable committed st \<and> lmdb_restorable committed st' \<subseteq> lmdb_restorable committed st"
      by (simp add: LMDBStorage_def lmdb_view_def lmdb_restorable_def)
  }
next
  fix h d ht
  show "wf_uint256 h \<Longrightarrow> updating True (lmdb_phase committed seen) (lmdb_view committed seen) (lmdb_restorable committed)
      (upd_current h d) (st_SetCurrentGameState (LMDBStorage api) h d)"
    unfolding LMDBStorage_def storage_interface.simps
    by (rule written_updating) (meson current_call lmdb_set_current)
  show "updating True (lmdb_phase committed seen) (lmdb_view committed seen) (lmdb_restorable committed)
      (upd_add h ht d) (st_AddUndoData (LMDBStorage api) h ht d)"
    unfolding LMDBStorage_def storage_interface.simps
  proof (rule written_updating)
    fix st m
    assume st: "lm_seen st = Some m" "\<not> lm_needsResize st" "lm_startedTxn st" "lmdb_map_ok m"
    obtain s where s: "EncodeUnsigned ht = Some s" "length s = UNDO_HEIGHT_BYTES" "\<And>rest. DecodeUnsigned (s @ rest) = ht"
      by (rule EncodeUnsigned_returns) blast
    then have "Lm_AddUndoData api h ht d st = lm_call (mdb_put api (KeyForUndoData h) (s @ d)) st"
      using st(3) by (simp add: Lm_AddUndoData_def bind_CHECK)
    then show "\<exists>r st' m'. Lm_AddUndoData api h ht d st = Some (r, st') \<and> written st m' r st' \<and> lmdb_map_ok m' \<and>
        upd_add h ht d (lmdb_map_view m) (lmdb_map_view m')"
      using put_call [OF st(1,2)] lmdb_add [OF st(4) s(2,3)] by metis
  qed
  show "updating True (lmdb_phase committed seen) (lmdb_view committed seen) (lmdb_restorable committed)
      (upd_release h) (st_ReleaseUndoData (LMDBStorage api) h)"
    unfolding LMDBStorage_def storage_interface.simps
    by (rule written_updating) (meson release_call lmdb_release)
  show "updating True (lmdb_phase committed seen) (lmdb_view committed seen) (lmdb_restorable committed)
      (upd_prune ht) (st_PruneUndoData (LMDBStorage api) ht)"
    unfolding LMDBStorage_def storage_interface.simps
    by (rule written_updating) (meson prune_call lmdb_prune)
qed


context lmdb_documented
begin

text \<open>Opening a database with well-formed contents leads to the idle phase, in which the storage may also be
  destroyed again.\<close>

lemma initialised_idle:
  assumes "lmdb_map_ok (committed e)"
  shows "\<exists>st. Lm_Initialise api (LMDBStorage_new e) = Some st \<and> lmdb_phase committed seen st = Idle \<and>
    lmdb_view committed seen st = lmdb_map_view (committed e)"
  using env_open_law [of e] assms
  by (auto simp: Lm_Initialise_def LMDBStorage_new_def no_throw_def lm_call_def CheckOk_def lmdb_phase_simps lmdb_view_def)

lemma idle_destroyed: "lmdb_phase committed seen st = Idle \<Longrightarrow> LMDBStorage_destroy st = Some ()"
  unfolding lmdb_phase_simps by (simp add: LMDBStorage_destroy_def)

lemma keeps_contract:
  "storage_contract (LMDBStorage api) True (lmdb_phase committed seen) (lmdb_view committed seen) (lmdb_restorable committed)"
  by (rule contract.storage_contract_axioms)

end

subsection \<open>An LMDB library\<close>

text \<open>Contents are association lists, and a number of further entries fits in the map.\<close>

record ref_env =
  re_committed :: "(string \<times> string) list"
  re_txn :: "(string \<times> string) list option"
  re_free :: nat
  re_size :: "64 word"

definition ref_change :: "((string \<times> string) list \<Rightarrow> (string \<times> string) list) \<Rightarrow> ref_env \<Rightarrow> mdb_code \<times> ref_env" where
  "ref_change f e =
     (if re_free e = 0 then (MDB_MAP_FULL, e)
      else (MDB_SUCCESS, e\<lparr>re_txn := map_option f (re_txn e), re_free := re_free e - 1\<rparr>))"

definition ref_entry :: "(string \<Rightarrow> bool) \<Rightarrow> ref_env \<Rightarrow> mdb_code \<times> string \<times> string" where
  "ref_entry P e =
     (case sort (filter P (map fst (the (re_txn e)))) of
        [] \<Rightarrow> (MDB_NOTFOUND, [], [])
      | k # _ \<Rightarrow> (MDB_SUCCESS, k, the (map_of (the (re_txn e)) k)))"

definition reference_lmdb :: "ref_env lmdb_api" where
  "reference_lmdb =
     \<lparr>mdb_txn_begin = (\<lambda>e. (MDB_SUCCESS, e\<lparr>re_txn := Some (re_committed e)\<rparr>)),
      mdb_dbi_open = (\<lambda>e. (MDB_SUCCESS, e)),
      mdb_put = (\<lambda>k v. ref_change (Cons (k, v))),
      mdb_del = (\<lambda>k e. if map_of (the (re_txn e)) k = None then (MDB_NOTFOUND, e) else ref_change (filter (\<lambda>x. fst x \<noteq> k)) e),
      mdb_get = (\<lambda>k e. case map_of (case re_txn e of None \<Rightarrow> re_committed e | Some m \<Rightarrow> m) k of
         None \<Rightarrow> (MDB_NOTFOUND, [])
       | Some v \<Rightarrow> (MDB_SUCCESS, v)),
      mdb_drop = (\<lambda>e. (MDB_SUCCESS, e\<lparr>re_txn := Some []\<rparr>)),
      mdb_txn_commit = (\<lambda>e. (MDB_SUCCESS, e\<lparr>re_committed := the (re_txn e), re_txn := None\<rparr>)),
      mdb_txn_abort = (\<lambda>e. e\<lparr>re_txn := None\<rparr>),
      mdb_cursor_set_range = (\<lambda>k. ref_entry ((\<le>) k)),
      mdb_cursor_next = (\<lambda>k. ref_entry ((<) k)),
      mdb_cursor_del = (\<lambda>k. ref_change (filter (\<lambda>x. fst x \<noteq> k))),
      mdb_env_open = (\<lambda>e. (MDB_SUCCESS, e\<lparr>re_txn := None\<rparr>)),
      mdb_env_mapsize = re_size,
      mdb_env_set_mapsize = (\<lambda>w e. (MDB_SUCCESS, e\<lparr>re_size := w, re_free := Suc (unat w)\<rparr>))\<rparr>"

lemma map_of_filter_key: "map_of (filter (\<lambda>x. fst x \<noteq> k) xs) = (map_of xs)(k := None)"
  by (induction xs) auto

lemma ref_entry_least:
  assumes "re_txn e = Some m"
  shows "least_entry (map_of m) P (ref_entry P e)"
proof -
  have keys: "set (filter P (map fst m)) = {k. map_of m k \<noteq> None \<and> P k}"
    by (auto simp: map_of_eq_None_iff simp flip: image_set)
  show ?thesis
  proof (cases "sort (filter P (map fst m))")
    case Nil
    then have "{k. map_of m k \<noteq> None \<and> P k} = {}"
      using keys by (metis set_sort list.set(1))
    then show ?thesis
      using assms Nil by (auto simp: least_entry_def ref_entry_def)
  next
    case (Cons k ks)
    then have "set (k # ks) = {k. map_of m k \<noteq> None \<and> P k}" "sorted (k # ks)"
      using keys by (metis set_sort, metis sorted_sort)
    then have "map_of m k \<noteq> None \<and> P k" "\<forall>k'. map_of m k' \<noteq> None \<and> P k' \<longrightarrow> k \<le> k'"
      by auto
    then show ?thesis
      using assms Cons by (auto simp: least_entry_def ref_entry_def)
  qed
qed

interpretation reference_lmdb: lmdb_documented reference_lmdb "\<lambda>e. map_of (re_committed e)" "\<lambda>e. map_option map_of (re_txn e)"
    "\<lambda>e. re_free e > 0" "\<lambda>e. True"
proof unfold_locales
  show "map_option map_of (re_txn e) = Some m \<Longrightarrow> least_entry m ((\<le>) k) (mdb_cursor_set_range reference_lmdb k e)"
    "map_option map_of (re_txn e) = Some m \<Longrightarrow> least_entry m ((<) k) (mdb_cursor_next reference_lmdb k e)" for e m k
    using ref_entry_least by (auto simp: reference_lmdb_def)
qed (auto simp: reference_lmdb_def ref_change_def map_of_filter_key finite_dom_map_of split: option.splits)




text \<open>C10. Pruning an LMDB storage: in a transaction, the loop over the entries returns; unless it throws because the
  map is full, exactly the undo data of blocks up to the given height is gone, and the current state is
  unchanged.\<close>

theorem lmdb_prune_exact:
  assumes lib: "lmdb_documented api committed seen roomy settled" and phase: "lmdb_phase committed seen st = Open"
  shows "\<exists>r st'. Lm_PruneUndoData api height st = Some (r, st') \<and> (r = Returned () \<longrightarrow>
    cur (lmdb_view committed seen st') = cur (lmdb_view committed seen st) \<and>
    (\<forall>h. undos (lmdb_view committed seen st') h = (case undos (lmdb_view committed seen st) h of
       None \<Rightarrow> None
     | Some (ht, d) \<Rightarrow> if ht \<le> height then None else Some (ht, d))))"
proof -
  obtain m where m: "seen (lm_env st) = Some m" "\<not> lm_needsResize st" "lm_startedTxn st" "lmdb_map_ok m"
    using phase unfolding lmdb_phase_simps by blast
  define m' where "m' = prune_map height ((\<le>) [KEY_PREFIX_UNDO]) m"
  obtain r st' where st': "Lm_PruneUndoData api height st = Some (r, st')" "lmdb_documented.written committed seen st m' r st'"
    using lmdb_documented.prune_call [OF lib m] unfolding m'_def by blast
  have "cur (lmdb_map_view m') = cur (lmdb_map_view m)"
    using lmdb_prune [OF m(4), of height "(\<le>) [KEY_PREFIX_UNDO]"] by (simp add: upd_prune_def m'_def)
  moreover have "undos (lmdb_map_view m') h = (case undos (lmdb_map_view m) h of
       None \<Rightarrow> None | Some (ht, d) \<Rightarrow> if ht \<le> height then None else Some (ht, d))" for h
    by (cases "m (KeyForUndoData h)") (simp_all add: lmdb_map_view_def m'_def prune_map_def, simp add: KeyForUndoData_def)
  moreover have "lmdb_view committed seen st = lmdb_map_view m"
    "r = Returned () \<Longrightarrow> lmdb_view committed seen st' = lmdb_map_view m'"
    using m(1) st'(2) by (simp_all add: lmdb_view_def lmdb_documented.written_def [OF lib])
  ultimately show ?thesis
    using st'(1) by auto
qed

text \<open>The example: two blocks with undo data, of heights 300 and 7.\<close>

definition lm_demo :: "ref_env lmdb_state" where
  "lm_demo = \<lparr>lm_env = \<lparr>re_committed = [], re_txn = Some
      [(KeyForUndoData (replicate 32 1), the (EncodeUnsigned 300) @ ''late''), (KeyForUndoData (replicate 32 2), the (EncodeUnsigned 7) @ ''early'')],
      re_free = 5, re_size = 100\<rparr>, lm_startedTxn = True, lm_needsResize = False\<rparr>"

lemma lm_demo_ok: "lmdb_phase (\<lambda>e. map_of (re_committed e)) (\<lambda>e. map_option map_of (re_txn e)) lm_demo = Open"
proof -
  obtain s where "EncodeUnsigned 300 = Some s" "length s = UNDO_HEIGHT_BYTES"
    by (rule EncodeUnsigned_returns)
  moreover obtain s' where "EncodeUnsigned 7 = Some s'" "length s' = UNDO_HEIGHT_BYTES"
    by (rule EncodeUnsigned_returns)
  ultimately show ?thesis
    unfolding lmdb_phase_simps by (auto simp: lm_demo_def lmdb_map_ok_def KeyForUndoData_other split: if_splits)
qed

lemma lm_demo_eval:
  "map_option fst (Lm_PruneUndoData reference_lmdb 255 lm_demo) = Some (Returned ())"
  "map_option (map_prod unat length) (undos (lmdb_view (\<lambda>e. map_of (re_committed e)) (\<lambda>e. map_option map_of (re_txn e)) lm_demo) (replicate 32 1)) =
    Some (300, 4)"
  "map_option (map_prod unat length) (undos (lmdb_view (\<lambda>e. map_of (re_committed e)) (\<lambda>e. map_option map_of (re_txn e)) lm_demo) (replicate 32 2)) =
    Some (7, 5)"
  by code_simp+

theorem lmdb_prune_exact_witness:
  "\<exists>st'. Lm_PruneUndoData reference_lmdb 255 lm_demo = Some (Returned (), st') \<and>
     undos (lmdb_view (\<lambda>e. map_of (re_committed e)) (\<lambda>e. map_option map_of (re_txn e)) st') (replicate 32 1) \<noteq> None \<and>
     undos (lmdb_view (\<lambda>e. map_of (re_committed e)) (\<lambda>e. map_option map_of (re_txn e)) st') (replicate 32 2) = None"
proof -
  let ?view = "lmdb_view (\<lambda>e. map_of (re_committed e)) (\<lambda>e. map_option map_of (re_txn e))"
  obtain st' where st': "Lm_PruneUndoData reference_lmdb 255 lm_demo = Some (Returned (), st')"
    "\<And>h. undos (?view st') h = (case undos (?view lm_demo) h of
       None \<Rightarrow> None | Some (ht, d) \<Rightarrow> if ht \<le> 255 then None else Some (ht, d))"
    using lmdb_prune_exact [OF reference_lmdb.lmdb_documented_axioms lm_demo_ok, of 255] lm_demo_eval(1) by auto
  obtain ht d ht' d' where "undos (?view lm_demo) (replicate 32 1) = Some (ht, d)" "unat ht = 300"
    "undos (?view lm_demo) (replicate 32 2) = Some (ht', d')" "unat ht' = 7"
    using lm_demo_eval(2,3) by auto
  then show ?thesis
    using st' by (auto simp: word_le_nat_alt)
qed


text \<open>A daemon on a database whose map is full: storing the initial state throws, the rollback doubles the map,
  and the second attempt succeeds.\<close>

definition lm_full :: "ref_env lmdb_state" where
  "lm_full = \<lparr>lm_env = \<lparr>re_committed = [], re_txn = None, re_free = 0, re_size = 8\<rparr>, lm_startedTxn = False, lm_needsResize = False\<rparr>"

definition lm_game_env :: "(ref_env lmdb_state, unit) game_env" where
  "lm_game_env = \<lparr>ge_storage = LMDBStorage reference_lmdb, ge_logic = demo_logic,
     ge_callbacks = \<lparr>cb_Clear = Some, cb_AddPendingMove = (\<lambda>_ _ _. Some)\<rparr>, ge_sha = (\<lambda>_. replicate 32 1)\<rparr>"

lemma full_map_is_resized:
  "map_option (\<lambda>g. (unat (re_size (lm_env (wrapped (g_storage g)))), map_of (re_committed (lm_env (wrapped (g_storage g)))) KEY_CURRENT_STATE))
     (ReinitialiseState lm_game_env (demo_daemon 7) (the (Game_new ''g'' ''regtest'' lm_full None))) = Some (16, Some ''start'')"
  by code_simp

end
