(* ===== verification/Compression.thy ===== *)
theory Compression
  imports Base64 Json "HOL-Library.Countable"
begin

text \<open>
  Compressed data and JSON: \<open>src/xayautil/compression.cpp\<close> and \<open>compression_internal.hpp\<close>.

  One call of zlib's \<open>deflate\<close> and \<open>inflate\<close> with \<open>Z_FINISH\<close> on a new raw stream is a parameter: it
  returns a code, the number of input bytes that it has used, and the output.  The documented
  behaviour is the locale \<open>zlib_documented\<close>: a buffer of the size \<open>deflateBound\<close> is enough, inflating
  gives the data back, and what follows the end of a compressed stream is not used.  The reference
  for it compresses into the stored blocks of RFC 1951.  The serialisation of JSON by jsoncpp is a
  parameter as well, with the locale \<open>jsoncpp_documented\<close>.

  Shown: compressing JSON and uncompressing it is the identity if the given limits are kept, and
  uncompressing fails if the data is too long; and data after the end of a compressed stream aborts
  the process, although invalid data should be refused.
\<close>

subsection \<open>zlib\<close>

datatype zlib_code = Z_OK | Z_STREAM_END | Z_NEED_DICT | Z_BUF_ERROR | Z_DATA_ERROR | Z_other int

record zlib_api =
  deflate_finish :: "string \<Rightarrow> nat \<Rightarrow> zlib_code \<times> nat \<times> string"
  deflateBound :: "nat \<Rightarrow> nat"
  inflate_finish :: "string \<Rightarrow> nat \<Rightarrow> zlib_code \<times> nat \<times> string"

definition ExtractOutput :: "string \<Rightarrow> nat \<Rightarrow> string run" where
  "ExtractOutput out outputSize = do { CHECK (length out \<le> outputSize); Some out }"

text \<open>No dictionary is set, so that its length is zero.\<close>

definition CompressData :: "zlib_api \<Rightarrow> string \<Rightarrow> string run" where
  "CompressData z dat =
     (let outputSize = deflateBound z (length dat); (res, total_in, out) = deflate_finish z dat outputSize
      in do {
        CHECK (res = Z_STREAM_END);
        CHECK (total_in = 0 + length dat);
        ExtractOutput out outputSize
      })"

definition UncompressData :: "zlib_api \<Rightarrow> string \<Rightarrow> nat \<Rightarrow> string option run" where
  "UncompressData z input maxOutputSize =
     (let (res, total_in, out) = inflate_finish z input maxOutputSize
      in case res of
           Z_STREAM_END \<Rightarrow>
             do {
               CHECK (total_in = length input);
               out \<leftarrow> ExtractOutput out maxOutputSize;
               Some (Some out)
             }
         | Z_BUF_ERROR \<Rightarrow> Some None
         | Z_NEED_DICT \<Rightarrow> Some None
         | Z_DATA_ERROR \<Rightarrow> Some None
         | _ \<Rightarrow> LOG_FATAL)"

subsection \<open>JSON\<close>

text \<open>Parsing, with a limit for the nesting, yields nothing also where jsoncpp throws.\<close>

record jsoncpp =
  write_json :: "json \<Rightarrow> string"
  parse_json :: "uint32 \<Rightarrow> string \<Rightarrow> json option"

definition CompressJson :: "zlib_api \<Rightarrow> jsoncpp \<Rightarrow> (string \<Rightarrow> string) \<Rightarrow> json \<Rightarrow> (string \<times> string) option run" where
  "CompressJson z jc evp val =
     (if \<not> isObject val \<and> \<not> isArray val then Some None
      else do {
        let uncompressed = write_json jc val;
        compressed \<leftarrow> CompressData z uncompressed;
        encoded \<leftarrow> EncodeBase64 evp compressed;
        Some (Some (encoded, uncompressed))
      })"

definition UncompressJson ::
    "zlib_api \<Rightarrow> jsoncpp \<Rightarrow> (string \<Rightarrow> string option) \<Rightarrow> string \<Rightarrow> nat \<Rightarrow> uint32 \<Rightarrow> (json \<times> string) option run" where
  "UncompressJson z jc evp input maxOutputSize stackLimit =
     do {
       r \<leftarrow> DecodeBase64 evp input;
       (case r of
          None \<Rightarrow> Some None
        | Some compressed \<Rightarrow>
            do {
              r \<leftarrow> UncompressData z compressed maxOutputSize;
              (case r of
                 None \<Rightarrow> Some None
               | Some uncompressed \<Rightarrow>
                   (case parse_json jc stackLimit uncompressed of
                      None \<Rightarrow> Some None
                    | Some val \<Rightarrow> Some (if isObject val \<or> isArray val then Some (val, uncompressed) else None)))
            })
     }"

subsection \<open>What the documentation says\<close>

locale zlib_documented =
  fixes z :: zlib_api and deflated :: "string \<Rightarrow> string"
  assumes deflate_law: "deflate_finish z dat (deflateBound z (length dat)) = (Z_STREAM_END, length dat, deflated dat)"
      "length (deflated dat) \<le> deflateBound z (length dat)"
    and inflate_law: "length dat \<le> n \<Longrightarrow> inflate_finish z (deflated dat @ extra) n = (Z_STREAM_END, length (deflated dat), dat)"
      "n < length dat \<Longrightarrow> fst (inflate_finish z (deflated dat @ extra) n) = Z_BUF_ERROR"
begin

lemma CompressData_eq: "CompressData z dat = Some (deflated dat)"
  by (simp add: CompressData_def deflate_law ExtractOutput_def bind_CHECK)

lemma UncompressData_eq:
  "UncompressData z (deflated dat @ extra) n = (if n < length dat then Some None else if extra = [] then Some (Some dat) else None)"
proof (cases "n < length dat")
  case True
  then show ?thesis
    using inflate_law(2) [OF True, of extra] by (auto simp: UncompressData_def Let_def split: prod.splits)
next
  case False
  then show ?thesis
    by (simp add: UncompressData_def inflate_law(1) ExtractOutput_def bind_CHECK)
qed

end

fun json_depth :: "json \<Rightarrow> nat" where
  "json_depth (JArray vs) = Suc (fold max (map json_depth vs) 0)"
| "json_depth (JObject fs) = Suc (fold max (map (json_depth \<circ> snd) fs) 0)"
| "json_depth _ = 1"

text \<open>Values as jsoncpp keeps them, without floating-point numbers: 64-bit integers, and the members of an
  object in the order of their names.\<close>

fun json_plain :: "json \<Rightarrow> bool" where
  "json_plain (JReal m e) \<longleftrightarrow> False"
| "json_plain (JInt i) \<longleftrightarrow> - (2 ^ 63) \<le> i \<and> i < 2 ^ 64"
| "json_plain (JArray vs) \<longleftrightarrow> list_all json_plain vs"
| "json_plain (JObject fs) \<longleftrightarrow>
     sorted_wrt (\<lambda>a b. (a, b) \<in> lexord {(c, d). of_char c < (of_char d :: nat)}) (map fst fs) \<and> list_all (json_plain \<circ> snd) fs"
| "json_plain _ \<longleftrightarrow> True"

locale jsoncpp_documented =
  fixes jc :: jsoncpp
  assumes parse_law: "json_plain v \<Longrightarrow> json_depth v \<le> unat limit \<Longrightarrow> parse_json jc limit (write_json jc v) = Some v"

locale json_compression = zlib_documented z deflated + jsoncpp_documented jc + evp_base64 evp_encode evp_decode
  for z deflated jc evp_encode evp_decode
begin

lemma compressed_json:
  assumes "isObject v \<or> isArray v"
  shows "\<exists>enc. CompressJson z jc evp_encode v = Some (Some (enc, write_json jc v)) \<and>
    DecodeBase64 evp_decode enc = Some (Some (deflated (write_json jc v)))"
  using Decode_Encode [of "deflated (write_json jc v)"] assms
  by (auto simp: CompressJson_def CompressData_eq Encode_total Let_def)

lemma roundtrip:
  assumes v: "json_plain v" "json_depth v \<le> unat limit" and "isObject v \<or> isArray v"
  shows "\<exists>enc. CompressJson z jc evp_encode v = Some (Some (enc, write_json jc v)) \<and>
    UncompressJson z jc evp_decode enc n limit =
      Some (if length (write_json jc v) \<le> n then Some (v, write_json jc v) else None)"
  using compressed_json [OF assms(3)] assms(3) UncompressData_eq [of "write_json jc v" "[]" n] parse_law [OF v]
  by (auto simp: UncompressJson_def)

end



subsection \<open>Stored blocks\<close>

text \<open>The format of RFC 1951 without compression.  A block starts with a byte that tells whether it is the
  last one, its length and the complement of the length; blocks of at most 255 bytes are used.\<close>

definition block_header :: "bool \<Rightarrow> nat \<Rightarrow> string" where
  "block_header final n = map char_of [of_bool final, n, 0, 255 - n, 255 :: nat]"

function stored_blocks :: "string \<Rightarrow> string" where
  "stored_blocks dat =
     (if length dat \<le> 255 then block_header True (length dat) @ dat
      else block_header False 255 @ take 255 dat @ stored_blocks (drop 255 dat))"
  by auto
termination
  by (relation "measure length") auto

declare stored_blocks.simps [simp del]

function read_blocks :: "string \<Rightarrow> nat \<Rightarrow> zlib_code \<times> nat \<times> string" where
  "read_blocks s n =
     (if length s < 5 then (Z_BUF_ERROR, 0, [])
      else
        let h = map of_char (take 5 s) :: nat list; len = h ! 1 + 256 * h ! 2; rest = drop 5 s
        in if h ! 0 > 1 \<or> h ! 1 + h ! 3 \<noteq> 255 \<or> h ! 2 + h ! 4 \<noteq> 255 then (Z_DATA_ERROR, 0, [])
           else if length rest < len \<or> n < len then (Z_BUF_ERROR, 0, [])
           else if h ! 0 = 1 then (Z_STREAM_END, 5 + len, take len rest)
           else let (res, total_in, out) = read_blocks (drop len rest) (n - len)
             in (res, 5 + len + total_in, take len rest @ out))"
  by auto
termination
  by (relation "measure (length \<circ> fst)") auto

declare read_blocks.simps [simp del]

lemma read_header:
  assumes "k \<le> 255"
  shows "read_blocks (block_header final k @ s) n =
    (if length s < k \<or> n < k then (Z_BUF_ERROR, 0, [])
     else if final then (Z_STREAM_END, 5 + k, take k s)
     else let (res, total_in, out) = read_blocks (drop k s) (n - k) in (res, 5 + k + total_in, take k s @ out))"
  using assms by (subst read_blocks.simps) (cases final; simp add: block_header_def Let_def)

lemma length_header [simp]: "length (block_header final k) = 5"
  by (simp add: block_header_def)

lemma read_stored:
  "(length dat \<le> n \<longrightarrow> read_blocks (stored_blocks dat @ extra) n = (Z_STREAM_END, length (stored_blocks dat), dat)) \<and>
   (n < length dat \<longrightarrow> fst (read_blocks (stored_blocks dat @ extra) n) = Z_BUF_ERROR)"
proof (induction dat arbitrary: n rule: stored_blocks.induct)
  case (1 dat)
  show ?case
  proof (cases "length dat \<le> 255")
    case True
    then have "stored_blocks dat = block_header True (length dat) @ dat"
      by (subst stored_blocks.simps) simp
    then show ?thesis
      using True by (simp add: read_header)
  next
    case False
    then have eq: "stored_blocks dat = block_header False 255 @ take 255 dat @ stored_blocks (drop 255 dat)"
      by (subst stored_blocks.simps) simp
    have read: "read_blocks (stored_blocks dat @ extra) n =
        (if n < 255 then (Z_BUF_ERROR, 0, [])
         else let (res, total_in, out) = read_blocks (stored_blocks (drop 255 dat) @ extra) (n - 255)
           in (res, 260 + total_in, take 255 dat @ out))"
      using False unfolding eq append_assoc by (subst read_header) simp_all
    show ?thesis
      using 1 [OF False, of "n - 255"] False unfolding read by (auto simp: eq split: prod.splits)
  qed
qed

definition reference_zlib :: zlib_api where
  "reference_zlib =
     \<lparr>deflate_finish = (\<lambda>dat n. (Z_STREAM_END, length dat, stored_blocks dat)),
      deflateBound = (\<lambda>n. length (stored_blocks (replicate n CHR 0x00))),
      inflate_finish = read_blocks\<rparr>"

lemma length_stored: "length a = length b \<Longrightarrow> length (stored_blocks a) = length (stored_blocks b)"
proof (induction a arbitrary: b rule: stored_blocks.induct)
  case (1 a)
  show ?case
    using 1 by (subst (1 2) stored_blocks.simps) simp
qed

interpretation stored: zlib_documented reference_zlib stored_blocks
proof unfold_locales
  show "length (stored_blocks dat) \<le> deflateBound reference_zlib (length dat)" for dat
    using length_stored [of dat "replicate (length dat) CHR 0x00"] by (simp add: reference_zlib_def)
qed (simp_all add: reference_zlib_def read_stored)


text \<open>A serialisation of JSON that respects the limit.\<close>

instance json :: countable
  by countable_datatype

definition reference_json :: jsoncpp where
  "reference_json =
     \<lparr>write_json = (\<lambda>v. replicate (to_nat v) CHR ''x''),
      parse_json = (\<lambda>limit s. let v = from_nat (length s) in if json_depth v \<le> unat limit then Some v else None)\<rparr>"

interpretation stored_json: json_compression reference_zlib stored_blocks reference_json rfc_encode rfc_decode
  by unfold_locales (simp add: reference_json_def)


end
