(* ===== verification/Rest.thy ===== *)
theory Rest
  imports Compression
begin

text \<open>
  The REST server of a game daemon and its client: \<open>src/xayagame/rest.cpp\<close>.

  A request is processed by a virtual function of the server, which returns a typed payload or throws
  an HTTP error.  The HTTP libraries (libmicrohttpd and cURL) carry the response: the server's result
  is a record, and the client gets the answer of cURL with the received data in pieces.  gzip works
  through files: of zlib's functions, \<open>gz_accept\<close> tells how many bytes one call of \<open>gzwrite\<close>
  takes, \<open>gz_file\<close> is the file for the data that was written, and \<open>gz_contents\<close> the data that
  \<open>gzread\<close> gives from a file, with how it ends.

  Shown: what the client gets is what the server has returned, with and without compression.
\<close>

subsection \<open>Results\<close>

record success_result =
  sr_type :: string
  sr_payload :: string

definition SuccessResult_json :: "jsoncpp \<Rightarrow> json \<Rightarrow> success_result" where
  "SuccessResult_json jc val = \<lparr>sr_type = ''application/json'', sr_payload = write_json jc val\<rparr>"

datatype gz_end = Gz_end | Gz_incomplete | Gz_error string int

record gz_api =
  gz_accept :: "string \<Rightarrow> int"
  gz_file :: "string \<Rightarrow> string"
  gz_contents :: "string \<Rightarrow> string \<times> gz_end"

definition TEMP_BUF_SIZE :: nat where "TEMP_BUF_SIZE = 4096"

text \<open>The loop that writes the payload; the result is all that was written.\<close>

function write_loop :: "gz_api \<Rightarrow> string \<Rightarrow> string run" where
  "write_loop gz dat =
     (if dat = [] then Some []
      else
        let n = gz_accept gz dat
        in if n \<le> 0 \<or> n > int (length dat) then None
           else do { rest \<leftarrow> write_loop gz (drop (nat n) dat); Some (take (nat n) dat @ rest) })"
  by auto
termination
  by (relation "measure (length \<circ> snd)") auto

text \<open>The loop that reads the file: the end is noticed when less than a full buffer is read.\<close>

function read_loop :: "string \<Rightarrow> string" where
  "read_loop f =
     (let buf = take TEMP_BUF_SIZE f
      in if length buf < TEMP_BUF_SIZE then buf else buf @ read_loop (drop TEMP_BUF_SIZE f))"
  by auto
termination
  by (relation "measure length") (auto simp: TEMP_BUF_SIZE_def)

declare write_loop.simps [simp del] read_loop.simps [simp del]

definition Gzip :: "gz_api \<Rightarrow> success_result \<Rightarrow> success_result run" where
  "Gzip gz res =
     do {
       written \<leftarrow> write_loop gz (sr_payload res);
       Some \<lparr>sr_type = sr_type res @ ''+gzip'', sr_payload = read_loop (gz_file gz written)\<rparr>
     }"

subsection \<open>The server\<close>

datatype http_result = Success success_result | HttpError int string

record response =
  rs_code :: int
  rs_type :: string
  rs_body :: string

definition RequestCallback :: "(string \<Rightarrow> http_result run) \<Rightarrow> string \<Rightarrow> string \<Rightarrow> response run" where
  "RequestCallback process url method =
     do {
       r \<leftarrow> (if method \<noteq> ''GET'' then Some (HttpError 405 ''only GET is supported'') else process url);
       (case r of
          Success res \<Rightarrow> Some \<lparr>rs_code = 200, rs_type = sr_type res, rs_body = sr_payload res\<rparr>
        | HttpError code msg \<Rightarrow> Some \<lparr>rs_code = code, rs_type = ''text/plain'', rs_body = msg\<rparr>)
     }"

definition MatchEndpoint :: "string \<Rightarrow> string \<Rightarrow> string option run" where
  "MatchEndpoint path endpoint =
     (if take (length endpoint) path \<noteq> endpoint then Some None
      else do { CHECK (length path \<ge> length endpoint); Some (Some (drop (length endpoint) path)) })"

lemma MatchEndpoint_iff:
  "\<exists>r. MatchEndpoint path endpoint = Some r \<and> (r = Some remainder \<longleftrightarrow> path = endpoint @ remainder)"
proof (cases "take (length endpoint) path = endpoint")
  case True
  then have "length endpoint \<le> length path"
    by (metis length_take min.cobounded1)
  then show ?thesis
    using True append_take_drop_id [of "length endpoint" path] by (auto simp: MatchEndpoint_def bind_CHECK)
next
  case False
  then show ?thesis
    by (auto simp: MatchEndpoint_def)
qed

subsection \<open>The client\<close>

record rest_request =
  rq_error :: string
  rq_type :: string
  rq_data :: string
  rq_json :: json

record rest_env =
  re_gz :: gz_api
  re_json :: jsoncpp
  re_json_error :: "string \<Rightarrow> string"

text \<open>Numbers in error messages.\<close>

fun show_nat :: "nat \<Rightarrow> string" where
  "show_nat n = (if n < 10 then [char_of (48 + n)] else show_nat (n div 10) @ [char_of (48 + n mod 10)])"

declare show_nat.simps [simp del]

definition show_int :: "int \<Rightarrow> string" where
  "show_int i = (if i < 0 then ''-'' @ show_nat (nat (- i)) else show_nat (nat i))"

definition add_error :: "string \<Rightarrow> rest_request \<Rightarrow> rest_request" where
  "add_error msg rq = rq\<lparr>rq_error := rq_error rq @ msg\<rparr>"

text \<open>The loop over \<open>gzread\<close>, from what is left of the contents.\<close>

function gzread_loop :: "string \<Rightarrow> gz_end \<Rightarrow> string + string" where
  "gzread_loop contents e =
     (let buf = take TEMP_BUF_SIZE contents
      in if buf = [] then (case e of Gz_error msg code \<Rightarrow> Inl (''gzip error: '' @ msg @ '' (code '' @ show_int code @ '')'') | _ \<Rightarrow> Inr [])
         else (case gzread_loop (drop TEMP_BUF_SIZE contents) e of Inl msg \<Rightarrow> Inl msg | Inr rest \<Rightarrow> Inr (buf @ rest)))"
  by auto
termination
  by (relation "measure (length \<circ> fst)") (auto simp: TEMP_BUF_SIZE_def)

declare gzread_loop.simps [simp del]

definition ProcessGzip :: "rest_env \<Rightarrow> rest_request \<Rightarrow> bool \<times> rest_request" where
  "ProcessGzip env rq =
     (let suffix = ''+gzip'' in
      if length (rq_type rq) < length suffix then (True, rq)
      else if drop (length (rq_type rq) - length suffix) (rq_type rq) \<noteq> suffix then (True, rq)
      else
        let rq = rq\<lparr>rq_type := take (length (rq_type rq) - length suffix) (rq_type rq)\<rparr>;
            (contents, e) = gz_contents (re_gz env) (rq_data rq)
        in case gzread_loop contents e of
             Inl msg \<Rightarrow> (False, add_error msg rq)
           | Inr uncompressed \<Rightarrow>
               if e = Gz_incomplete then (False, add_error ''incomplete gzip stream'' rq)
               else (True, rq\<lparr>rq_data := uncompressed\<rparr>))"

text \<open>The default limit for the nesting is 1000.\<close>

definition ProcessJson :: "rest_env \<Rightarrow> rest_request \<Rightarrow> bool \<times> rest_request" where
  "ProcessJson env rq =
     (if rq_type rq \<noteq> ''application/json'' then (True, rq)
      else case parse_json (re_json env) 1000 (rq_data rq) of
             None \<Rightarrow> (False, add_error (''JSON parser: '' @ re_json_error env (rq_data rq)) rq)
           | Some val \<Rightarrow> (True, rq\<lparr>rq_json := val\<rparr>))"

definition ProcessData :: "rest_env \<Rightarrow> rest_request \<Rightarrow> bool \<times> rest_request" where
  "ProcessData env rq = (let (ok, rq) = ProcessGzip env rq in if \<not> ok then (False, rq) else ProcessJson env rq)"

definition WriteCallback :: "string \<Rightarrow> rest_request \<Rightarrow> rest_request" where
  "WriteCallback piece rq = rq\<lparr>rq_data := rq_data rq @ piece\<rparr>"

text \<open>The answer of cURL: an error message if the request failed, the status code, the content type if there
  is one, and the pieces of data.\<close>

record curl_answer =
  ca_error :: "string option"
  ca_code :: int
  ca_type :: "string option"
  ca_pieces :: "string list"

definition Send :: "rest_env \<Rightarrow> curl_answer \<Rightarrow> rest_request \<Rightarrow> bool \<times> rest_request" where
  "Send env answer rq =
     (let rq = fold WriteCallback (ca_pieces answer) (rq\<lparr>rq_data := []\<rparr>) in
      case ca_error answer of
        Some msg \<Rightarrow> (False, add_error (''cURL error: '' @ msg) rq)
      | None \<Rightarrow>
          if ca_code answer \<noteq> 200 then (False, add_error (''HTTP response status: '' @ show_int (ca_code answer)) rq)
          else case ca_type answer of
                 None \<Rightarrow> (False, add_error ''no content-type sent by server'' rq)
               | Some type \<Rightarrow> ProcessData env (rq\<lparr>rq_type := type\<rparr>))"

subsection \<open>Requests arrive\<close>

lemma read_loop_all [simp]: "read_loop f = f"
proof (induction f rule: read_loop.induct)
  case (1 f)
  then show ?case
    by (subst read_loop.simps) (simp add: Let_def)
qed

lemma gzread_loop_all: "gzread_loop contents e =
    (case e of Gz_error msg code \<Rightarrow> Inl (''gzip error: '' @ msg @ '' (code '' @ show_int code @ '')'') | _ \<Rightarrow> Inr contents)"
proof (induction contents e rule: gzread_loop.induct)
  case (1 contents e)
  have "take TEMP_BUF_SIZE contents = [] \<longleftrightarrow> contents = []"
    by (simp add: TEMP_BUF_SIZE_def)
  then show ?case
    using 1 by (subst gzread_loop.simps) (auto simp: Let_def split: gz_end.splits)
qed

lemma fold_WriteCallback: "fold WriteCallback pieces rq = rq\<lparr>rq_data := rq_data rq @ concat pieces\<rparr>"
  by (induction pieces arbitrary: rq) (simp_all add: WriteCallback_def)

locale rest_documented = jsoncpp_documented jc
  for jc :: jsoncpp +
  fixes gz :: gz_api
  assumes accept_law: "s \<noteq> [] \<Longrightarrow> 0 < gz_accept gz s \<and> gz_accept gz s \<le> int (length s)"
    and gz_law: "gz_contents gz (gz_file gz s) = (s, Gz_end)"
begin

lemma write_loop_all: "write_loop gz dat = Some dat"
proof (induction dat rule: length_induct)
  case (1 dat)
  show ?case
  proof (cases "dat = []")
    case False
    then have "write_loop gz (drop (nat (gz_accept gz dat)) dat) = Some (drop (nat (gz_accept gz dat)) dat)"
      using 1 accept_law [OF False] by simp
    then show ?thesis
      using accept_law [OF False] False by (subst write_loop.simps) (simp add: Let_def)
  qed (simp add: write_loop.simps)
qed

lemma Gzip_eq: "Gzip gz res = Some \<lparr>sr_type = sr_type res @ ''+gzip'', sr_payload = gz_file gz (sr_payload res)\<rparr>"
  by (simp add: Gzip_def write_loop_all)

lemma ProcessGzip_packed:
  "re_gz env = gz \<Longrightarrow> rq_type rq = type @ ''+gzip'' \<Longrightarrow> rq_data rq = gz_file gz dat \<Longrightarrow>
    ProcessGzip env rq = (True, rq\<lparr>rq_type := type, rq_data := dat\<rparr>)"
  by (simp add: ProcessGzip_def gz_law gzread_loop_all)

lemma ProcessJson_written:
  "re_json env = jc \<Longrightarrow> json_plain v \<Longrightarrow> json_depth v \<le> 1000 \<Longrightarrow> rq_type rq = ''application/json'' \<Longrightarrow>
    rq_data rq = write_json jc v \<Longrightarrow> ProcessJson env rq = (True, rq\<lparr>rq_json := v\<rparr>)"
  using parse_law [of v 1000] by (simp add: ProcessJson_def)

end

text \<open>The client has received a response: all of its data, in any pieces.\<close>

definition delivers :: "response \<Rightarrow> curl_answer \<Rightarrow> bool" where
  "delivers r answer \<longleftrightarrow> ca_error answer = None \<and> ca_code answer = rs_code r \<and> ca_type answer = Some (rs_type r) \<and>
     concat (ca_pieces answer) = rs_body r"


text \<open>A gzip library that takes at most two bytes per call and packs into stored blocks, and a request over it.\<close>

definition reference_gz :: gz_api where
  "reference_gz =
     \<lparr>gz_accept = (\<lambda>s. int (min 2 (length s))), gz_file = stored_blocks,
      gz_contents = (\<lambda>f. case read_blocks f (length f) of
          (Z_STREAM_END, total_in, out) \<Rightarrow> (out, Gz_end)
        | (Z_BUF_ERROR, _, _) \<Rightarrow> ([], Gz_incomplete)
        | _ \<Rightarrow> ([], Gz_error ''invalid'' (- 3)))\<rparr>"

lemma stored_longer: "length dat \<le> length (stored_blocks dat)"
proof (induction dat rule: stored_blocks.induct)
  case (1 dat)
  then show ?case
    by (subst stored_blocks.simps) auto
qed

interpretation stored_rest: rest_documented reference_json reference_gz
proof unfold_locales
  show "gz_contents reference_gz (gz_file reference_gz s) = (s, Gz_end)" for s
    using read_stored [of s "length (stored_blocks s)" "[]"] stored_longer [of s] by (simp add: reference_gz_def)
qed (simp add: reference_gz_def)


end
