(* ===== verification/Channel_Json.thy ===== *)
theory Channel_Json
  imports Ships_Logic
begin

text \<open>
  The state of channels as JSON: \<open>src/gamechannel/gamestatejson.cpp\<close>, the state of Xayaships in
  \<open>src/ships/gamestatejson.cpp\<close>, and \<open>ToJson\<close> of a board in \<open>src/ships/board.cpp\<close>.

  The serialisation of the messages is protobuf's, and a record of functions.  What a board has to say
  about itself (\<open>ParsedBoardState::ToJson\<close>) is an argument.

  Shown here: a board of a real game is always rendered.
\<close>

record channel_codec =
  ser_meta :: "channel_metadata \<Rightarrow> string"
  par_meta :: "string \<Rightarrow> channel_metadata option"
  ser_proof :: "state_proof \<Rightarrow> string"
  par_proof :: "string \<Rightarrow> state_proof option"

definition ProtoToBase64 :: "channel_env \<Rightarrow> ('m \<Rightarrow> string) \<Rightarrow> 'm \<Rightarrow> string run" where
  "ProtoToBase64 env ser msg = EncodeBase64 (env_encode env) (ser msg)"

definition participant_json :: "channel_participant \<Rightarrow> json" where
  "participant_json p = JObject [(''name'', JString (participant_name p)), (''address'', JString (address p))]"

definition ChannelMetadataToJson :: "channel_env \<Rightarrow> channel_codec \<Rightarrow> channel_metadata \<Rightarrow> json run" where
  "ChannelMetadataToJson env cc meta =
     do {
       r \<leftarrow> EncodeBase64 (env_encode env) (reinit meta);
       pb \<leftarrow> ProtoToBase64 env (ser_meta cc) meta;
       Some (JObject
         [(''participants'', JArray (map participant_json (participants meta))),
          (''reinit'', JString r), (''proto'', JString pb)])
     }"

definition BoardStateToJson ::
    "channel_env \<Rightarrow> 'ps board_rules \<Rightarrow> ('ps \<Rightarrow> json run) \<Rightarrow> uint256 \<Rightarrow> channel_metadata \<Rightarrow> string \<Rightarrow> json run" where
  "BoardStateToJson env r toJson channelId meta state =
     do {
       b \<leftarrow> EncodeBase64 (env_encode env) state;
       parsed \<leftarrow> parse_proven r channelId meta state;
       parsedJson \<leftarrow> toJson parsed;
       turn \<leftarrow> WhoseTurn r parsed;
       cnt \<leftarrow> TurnCount r parsed;
       Some (JObject
         ((''base64'', JString b) #
          (if parsedJson = JNull then [] else [(''parsed'', parsedJson)]) @
          [(''whoseturn'', if turn = NO_TURN then JNull else JInt turn),
           (''turncount'', JInt (sint cnt))]))
     }"

definition ChannelToGameStateJson ::
    "channel_env \<Rightarrow> channel_codec \<Rightarrow> 'ps board_rules \<Rightarrow> ('ps \<Rightarrow> json run) \<Rightarrow> channel_data \<Rightarrow> json run" where
  "ChannelToGameStateJson env cc r toJson ch =
     (let i = cd_id ch; meta = cd_metadata ch in
      do {
        disp \<leftarrow> (if HasDispute ch
          then do { h \<leftarrow> GetDisputeHeight ch; Some [(''disputeheight'', JInt (sint h))] } else Some []);
        m \<leftarrow> ChannelMetadataToJson env cc meta;
        s \<leftarrow> BoardStateToJson env r toJson i meta (ChannelData_GetLatestState ch);
        pf \<leftarrow> ProtoToBase64 env (ser_proof cc) (cd_proof ch);
        re \<leftarrow> BoardStateToJson env r toJson i meta (cd_reinit ch);
        Some (JObject ((''id'', JString (ToHex i)) # disp @
          [(''meta'', m), (''state'', JObject (json_fields s @ [(''proof'', JString pf)])), (''reinit'', re)]))
      })"

fun channels_json ::
    "channel_env \<Rightarrow> channel_codec \<Rightarrow> 'ps board_rules \<Rightarrow> ('ps \<Rightarrow> json run) \<Rightarrow> channel_data list \<Rightarrow>
     (string \<times> json) list run" where
  "channels_json env cc r toJson [] = Some []"
| "channels_json env cc r toJson (ch # chs) =
     do {
       v \<leftarrow> ChannelToGameStateJson env cc r toJson ch;
       rest \<leftarrow> channels_json env cc r toJson chs;
       Some ((ToHex (cd_id ch), v) # rest)
     }"

definition AllChannelsGameStateJson ::
    "channel_env \<Rightarrow> channel_codec \<Rightarrow> 'ps board_rules \<Rightarrow> ('ps \<Rightarrow> json run) \<Rightarrow> channels_table \<Rightarrow> json run" where
  "AllChannelsGameStateJson env cc r toJson tbl = map_option JObject (channels_json env cc r toJson (QueryAll tbl))"

subsection \<open>Xayaships\<close>

definition phase_string :: "Phase \<Rightarrow> string run" where
  "phase_string ph =
     (case ph of
        FIRST_COMMITMENT \<Rightarrow> Some ''first commitment''
      | SECOND_COMMITMENT \<Rightarrow> Some ''second commitment''
      | FIRST_REVEAL_SEED \<Rightarrow> Some ''first reveal seed''
      | SHOOT \<Rightarrow> Some ''shoot''
      | ANSWER \<Rightarrow> Some ''answer''
      | SECOND_REVEAL_POSITION \<Rightarrow> Some ''second reveal position''
      | FINISHED \<Rightarrow> Some ''finished''
      | _ \<Rightarrow> LOG_FATAL)"

definition position_json :: "uint64 \<Rightarrow> json run" where
  "position_json p = (if p = 0 then Some JNull else map_option JString (Grid_ToString \<lparr>bits = p\<rparr>))"

text \<open>One cell and one row of the known ships of a player.\<close>

definition guess_char :: "known_ships \<Rightarrow> coord \<Rightarrow> char run" where
  "guess_char ks cell =
     do {
       h \<leftarrow> Grid_Get \<lparr>bits = hits ks\<rparr> cell;
       g \<leftarrow> Grid_Get \<lparr>bits = guessed ks\<rparr> cell;
       if h then do { CHECK g; Some (CHR ''x'') }
       else Some (if g then CHR ''m'' else CHR ''.'')
     }"

definition guesses_string :: "known_ships \<Rightarrow> string run" where
  "guesses_string ks =
     map_option concat (those (map (\<lambda>r.
       map_option (\<lambda>cs. cs @ [CHR 0x0A])
         (those (map (\<lambda>c. guess_char ks \<lparr>row = r, column = c\<rparr>) [0..SIDE - 1]))) [0..SIDE - 1]))"

definition ShipsBoardState_ToJson :: "board_state proto_board_state \<Rightarrow> json run" where
  "ShipsBoardState_ToJson p =
     (if length (participants (pbs_meta p)) = 1 then Some (JObject [(''phase'', JString ''single participant'')])
      else
        let pb = pbs_state p in
        do {
          ph \<leftarrow> phase_string (GetPhase pb);
          ships \<leftarrow>
            (if positions pb = [] then Some []
             else do {
               CHECK (length (positions pb) = 2);
               ps \<leftarrow> those (map position_json (positions pb));
               Some [(''ships'', JArray ps)]
             });
          guesses \<leftarrow>
            (if known_ships pb = [] then Some []
             else do {
               CHECK (length (known_ships pb) = 2);
               ks \<leftarrow> those (map guesses_string (known_ships pb));
               Some [(''guesses'', JArray (map JString ks))]
             });
          Some (JObject ((''phase'', JString ph) #
            (case bs_winner pb of None \<Rightarrow> [] | Some w \<Rightarrow> [(''winner'', JInt (uint w))]) @ ships @ guesses))
        })"

definition GetFullJson :: "ships_env \<Rightarrow> channel_codec \<Rightarrow> ships_db \<Rightarrow> json run" where
  "GetFullJson env cc db =
     do {
       chs \<leftarrow> AllChannelsGameStateJson (senv_channel env) cc (ships_boardRules env) ShipsBoardState_ToJson (db_channels db);
       Some (JObject
         [(''gamestats'', JObject (map (\<lambda>(nm, won, lost).
             (nm, JObject [(''won'', JInt won), (''lost'', JInt lost)])) (db_stats db))),
          (''channels'', chs)])
     }"

subsection \<open>Rendering is total\<close>

lemma those_total: "(\<And>x. x \<in> set xs \<Longrightarrow> f x \<noteq> None) \<Longrightarrow> \<exists>ys. those (map f xs) = Some ys"
  using those_map_Some [of xs f "\<lambda>x. the (f x)"] by force

lemma Get_on_board:
  assumes "0 \<le> r" "r \<le> SIDE - 1" "0 \<le> c" "c \<le> SIDE - 1"
  shows "Grid_Get g \<lparr>row = r, column = c\<rparr> = Some (nat (r * SIDE + c) \<in> cells g)"
proof -
  have "nat (r * SIDE + c) < 64" "Coord_of_index (int (nat (r * SIDE + c))) = \<lparr>row = r, column = c\<rparr>"
    using assms coord_row_column [of "nat c" "nat r"] by (auto simp: SIDE_def nat_add_distrib nat_mult_distrib mult.commute)
  then show ?thesis
    using Get_index [of "nat (r * SIDE + c)" g] by simp
qed

lemma guesses_total:
  assumes "hits k AND NOT (guessed k) = 0"
  shows "guesses_string k \<noteq> None"
proof -
  have sub: "cells \<lparr>bits = hits k\<rparr> \<subseteq> cells \<lparr>bits = guessed k\<rparr>"
    using assms by (simp add: subset_cells)
  have cell: "guess_char k \<lparr>row = r, column = c\<rparr> \<noteq> None"
    if "r \<in> set [0..SIDE - 1]" "c \<in> set [0..SIDE - 1]" for r c
    using that sub by (auto simp: guess_char_def Get_on_board bind_CHECK)
  have "those (map (\<lambda>c. guess_char k \<lparr>row = r, column = c\<rparr>) [0..SIDE - 1]) \<noteq> None" if "r \<in> set [0..SIDE - 1]" for r
    using those_total [of "[0..SIDE - 1]" "\<lambda>c. guess_char k \<lparr>row = r, column = c\<rparr>"] cell [OF that] by auto
  then have "\<exists>ys. those (map (\<lambda>r. map_option (\<lambda>cs. cs @ [CHR 0x0A])
      (those (map (\<lambda>c. guess_char k \<lparr>row = r, column = c\<rparr>) [0..SIDE - 1]))) [0..SIDE - 1]) = Some ys"
    by (intro those_total) simp
  then show ?thesis
    by (auto simp: guesses_string_def)
qed

lemma position_json_total: "position_json p \<noteq> None"
  using FromString_ToString [of "\<lparr>bits = p\<rparr>"] by (cases "Grid_ToString \<lparr>bits = p\<rparr>") (simp_all add: position_json_def)

lemma phase_string_total: "ph \<noteq> INVALID \<Longrightarrow> \<exists>s. phase_string ph = Some s"
  by (cases ph) (simp_all add: phase_string_def)

lemma inv_lists:
  assumes "board_inv pb"
  shows "positions pb = [] \<or> length (positions pb) = 2"
    and "known_ships pb = [] \<or> known_ok pb"
proof -
  consider "untouched pb" | "known_ok pb" "positions pb = []" | "known_ok pb" "length (positions pb) = 2"
    using board_inv_phase [OF assms] phase_iffs(5-7) [of pb] by (metis Phase.exhaust)
  then have "(positions pb = [] \<or> length (positions pb) = 2) \<and> (known_ships pb = [] \<or> known_ok pb)"
    by cases (simp_all add: untouched_def)
  then show "positions pb = [] \<or> length (positions pb) = 2" "known_ships pb = [] \<or> known_ok pb"
    by simp_all
qed

lemma ShipsBoardState_ToJson_total:
  assumes "board_inv (pbs_state p)"
  shows "ShipsBoardState_ToJson p \<noteq> None"
proof -
  obtain s where s: "phase_string (GetPhase (pbs_state p)) = Some s"
    using phase_string_total board_inv_phase(8) [OF assms] by blast
  obtain ps where ps: "those (map position_json (positions (pbs_state p))) = Some ps"
    using those_total [of "positions (pbs_state p)" position_json] position_json_total by blast
  obtain ks where ks: "known_ships (pbs_state p) = [] \<or>
      length (known_ships (pbs_state p)) = 2 \<and> those (map guesses_string (known_ships (pbs_state p))) = Some ks"
    using those_total [of "known_ships (pbs_state p)" guesses_string] guesses_total inv_lists(2) [OF assms]
    by (auto simp: known_ok_def)
  show ?thesis
    using s ps ks inv_lists(1) [OF assms] by (auto simp: ShipsBoardState_ToJson_def Let_def bind_CHECK)
qed

end
