(* ===== verification/Channel_Manager.thy ===== *)
theory Channel_Manager
  imports Channel_Json
begin

text \<open>
  The client side of a game channel: \<open>src/gamechannel/channelmanager.cpp\<close> with the interface
  \<open>openchannel.hpp\<close> to the game, the sender of on-chain moves \<open>movesender.cpp\<close>, the exchange of
  states with the other players \<open>broadcast.cpp\<close>, and the feeder of on-chain data
  \<open>chaintochannel.cpp\<close>.

  The manager is a record passed through; its mutex serialises the handlers.  The game's private data
  is of type \<open>'g\<close>.  The answers of the wallet and of Xaya Core to the calls of the sender may differ
  from call to call: they are functions of the number of calls made before.  The sender keeps the moves
  that the wallet has sent, and the broadcast the messages handed to the network.
\<close>

subsection \<open>Sending on-chain moves\<close>

record chain_rpc =
  name_update :: "nat \<Rightarrow> string \<Rightarrow> string \<Rightarrow> string option"
  rpc_getrawmempool :: "nat \<Rightarrow> json"
  writeString :: "json \<Rightarrow> string"

record move_sender =
  ms_channelId :: uint256
  ms_playerName :: string
  ms_gameId :: string
  ms_calls :: nat
  ms_sent :: "(json \<times> uint256) list"

definition MoveSender_new :: "string \<Rightarrow> uint256 \<Rightarrow> string \<Rightarrow> move_sender" where
  "MoveSender_new gId chId nm =
     \<lparr>ms_channelId = chId, ms_playerName = ''p/'' @ nm, ms_gameId = gId, ms_calls = 0, ms_sent = []\<rparr>"

text \<open>\<open>None\<close> as the answer of the wallet is an exception.\<close>

definition SendMove :: "chain_rpc \<Rightarrow> json \<Rightarrow> move_sender \<Rightarrow> (uint256 \<times> move_sender) run" where
  "SendMove rpc mv s =
     (let fullValue = JObject [(''g'', JObject [(ms_gameId s, mv)])];
          answer = name_update rpc (ms_calls s) (ms_playerName s) (writeString rpc fullValue);
          s = s\<lparr>ms_calls := Suc (ms_calls s)\<rparr>
      in case answer of
           None \<Rightarrow> Some (SetNull, s)
         | Some txidHex \<Rightarrow>
             do {
               res \<leftarrow> FromHex txidHex;
               Some (res, s\<lparr>ms_sent := ms_sent s @ [(mv, res)]\<rparr>)
             })"

definition IsPending :: "chain_rpc \<Rightarrow> uint256 \<Rightarrow> move_sender \<Rightarrow> bool \<times> move_sender" where
  "IsPending rpc txid s =
     (ToHex txid \<in> set (map asString (json_array (rpc_getrawmempool rpc (ms_calls s)))),
      s\<lparr>ms_calls := Suc (ms_calls s)\<rparr>)"

subsection \<open>The game's part\<close>

record ('ps, 'g) open_channel =
  oc_ResolutionMove :: "'g \<Rightarrow> uint256 \<Rightarrow> state_proof \<Rightarrow> json run"
  oc_DisputeMove :: "'g \<Rightarrow> uint256 \<Rightarrow> state_proof \<Rightarrow> json run"
  oc_MaybeAutoMove :: "'ps \<Rightarrow> 'g \<Rightarrow> (string option \<times> 'g) run"
  oc_MaybeOnChainMove :: "'ps \<Rightarrow> 'g \<times> move_sender \<Rightarrow> ('g \<times> move_sender) run"

definition SendDispute ::
    "chain_rpc \<Rightarrow> ('ps, 'g) open_channel \<Rightarrow> 'g \<Rightarrow> state_proof \<Rightarrow> move_sender \<Rightarrow> (uint256 \<times> move_sender) run" where
  "SendDispute rpc oc game proof s =
     do { mv \<leftarrow> oc_DisputeMove oc game (ms_channelId s) proof; SendMove rpc mv s }"

definition SendResolution ::
    "chain_rpc \<Rightarrow> ('ps, 'g) open_channel \<Rightarrow> 'g \<Rightarrow> state_proof \<Rightarrow> move_sender \<Rightarrow> (uint256 \<times> move_sender) run" where
  "SendResolution rpc oc game proof s =
     do { mv \<leftarrow> oc_ResolutionMove oc game (ms_channelId s) proof; SendMove rpc mv s }"

text \<open>What a game that overrides neither of the two optional functions has.\<close>

definition OpenChannel_MaybeAutoMove :: "'ps \<Rightarrow> 'g \<Rightarrow> (string option \<times> 'g) run" where
  "OpenChannel_MaybeAutoMove state game = Some (None, game)"

definition OpenChannel_MaybeOnChainMove :: "'ps \<Rightarrow> 'g \<times> move_sender \<Rightarrow> ('g \<times> move_sender) run" where
  "OpenChannel_MaybeOnChainMove state gs = Some gs"

subsection \<open>The broadcast\<close>

record broadcast_message =
  bm_reinit :: "string option"
  bm_proof :: "state_proof option"

record broadcast_codec =
  ser_broadcast :: "broadcast_message \<Rightarrow> string"
  par_broadcast :: "string \<Rightarrow> broadcast_message option"

record off_chain_broadcast =
  bc_participants :: "string set"
  bc_sent :: "string list"

definition OffChainBroadcast_new :: off_chain_broadcast where
  "OffChainBroadcast_new = \<lparr>bc_participants = {}, bc_sent = []\<rparr>"

definition SetParticipants :: "channel_metadata \<Rightarrow> off_chain_broadcast \<Rightarrow> off_chain_broadcast" where
  "SetParticipants meta bc = bc\<lparr>bc_participants := set (map participant_name (participants meta))\<rparr>"

definition SendNewState :: "broadcast_codec \<Rightarrow> string \<Rightarrow> state_proof \<Rightarrow> off_chain_broadcast \<Rightarrow> off_chain_broadcast" where
  "SendNewState cd reinitId proof bc =
     bc\<lparr>bc_sent := bc_sent bc @ [ser_broadcast cd \<lparr>bm_reinit = Some reinitId, bm_proof = Some proof\<rparr>]\<rparr>"

subsection \<open>The manager\<close>

record dispute_data =
  dd_height :: uint32
  dd_turn :: int
  dd_count :: uint32
  dd_pendingResolution :: uint256

record ('ps, 'g) channel_manager =
  cm_channelId :: uint256
  cm_playerName :: string
  cm_game :: 'g
  cm_boardStates :: "'ps rolling_state"
  cm_offChainSender :: "off_chain_broadcast option"
  cm_onChainSender :: "move_sender option"
  cm_stateVersion :: int
  cm_stopped :: bool
  cm_exists :: bool
  cm_blockHash :: uint256
  cm_onChainHeight :: uint32
  cm_dispute :: "dispute_data option"
  cm_pendingPutStateOnChain :: uint256
  cm_pendingDispute :: uint256

record ('ps, 'g) manager_env =
  me_rules :: "'ps board_rules"
  me_open :: "('ps, 'g) open_channel"
  me_env :: channel_env
  me_rpc :: chain_rpc
  me_broadcast :: broadcast_codec

text \<open>The height is not initialised by the constructor; it is not read before a block hash is known.\<close>

definition ChannelManager_new :: "uint256 \<Rightarrow> string \<Rightarrow> 'g \<Rightarrow> ('ps, 'g) channel_manager" where
  "ChannelManager_new i nm g =
     \<lparr>cm_channelId = i, cm_playerName = nm, cm_game = g, cm_boardStates = RollingState_new,
      cm_offChainSender = None, cm_onChainSender = None, cm_stateVersion = 1, cm_stopped = False,
      cm_exists = False, cm_blockHash = SetNull, cm_onChainHeight = 0, cm_dispute = None,
      cm_pendingPutStateOnChain = SetNull, cm_pendingDispute = SetNull\<rparr>"

definition SetOffChainBroadcast :: "off_chain_broadcast \<Rightarrow> ('ps, 'g) channel_manager \<Rightarrow> ('ps, 'g) channel_manager run" where
  "SetOffChainBroadcast s cm =
     (case cm_offChainSender cm of None \<Rightarrow> Some (cm\<lparr>cm_offChainSender := Some s\<rparr>) | Some _ \<Rightarrow> None)"

definition SetMoveSender :: "move_sender \<Rightarrow> ('ps, 'g) channel_manager \<Rightarrow> ('ps, 'g) channel_manager run" where
  "SetMoveSender s cm =
     (case cm_onChainSender cm of None \<Rightarrow> Some (cm\<lparr>cm_onChainSender := Some s\<rparr>) | Some _ \<Rightarrow> None)"

definition CM_NotifyStateChange :: "('ps, 'g) channel_manager \<Rightarrow> ('ps, 'g) channel_manager run" where
  "CM_NotifyStateChange cm =
     do {
       CHECK (cm_stateVersion cm > 0);
       Some (cm\<lparr>cm_stateVersion := cm_stateVersion cm + 1\<rparr>)
     }"

definition TryResolveDispute ::
    "('ps, 'g) manager_env \<Rightarrow> ('ps, 'g) channel_manager \<Rightarrow> ('ps, 'g) channel_manager run" where
  "TryResolveDispute env cm =
     (if \<not> cm_exists cm then Some cm
      else
        case cm_dispute cm of
          None \<Rightarrow> Some cm
        | Some dispute \<Rightarrow>
            if \<not> IsNull (dd_pendingResolution dispute) then Some cm
            else do {
              CHECK (dd_turn dispute \<noteq> NO_TURN);
              meta \<leftarrow> GetMetadata (cm_boardStates cm);
              CHECK (dd_turn dispute \<ge> 0);
              CHECK (dd_turn dispute < int (length (participants meta)));
              if participant_name (participants meta ! nat (dd_turn dispute)) \<noteq> cm_playerName cm then Some cm
              else do {
                latest \<leftarrow> GetLatestState (cm_boardStates cm);
                latestCnt \<leftarrow> TurnCount (me_rules env) latest;
                if latestCnt \<le> dd_count dispute then Some cm
                else do {
                  sender \<leftarrow> cm_onChainSender cm;
                  proof \<leftarrow> GetStateProof (cm_boardStates cm);
                  (txid, sender) \<leftarrow> SendResolution (me_rpc env) (me_open env) (cm_game cm) proof sender;
                  Some (cm\<lparr>cm_dispute := Some (dispute\<lparr>dd_pendingResolution := txid\<rparr>), cm_onChainSender := Some sender\<rparr>)
                }
              }
            })"

definition ApplyLocalMove ::
    "('ps, 'g) manager_env \<Rightarrow> string \<Rightarrow> ('ps, 'g) channel_manager \<Rightarrow> (bool \<times> ('ps, 'g) channel_manager) run" where
  "ApplyLocalMove env mv cm =
     do {
       CHECK (\<not> cm_stopped cm \<and> cm_exists cm);
       meta \<leftarrow> GetMetadata (cm_boardStates cm);
       proof \<leftarrow> GetStateProof (cm_boardStates cm);
       extended \<leftarrow> ExtendStateProof (me_env env) (me_rules env) (cm_channelId cm) meta proof mv;
       (case extended of
          None \<Rightarrow> Some (False, cm)
        | Some newProof \<Rightarrow>
            do {
              reinitId \<leftarrow> GetReinitId (cm_boardStates cm);
              (changed, bs) \<leftarrow> UpdateWithMove (me_env env) (me_rules env) (cm_channelId cm) reinitId newProof
                (cm_boardStates cm);
              CHECK changed;
              Some (True, cm\<lparr>cm_boardStates := bs\<rparr>)
            })
     }"

text \<open>The loop of \<open>ProcessAutoMoves\<close>; the flag is whether a move has been found.\<close>

partial_function (option) auto_moves ::
    "('ps, 'g) manager_env \<Rightarrow> bool \<Rightarrow> ('ps, 'g) channel_manager \<Rightarrow> (bool \<times> ('ps, 'g) channel_manager) option" where
  "auto_moves env found cm =
     do {
       state \<leftarrow> GetLatestState (cm_boardStates cm);
       meta \<leftarrow> GetMetadata (cm_boardStates cm);
       turn \<leftarrow> WhoseTurn (me_rules env) state;
       if turn = NO_TURN then Some (found, cm)
       else if \<not> (0 \<le> turn \<and> turn < int (length (participants meta))) then None
       else if participant_name (participants meta ! nat turn) \<noteq> cm_playerName cm then Some (found, cm)
       else do {
         r \<leftarrow> oc_MaybeAutoMove (me_open env) state (cm_game cm);
         case fst r of
           None \<Rightarrow> Some (found, cm\<lparr>cm_game := snd r\<rparr>)
         | Some mv \<Rightarrow>
             do {
               a \<leftarrow> ApplyLocalMove env mv (cm\<lparr>cm_game := snd r\<rparr>);
               if \<not> fst a then None else auto_moves env True (snd a)
             }
       }
     }"

declare auto_moves.simps [code]

definition ProcessAutoMoves ::
    "('ps, 'g) manager_env \<Rightarrow> ('ps, 'g) channel_manager \<Rightarrow> (bool \<times> ('ps, 'g) channel_manager) run" where
  "ProcessAutoMoves env cm = auto_moves env False cm"

definition broadcast_state ::
    "('ps, 'g) manager_env \<Rightarrow> ('ps, 'g) channel_manager \<Rightarrow> ('ps, 'g) channel_manager run" where
  "broadcast_state env cm =
     do {
       bc \<leftarrow> cm_offChainSender cm;
       reinitId \<leftarrow> GetReinitId (cm_boardStates cm);
       proof \<leftarrow> GetStateProof (cm_boardStates cm);
       Some (cm\<lparr>cm_offChainSender := Some (SendNewState (me_broadcast env) reinitId proof bc)\<rparr>)
     }"

definition maybe_on_chain_move ::
    "('ps, 'g) manager_env \<Rightarrow> ('ps, 'g) channel_manager \<Rightarrow> ('ps, 'g) channel_manager run" where
  "maybe_on_chain_move env cm =
     (case cm_onChainSender cm of
        None \<Rightarrow> Some cm
      | Some sender \<Rightarrow>
          do {
            latest \<leftarrow> GetLatestState (cm_boardStates cm);
            (game, sender) \<leftarrow> oc_MaybeOnChainMove (me_open env) latest (cm_game cm, sender);
            Some (cm\<lparr>cm_game := game, cm_onChainSender := Some sender\<rparr>)
          })"

definition ProcessStateUpdate ::
    "('ps, 'g) manager_env \<Rightarrow> bool \<Rightarrow> ('ps, 'g) channel_manager \<Rightarrow> ('ps, 'g) channel_manager run" where
  "ProcessStateUpdate env broadcast cm =
     do {
       (found, cm) \<leftarrow> ProcessAutoMoves env cm;
       cm \<leftarrow> (if found \<or> broadcast then broadcast_state env cm else Some cm);
       cm \<leftarrow> TryResolveDispute env cm;
       cm \<leftarrow> maybe_on_chain_move env cm;
       CM_NotifyStateChange cm
     }"

definition ProcessOffChain ::
    "('ps, 'g) manager_env \<Rightarrow> string \<Rightarrow> state_proof \<Rightarrow> ('ps, 'g) channel_manager \<Rightarrow> ('ps, 'g) channel_manager run" where
  "ProcessOffChain env reinitId proof cm =
     (if cm_stopped cm then Some cm
      else do {
        (changed, bs) \<leftarrow> UpdateWithMove (me_env env) (me_rules env) (cm_channelId cm) reinitId proof (cm_boardStates cm);
        let cm = cm\<lparr>cm_boardStates := bs\<rparr>;
        if \<not> changed then Some cm else ProcessStateUpdate env False cm
      })"

definition FeedMessage ::
    "('ps, 'g) manager_env \<Rightarrow> string \<Rightarrow> ('ps, 'g) channel_manager \<Rightarrow> ('ps, 'g) channel_manager run" where
  "FeedMessage env msg cm =
     (case par_broadcast (me_broadcast env) msg of
        None \<Rightarrow> Some cm
      | Some pb \<Rightarrow> ProcessOffChain env (bytes_value (bm_reinit pb))
          (case bm_proof pb of None \<Rightarrow> empty_proof | Some proof \<Rightarrow> proof) cm)"

definition empty_metadata :: channel_metadata where
  "empty_metadata = \<lparr>cm_unknown = False, participants = [], cm_reinit = None, cm_custom = None\<rparr>"

definition ProcessOnChainNonExistant ::
    "uint256 \<Rightarrow> uint32 \<Rightarrow> ('ps, 'g) channel_manager \<Rightarrow> ('ps, 'g) channel_manager run" where
  "ProcessOnChainNonExistant blk h cm =
     (if cm_stopped cm then Some cm
      else CM_NotifyStateChange
        (cm\<lparr>cm_blockHash := blk, cm_onChainHeight := h, cm_exists := False,
          cm_offChainSender := map_option (SetParticipants empty_metadata) (cm_offChainSender cm)\<rparr>))"

text \<open>The sender and the transaction ID after the check.\<close>

definition ResetMinedTxid ::
    "chain_rpc \<Rightarrow> move_sender option \<Rightarrow> uint256 \<Rightarrow> (move_sender option \<times> uint256) run" where
  "ResetMinedTxid rpc sender txid =
     (if IsNull txid then Some (sender, txid)
      else do {
        s \<leftarrow> sender;
        let (pending, s) = IsPending rpc txid s;
        Some (Some s, if pending then txid else SetNull)
      })"

text \<open>The dispute known to the manager after an update from the chain.\<close>

definition update_dispute ::
    "('ps, 'g) manager_env \<Rightarrow> channel_metadata \<Rightarrow> state_proof \<Rightarrow> uint32 \<Rightarrow> ('ps, 'g) channel_manager \<Rightarrow>
     ('ps, 'g) channel_manager run" where
  "update_dispute env meta proof disputeHeight cm =
     (if disputeHeight = 0 then Some (cm\<lparr>cm_dispute := None\<rparr>)
      else do {
        let pendingResolution = (case cm_dispute cm of None \<Rightarrow> SetNull | Some dispute \<Rightarrow> dd_pendingResolution dispute);
        (sender, pendingResolution) \<leftarrow> ResetMinedTxid (me_rpc env) (cm_onChainSender cm) pendingResolution;
        p \<leftarrow> parse_proven (me_rules env) (cm_channelId cm) meta (UnverifiedProofEndState proof);
        turn \<leftarrow> WhoseTurn (me_rules env) p;
        cnt \<leftarrow> TurnCount (me_rules env) p;
        Some (cm\<lparr>cm_onChainSender := sender,
          cm_dispute := Some \<lparr>dd_height = disputeHeight, dd_turn = turn, dd_count = cnt,
            dd_pendingResolution = pendingResolution\<rparr>\<rparr>)
      })"

definition ProcessOnChain ::
    "('ps, 'g) manager_env \<Rightarrow> uint256 \<Rightarrow> uint32 \<Rightarrow> channel_metadata \<Rightarrow> string \<Rightarrow> state_proof \<Rightarrow> uint32 \<Rightarrow>
     ('ps, 'g) channel_manager \<Rightarrow> ('ps, 'g) channel_manager run" where
  "ProcessOnChain env blk h meta reinitState proof disputeHeight cm =
     (if cm_stopped cm then Some cm
      else do {
        (sender, putState) \<leftarrow> ResetMinedTxid (me_rpc env) (cm_onChainSender cm) (cm_pendingPutStateOnChain cm);
        (sender, disp) \<leftarrow> ResetMinedTxid (me_rpc env) sender (cm_pendingDispute cm);
        (_, bs) \<leftarrow> UpdateOnChain (me_env env) (me_rules env) (cm_channelId cm) meta reinitState proof (cm_boardStates cm);
        cm \<leftarrow> update_dispute env meta proof disputeHeight
          (cm\<lparr>cm_blockHash := blk, cm_onChainHeight := h, cm_onChainSender := sender,
            cm_pendingPutStateOnChain := putState, cm_pendingDispute := disp, cm_exists := True,
            cm_boardStates := bs\<rparr>);
        ProcessStateUpdate env False
          (cm\<lparr>cm_offChainSender := map_option (SetParticipants meta) (cm_offChainSender cm)\<rparr>)
      })"

definition ProcessLocalMove ::
    "('ps, 'g) manager_env \<Rightarrow> string \<Rightarrow> ('ps, 'g) channel_manager \<Rightarrow> ('ps, 'g) channel_manager run" where
  "ProcessLocalMove env mv cm =
     (if cm_stopped cm then Some cm
      else if \<not> cm_exists cm then Some cm
      else do {
        (applied, cm) \<leftarrow> ApplyLocalMove env mv cm;
        if \<not> applied then Some cm else ProcessStateUpdate env True cm
      })"

definition TriggerAutoMoves ::
    "('ps, 'g) manager_env \<Rightarrow> ('ps, 'g) channel_manager \<Rightarrow> ('ps, 'g) channel_manager run" where
  "TriggerAutoMoves env cm =
     (if cm_stopped cm then Some cm
      else if \<not> cm_exists cm then Some cm
      else do {
        (found, cm) \<leftarrow> ProcessAutoMoves env cm;
        if \<not> found then Some cm else ProcessStateUpdate env True cm
      })"

definition PutStateOnChain ::
    "('ps, 'g) manager_env \<Rightarrow> ('ps, 'g) channel_manager \<Rightarrow> (uint256 \<times> ('ps, 'g) channel_manager) run" where
  "PutStateOnChain env cm =
     (if \<not> cm_exists cm then Some (SetNull, cm)
      else do {
        latest \<leftarrow> GetLatestState (cm_boardStates cm);
        latestCnt \<leftarrow> TurnCount (me_rules env) latest;
        onChainCnt \<leftarrow> GetOnChainTurnCount (cm_boardStates cm);
        if latestCnt \<le> onChainCnt then do { CHECK (latestCnt = onChainCnt); Some (SetNull, cm) }
        else do {
          sender \<leftarrow> cm_onChainSender cm;
          proof \<leftarrow> GetStateProof (cm_boardStates cm);
          (txid, sender) \<leftarrow> SendResolution (me_rpc env) (me_open env) (cm_game cm) proof sender;
          Some (txid, cm\<lparr>cm_pendingPutStateOnChain := txid, cm_onChainSender := Some sender\<rparr>)
        }
      })"

definition FileDispute ::
    "('ps, 'g) manager_env \<Rightarrow> ('ps, 'g) channel_manager \<Rightarrow> (uint256 \<times> ('ps, 'g) channel_manager) run" where
  "FileDispute env cm =
     (if \<not> cm_exists cm then Some (SetNull, cm)
      else if cm_dispute cm \<noteq> None then Some (SetNull, cm)
      else if \<not> IsNull (cm_pendingDispute cm) then Some (SetNull, cm)
      else do {
        sender \<leftarrow> cm_onChainSender cm;
        proof \<leftarrow> GetStateProof (cm_boardStates cm);
        (txid, sender) \<leftarrow> SendDispute (me_rpc env) (me_open env) (cm_game cm) proof sender;
        Some (txid, cm\<lparr>cm_pendingDispute := txid, cm_onChainSender := Some sender\<rparr>)
      })"

definition StopUpdates :: "('ps, 'g) channel_manager \<Rightarrow> ('ps, 'g) channel_manager run" where
  "StopUpdates cm = CM_NotifyStateChange (cm\<lparr>cm_stopped := True\<rparr>)"

subsection \<open>The state of the manager as JSON\<close>

definition UnlockedToJson ::
    "('ps, 'g) manager_env \<Rightarrow> channel_codec \<Rightarrow> ('ps \<Rightarrow> json run) \<Rightarrow> ('ps, 'g) channel_manager \<Rightarrow> json run" where
  "UnlockedToJson env cc toJson cm =
     (let base =
        [(''id'', JString (ToHex (cm_channelId cm))), (''playername'', JString (cm_playerName cm)),
         (''existsonchain'', JBool (cm_exists cm)), (''version'', JInt (cm_stateVersion cm))] @
        (if IsNull (cm_blockHash cm) then []
         else [(''blockhash'', JString (ToHex (cm_blockHash cm))), (''height'', JInt (sint (cm_onChainHeight cm)))])
      in
      if \<not> cm_exists cm then Some (JObject base)
      else do {
        meta \<leftarrow> GetMetadata (cm_boardStates cm);
        proof \<leftarrow> GetStateProof (cm_boardStates cm);
        m \<leftarrow> ChannelMetadataToJson (me_env env) cc meta;
        s \<leftarrow> BoardStateToJson (me_env env) (me_rules env) toJson (cm_channelId cm) meta (UnverifiedProofEndState proof);
        disp \<leftarrow>
          (case cm_dispute cm of
             None \<Rightarrow> Some []
           | Some dispute \<Rightarrow>
               do {
                 latest \<leftarrow> GetLatestState (cm_boardStates cm);
                 knownCount \<leftarrow> TurnCount (me_rules env) latest;
                 Some [(''dispute'', JObject
                   [(''height'', JInt (sint (dd_height dispute))), (''whoseturn'', JInt (dd_turn dispute)),
                    (''canresolve'', JBool (knownCount > dd_count dispute))])]
               });
        let pending =
          (if IsNull (cm_pendingPutStateOnChain cm) then []
           else [(''putstateonchain'', JString (ToHex (cm_pendingPutStateOnChain cm)))]) @
          (if IsNull (cm_pendingDispute cm) then [] else [(''dispute'', JString (ToHex (cm_pendingDispute cm)))]) @
          (case cm_dispute cm of
             None \<Rightarrow> []
           | Some dispute \<Rightarrow>
               if IsNull (dd_pendingResolution dispute) then []
               else [(''resolution'', JString (ToHex (dd_pendingResolution dispute)))]);
        Some (JObject (base @ [(''current'', JObject [(''meta'', m), (''state'', s)])] @ disp @
          [(''pending'', JObject pending)]))
      })"

text \<open>A call that waits goes on with the manager \<open>later\<close>, after what other threads have done to it.\<close>

definition CM_WaitForChange ::
    "('ps, 'g) manager_env \<Rightarrow> channel_codec \<Rightarrow> ('ps \<Rightarrow> json run) \<Rightarrow> ('ps, 'g) channel_manager \<Rightarrow> int \<Rightarrow>
     ('ps, 'g) channel_manager \<Rightarrow> json run" where
  "CM_WaitForChange env cc toJson later knownVersion cm =
     (if knownVersion \<noteq> 0 \<and> knownVersion \<noteq> cm_stateVersion cm then UnlockedToJson env cc toJson cm
      else UnlockedToJson env cc toJson (if cm_stopped cm then cm else later))"

subsection \<open>The feeder of on-chain data\<close>

definition DecodeProto :: "channel_env \<Rightarrow> (string \<Rightarrow> 'm option) \<Rightarrow> json \<Rightarrow> 'm run" where
  "DecodeProto env par val =
     do {
       CHECK (isString val);
       decoded \<leftarrow> DecodeBase64 (env_decode env) (asString val);
       bytes \<leftarrow> decoded;
       par bytes
     }"

text \<open>\<open>dat\<close> is the answer of the game daemon to \<open>getchannel\<close>; the state is the last block and the
  manager.\<close>

definition UpdateOnce ::
    "('ps, 'g) manager_env \<Rightarrow> channel_codec \<Rightarrow> json \<Rightarrow> uint256 \<times> ('ps, 'g) channel_manager \<Rightarrow>
     (uint256 \<times> ('ps, 'g) channel_manager) run" where
  "UpdateOnce env cc dat s =
     (let (lastBlock, cm) = s; channelIdHex = ToHex (cm_channelId cm) in
      if json_get dat ''state'' \<noteq> JString ''up-to-date'' then Some (lastBlock, cm)
      else if json_get dat ''blockhash'' = JNull then Some (lastBlock, cm)
      else do {
        CHECK (isString (json_get dat ''blockhash''));
        lastBlock \<leftarrow> FromHex (asString (json_get dat ''blockhash''));
        CHECK (isUInt (json_get dat ''height''));
        let height = asUInt (json_get dat ''height'');
        let channel = json_get dat ''channel'';
        if channel = JNull then map_option (\<lambda>cm. (lastBlock, cm)) (ProcessOnChainNonExistant lastBlock height cm)
        else do {
          CHECK (isObject channel);
          CHECK (asString (json_get channel ''id'') = channelIdHex);
          meta \<leftarrow> DecodeProto (me_env env) (par_meta cc) (json_get (json_get channel ''meta'') ''proto'');
          proof \<leftarrow> DecodeProto (me_env env) (par_proof cc) (json_get (json_get channel ''state'') ''proof'');
          decoded \<leftarrow> DecodeBase64 (env_decode (me_env env)) (asString (json_get (json_get channel ''reinit'') ''base64''));
          reinitState \<leftarrow> decoded;
          let disputeVal = json_get channel ''disputeheight'';
          CHECK (disputeVal = JNull \<or> isUInt disputeVal);
          let disputeHeight = (if disputeVal = JNull then 0 else asUInt disputeVal);
          map_option (\<lambda>cm. (lastBlock, cm))
            (ProcessOnChain env lastBlock height meta reinitState proof disputeHeight cm)
        }
      })"

text \<open>The answers to \<open>waitforchange\<close>: an exception, with whether it is one of the connection (such as a
  time-out), or a block hash.\<close>

datatype wait_answer = WaitError bool | NewBlock string

fun feeder_loop ::
    "('ps, 'g) manager_env \<Rightarrow> channel_codec \<Rightarrow> (wait_answer \<times> json) list \<Rightarrow> uint256 \<times> ('ps, 'g) channel_manager \<Rightarrow>
     (uint256 \<times> ('ps, 'g) channel_manager) run" where
  "feeder_loop env cc [] s = Some s"
| "feeder_loop env cc ((WaitError connector, dat) # rest) s = do { CHECK connector; feeder_loop env cc rest s }"
| "feeder_loop env cc ((NewBlock newBlockHex, dat) # rest) s =
     (if newBlockHex = [] \<or> newBlockHex = ToHex (fst s) then feeder_loop env cc rest s
      else do { s \<leftarrow> UpdateOnce env cc dat s; feeder_loop env cc rest s })"

text \<open>The first update is made at once, with the answer \<open>dat\<close>.\<close>

definition RunLoop ::
    "('ps, 'g) manager_env \<Rightarrow> channel_codec \<Rightarrow> json \<Rightarrow> (wait_answer \<times> json) list \<Rightarrow> uint256 \<times> ('ps, 'g) channel_manager \<Rightarrow>
     (uint256 \<times> ('ps, 'g) channel_manager) run" where
  "RunLoop env cc dat rest s = do { s \<leftarrow> UpdateOnce env cc dat s; feeder_loop env cc rest s }"

end
