(* ===== verification/Manager_Sound.thy ===== *)
theory Manager_Sound
  imports Channel_Manager
begin

text \<open>
  The channel manager keeps only proven states and sends only proven states, whatever the other
  players, the chain and the user do.
\<close>

subsection \<open>Invariant\<close>

text \<open>A message that was broadcast: it holds a valid proof for a reinitialisation the manager knows from
  the chain.\<close>

definition proven_message :: "('ps, 'g) manager_env \<Rightarrow> ('ps, 'g) channel_manager \<Rightarrow> string \<Rightarrow> bool" where
  "proven_message env cm msg \<longleftrightarrow>
     (\<exists>rid d pf e. map_of (rs_reinits (cm_boardStates cm)) rid = Some d \<and>
        msg = ser_broadcast (me_broadcast env) \<lparr>bm_reinit = Some rid, bm_proof = Some pf\<rparr> \<and> plain_proof pf \<and>
        VerifyStateProof (me_env env) (me_rules env) (cm_channelId cm) (rd_meta d) (rd_reinitState d) pf = Some (Some e))"

definition manager_inv :: "('ps, 'g) manager_env \<Rightarrow> ('ps, 'g) channel_manager \<Rightarrow> bool" where
  "manager_inv env cm \<longleftrightarrow>
     rolling_inv (me_env env) (me_rules env) (cm_channelId cm) (cm_boardStates cm) \<and>
     (cm_exists cm \<longrightarrow> rs_reinits (cm_boardStates cm) \<noteq> []) \<and> 0 < cm_stateVersion cm \<and>
     (\<forall>bc. cm_offChainSender cm = Some bc \<longrightarrow> (\<forall>msg\<in>set (bc_sent bc). proven_message env cm msg))"

text \<open>One manager comes after another: the same channel and player, no entry lost, no state older, and
  only more messages.\<close>

definition later_manager :: "('ps, 'g) manager_env \<Rightarrow> ('ps, 'g) channel_manager \<Rightarrow> ('ps, 'g) channel_manager \<Rightarrow> bool" where
  "later_manager env cm cm' \<longleftrightarrow>
     cm_channelId cm' = cm_channelId cm \<and> cm_playerName cm' = cm_playerName cm \<and>
     keeps (cm_boardStates cm) (cm_boardStates cm') \<and>
     advances (me_rules env) (cm_boardStates cm) (cm_boardStates cm') \<and>
     cm_stateVersion cm \<le> cm_stateVersion cm' \<and> (cm_stopped cm \<longrightarrow> cm_stopped cm')"

definition good_step :: "('ps, 'g) manager_env \<Rightarrow> ('ps, 'g) channel_manager \<Rightarrow> ('ps, 'g) channel_manager \<Rightarrow> bool" where
  "good_step env cm cm' \<longleftrightarrow> (manager_inv env cm \<longrightarrow> manager_inv env cm' \<and> later_manager env cm cm')"

lemma advances_refl [simp]: "advances rules rs rs"
  by (simp add: advances_def)

lemma later_refl [simp]: "later_manager env cm cm"
  by (simp add: later_manager_def)

lemma later_trans: "later_manager env a b \<Longrightarrow> later_manager env b c \<Longrightarrow> later_manager env a c"
  unfolding later_manager_def using keeps_trans advances_trans by (metis order_trans)

lemma good_refl [simp]: "good_step env cm cm"
  by (simp add: good_step_def)

lemma good_trans: "good_step env a b \<Longrightarrow> good_step env b c \<Longrightarrow> good_step env a c"
  unfolding good_step_def using later_trans by blast

lemma proven_message_keeps:
  "proven_message env cm msg \<Longrightarrow> cm_channelId cm' = cm_channelId cm \<Longrightarrow>
    keeps (cm_boardStates cm) (cm_boardStates cm') \<Longrightarrow> proven_message env cm' msg"
  unfolding proven_message_def keeps_def by metis

text \<open>Changes that do not matter for the invariant.\<close>

definition inessential :: "('ps, 'g) channel_manager \<Rightarrow> ('ps, 'g) channel_manager \<Rightarrow> bool" where
  "inessential cm cm' \<longleftrightarrow>
     cm_channelId cm' = cm_channelId cm \<and> cm_playerName cm' = cm_playerName cm \<and>
     cm_boardStates cm' = cm_boardStates cm \<and> cm_stateVersion cm \<le> cm_stateVersion cm' \<and>
     (cm_exists cm' \<longrightarrow> cm_exists cm) \<and> (cm_stopped cm \<longrightarrow> cm_stopped cm') \<and>
     map_option bc_sent (cm_offChainSender cm') = map_option bc_sent (cm_offChainSender cm)"

lemma good_inessential: "inessential cm cm' \<Longrightarrow> good_step env cm cm'"
  unfolding good_step_def inessential_def manager_inv_def later_manager_def proven_message_def
  by (cases "cm_offChainSender cm"; cases "cm_offChainSender cm'") auto

lemma good_board:
  assumes "keeps (cm_boardStates cm) bs"
    and "rolling_inv (me_env env) (me_rules env) (cm_channelId cm) (cm_boardStates cm) \<Longrightarrow>
      rolling_inv (me_env env) (me_rules env) (cm_channelId cm) bs \<and> advances (me_rules env) (cm_boardStates cm) bs"
  shows "good_step env cm (cm\<lparr>cm_boardStates := bs\<rparr>)"
proof -
  have "rs_reinits bs \<noteq> []" if "rs_reinits (cm_boardStates cm) \<noteq> []"
    "rolling_inv (me_env env) (me_rules env) (cm_channelId cm) (cm_boardStates cm)"
    using that assms(1) unfolding rolling_inv_def keeps_def by fastforce
  moreover have "proven_message env (cm\<lparr>cm_boardStates := bs\<rparr>) msg" if "proven_message env cm msg" for msg
    using that by (rule proven_message_keeps) (simp_all add: assms(1))
  ultimately show ?thesis
    using assms unfolding good_step_def manager_inv_def later_manager_def by simp
qed

lemma good_UpdateWithMove:
  "UpdateWithMove (me_env env) (me_rules env) (cm_channelId cm) rid proof (cm_boardStates cm) = Some (b, bs) \<Longrightarrow>
    good_step env cm (cm\<lparr>cm_boardStates := bs\<rparr>)"
  by (intro good_board) (auto dest: UpdateWithMove_inv UpdateWithMove_keeps)

lemma good_UpdateOnChain:
  assumes "UpdateOnChain (me_env env) (me_rules env) (cm_channelId cm) meta reinitState proof (cm_boardStates cm) = Some (b, bs)"
  shows "good_step env cm (cm\<lparr>cm_exists := True, cm_boardStates := bs\<rparr>)"
proof -
  have "good_step env cm (cm\<lparr>cm_boardStates := bs\<rparr>)"
    using assms by (intro good_board) (auto dest: UpdateOnChain_inv UpdateOnChain_keeps(1))
  moreover have "rs_reinits bs \<noteq> []"
    using UpdateOnChain_keeps(2) [OF assms] by auto
  then have "good_step env (cm\<lparr>cm_boardStates := bs\<rparr>) (cm\<lparr>cm_exists := True, cm_boardStates := bs\<rparr>)"
    unfolding good_step_def manager_inv_def later_manager_def proven_message_def by simp
  ultimately show ?thesis
    by (rule good_trans)
qed

subsection \<open>Operations\<close>

lemma current_entry_proven:
  assumes "rolling_inv env rules cid rs" "current_entry rs = Some d"
  shows "proven_entry env rules cid (rs_reinitId rs) d"
  using assms by (simp add: rolling_inv_def current_entry_def)

lemma good_broadcast:
  assumes "broadcast_state env cm = Some cm'"
  shows "good_step env cm cm'"
proof -
  obtain bc d where bc: "cm_offChainSender cm = Some bc" and d: "current_entry (cm_boardStates cm) = Some d"
    and cm': "cm' = cm\<lparr>cm_offChainSender :=
      Some (SendNewState (me_broadcast env) (rs_reinitId (cm_boardStates cm)) (rd_proof d) bc)\<rparr>"
    using assms by (auto simp: broadcast_state_def GetReinitId_def GetStateProof_def bind_CHECK elim!: bind_SomeE split: if_splits)
  let ?msg = "ser_broadcast (me_broadcast env)
    \<lparr>bm_reinit = Some (rs_reinitId (cm_boardStates cm)), bm_proof = Some (rd_proof d)\<rparr>"
  have "proven_message env cm ?msg" if "manager_inv env cm"
    using that current_entry_proven [OF _ d] d
    unfolding manager_inv_def proven_message_def proven_entry_def current_entry_def by blast
  then show ?thesis
    using bc unfolding cm' good_step_def manager_inv_def later_manager_def proven_message_def SendNewState_def by auto
qed

lemma good_ApplyLocalMove:
  assumes "ApplyLocalMove env mv cm = Some (b, cm')"
  shows "good_step env cm cm'"
proof -
  obtain meta pf ext where "GetMetadata (cm_boardStates cm) = Some meta" "GetStateProof (cm_boardStates cm) = Some pf"
    and ext: "ExtendStateProof (me_env env) (me_rules env) (cm_channelId cm) meta pf mv = Some ext"
    and rest: "(case ext of None \<Rightarrow> Some (False, cm)
        | Some newProof \<Rightarrow> Option.bind (GetReinitId (cm_boardStates cm)) (\<lambda>rid.
            Option.bind (UpdateWithMove (me_env env) (me_rules env) (cm_channelId cm) rid newProof (cm_boardStates cm))
              (\<lambda>(changed, bs). if changed then Some (True, cm\<lparr>cm_boardStates := bs\<rparr>) else None))) = Some (b, cm')"
    using assms unfolding ApplyLocalMove_def by (auto simp: bind_CHECK elim!: bind_SomeE split: if_splits)
  show ?thesis
  proof (cases ext)
    case None
    then show ?thesis
      using rest by simp
  next
    case (Some newProof)
    then obtain rid bs where "UpdateWithMove (me_env env) (me_rules env) (cm_channelId cm) rid newProof (cm_boardStates cm) = Some (True, bs)"
      and "cm' = cm\<lparr>cm_boardStates := bs\<rparr>"
      using rest by (auto elim!: bind_SomeE split: if_splits)
    then show ?thesis
      using good_UpdateWithMove by blast
  qed
qed

lemma good_auto_moves:
  assumes "auto_moves env found cm = Some (b, cm')"
  shows "good_step env cm cm'"
proof -
  have "good_step env cm (snd r)" if "auto_moves env found cm = Some r" for r
    using that
  proof (rule auto_moves.raw_induct [rotated])
    fix rec :: "('a, 'b) manager_env \<Rightarrow> bool \<Rightarrow> ('a, 'b) channel_manager \<Rightarrow> (bool \<times> ('a, 'b) channel_manager) option"
      and env found cm r
    assume IH: "\<And>env found cm r. rec env found cm = Some r \<Longrightarrow> good_step env cm (snd r)"
      and body: "Option.bind (GetLatestState (cm_boardStates cm)) (\<lambda>state.
        Option.bind (GetMetadata (cm_boardStates cm)) (\<lambda>meta.
        Option.bind (WhoseTurn (me_rules env) state) (\<lambda>turn.
          if turn = NO_TURN then Some (found, cm)
          else if \<not> (0 \<le> turn \<and> turn < int (length (participants meta))) then None
          else if participant_name (participants meta ! nat turn) \<noteq> cm_playerName cm then Some (found, cm)
          else Option.bind (oc_MaybeAutoMove (me_open env) state (cm_game cm)) (\<lambda>r.
            case fst r of None \<Rightarrow> Some (found, cm\<lparr>cm_game := snd r\<rparr>)
            | Some mv \<Rightarrow> Option.bind (ApplyLocalMove env mv (cm\<lparr>cm_game := snd r\<rparr>))
                (\<lambda>a. if \<not> fst a then None else rec env True (snd a)))))) = Some r"
    have game: "good_step env cm (cm\<lparr>cm_game := g\<rparr>)" for g
      by (rule good_inessential) (simp add: inessential_def)
    from body consider "r = (found, cm)"
      | state q where "oc_MaybeAutoMove (me_open env) state (cm_game cm) = Some q" "fst q = None"
          "r = (found, cm\<lparr>cm_game := snd q\<rparr>)"
      | g mv a where "ApplyLocalMove env mv (cm\<lparr>cm_game := g\<rparr>) = Some a" "rec env True (snd a) = Some r"
      by (auto elim!: bind_SomeE split: if_splits option.splits)
    then show "good_step env cm (snd r)"
    proof cases
      case (3 g mv a)
      then have "good_step env (cm\<lparr>cm_game := g\<rparr>) (snd a)" "good_step env (snd a) (snd r)"
        using good_ApplyLocalMove IH by (metis prod.collapse)+
      then show ?thesis
        using good_trans game by blast
    qed (simp_all add: game)
  qed
  then show ?thesis
    using assms by fastforce
qed

lemma good_TryResolveDispute:
  assumes "TryResolveDispute env cm = Some cm'"
  shows "good_step env cm cm'"
  using assms unfolding TryResolveDispute_def
  by (intro good_inessential)
    (auto simp: inessential_def bind_CHECK split: if_splits option.splits elim!: bind_SomeE)

lemma good_on_chain_move:
  assumes "maybe_on_chain_move env cm = Some cm'"
  shows "good_step env cm cm'"
  using assms unfolding maybe_on_chain_move_def
  by (intro good_inessential) (auto simp: inessential_def split: option.splits elim!: bind_SomeE)

lemma good_notify:
  assumes "CM_NotifyStateChange cm = Some cm'"
  shows "good_step env cm cm'"
  using assms unfolding CM_NotifyStateChange_def
  by (intro good_inessential) (auto simp: inessential_def bind_CHECK split: if_splits)

lemma good_ProcessStateUpdate:
  assumes "ProcessStateUpdate env broadcast cm = Some cm'"
  shows "good_step env cm cm'"
proof -
  obtain found a b c d where "ProcessAutoMoves env cm = Some (found, a)"
    "(if found \<or> broadcast then broadcast_state env a else Some a) = Some b"
    "TryResolveDispute env b = Some c" "maybe_on_chain_move env c = Some d" "CM_NotifyStateChange d = Some cm'"
    using assms unfolding ProcessStateUpdate_def by (auto elim!: bind_SomeE)
  moreover from this have "good_step env a b"
    using good_broadcast by (auto split: if_splits)
  ultimately show ?thesis
    using good_auto_moves good_TryResolveDispute good_on_chain_move good_notify good_trans
    unfolding ProcessAutoMoves_def by metis
qed

lemma good_update_dispute:
  assumes "update_dispute env meta proof disputeHeight cm = Some cm'"
  shows "good_step env cm cm'"
  using assms unfolding update_dispute_def
  by (intro good_inessential) (auto simp: inessential_def split: if_splits elim!: bind_SomeE)

lemma good_ProcessOnChain:
  assumes "ProcessOnChain env blk h meta reinitState proof disputeHeight cm = Some cm'"
  shows "good_step env cm cm'"
proof (cases "cm_stopped cm")
  case True
  then show ?thesis
    using assms by (simp add: ProcessOnChain_def)
next
  case False
  define base where "base s put disp = cm\<lparr>cm_blockHash := blk, cm_onChainHeight := h, cm_onChainSender := s,
    cm_pendingPutStateOnChain := put, cm_pendingDispute := disp\<rparr>" for s put disp
  obtain s put disp b bs a where
    upd: "UpdateOnChain (me_env env) (me_rules env) (cm_channelId cm) meta reinitState proof (cm_boardStates cm) = Some (b, bs)"
    and disp: "update_dispute env meta proof disputeHeight ((base s put disp)\<lparr>cm_exists := True, cm_boardStates := bs\<rparr>) = Some a"
    and rest: "ProcessStateUpdate env False
      (a\<lparr>cm_offChainSender := map_option (SetParticipants meta) (cm_offChainSender a)\<rparr>) = Some cm'"
    using assms False unfolding ProcessOnChain_def base_def by (auto elim!: bind_SomeE)
  have "good_step env cm (base s put disp)"
    by (rule good_inessential) (simp add: inessential_def base_def)
  moreover have "good_step env (base s put disp) ((base s put disp)\<lparr>cm_exists := True, cm_boardStates := bs\<rparr>)"
    using upd by (intro good_UpdateOnChain) (simp add: base_def)
  moreover have "good_step env a (a\<lparr>cm_offChainSender := map_option (SetParticipants meta) (cm_offChainSender a)\<rparr>)"
    by (rule good_inessential) (cases "cm_offChainSender a"; simp add: inessential_def SetParticipants_def)
  ultimately show ?thesis
    using good_update_dispute [OF disp] good_ProcessStateUpdate [OF rest] good_trans by blast
qed

lemma good_ProcessOffChain:
  assumes "ProcessOffChain env rid proof cm = Some cm'"
  shows "good_step env cm cm'"
proof (cases "cm_stopped cm")
  case False
  then obtain changed bs where
    "UpdateWithMove (me_env env) (me_rules env) (cm_channelId cm) rid proof (cm_boardStates cm) = Some (changed, bs)"
    and "(if \<not> changed then Some (cm\<lparr>cm_boardStates := bs\<rparr>) else ProcessStateUpdate env False (cm\<lparr>cm_boardStates := bs\<rparr>)) = Some cm'"
    using assms unfolding ProcessOffChain_def by (auto simp: Let_def elim!: bind_SomeE)
  then show ?thesis
    using good_UpdateWithMove good_ProcessStateUpdate good_trans by (metis option.inject)
qed (use assms in \<open>simp add: ProcessOffChain_def\<close>)

lemma good_ProcessOnChainNonExistant:
  assumes "ProcessOnChainNonExistant blk h cm = Some cm'"
  shows "good_step env cm cm'"
proof (cases "cm_stopped cm")
  case False
  let ?cm = "cm\<lparr>cm_blockHash := blk, cm_onChainHeight := h, cm_exists := False,
    cm_offChainSender := map_option (SetParticipants empty_metadata) (cm_offChainSender cm)\<rparr>"
  have "good_step env cm ?cm"
    by (rule good_inessential) (cases "cm_offChainSender cm"; simp add: inessential_def SetParticipants_def)
  moreover have "CM_NotifyStateChange ?cm = Some cm'"
    using assms False by (simp add: ProcessOnChainNonExistant_def)
  ultimately show ?thesis
    using good_notify good_trans by blast
qed (use assms in \<open>simp add: ProcessOnChainNonExistant_def\<close>)

lemma good_ProcessLocalMove:
  assumes "ProcessLocalMove env mv cm = Some cm'"
  shows "good_step env cm cm'"
proof (cases "cm_stopped cm \<or> \<not> cm_exists cm")
  case False
  then obtain b a where "ApplyLocalMove env mv cm = Some (b, a)"
    "(if \<not> b then Some a else ProcessStateUpdate env True a) = Some cm'"
    using assms unfolding ProcessLocalMove_def by (auto elim!: bind_SomeE)
  then show ?thesis
    using good_ApplyLocalMove good_ProcessStateUpdate good_trans by (metis option.inject)
qed (use assms in \<open>auto simp: ProcessLocalMove_def split: if_splits\<close>)

lemma good_TriggerAutoMoves:
  assumes "TriggerAutoMoves env cm = Some cm'"
  shows "good_step env cm cm'"
proof (cases "cm_stopped cm \<or> \<not> cm_exists cm")
  case False
  then obtain b a where "auto_moves env False cm = Some (b, a)"
    "(if \<not> b then Some a else ProcessStateUpdate env True a) = Some cm'"
    using assms unfolding TriggerAutoMoves_def ProcessAutoMoves_def by (auto elim!: bind_SomeE)
  then show ?thesis
    using good_auto_moves good_ProcessStateUpdate good_trans by (metis option.inject)
qed (use assms in \<open>auto simp: TriggerAutoMoves_def split: if_splits\<close>)

lemma good_requests:
  "PutStateOnChain env cm = Some (t, cm') \<Longrightarrow> good_step env cm cm'"
  "FileDispute env cm = Some (t, cm') \<Longrightarrow> good_step env cm cm'"
  by (rule good_inessential, auto simp: inessential_def PutStateOnChain_def FileDispute_def bind_CHECK
      split: if_splits elim!: bind_SomeE)+

lemma good_StopUpdates:
  assumes "StopUpdates cm = Some cm'"
  shows "good_step env cm cm'"
  using assms unfolding StopUpdates_def CM_NotifyStateChange_def
  by (intro good_inessential) (auto simp: inessential_def bind_CHECK split: if_splits)

subsection \<open>Runs of the manager\<close>

text \<open>What may happen to a manager: messages from other players, updates from the chain, and requests of
  the user.\<close>

datatype manager_event =
    Message string
  | Chain_update uint256 uint32 channel_metadata string state_proof uint32
  | Chain_gone uint256 uint32
  | Local_move string
  | Trigger
  | Put_state
  | File_dispute
  | Stop

fun manager_step ::
    "('ps, 'g) manager_env \<Rightarrow> manager_event \<Rightarrow> ('ps, 'g) channel_manager \<Rightarrow> ('ps, 'g) channel_manager run" where
  "manager_step env (Message msg) cm = FeedMessage env msg cm"
| "manager_step env (Chain_update blk h meta reinitState proof disputeHeight) cm =
     ProcessOnChain env blk h meta reinitState proof disputeHeight cm"
| "manager_step env (Chain_gone blk h) cm = ProcessOnChainNonExistant blk h cm"
| "manager_step env (Local_move mv) cm = ProcessLocalMove env mv cm"
| "manager_step env Trigger cm = TriggerAutoMoves env cm"
| "manager_step env Put_state cm = map_option snd (PutStateOnChain env cm)"
| "manager_step env File_dispute cm = map_option snd (FileDispute env cm)"
| "manager_step env Stop cm = StopUpdates cm"

fun manager_run ::
    "('ps, 'g) manager_env \<Rightarrow> manager_event list \<Rightarrow> ('ps, 'g) channel_manager \<Rightarrow> ('ps, 'g) channel_manager run" where
  "manager_run env [] cm = Some cm"
| "manager_run env (ev # evs) cm = do { cm \<leftarrow> manager_step env ev cm; manager_run env evs cm }"

lemma good_manager_step: "manager_step env ev cm = Some cm' \<Longrightarrow> good_step env cm cm'"
  by (cases ev)
    (auto simp: FeedMessage_def good_ProcessOnChain good_ProcessOnChainNonExistant good_ProcessLocalMove good_TriggerAutoMoves
      good_StopUpdates dest: good_requests good_ProcessOffChain split: option.splits)

lemma good_manager_run: "manager_run env evs cm = Some cm' \<Longrightarrow> good_step env cm cm'"
proof (induction evs arbitrary: cm)
  case (Cons ev evs)
  then show ?case
    using good_manager_step good_trans by (fastforce elim!: bind_SomeE)
qed simp

text \<open>A manager as the daemon sets it up.\<close>

definition started_manager :: "uint256 \<Rightarrow> string \<Rightarrow> string \<Rightarrow> 'g \<Rightarrow> ('ps, 'g) channel_manager" where
  "started_manager i gameId nm g =
     (ChannelManager_new i nm g)\<lparr>cm_offChainSender := Some OffChainBroadcast_new,
       cm_onChainSender := Some (MoveSender_new gameId i nm)\<rparr>"

lemma started_inv: "manager_inv env (started_manager i gameId nm g)"
  by (simp add: manager_inv_def started_manager_def ChannelManager_new_def OffChainBroadcast_new_def rolling_inv_new)


end
