(* ===== verification/Client_Progress.thy ===== *)
theory Client_Progress
  imports Manager_Sound
begin

text \<open>
  The channel manager makes progress: with a game whose automatic moves are accepted and a wallet that
  signs, the loop over automatic moves ends and never fails a check, an update of the state completes,
  and a dispute against the player is answered.

  The contract between the manager and the game is the locale \<open>playing\<close>.
\<close>

subsection \<open>Extending the proof by an accepted move\<close>

context proof_extension
begin

lemma Extend_total:
  assumes parse: "ParseState rules cid meta (UnverifiedProofEndState old) = Some (Some q)"
    and turn: "WhoseTurn rules q = Some t" "0 \<le> t" "t < int (length (participants meta))"
    and app: "ApplyMove rules q mv = Some (Some s')"
    and sign: "\<And>msg. env_signmessage env (address (participants meta ! nat t)) msg \<noteq> None"
    and plain: "plain_proof old"
  shows "\<exists>new. ExtendStateProof env rules cid meta old mv = Some (Some new) \<and> plain_proof new"
proof -
  let ?sd = "empty_signed_data\<lparr>sd_data := Some s'\<rparr>"
  let ?first = "empty_transition\<lparr>st_new_state := Some (initial_state old)\<rparr>"
  obtain msg where msg: "GetChannelSignatureMessage env cid meta ''state'' (data ?sd) = Some msg"
    using Message_total [of "''state''" cid meta "data ?sd"] by auto
  obtain sig where sig: "env_signmessage env (address (participants meta ! nat t)) msg = Some sig"
    using sign [of msg] by auto
  have "SignDataForParticipant env cid meta ''state'' t ?sd \<noteq> Some None"
    using turn msg sig
    by (auto simp: SignDataForParticipant_def bind_CHECK Let_def LOG_FATAL_def bind_Some_iff split: option.splits)
  then obtain raw where raw: "SignDataForParticipant env cid meta ''state'' t ?sd = Some (Some (?sd\<lparr>signatures := signatures ?sd @ [raw]\<rparr>))"
    using Sign_result [OF turn(2,3), of "''state''" cid ?sd] by auto
  define ns where "ns = ?sd\<lparr>signatures := signatures ?sd @ [raw]\<rparr>"
  define tr where "tr = \<lparr>st_unknown = False, st_move = Some mv, st_new_state = Some ns\<rparr>"
  obtain pre kept where kept: "minimal_suffix env cid meta {} (rev (?first # transitions old)) tr [] = Some kept"
      "?first # transitions old @ [tr] = pre @ kept" "kept \<noteq> []"
    using minimal_suffix_spec [of "{}" cid meta "[]" "rev (?first # transitions old)" tr]
    by (auto simp: transition_signers_def)
  have "ExtendStateProof env rules cid meta old mv = Some (Some (proof_of kept))"
    using parse turn app raw [folded ns_def] kept(1) unfolding tr_def
    by (simp add: ExtendStateProof_def NO_TURN_def Let_def del: minimal_suffix.simps)
  moreover have "plain_transition ?first" "plain_transition tr"
    using plain by (simp_all add: plain_transition_def plain_proof_def empty_transition_def new_state_def tr_def ns_def
        plain_signed_data_def empty_signed_data_def)
  then have all: "\<forall>t\<in>set (?first # transitions old @ [tr]). plain_transition t"
    using plain by (simp add: plain_proof_def)
  then have "\<forall>t\<in>set kept. plain_transition t"
    unfolding kept(2) by simp
  then have "plain_proof (proof_of kept)"
    using kept(3) by (cases kept) (simp_all add: plain_proof_def proof_of_def initial_state_def plain_transition_def)
  ultimately show ?thesis
    by blast
qed

end

subsection \<open>The contract\<close>

text \<open>A wallet that sends every move.\<close>

definition working_wallet :: "chain_rpc \<Rightarrow> bool" where
  "working_wallet rpc \<longleftrightarrow> (\<forall>n nm v. \<exists>hex txid. name_update rpc n nm v = Some hex \<and> FromHex hex = Some txid)"

lemma SendMove_works:
  assumes "working_wallet rpc"
  shows "\<exists>txid s'. SendMove rpc mv s = Some (txid, s') \<and> ms_sent s' = ms_sent s @ [(mv, txid)] \<and>
    ms_channelId s' = ms_channelId s"
proof -
  obtain hex txid where "name_update rpc (ms_calls s) (ms_playerName s)
      (writeString rpc (JObject [(''g'', JObject [(ms_gameId s, mv)])])) = Some hex" "FromHex hex = Some txid"
    using assms unfolding working_wallet_def by blast
  then show ?thesis
    by (simp add: SendMove_def)
qed

lemma ResetMinedTxid_works:
  "\<exists>s' t. ResetMinedTxid rpc (Some s) txid = Some (Some s', t) \<and> ms_sent s' = ms_sent s \<and> ms_channelId s' = ms_channelId s"
  by (simp add: ResetMinedTxid_def IsPending_def)

text \<open>An update from the chain with a state that is not newer than the one known.\<close>

lemma UpdateOnChain_older:
  assumes "VerifyStateProof env rules cid meta reinitState proof = Some (Some e)" "plain_proof proof"
    "map_of (rs_reinits rs) (reinit meta) = Some d" "rd_meta d = meta" "rd_reinitState d = reinitState"
    "ParseState rules cid meta e = Some (Some p)" "TurnCount rules p = Some m"
    "TurnCount rules (rd_latestState d) = Some n" "m \<le> n"
  shows "\<exists>b bs d'. UpdateOnChain env rules cid meta reinitState proof rs = Some (b, bs) \<and> current_entry bs = Some d' \<and>
    rd_meta d' = meta \<and> rd_reinitState d' = reinitState \<and> rd_latestState d' = rd_latestState d"
  using assms
  by (cases rs) (simp add: UpdateOnChain_def CheckVersionedProto_plain bind_CHECK parse_proven_def Let_def current_entry_def)

text \<open>\<open>fit meta nm p g\<close>: the private data \<open>g\<close> of the player \<open>nm\<close> belongs to the state \<open>p\<close>.\<close>

locale playing = proof_extension rules env + board_progress rules good
  for rules :: "'ps board_rules" and env :: channel_env and good +
  fixes rpc :: chain_rpc and oc :: "('ps, 'g) open_channel" and fit :: "channel_metadata \<Rightarrow> string \<Rightarrow> 'ps \<Rightarrow> 'g \<Rightarrow> bool"
  assumes auto_move: "good cid meta p \<Longrightarrow> WhoseTurn rules p = Some t \<Longrightarrow> t \<noteq> NO_TURN \<Longrightarrow>
      participant_name (participants meta ! nat t) = nm \<Longrightarrow> fit meta nm p g \<Longrightarrow>
      \<exists>r g'. oc_MaybeAutoMove oc p g = Some (r, g') \<and>
        (case r of
           None \<Rightarrow> g' = g
         | Some mv \<Rightarrow> \<exists>s' p' n n'. ApplyMove rules p mv = Some (Some s') \<and> ParseState rules cid meta s' = Some (Some p') \<and>
             TurnCount rules p = Some n \<and> TurnCount rules p' = Some n' \<and> n < n' \<and> fit meta nm p' g')"
    and on_chain_move: "good cid meta p \<Longrightarrow> fit meta nm p g \<Longrightarrow>
      working_wallet rpc \<Longrightarrow>
      \<exists>g' s'. oc_MaybeOnChainMove oc p (g, s) = Some (g', s') \<and> (\<exists>more. ms_sent s' = ms_sent s @ more)"
    and resolution_move: "\<exists>mv. oc_ResolutionMove oc g cid pf = Some mv"
begin

text \<open>A manager that can go on: its current state is one of a real game with two participants, belongs
  to the private data, and the wallet can sign for the player.\<close>

definition able :: "('ps, 'g) manager_env \<Rightarrow> ('ps, 'g) channel_manager \<Rightarrow> 'ps reinit_data \<Rightarrow> bool" where
  "able menv cm d \<longleftrightarrow>
     me_rules menv = rules \<and> me_env menv = env \<and> me_open menv = oc \<and>
     rolling_inv env rules (cm_channelId cm) (cm_boardStates cm) \<and>
     current_entry (cm_boardStates cm) = Some d \<and> length (participants (rd_meta d)) = 2 \<and>
     good (cm_channelId cm) (rd_meta d) (rd_latestState d) \<and>
     (\<forall>p\<in>set (participants (rd_meta d)). participant_name p = cm_playerName cm \<longrightarrow>
       (\<forall>msg. env_signmessage env (address p) msg \<noteq> None))"

definition ready :: "('ps, 'g) manager_env \<Rightarrow> ('ps, 'g) channel_manager \<Rightarrow> 'ps reinit_data \<Rightarrow> bool" where
  "ready menv cm d \<longleftrightarrow> able menv cm d \<and> fit (rd_meta d) (cm_playerName cm) (rd_latestState d) (cm_game cm)"

lemmas ready_defs = ready_def able_def

definition count_of :: "'ps reinit_data \<Rightarrow> uint32" where
  "count_of d = the (TurnCount rules (rd_latestState d))"

lemma entry_parsed:
  assumes "proven_entry env rules cid rid d"
  shows "\<exists>e. VerifyStateProof env rules cid (rd_meta d) (rd_reinitState d) (rd_proof d) = Some (Some e) \<and>
    e = UnverifiedProofEndState (rd_proof d) \<and> ParseState rules cid (rd_meta d) e = Some (Some (rd_latestState d))"
  using assms Verify_end unfolding proven_entry_def by blast

lemma ApplyLocalMove_accepted:
  assumes able: "able menv cm d" and running: "\<not> cm_stopped cm" "cm_exists cm"
    and turn: "WhoseTurn rules (rd_latestState d) = Some t" "0 \<le> t" "t < 2"
      "participant_name (participants (rd_meta d) ! nat t) = cm_playerName cm"
    and app: "ApplyMove rules (rd_latestState d) mv = Some (Some s')"
      "ParseState rules (cm_channelId cm) (rd_meta d) s' = Some (Some p')"
      "TurnCount rules (rd_latestState d) = Some n" "TurnCount rules p' = Some n'" "n < n'"
  shows "\<exists>bs d'. ApplyLocalMove menv mv cm = Some (True, cm\<lparr>cm_boardStates := bs\<rparr>) \<and>
    rolling_inv env rules (cm_channelId cm) bs \<and> current_entry bs = Some d' \<and> rd_meta d' = rd_meta d \<and>
    rd_reinitState d' = rd_reinitState d \<and> rd_latestState d' = p'"
proof -
  let ?bs = "cm_boardStates cm" and ?cid = "cm_channelId cm" and ?rid = "rs_reinitId (cm_boardStates cm)"
  have inv: "rolling_inv env rules ?cid ?bs" and cur: "current_entry ?bs = Some d" and two: "length (participants (rd_meta d)) = 2"
    and menv: "me_rules menv = rules" "me_env menv = env"
    using able by (simp_all add: able_def)
  have proven: "proven_entry env rules ?cid ?rid d"
    by (rule current_entry_proven [OF inv cur])
  obtain e where e: "VerifyStateProof env rules ?cid (rd_meta d) (rd_reinitState d) (rd_proof d) = Some (Some e)"
      "e = UnverifiedProofEndState (rd_proof d)" "ParseState rules ?cid (rd_meta d) e = Some (Some (rd_latestState d))"
    using entry_parsed [OF proven] by blast
  have sign: "env_signmessage env (address (participants (rd_meta d) ! nat t)) msg \<noteq> None" for msg
    using able turn two by (auto simp: able_def)
  obtain new where new: "ExtendStateProof env rules ?cid (rd_meta d) (rd_proof d) mv = Some (Some new)" "plain_proof new"
    using Extend_total [OF _ turn(1,2) _ app(1) sign] e proven two turn(3) by (auto simp: proven_entry_def)
  obtain q where q: "valid_proof env rules ?cid (rd_meta d) (rd_reinitState d) (rd_proof d) q"
    using e(1) by (auto simp: VerifyStateProof_iff)
  then have "q = rd_latestState d"
    using proof_end_parses [OF q] e by simp
  then have valid: "valid_proof env rules ?cid (rd_meta d) (rd_reinitState d) new p'" "UnverifiedProofEndState new = s'"
    using Extend_valid [OF q new(1), of s' p'] app by simp_all
  then have verified: "VerifyStateProof env rules ?cid (rd_meta d) (rd_reinitState d) new = Some (Some s')"
    by (auto simp: VerifyStateProof_iff)
  define bs where "bs = ?bs\<lparr>rs_reinits := AList.update ?rid (d\<lparr>rd_proof := new, rd_latestState := p'\<rparr>) (rs_reinits ?bs)\<rparr>"
  have lookup: "map_of (rs_reinits ?bs) ?rid = Some d"
    using cur by (simp add: current_entry_def)
  have upd: "UpdateWithMove env rules ?cid ?rid new ?bs = Some (True, bs)"
    using lookup verified new(2) app
    by (simp add: UpdateWithMove_def CheckVersionedProto_plain parse_proven_def bs_def)
  have "rs_reinits ?bs \<noteq> []"
    using lookup by auto
  then have "ApplyLocalMove menv mv cm = Some (True, cm\<lparr>cm_boardStates := bs\<rparr>)"
    using running cur new(1) upd
    by (simp add: ApplyLocalMove_def bind_CHECK menv GetMetadata_def GetStateProof_def GetReinitId_def)
  moreover have "rolling_inv env rules ?cid bs"
    using UpdateWithMove_inv [OF inv upd] by simp
  moreover have "current_entry bs = Some (d\<lparr>rd_proof := new, rd_latestState := p'\<rparr>)"
    by (simp add: current_entry_def bs_def)
  ultimately show ?thesis
    by (intro exI [of _ bs] exI [of _ "d\<lparr>rd_proof := new, rd_latestState := p'\<rparr>"]) simp
qed

lemma good_successor:
  assumes "good cid meta p" "WhoseTurn rules p = Some t" "t \<noteq> NO_TURN" "ApplyMove rules p mv = Some (Some s')"
    "ParseState rules cid meta s' = Some (Some p')"
  shows "good cid meta p'"
  using good_move [OF assms(1-3), of mv] assms(4,5) by auto

text \<open>The loop of automatic moves: it ends, because each move increases the turn count, which is bounded
  by its width.  Then nothing is left to do.\<close>

lemma auto_moves_return:
  assumes "ready menv cm d" "\<not> cm_stopped cm" "cm_exists cm"
  shows "\<exists>b bs g d'. auto_moves menv found cm = Some (b, cm\<lparr>cm_game := g, cm_boardStates := bs\<rparr>) \<and>
    ready menv (cm\<lparr>cm_game := g, cm_boardStates := bs\<rparr>) d' \<and> rd_meta d' = rd_meta d \<and> rd_reinitState d' = rd_reinitState d \<and>
    count_of d \<le> count_of d' \<and>
    (\<forall>f. auto_moves menv f (cm\<lparr>cm_game := g, cm_boardStates := bs\<rparr>) = Some (f, cm\<lparr>cm_game := g, cm_boardStates := bs\<rparr>))"
  using assms
proof (induction "2 ^ 32 - unat (count_of d)" arbitrary: cm d found rule: less_induct)
  case less
  note ready = less.prems(1)
  let ?p = "rd_latestState d" and ?cid = "cm_channelId cm" and ?nm = "cm_playerName cm"
  have menv: "me_rules menv = rules" "me_env menv = env" "me_open menv = oc" and good: "good ?cid (rd_meta d) ?p"
    and fit: "fit (rd_meta d) ?nm ?p (cm_game cm)" and two: "length (participants (rd_meta d)) = 2"
    and cur: "current_entry (cm_boardStates cm) = Some d"
    using ready by (simp_all add: ready_defs)
  obtain t where t: "WhoseTurn rules ?p = Some t" "t = NO_TURN \<or> 0 \<le> t \<and> t < 2"
    using good_turn [OF good] by blast
  have get: "GetLatestState (cm_boardStates cm) = Some ?p" "GetMetadata (cm_boardStates cm) = Some (rd_meta d)"
    using cur by (simp_all add: GetLatestState_def GetMetadata_def)
  have stop: ?case if "\<And>f. auto_moves menv f cm = Some (f, cm)"
    using that ready
    by (intro exI [of _ found] exI [of _ "cm_boardStates cm"] exI [of _ "cm_game cm"] exI [of _ d]) simp
  show ?case
  proof (cases "t = NO_TURN \<or> participant_name (participants (rd_meta d) ! nat t) \<noteq> ?nm")
    case True
    then have "auto_moves menv f cm = Some (f, cm)" for f
      using t get two by (subst auto_moves.simps) (auto simp: menv)
    then show ?thesis
      by (rule stop)
  next
    case False
    then obtain r g' where auto: "oc_MaybeAutoMove oc ?p (cm_game cm) = Some (r, g')"
      and r: "case r of None \<Rightarrow> g' = cm_game cm
         | Some mv \<Rightarrow> \<exists>s' p' n n'. ApplyMove rules ?p mv = Some (Some s') \<and> ParseState rules ?cid (rd_meta d) s' = Some (Some p') \<and>
             TurnCount rules ?p = Some n \<and> TurnCount rules p' = Some n' \<and> n < n' \<and> fit (rd_meta d) ?nm p' g'"
      using auto_move [OF good t(1) _ _ fit] by blast
    have step: "auto_moves menv f cm =
      (case r of None \<Rightarrow> Some (f, cm\<lparr>cm_game := g'\<rparr>)
       | Some mv \<Rightarrow> Option.bind (ApplyLocalMove menv mv (cm\<lparr>cm_game := g'\<rparr>))
           (\<lambda>a. if \<not> fst a then None else auto_moves menv True (snd a)))" for f
      using False t get two auto by (subst auto_moves.simps) (simp add: menv cong: option.case_cong)
    show ?thesis
    proof (cases r)
      case None
      then show ?thesis
        using step r by (intro stop) simp
    next
      case (Some mv)
      let ?cm = "cm\<lparr>cm_game := g'\<rparr>"
      obtain s' p' n n' where mv: "ApplyMove rules ?p mv = Some (Some s')" "ParseState rules ?cid (rd_meta d) s' = Some (Some p')"
          "TurnCount rules ?p = Some n" "TurnCount rules p' = Some n'" "n < n'" "fit (rd_meta d) ?nm p' g'"
        using r Some by auto
      obtain bs d1 where loc: "ApplyLocalMove menv mv ?cm = Some (True, ?cm\<lparr>cm_boardStates := bs\<rparr>)"
          "rolling_inv env rules ?cid bs" "current_entry bs = Some d1" "rd_meta d1 = rd_meta d" "rd_latestState d1 = p'"
          "rd_reinitState d1 = rd_reinitState d"
      proof -
        have "able menv ?cm d"
          using ready by (simp add: ready_defs)
        then have "\<exists>bs d'. ApplyLocalMove menv mv ?cm = Some (True, ?cm\<lparr>cm_boardStates := bs\<rparr>) \<and>
          rolling_inv env rules (cm_channelId ?cm) bs \<and> current_entry bs = Some d' \<and> rd_meta d' = rd_meta d \<and> rd_reinitState d' = rd_reinitState d \<and>
          rd_latestState d' = p'"
          using ApplyLocalMove_accepted [of menv ?cm d t mv s' p' n n'] less.prems(2,3) t False mv(1-5) by auto
        then show thesis
          using that by auto
      qed
      let ?cm' = "cm\<lparr>cm_game := g', cm_boardStates := bs\<rparr>"
      have "good ?cid (rd_meta d) p'"
        using good_successor [OF good t(1) _ mv(1,2)] False by simp
      then have ready': "ready menv ?cm' d1"
        using ready loc mv(6) by (simp add: ready_defs)
      have cnt: "count_of d = n" "count_of d1 = n'"
        using mv(3,4) loc(5) by (simp_all add: count_of_def)
      have "2 ^ 32 - unat (count_of d1) < 2 ^ 32 - unat (count_of d)"
        using mv(5) unsigned_less [of n, where ?'a = nat] cnt by (simp add: word_less_nat_alt diff_less_mono2)
      from less.hyps [OF this ready', of True] less.prems(2,3)
      obtain b bs' g'' d' where "auto_moves menv True ?cm' = Some (b, ?cm'\<lparr>cm_game := g'', cm_boardStates := bs'\<rparr>)"
          "ready menv (?cm'\<lparr>cm_game := g'', cm_boardStates := bs'\<rparr>) d'" "rd_meta d' = rd_meta d1" "count_of d1 \<le> count_of d'"
          "rd_reinitState d' = rd_reinitState d1"
          "\<forall>f. auto_moves menv f (?cm'\<lparr>cm_game := g'', cm_boardStates := bs'\<rparr>) = Some (f, ?cm'\<lparr>cm_game := g'', cm_boardStates := bs'\<rparr>)"
        by auto
      then show ?thesis
        using step Some loc(1,4,6) cnt mv(5)
        by (intro exI [of _ b] exI [of _ bs'] exI [of _ g''] exI [of _ d']) simp
    qed
  qed
qed

text \<open>A dispute of the player's own turn, known to be older than the current state, is answered.\<close>

lemma TryResolve_sends:
  assumes ready: "ready menv cm d" and ex: "cm_exists cm" and wallet: "me_rpc menv = rpc" "working_wallet rpc"
    and dispute: "cm_dispute cm = Some dd" "IsNull (dd_pendingResolution dd)" "0 \<le> dd_turn dd" "dd_turn dd < 2"
      "participant_name (participants (rd_meta d) ! nat (dd_turn dd)) = cm_playerName cm" "dd_count dd < count_of d"
    and sender: "cm_onChainSender cm = Some s"
  shows "\<exists>mv txid s' disp. TryResolveDispute menv cm = Some (cm\<lparr>cm_dispute := disp, cm_onChainSender := Some s'\<rparr>) \<and>
    oc_ResolutionMove oc (cm_game cm) (ms_channelId s) (rd_proof d) = Some mv \<and> (mv, txid) \<in> set (ms_sent s')"
proof -
  obtain mv where mv: "oc_ResolutionMove oc (cm_game cm) (ms_channelId s) (rd_proof d) = Some mv"
    using resolution_move by blast
  obtain txid s' where s': "SendMove rpc mv s = Some (txid, s')" "ms_sent s' = ms_sent s @ [(mv, txid)]"
    using SendMove_works [OF wallet(2)] by blast
  obtain n where n: "TurnCount rules (rd_latestState d) = Some n"
    using good_count ready unfolding ready_defs by blast
  then have cnt: "\<not> n \<le> dd_count dd"
    using dispute(6) by (simp add: count_of_def not_le)
  have "TryResolveDispute menv cm =
      Some (cm\<lparr>cm_dispute := Some (dd\<lparr>dd_pendingResolution := txid\<rparr>), cm_onChainSender := Some s'\<rparr>)"
    using ready ex wallet dispute(1-5) sender mv s'(1) n cnt
    by (simp add: TryResolveDispute_def ready_defs bind_CHECK NO_TURN_def GetMetadata_def GetLatestState_def GetStateProof_def
        SendResolution_def)
  then show ?thesis
    using mv s'(2)
    by (intro exI [of _ mv] exI [of _ txid] exI [of _ s'] exI [of _ "Some (dd\<lparr>dd_pendingResolution := txid\<rparr>)"]) simp
qed

lemma state_update_resolves:
  assumes ready: "ready menv cm d" and run: "\<not> cm_stopped cm" "cm_exists cm" "0 < cm_stateVersion cm"
    and wallet: "me_rpc menv = rpc" "working_wallet rpc" and bc: "cm_offChainSender cm \<noteq> None"
    and dispute: "cm_dispute cm = Some dd" "IsNull (dd_pendingResolution dd)" "0 \<le> dd_turn dd" "dd_turn dd < 2"
      "participant_name (participants (rd_meta d) ! nat (dd_turn dd)) = cm_playerName cm" "dd_count dd < count_of d"
    and sender: "cm_onChainSender cm = Some s"
  shows "\<exists>cm' d' g mv txid s'. ProcessStateUpdate menv False cm = Some cm' \<and> able menv cm' d' \<and> rd_meta d' = rd_meta d \<and>
    rd_reinitState d' = rd_reinitState d \<and> count_of d \<le> count_of d' \<and> cm_channelId cm' = cm_channelId cm \<and>
    cm_onChainSender cm' = Some s' \<and> (mv, txid) \<in> set (ms_sent s') \<and>
    oc_ResolutionMove oc g (ms_channelId s) (rd_proof d') = Some mv"
proof -
  obtain b bs g d' where auto: "ProcessAutoMoves menv cm = Some (b, cm\<lparr>cm_game := g, cm_boardStates := bs\<rparr>)"
    and r1: "ready menv (cm\<lparr>cm_game := g, cm_boardStates := bs\<rparr>) d'" and d': "rd_meta d' = rd_meta d" "count_of d \<le> count_of d'"
      "rd_reinitState d' = rd_reinitState d"
    using auto_moves_return [OF ready run(1,2)] unfolding ProcessAutoMoves_def by blast
  define c1 where "c1 = cm\<lparr>cm_game := g, cm_boardStates := bs\<rparr>"
  have cur: "current_entry bs = Some d'"
    using r1 by (simp add: ready_defs)
  then have nonempty: "rs_reinits bs \<noteq> []"
    by (auto simp: current_entry_def)
  have same: "c1 = c1\<lparr>cm_offChainSender := cm_offChainSender c1\<rparr>"
    by simp
  obtain bc' where c2: "(if b \<or> False then broadcast_state menv c1 else Some c1) = Some (c1\<lparr>cm_offChainSender := bc'\<rparr>)"
  proof (cases b)
    case True
    then show thesis
      using that bc cur nonempty
      by (auto simp: c1_def broadcast_state_def GetReinitId_def GetStateProof_def bind_CHECK)
  next
    case False
    then show thesis
      using that [of "cm_offChainSender c1"] same by simp
  qed
  define c2 where "c2 = c1\<lparr>cm_offChainSender := bc'\<rparr>"
  have r2: "ready menv c2 d'"
    using r1 by (simp add: ready_defs c1_def c2_def)
  obtain mv txid s1 disp where c3: "TryResolveDispute menv c2 = Some (c2\<lparr>cm_dispute := disp, cm_onChainSender := Some s1\<rparr>)"
    and mv: "oc_ResolutionMove oc g (ms_channelId s) (rd_proof d') = Some mv" "(mv, txid) \<in> set (ms_sent s1)"
  proof -
    have "dd_count dd < count_of d'"
      using dispute(6) d'(2) by simp
    then have "\<exists>mv txid s' disp. TryResolveDispute menv c2 = Some (c2\<lparr>cm_dispute := disp, cm_onChainSender := Some s'\<rparr>) \<and>
        oc_ResolutionMove oc (cm_game c2) (ms_channelId s) (rd_proof d') = Some mv \<and> (mv, txid) \<in> set (ms_sent s')"
      using run(2) wallet dispute(1-5) d'(1) sender by (intro TryResolve_sends [OF r2]) (simp_all add: c1_def c2_def)
    then show thesis
      using that by (auto simp: c1_def c2_def)
  qed
  define c3 where "c3 = c2\<lparr>cm_dispute := disp, cm_onChainSender := Some s1\<rparr>"
  have r3: "ready menv c3 d'"
    using r2 by (simp add: ready_defs c3_def)
  then obtain g' s2 more where c4: "oc_MaybeOnChainMove oc (rd_latestState d') (cm_game c3, s1) = Some (g', s2)"
      "ms_sent s2 = ms_sent s1 @ more"
    using on_chain_move wallet(2) unfolding ready_defs by blast
  then have move: "maybe_on_chain_move menv c3 = Some (c3\<lparr>cm_game := g', cm_onChainSender := Some s2\<rparr>)"
    using r3 by (simp add: maybe_on_chain_move_def GetLatestState_def ready_defs c3_def)
  define c5 where "c5 = c3\<lparr>cm_game := g', cm_onChainSender := Some s2, cm_stateVersion := cm_stateVersion c3 + 1\<rparr>"
  have "CM_NotifyStateChange (c3\<lparr>cm_game := g', cm_onChainSender := Some s2\<rparr>) = Some c5"
    using run(3) by (simp add: CM_NotifyStateChange_def bind_CHECK c5_def c3_def c2_def c1_def)
  then have "ProcessStateUpdate menv False cm = Some c5"
    using auto c2 c3 move unfolding ProcessStateUpdate_def c1_def [symmetric] c2_def [symmetric] c3_def [symmetric] by simp
  moreover have "able menv c5 d'"
    using r3 by (simp add: ready_defs c5_def)
  ultimately show ?thesis
    using d' mv c4(2) by (intro exI [of _ c5] exI [of _ d'] exI [of _ g] exI [of _ mv] exI [of _ txid] exI [of _ s2])
      (simp add: c5_def c3_def c2_def c1_def)
qed

text \<open>A dispute that shows up on the chain, for the player's turn and with a state older than the one known,
  is answered with a proof that the chain accepts.\<close>

lemma on_chain_dispute_answered:
  assumes menv: "me_rules menv = rules" "me_env menv = env" "me_open menv = oc" "me_rpc menv = rpc" "working_wallet rpc"
    and cm: "manager_inv menv cm" "\<not> cm_stopped cm" "cm_offChainSender cm \<noteq> None" "cm_onChainSender cm = Some s"
      "ms_channelId s = cm_channelId cm" "case cm_dispute cm of None \<Rightarrow> True | Some dd \<Rightarrow> IsNull (dd_pendingResolution dd)"
    and chain: "proven_channel env rules ch p m" "cd_id ch = cm_channelId cm" "HasDispute ch"
    and turn: "WhoseTurn rules p = Some t" "0 \<le> t" "t < 2"
      "participant_name (participants (cd_metadata ch) ! nat t) = cm_playerName cm"
    and known: "map_of (rs_reinits (cm_boardStates cm)) (reinit (cd_metadata ch)) = Some d"
      "rd_meta d = cd_metadata ch" "rd_reinitState d = cd_reinit ch" "TurnCount rules (rd_latestState d) = Some n" "m < n"
      "good (cm_channelId cm) (rd_meta d) (rd_latestState d)" "fit (rd_meta d) (cm_playerName cm) (rd_latestState d) (cm_game cm)"
    and two: "length (participants (cd_metadata ch)) = 2"
    and signs: "\<And>q msg. q \<in> set (participants (cd_metadata ch)) \<Longrightarrow> participant_name q = cm_playerName cm \<Longrightarrow>
      env_signmessage env (address q) msg \<noteq> None"
  shows "\<exists>cm' s' g mv txid pf q. ProcessOnChain menv blk h (cd_metadata ch) (cd_reinit ch) (cd_proof ch)
      (cd_disputeHeight ch) cm = Some cm' \<and> cm_onChainSender cm' = Some s' \<and> (mv, txid) \<in> set (ms_sent s') \<and>
    oc_ResolutionMove oc g (cm_channelId cm) pf = Some mv \<and>
    ProcessResolution env rules ch pf = Some (True, ch\<lparr>cd_dirty := True, cd_proof := pf, cd_disputeHeight := 0\<rparr>) \<and>
    ParseState rules (cd_id ch) (cd_metadata ch) (UnverifiedProofEndState pf) = Some (Some q) \<and>
    good (cd_id ch) (cd_metadata ch) q"
proof -
  let ?cid = "cm_channelId cm" and ?meta = "cd_metadata ch" and ?e = "ChannelData_GetLatestState ch"
  have verified: "VerifyStateProof env rules ?cid ?meta (cd_reinit ch) (cd_proof ch) = Some (Some ?e)" "plain_proof (cd_proof ch)"
      "ParseState rules ?cid ?meta ?e = Some (Some p)" "TurnCount rules p = Some m"
    using chain(1,2) by (simp_all add: proven_channel_def)
  obtain b bs d1 where upd: "UpdateOnChain env rules ?cid ?meta (cd_reinit ch) (cd_proof ch) (cm_boardStates cm) = Some (b, bs)"
    and d1: "current_entry bs = Some d1" "rd_meta d1 = ?meta" "rd_reinitState d1 = cd_reinit ch" "rd_latestState d1 = rd_latestState d"
    using UpdateOnChain_older [OF verified(1,2) known(1-3) verified(3,4) known(4) less_imp_le [OF known(5)]] by blast
  have inv: "rolling_inv env rules ?cid bs"
    using UpdateOnChain_inv [OF _ upd] cm(1) by (simp add: manager_inv_def menv)
  obtain s1 put where r1: "ResetMinedTxid rpc (Some s) (cm_pendingPutStateOnChain cm) = Some (Some s1, put)" "ms_channelId s1 = ?cid"
    using ResetMinedTxid_works [of rpc s "cm_pendingPutStateOnChain cm"] cm(5) by auto
  obtain s2 disp where r2: "ResetMinedTxid rpc (Some s1) (cm_pendingDispute cm) = Some (Some s2, disp)" "ms_channelId s2 = ?cid"
    using ResetMinedTxid_works [of rpc s1 "cm_pendingDispute cm"] r1(2) by auto
  define c1 where "c1 = cm\<lparr>cm_blockHash := blk, cm_onChainHeight := h, cm_onChainSender := Some s2,
    cm_pendingPutStateOnChain := put, cm_pendingDispute := disp, cm_exists := True, cm_boardStates := bs\<rparr>"
  define txid where "txid = (case cm_dispute cm of None \<Rightarrow> SetNull | Some dd \<Rightarrow> dd_pendingResolution dd)"
  have null: "IsNull txid"
    using cm(6) by (auto simp: txid_def IsNull_def SetNull_def list_all_iff split: option.splits)
  define dd where "dd = \<lparr>dd_height = cd_disputeHeight ch, dd_turn = t, dd_count = m, dd_pendingResolution = txid\<rparr>"
  have "cd_disputeHeight ch \<noteq> 0"
    using chain(3) by (auto simp: HasDispute_def)
  then have c2: "update_dispute menv ?meta (cd_proof ch) (cd_disputeHeight ch) c1 =
      Some (c1\<lparr>cm_onChainSender := Some s2, cm_dispute := Some dd\<rparr>)"
    using verified turn(1) null
    by (simp add: update_dispute_def ResetMinedTxid_def txid_def [symmetric] menv c1_def parse_proven_def dd_def
        ChannelData_GetLatestState_def Let_def)
  define c3 where "c3 = c1\<lparr>cm_onChainSender := Some s2, cm_dispute := Some dd,
    cm_offChainSender := map_option (SetParticipants ?meta) (cm_offChainSender cm)\<rparr>"
  have on_chain: "ProcessOnChain menv blk h ?meta (cd_reinit ch) (cd_proof ch) (cd_disputeHeight ch) cm = ProcessStateUpdate menv False c3"
    using cm(2,4) r1(1) r2(1) upd c2 unfolding ProcessOnChain_def c1_def c3_def by (simp add: menv)
  have ready: "ready menv c3 d1"
    using menv inv d1 two known(2,6,7) signs by (auto simp: ready_defs c3_def c1_def)
  have cnt: "m < count_of d1"
    using known(4,5) d1(4) by (simp add: count_of_def)
  obtain cm' d' g mv tx s' where res: "ProcessStateUpdate menv False c3 = Some cm'" "able menv cm' d'" "rd_meta d' = rd_meta d1"
      "count_of d1 \<le> count_of d'" "cm_channelId cm' = ?cid" "cm_onChainSender cm' = Some s'" "(mv, tx) \<in> set (ms_sent s')"
      "oc_ResolutionMove oc g (ms_channelId s2) (rd_proof d') = Some mv" "rd_reinitState d' = rd_reinitState d1"
  proof -
    have "\<exists>cm' d' g mv txid s'. ProcessStateUpdate menv False c3 = Some cm' \<and> able menv cm' d' \<and> rd_meta d' = rd_meta d1 \<and>
      rd_reinitState d' = rd_reinitState d1 \<and> count_of d1 \<le> count_of d' \<and> cm_channelId cm' = cm_channelId c3 \<and>
      cm_onChainSender cm' = Some s' \<and> (mv, txid) \<in> set (ms_sent s') \<and>
      oc_ResolutionMove oc g (ms_channelId s2) (rd_proof d') = Some mv"
      using menv cm null turn d1(2) cnt
      by (intro state_update_resolves [OF ready, of dd s2]) (simp_all add: c3_def c1_def dd_def manager_inv_def)
    then show thesis
      using that by (auto simp: c3_def c1_def)
  qed
  have cur: "current_entry (cm_boardStates cm') = Some d'" "rolling_inv env rules ?cid (cm_boardStates cm')"
    using res(2,5) by (simp_all add: able_def)
  have proven: "proven_entry env rules ?cid (rs_reinitId (cm_boardStates cm')) d'"
    by (rule current_entry_proven [OF cur(2,1)])
  then obtain n' where n': "TurnCount rules (rd_latestState d') = Some n'"
    by (auto simp: proven_entry_def)
  then have "m < n'"
    using cnt res(4) by (simp add: count_of_def)
  obtain e where e: "VerifyStateProof env rules ?cid (rd_meta d') (rd_reinitState d') (rd_proof d') = Some (Some e)"
      "e = UnverifiedProofEndState (rd_proof d')" "ParseState rules ?cid (rd_meta d') e = Some (Some (rd_latestState d'))"
    using entry_parsed [OF proven] by blast
  have same: "rd_meta d' = cd_metadata ch" "rd_reinitState d' = cd_reinit ch" "plain_proof (rd_proof d')"
    using d1(2,3) res(3,9) proven by (simp_all add: proven_entry_def)
  then have "ProcessResolution env rules ch (rd_proof d') =
      Some (True, ch\<lparr>cd_dirty := True, cd_proof := rd_proof d', cd_disputeHeight := 0\<rparr>)"
    using ProcessResolution_succeeds [OF chain(1) same(3) _ _ n' \<open>m < n'\<close>] e chain(2) by simp
  moreover have "good ?cid (rd_meta d') (rd_latestState d')"
    using res(2,5) by (simp add: able_def)
  ultimately show ?thesis
    using on_chain res(1,6,7,8) r2(2) e(2,3) same(1) chain(2) by metis
qed

end

end
