(* ===== verification/Ships_Channel.thy ===== *)
theory Ships_Channel
  imports Channel_Manager
begin

text \<open>
  The player's side of Xayaships, \<open>src/ships/channel.cpp\<close>: the secret position with its salt, the
  commitments and reveals, and the answers to shots, which the channel daemon makes on its own.

  The cryptographic random numbers (\<open>CryptoRand\<close>), SHA-256 and the serialisation of protocol buffers
  are parameters; the values drawn are a function of how many have been drawn before.  The salt and the
  seed are not initialised by the constructor.
\<close>

record ships_channel =
  sc_playerName :: string
  sc_draws :: nat
  sc_position :: grid
  sc_positionSalt :: uint256
  sc_seed0 :: uint256
  sc_txidClose :: uint256

record client_env =
  ce_channel :: channel_env
  ce_rnd :: "nat \<Rightarrow> uint256"
  ce_ser_move :: "board_move \<Rightarrow> string"
  ce_ser_proof :: "state_proof \<Rightarrow> string"
  ce_rpc :: chain_rpc

definition ShipsChannel_new :: "string \<Rightarrow> ships_channel" where
  "ShipsChannel_new nm =
     \<lparr>sc_playerName = nm, sc_draws = 0, sc_position = \<lparr>bits = 0\<rparr>, sc_positionSalt = SetNull, sc_seed0 = SetNull,
      sc_txidClose = SetNull\<rparr>"

definition IsPositionSet :: "ships_channel \<Rightarrow> bool" where
  "IsPositionSet ch \<longleftrightarrow> bits (sc_position ch) \<noteq> 0"

definition GetPosition :: "ships_channel \<Rightarrow> grid run" where
  "GetPosition ch = do { CHECK (IsPositionSet ch); Some (sc_position ch) }"

definition rnd_Get :: "client_env \<Rightarrow> ships_channel \<Rightarrow> uint256 \<times> ships_channel" where
  "rnd_Get ce ch = (ce_rnd ce (sc_draws ch), ch\<lparr>sc_draws := Suc (sc_draws ch)\<rparr>)"

definition SetPosition :: "client_env \<Rightarrow> grid \<Rightarrow> ships_channel \<Rightarrow> ships_channel run" where
  "SetPosition ce g ch =
     do {
       CHECK (\<not> IsPositionSet ch);
       ok \<leftarrow> VerifyPositionOfShips g;
       if \<not> ok then Some ch
       else do {
         let (salt, ch) = rnd_Get ce (ch\<lparr>sc_position := g\<rparr>);
         let ch = ch\<lparr>sc_positionSalt := salt\<rparr>;
         CHECK (IsPositionSet ch);
         Some ch
       }
     }"

definition GetShotMove :: "coord \<Rightarrow> board_move run" where
  "GetShotMove c =
     do {
       CHECK (Coord_IsOnBoard c);
       i \<leftarrow> Coord_GetIndex c;
       Some (plain_move (Shot \<lparr>sh_location = Some (word_of_int i)\<rparr>))
     }"

definition GetPositionRevealMove :: "ships_channel \<Rightarrow> board_move run" where
  "GetPositionRevealMove ch =
     do {
       CHECK (IsPositionSet ch);
       Some (plain_move (PositionReveal
         \<lparr>pr_position = Some (bits (sc_position ch)), pr_salt = Some (GetBinaryString (sc_positionSalt ch))\<rparr>))
     }"

text \<open>The loop over the participants; the result is the index found so far.\<close>

fun find_player :: "string \<Rightarrow> channel_participant list \<Rightarrow> int \<Rightarrow> int \<Rightarrow> int run" where
  "find_player nm [] i res = Some res"
| "find_player nm (p # ps) i res =
     (if participant_name p = nm then do { CHECK (res = -1); find_player nm ps (i + 1) i }
      else find_player nm ps (i + 1) res)"

definition GetPlayerIndex :: "board_state proto_board_state \<Rightarrow> ships_channel \<Rightarrow> int run" where
  "GetPlayerIndex state ch =
     do {
       res \<leftarrow> find_player (sc_playerName ch) (participants (pbs_meta state)) 0 (-1);
       CHECK (res \<ge> 0);
       CHECK (res \<le> 1);
       Some res
     }"

text \<open>The position hash of the commitment, where there is a position.\<close>

definition AutoPositionCommitment :: "client_env \<Rightarrow> ships_channel \<Rightarrow> string option run" where
  "AutoPositionCommitment ce ch =
     (if \<not> IsPositionSet ch then Some None
      else do {
        blob \<leftarrow> Grid_Blob (sc_position ch);
        Some (Some (GetBinaryString (env_sha (ce_channel ce) (blob @ GetBinaryString (sc_positionSalt ch)))))
      })"

definition InternalAutoMove ::
    "client_env \<Rightarrow> board_state proto_board_state \<Rightarrow> ships_channel \<Rightarrow> (board_move option \<times> ships_channel) run" where
  "InternalAutoMove ce state ch =
     (let pb = pbs_state state in
      do {
        index \<leftarrow> GetPlayerIndex state ch;
        CHECK (word_of_int index = turn pb);
        (case GetPhase pb of
           FIRST_COMMITMENT \<Rightarrow>
             do {
               CHECK (index = 0);
               h \<leftarrow> AutoPositionCommitment ce ch;
               (case h of
                  None \<Rightarrow> Some (None, ch)
                | Some hashStr \<Rightarrow>
                    let (seed, ch) = rnd_Get ce ch;
                        seedHash = GetBinaryString (env_sha (ce_channel ce) (GetBinaryString seed))
                    in Some (Some (plain_move (PositionCommitment
                         \<lparr>pc_position_hash = Some hashStr, pc_seed_hash = Some seedHash, pc_seed = None\<rparr>)),
                         ch\<lparr>sc_seed0 := seed\<rparr>))
             }
         | SECOND_COMMITMENT \<Rightarrow>
             do {
               CHECK (index = 1);
               h \<leftarrow> AutoPositionCommitment ce ch;
               (case h of
                  None \<Rightarrow> Some (None, ch)
                | Some hashStr \<Rightarrow>
                    let (seed1, ch) = rnd_Get ce ch
                    in Some (Some (plain_move (PositionCommitment
                         \<lparr>pc_position_hash = Some hashStr, pc_seed_hash = None,
                          pc_seed = Some (GetBinaryString seed1)\<rparr>)), ch))
             }
         | FIRST_REVEAL_SEED \<Rightarrow>
             do {
               CHECK (index = 0);
               Some (Some (plain_move (SeedReveal \<lparr>sr_seed = Some (GetBinaryString (sc_seed0 ch))\<rparr>)), ch)
             }
         | SHOOT \<Rightarrow>
             (let other = 1 - index in
              do {
                CHECK (other \<ge> 0);
                CHECK (other \<le> 1);
                known \<leftarrow> at_index (known_ships pb) (nat other);
                if Grid_CountOnes \<lparr>bits = hits known\<rparr> \<ge> Grid_TotalShipCells
                then do { mv \<leftarrow> GetPositionRevealMove ch; Some (Some mv, ch) }
                else Some (None, ch)
              })
         | ANSWER \<Rightarrow>
             do {
               CHECK (IsPositionSet ch);
               let target = Coord_of_index (sint (current_shot pb));
               CHECK (Coord_IsOnBoard target);
               hit \<leftarrow> Grid_Get (sc_position ch) target;
               Some (Some (plain_move (Reply \<lparr>rm_reply = Some (if hit then HIT else MISS)\<rparr>)), ch)
             }
         | SECOND_REVEAL_POSITION \<Rightarrow> do { mv \<leftarrow> GetPositionRevealMove ch; Some (Some mv, ch) }
         | _ \<Rightarrow> LOG_FATAL)
      })"

definition DisputeResolutionMove :: "client_env \<Rightarrow> string \<Rightarrow> uint256 \<Rightarrow> state_proof \<Rightarrow> json run" where
  "DisputeResolutionMove ce type channelId p =
     do {
       s \<leftarrow> ProtoToBase64 (ce_channel ce) (ce_ser_proof ce) p;
       Some (JObject [(type, JObject [(''id'', JString (ToHex channelId)), (''state'', JString s)])])
     }"

definition ShipsChannel_ResolutionMove :: "client_env \<Rightarrow> ships_channel \<Rightarrow> uint256 \<Rightarrow> state_proof \<Rightarrow> json run" where
  "ShipsChannel_ResolutionMove ce ch channelId p = DisputeResolutionMove ce ''r'' channelId p"

definition ShipsChannel_DisputeMove :: "client_env \<Rightarrow> ships_channel \<Rightarrow> uint256 \<Rightarrow> state_proof \<Rightarrow> json run" where
  "ShipsChannel_DisputeMove ce ch channelId p = DisputeResolutionMove ce ''d'' channelId p"

definition ShipsChannel_MaybeAutoMove ::
    "client_env \<Rightarrow> board_state proto_board_state \<Rightarrow> ships_channel \<Rightarrow> (string option \<times> ships_channel) run" where
  "ShipsChannel_MaybeAutoMove ce state ch =
     do {
       (mv, ch) \<leftarrow> InternalAutoMove ce state ch;
       Some (map_option (ce_ser_move ce) mv, ch)
     }"

definition ShipsChannel_MaybeOnChainMove ::
    "client_env \<Rightarrow> board_state proto_board_state \<Rightarrow> ships_channel \<times> move_sender \<Rightarrow> (ships_channel \<times> move_sender) run" where
  "ShipsChannel_MaybeOnChainMove ce state gs =
     (let (ch, sender) = gs; meta = pbs_meta state; statePb = pbs_state state in
      if GetPhase statePb \<noteq> FINISHED then Some (ch, sender)
      else do {
        winner \<leftarrow> bs_winner statePb;
        let loser = sint (1 - winner);
        CHECK (loser \<ge> 0);
        CHECK (loser < int (length (participants meta)));
        if participant_name (participants meta ! nat loser) \<noteq> sc_playerName ch then Some (ch, sender)
        else do {
          let (pending, sender) =
            (if IsNull (sc_txidClose ch) then (False, sender) else IsPending (ce_rpc ce) (sc_txidClose ch) sender);
          if pending then Some (ch, sender)
          else do {
            r \<leftarrow> EncodeBase64 (env_encode (ce_channel ce)) (reinit meta);
            (txid, sender) \<leftarrow> SendMove (ce_rpc ce)
              (JObject [(''l'', JObject [(''id'', JString (ToHex (pbs_id state))), (''r'', JString r)])]) sender;
            Some (ch\<lparr>sc_txidClose := txid\<rparr>, sender)
          }
        }
      })"

definition ShipsChannel :: "client_env \<Rightarrow> (board_state proto_board_state, ships_channel) open_channel" where
  "ShipsChannel ce =
     \<lparr>oc_ResolutionMove = ShipsChannel_ResolutionMove ce, oc_DisputeMove = ShipsChannel_DisputeMove ce,
      oc_MaybeAutoMove = ShipsChannel_MaybeAutoMove ce, oc_MaybeOnChainMove = ShipsChannel_MaybeOnChainMove ce\<rparr>"

end
