(* ===== verification/Fleet_Packing.thy ===== *)
theory Fleet_Packing
  imports Board
begin

text \<open>
  A legal fleet does not fit into half of the board.  Revealed positions count as a turn only through
  their low 32 bits (\<open>TurnCount\<close> in \<open>src/ships/board.cpp\<close>), which are the upper half of the board; so the
  reveal of a legal fleet always counts.

  Each ship of size \<open>n\<close>, padded below and to the right, covers \<open>2 (n + 1)\<close> cells.  The padded ships of a
  fleet whose ships do not touch are disjoint and cover 50 cells, but half of the board, padded, has 45.
\<close>

definition pad :: "ship \<Rightarrow> coord set" where
  "pad = (\<lambda>(c, d, n). {x. row c \<le> row x \<and> row x \<le> row c + (if d = DOWN then int n else 1) \<and>
     column c \<le> column x \<and> column x \<le> column c + (if d = DOWN then 1 else int n)})"

definition box :: "int \<Rightarrow> int \<Rightarrow> int \<Rightarrow> int \<Rightarrow> coord set" where
  "box r r' c c' = {x. r \<le> row x \<and> row x \<le> r' \<and> c \<le> column x \<and> column x \<le> c'}"

lemma card_box: "r \<le> r' + 1 \<Longrightarrow> c \<le> c' + 1 \<Longrightarrow> int (card (box r r' c c')) = (r' - r + 1) * (c' - c + 1)"
  and finite_box: "finite (box r r' c c')"
proof -
  have eq: "box r r' c c' = (\<lambda>(i, j). \<lparr>row = i, column = j\<rparr>) ` ({r..r'} \<times> {c..c'})"
  proof (intro set_eqI iffI)
    fix x assume "x \<in> box r r' c c'"
    then show "x \<in> (\<lambda>(i, j). \<lparr>row = i, column = j\<rparr>) ` ({r..r'} \<times> {c..c'})"
      by (cases x) (auto simp: box_def intro!: image_eqI [of _ _ "(row x, column x)"])
  qed (auto simp: box_def)
  show "finite (box r r' c c')"
    unfolding eq by simp
  have "inj_on (\<lambda>(i, j). \<lparr>row = i, column = j\<rparr>) ({r..r'} \<times> {c..c'})"
    by (auto simp: inj_on_def)
  then have "card (box r r' c c') = nat (r' - r + 1) * nat (c' - c + 1)"
    unfolding eq by (simp add: card_image)
  then show "r \<le> r' + 1 \<Longrightarrow> c \<le> c' + 1 \<Longrightarrow> int (card (box r r' c c')) = (r' - r + 1) * (c' - c + 1)"
    by simp
qed

lemma pad_box: "pad (c, d, n) = box (row c) (row c + (if d = DOWN then int n else 1))
    (column c) (column c + (if d = DOWN then 1 else int n))"
  by (simp add: pad_def box_def)

lemma card_pad: "card (pad (c, d, n)) = 2 * (n + 1)"
proof -
  have "int (card (pad (c, d, n))) = int (2 * (n + 1))"
    unfolding pad_box by (subst card_box) (auto simp: algebra_simps)
  then show ?thesis
    by linarith
qed

text \<open>A cell of the padded ship is next to a cell of the ship, above it or to the left of it.\<close>

lemma pad_near:
  assumes "x \<in> pad s" "fst (snd s) \<in> {RIGHT, DOWN}" "0 < snd (snd s)"
  shows "\<exists>a\<in>ship_cells s. row a \<le> row x \<and> row x \<le> row a + 1 \<and> column a \<le> column x \<and> column x \<le> column a + 1"
proof -
  obtain c d n where s: "s = (c, d, n)"
    by (cases s)
  show ?thesis
  proof (cases "d = DOWN")
    case True
    let ?a = "\<lparr>row = min (row x) (row c + int n - 1), column = column c\<rparr>"
    have "?a \<in> ship_cells s"
      using assms True unfolding s by (auto simp: mem_ship_DOWN pad_def)
    then show ?thesis
      using assms True unfolding s by (intro bexI [of _ ?a]) (auto simp: pad_def)
  next
    case False
    then have d: "d = RIGHT"
      using assms(2) s by simp
    let ?a = "\<lparr>row = row c, column = min (column x) (column c + int n - 1)\<rparr>"
    have "?a \<in> ship_cells s"
      using assms d unfolding s by (auto simp: mem_ship_RIGHT pad_def)
    then show ?thesis
      using assms d unfolding s by (intro bexI [of _ ?a]) (auto simp: pad_def)
  qed
qed

lemma pads_disjoint:
  assumes "legal_fleet S F" "s \<in> F" "t \<in> F" "s \<noteq> t"
  shows "pad s \<inter> pad t = {}"
proof (rule ccontr)
  assume "pad s \<inter> pad t \<noteq> {}"
  then obtain x where x: "x \<in> pad s" "x \<in> pad t"
    by blast
  have st: "fst (snd s) \<in> {RIGHT, DOWN}" "0 < snd (snd s)" "fst (snd t) \<in> {RIGHT, DOWN}" "0 < snd (snd t)"
    "isolated S (ship_cells s)" "S = (\<Union>s\<in>F. ship_cells s)" "ship_cells s \<inter> ship_cells t = {}"
    using assms by (auto simp: legal_fleet_def)
  obtain a b where a: "a \<in> ship_cells s" "row a \<le> row x" "row x \<le> row a + 1" "column a \<le> column x" "column x \<le> column a + 1"
    and b: "b \<in> ship_cells t" "row b \<le> row x" "row x \<le> row b + 1" "column b \<le> column x" "column x \<le> column b + 1"
    using pad_near [OF x(1) st(1,2)] pad_near [OF x(2) st(3,4)] by blast
  have "touching a b"
    using a b unfolding touching_def by linarith
  moreover have "b \<in> S"
    using b(1) assms(3) st(6) by blast
  ultimately have "b \<in> ship_cells s"
    using a(1) st(5) unfolding isolated_def by blast
  with b(1) st(7) show False
    by blast
qed

lemma fleet_area:
  assumes "legal_fleet S F" "S \<subseteq> box r r' c c'" "r \<le> r'" "c \<le> c'"
  shows "50 \<le> (r' - r + 2) * (c' - c + 2)"
proof -
  have fin: "finite F" and sizes: "\<And>s. s \<in> F \<Longrightarrow> snd (snd s) \<in> {2, 3, 4}"
    and dirs: "\<And>s. s \<in> F \<Longrightarrow> fst (snd s) \<in> {RIGHT, DOWN}"
    using assms(1) by (auto simp: legal_fleet_def)
  have F: "F = ships_of_size F 2 \<union> ships_of_size F 3 \<union> ships_of_size F 4"
    using sizes by (auto simp: ships_of_size_def)
  have card: "card (pad s) = 2 * (snd (snd s) + 1)" for s
    by (cases s) (simp add: card_pad)
  have sub: "pad s \<subseteq> box r (r' + 1) c (c' + 1)" if s: "s \<in> F" for s
  proof
    fix x assume "x \<in> pad s"
    moreover have "0 < snd (snd s)"
      using sizes [OF s] by auto
    ultimately obtain a where a: "a \<in> ship_cells s" "row a \<le> row x" "row x \<le> row a + 1" "column a \<le> column x"
      "column x \<le> column a + 1"
      using pad_near [of x s] dirs [OF s] by blast
    then have "a \<in> box r r' c c'"
      using assms(1,2) s by (auto simp: legal_fleet_def)
    with a show "x \<in> box r (r' + 1) c (c' + 1)"
      by (auto simp: box_def)
  qed
  have "(\<Sum>s\<in>F. card (pad s)) = (\<Sum>s\<in>ships_of_size F 2. card (pad s)) + (\<Sum>s\<in>ships_of_size F 3. card (pad s)) +
      (\<Sum>s\<in>ships_of_size F 4. card (pad s))"
    using fin by (subst F, subst sum.union_disjoint, simp_all add: ships_of_size_def)
      (auto simp: sum.union_disjoint intro!: sum.union_disjoint)
  also have "\<dots> = 50"
    using assms(1) by (simp add: card legal_fleet_def ships_of_size_def)
  finally have sum: "(\<Sum>s\<in>F. card (pad s)) = 50" .
  have "card (\<Union>s\<in>F. pad s) = (\<Sum>s\<in>F. card (pad s))"
    using fin pads_disjoint [OF assms(1)]
    by (intro card_UN_disjoint) (auto intro: card_ge_0_finite simp: card)
  moreover have "card (\<Union>s\<in>F. pad s) \<le> card (box r (r' + 1) c (c' + 1))"
    using sub by (intro card_mono finite_box) blast
  ultimately have "50 \<le> int (card (box r (r' + 1) c (c' + 1)))"
    using sum by simp
  also have "\<dots> = (r' - r + 2) * (c' - c + 2)"
    using assms(3,4) by (subst card_box) (auto simp: algebra_simps)
  finally show ?thesis .
qed

lemma low_bits_zero:
  assumes "(ucast p :: uint32) = 0" "HasShip \<lparr>bits = p\<rparr> c"
  shows "c \<in> box 4 7 0 7"
proof -
  have on: "Coord_IsOnBoard c"
    using assms(2) by (rule HasShip_on_board)
  then obtain i where i: "i < 64" "c = Coord_of_index (int i)"
    using on_board_index by blast
  then have "bit p i"
    using assms(2) HasShip_index [OF i(1)] by (simp add: cells_def)
  moreover have "\<not> bit p i" if "i < 32"
    using arg_cong [OF assms(1), of "\<lambda>w. bit w i"] that by (simp add: bit_ucast_iff)
  ultimately have "32 \<le> i"
    by (metis not_le)
  moreover have "row c * 8 + column c = int i"
    using GetIndex_of_index [of "int i"] on unfolding i(2) [symmetric]
    by (simp add: i(1) Coord_GetIndex_def SIDE_def CELLS_def Let_def bind_CHECK split: if_splits)
  ultimately show ?thesis
    using on by (auto simp: box_def SIDE_def Coord_IsOnBoard_def split: if_splits)
qed

lemma legal_position_counted:
  assumes "VerifyPositionOfShips \<lparr>bits = p\<rparr> = Some True"
  shows "(ucast p :: uint32) \<noteq> 0"
proof
  assume "(ucast p :: uint32) = 0"
  then have "occupied \<lparr>bits = p\<rparr> \<subseteq> box 4 7 0 7"
    using low_bits_zero by (auto simp: occupied_def)
  moreover have "legal_fleet (occupied \<lparr>bits = p\<rparr>) (fleet_of \<lparr>bits = p\<rparr>)"
    using assms by (simp add: Verify_iff_fleet_of)
  ultimately show False
    using fleet_area by fastforce
qed

end
