(* ===== verification/Honest_Player.thy ===== *)
theory Honest_Player
  imports Ships_Channel Fleet_Packing
begin

text \<open>
  The automatic moves of the Xayaships client are right.  A relation \<open>fits\<close> ties the secret data of a
  player to the board: the commitments on the board are those of the data, and all answers given so far
  are true.  Automatic moves are always accepted, and together with shots of the player and any moves
  of the opponent they keep the relation.  So an honest player loses only when all ships are hit.
\<close>

definition commitment :: "(string \<Rightarrow> uint256) \<Rightarrow> ships_channel \<Rightarrow> string" where
  "commitment sha g =
     GetBinaryString (sha (the (Grid_Blob (sc_position g)) @ GetBinaryString (sc_positionSalt g)))"

definition committed :: "(string \<Rightarrow> uint256) \<Rightarrow> uint32 \<Rightarrow> board_state \<Rightarrow> ships_channel \<Rightarrow> bool" where
  "committed sha i pb g \<longleftrightarrow> IsPositionSet g \<and> position_hashes pb ! unat i = commitment sha g"

definition seeded :: "(string \<Rightarrow> uint256) \<Rightarrow> board_state \<Rightarrow> ships_channel \<Rightarrow> bool" where
  "seeded sha pb g \<longleftrightarrow> wf_uint256 (sc_seed0 g) \<and>
     bs_seed_hash_0 pb = Some (GetBinaryString (sha (GetBinaryString (sc_seed0 g))))"

text \<open>The answers of player \<open>i\<close> are true, those to the shots in \<open>open\<close> still being due.\<close>

definition answered :: "uint32 \<Rightarrow> board_state \<Rightarrow> ships_channel \<Rightarrow> nat set \<Rightarrow> bool" where
  "answered i pb g due \<longleftrightarrow>
     (let k = known_ships pb ! unat i
      in cells \<lparr>bits = hits k\<rparr> = cells (sc_position g) \<inter> (cells \<lparr>bits = guessed k\<rparr> - due))"

definition fits :: "(string \<Rightarrow> uint256) \<Rightarrow> uint32 \<Rightarrow> board_state \<Rightarrow> ships_channel \<Rightarrow> bool" where
  "fits sha i pb g \<longleftrightarrow>
     (case GetPhase pb of
        INVALID \<Rightarrow> False
      | FIRST_COMMITMENT \<Rightarrow> True
      | SECOND_COMMITMENT \<Rightarrow> i = 0 \<longrightarrow> committed sha i pb g \<and> seeded sha pb g
      | FIRST_REVEAL_SEED \<Rightarrow> committed sha i pb g \<and> (i = 0 \<longrightarrow> seeded sha pb g)
      | SHOOT \<Rightarrow> committed sha i pb g \<and> answered i pb g {}
      | ANSWER \<Rightarrow> committed sha i pb g \<and>
          answered i pb g (if turn pb = i then {unat (current_shot pb)} else {})
      | SECOND_REVEAL_POSITION \<Rightarrow> committed sha i pb g \<and> answered i pb g {} \<and> turn pb = i
      | FINISHED \<Rightarrow> IsPositionSet g \<and>
          (bs_winner pb \<noteq> Some i \<longrightarrow> cells (sc_position g) \<subseteq> cells \<lparr>bits = hits (known_ships pb ! unat i)\<rparr>))"

lemma fits_phase:
  "GetPhase pb = FIRST_COMMITMENT \<Longrightarrow> fits sha i pb g"
  "GetPhase pb = SECOND_COMMITMENT \<Longrightarrow> fits sha i pb g \<longleftrightarrow> (i = 0 \<longrightarrow> committed sha i pb g \<and> seeded sha pb g)"
  "GetPhase pb = FIRST_REVEAL_SEED \<Longrightarrow> fits sha i pb g \<longleftrightarrow> committed sha i pb g \<and> (i = 0 \<longrightarrow> seeded sha pb g)"
  "GetPhase pb = SHOOT \<Longrightarrow> fits sha i pb g \<longleftrightarrow> committed sha i pb g \<and> answered i pb g {}"
  "GetPhase pb = ANSWER \<Longrightarrow> fits sha i pb g \<longleftrightarrow> committed sha i pb g \<and>
     answered i pb g (if turn pb = i then {unat (current_shot pb)} else {})"
  "GetPhase pb = SECOND_REVEAL_POSITION \<Longrightarrow> fits sha i pb g \<longleftrightarrow>
     committed sha i pb g \<and> answered i pb g {} \<and> turn pb = i"
  "GetPhase pb = FINISHED \<Longrightarrow> fits sha i pb g \<longleftrightarrow> IsPositionSet g \<and>
     (bs_winner pb \<noteq> Some i \<longrightarrow> cells (sc_position g) \<subseteq> cells \<lparr>bits = hits (known_ships pb ! unat i)\<rparr>)"
  by (simp_all add: fits_def)

text \<open>The data of a client by itself: a position that is set is legal.\<close>

definition client_ok :: "ships_channel \<Rightarrow> bool" where
  "client_ok g \<longleftrightarrow>
     (IsPositionSet g \<longrightarrow> VerifyPositionOfShips (sc_position g) = Some True \<and> wf_uint256 (sc_positionSalt g))"

text \<open>The player with name \<open>nm\<close> is number \<open>i\<close> of the two participants.\<close>

definition players :: "channel_metadata \<Rightarrow> string \<Rightarrow> uint32 \<Rightarrow> bool" where
  "players meta nm i \<longleftrightarrow>
     length (participants meta) = 2 \<and> (i = 0 \<or> i = 1) \<and>
     participant_name (participants meta ! unat i) = nm \<and> participant_name (participants meta ! unat (1 - i)) \<noteq> nm"

lemma GetPlayerIndex_players:
  assumes "players (pbs_meta st) (sc_playerName g) i"
  shows "GetPlayerIndex st g = Some (uint i)"
proof -
  obtain a b where "participants (pbs_meta st) = [a, b]"
    using assms by (auto simp: players_def length_2_conv)
  then show ?thesis
    using assms by (auto simp: players_def GetPlayerIndex_def bind_CHECK)
qed

lemma length_binary: "wf_uint256 u \<Longrightarrow> length (GetBinaryString u) = NUM_BYTES"
  by (simp add: GetBinaryString_def wf_uint256_def string_of_bytes_def)

lemma CheckHash_own: "wf_uint256 u \<Longrightarrow> CheckHashValue u (GetBinaryString u)"
  by (simp add: CheckHashValue_def length_binary)

subsection \<open>Moves of the opponent\<close>

lemma other_player: "i = 0 \<or> i = 1 \<Longrightarrow> j = 1 - i \<Longrightarrow> (i :: uint32) \<noteq> j \<and> (j = 0 \<or> j = 1) \<and> 1 - j = i \<and> unat i < 2 \<and> unat j < 2 \<and> unat i \<noteq> unat j"
  by auto

lemma opponent_commitment:
  assumes "ApplyPositionCommitment m (GetPhase pb) pb = Some (Some pb')" "board_inv pb"
    "i = 0 \<or> i = 1" "bs_turn pb = Some (1 - i)" "fits sha i pb g"
  shows "fits sha i pb' g"
  using commitment_effect [OF assms(1,2)]
proof
  assume ph: "GetPhase pb = FIRST_COMMITMENT \<and> GetPhase pb' = SECOND_COMMITMENT \<and> board_inv pb'"
  then have "i \<noteq> 0"
    using board_inv_phase(1) [OF assms(2)] assms(4) by auto
  then show ?thesis
    using ph by (simp add: fits_phase)
next
  assume ph: "GetPhase pb = SECOND_COMMITMENT \<and> GetPhase pb' = FIRST_REVEAL_SEED \<and> board_inv pb'"
  then have i: "i = 0"
    using board_inv_phase(2) [OF assms(2)] assms(3,4) by auto
  moreover have "position_hashes pb' ! 0 = position_hashes pb ! 0" "bs_seed_hash_0 pb' = bs_seed_hash_0 pb"
    using assms(1) ph phase_iffs(3) [of pb]
    by (auto simp: ApplyPositionCommitment_def Let_def bind_CHECK nth_append split: if_splits)
  ultimately show ?thesis
    using assms(5) ph by (simp add: fits_phase committed_def seeded_def)
qed

lemma seed_revealed:
  assumes "ApplySeedReveal sha m (GetPhase pb) pb = Some (Some pb')" "board_inv pb"
    "i = 0 \<or> i = 1" "fits sha i pb g"
  shows "fits sha i pb' g"
proof -
  have ph: "GetPhase pb = FIRST_REVEAL_SEED" "GetPhase pb' = SHOOT"
    using seed_reveal_effect [OF assms(1,2)] by simp_all
  then have un: "known_ships pb = []"
    using board_inv_phase(3) [OF assms(2)] by (simp add: untouched_def)
  have "position_hashes pb' = position_hashes pb" "known_ships pb' = [fresh_known_ships, fresh_known_ships]"
    using assms(1) un by (auto simp: ApplySeedReveal_def Let_def elim!: bind_SomeE split: if_splits)
  then show ?thesis
    using assms(3,4) ph
    by (auto simp: fits_phase committed_def answered_def fresh_known_ships_def hits_def guessed_def cells_def)
qed

lemma shot_fits:
  assumes "ApplyShot m (GetPhase pb) pb = Some (Some pb')" "board_inv pb"
    "i = 0 \<or> i = 1" "fits sha i pb g"
  shows "fits sha i pb' g"
proof -
  have ph: "GetPhase pb = SHOOT" "GetPhase pb' = ANSWER"
    using shot_effect [OF assms(1,2)] by simp_all
  then have pt: "player_turn pb" and ko: "known_ok pb"
    using board_inv_phase(4) [OF assms(2)] by auto
  from ko obtain k0 k1 where k: "known_ships pb = [k0, k1]"
    and sub: "cells \<lparr>bits = hits k0\<rparr> \<subseteq> cells \<lparr>bits = guessed k0\<rparr>" "cells \<lparr>bits = hits k1\<rparr> \<subseteq> cells \<lparr>bits = guessed k1\<rparr>"
    by (rule inv_known_pair)
  define q where "q = (if turn pb = 0 then k1 else k0)"
  obtain l where "sh_location m = Some l"
    using assms(1) ph by (auto simp: ApplyShot_def split: option.splits)
  then have l: "unat l < 64" "unat l \<notin> cells \<lparr>bits = guessed q\<rparr>"
    and pb': "pb' = pb\<lparr>bs_turn := Some (1 - turn pb), bs_current_shot := Some l,
      known_ships := (let k' = q\<lparr>ks_guessed := Some (guessed q OR 2 ^ unat l)\<rparr>
                      in if turn pb = 0 then [k0, k'] else [k', k1])\<rparr>"
    using assms(1) shot_eq [OF ph(1) pt k, of m] unfolding q_def [symmetric] ph
    by (auto simp: Let_def split: if_splits)
  have g': "cells \<lparr>bits = guessed q OR 2 ^ unat l\<rparr> = insert (unat l) (cells \<lparr>bits = guessed q\<rparr>)"
    using cells_insert [OF l(1), of "guessed q"] by simp
  have t: "turn pb = 0 \<or> turn pb = 1" "turn pb' = 1 - turn pb" "current_shot pb' = l"
    using pt by (auto simp: player_turn_def turn_def pb' current_shot_def)
  have "answered i pb' g (if turn pb' = i then {unat l} else {})"
    using assms(3,4) t l g' sub
    by (auto simp: fits_phase ph answered_def pb' Let_def k q_def guessed_def hits_def)
  moreover have "position_hashes pb' = position_hashes pb"
    by (simp add: pb')
  ultimately show ?thesis
    using assms(4) ph t by (auto simp: fits_phase committed_def)
qed

text \<open>An answer, which is true where it is the player's own.\<close>

lemma reply_fits:
  assumes "ApplyReply m (GetPhase pb) pb = Some (Some pb')" "board_inv pb"
    "i = 0 \<or> i = 1" "fits sha i pb g"
    and own: "turn pb = i \<Longrightarrow> rm_reply m = Some (if unat (current_shot pb) \<in> cells (sc_position g) then HIT else MISS)"
  shows "fits sha i pb' g"
proof -
  have ph: "GetPhase pb = ANSWER" "GetPhase pb' = SHOOT"
    using reply_effect [OF assms(1,2)] by simp_all
  then have pt: "player_turn pb" and ko: "known_ok pb" and so: "shot_ok pb"
    using board_inv_phase(5) [OF assms(2)] by auto
  from ko obtain k0 k1 where k: "known_ships pb = [k0, k1]"
    by (rule inv_known_pair)
  define s where "s = unat (current_shot pb)"
  define q where "q = (if turn pb = 0 then k0 else k1)"
  have t: "turn pb = 0 \<or> turn pb = 1"
    using pt by (auto simp: player_turn_def turn_def)
  have s: "s < 64" "s \<in> cells \<lparr>bits = guessed q\<rparr>"
    using so t k by (auto simp: shot_ok_def Let_def s_def q_def cells_def)
  have hit: "cells \<lparr>bits = hits q OR 2 ^ s\<rparr> = insert s (cells \<lparr>bits = hits q\<rparr>)"
    using cells_insert [OF s(1), of "hits q"] by simp
  have due: "answered i pb g (if turn pb = i then {s} else {})" and com: "committed sha i pb g"
    using assms(4) ph by (auto simp: fits_phase s_def)
  note eq = reply_eq [OF ph(1) pt k so, of m, folded s_def q_def]
  consider (miss) "pb' = pb\<lparr>bs_current_shot := None\<rparr>" "rm_reply m = Some MISS"
    | (hit) "pb' = pb\<lparr>bs_current_shot := None, bs_turn := Some (1 - turn pb),
        known_ships := (let q' = q\<lparr>ks_hits := Some (hits q OR 2 ^ s)\<rparr>
                        in if turn pb = 0 then [q', k1] else [k0, q'])\<rparr>" "rm_reply m = Some HIT"
    using assms(1) eq unfolding ph by (auto simp: Let_def split: option.splits ReplyType.splits)
  then have "answered i pb' g {} \<and> position_hashes pb' = position_hashes pb"
  proof cases
    case miss
    then show ?thesis
      using due own by (auto simp: answered_def Let_def s_def split: if_splits)
  next
    case hit
    then show ?thesis
      using due own t assms(3) s(2) \<open>cells \<lparr>bits = hits q OR 2 ^ s\<rparr> = _\<close>
      by (auto simp: answered_def Let_def s_def k q_def guessed_def hits_def split: if_splits)
  qed
  then show ?thesis
    using com ph by (simp add: fits_phase committed_def)
qed

lemma legal_card: "VerifyPositionOfShips g = Some True \<Longrightarrow> card (cells g) = 18"
  using Verify_card [of g] by (simp add: CountOnes_card TotalShipCells_value)

lemma reveal_done_fields:
  "known_ships (reveal_done ph pb p) = known_ships pb"
  "bs_winner pb = None \<Longrightarrow> bs_winner (reveal_done ph pb p) = reveal_result ph pb p"
  by (auto simp: reveal_done_def position_revealed_def split: option.splits)

lemma opponent_reveal:
  assumes "ApplyPositionReveal sha m (GetPhase pb) pb = Some (Some pb')" "board_inv pb"
    "i = 0 \<or> i = 1" "bs_turn pb = Some (1 - i)" "fits sha i pb g" "client_ok g"
  shows "fits sha i pb' g"
proof -
  obtain p where p: "GetPhase pb \<in> {SHOOT, ANSWER, SECOND_REVEAL_POSITION}" "pb' = reveal_done (GetPhase pb) pb p"
    and ph': "GetPhase pb' = FINISHED \<or> GetPhase pb' = SECOND_REVEAL_POSITION"
    using reveal_effect [OF assms(1,2)] by blast
  have t: "turn pb = 1 - i" "turn pb \<noteq> i" "1 - turn pb = i" "unat i \<noteq> unat (1 - i)"
    using assms(3,4) by (auto simp: turn_def)
  have f: "committed sha i pb g" "answered i pb g {}" "GetPhase pb \<noteq> SECOND_REVEAL_POSITION"
    using p(1) assms(5) t(2) by (auto simp: fits_phase)
  have win: "bs_winner pb = None"
    using reveal_phase_facts(3) [OF assms(2) p(1)] .
  show ?thesis
  proof (cases "reveal_result (GetPhase pb) pb p")
    case None
    then have pb': "pb' = (position_revealed pb p)\<lparr>bs_turn := Some i\<rparr>"
      using p(2) t by (simp add: reveal_done_def)
    have "GetPhase pb' = SECOND_REVEAL_POSITION"
      using ph' None win p(2) reveal_done_fields(2) [of pb "GetPhase pb" p] by (auto simp: phase_iffs)
    moreover have "answered i pb' g {}" "position_hashes pb' ! unat i = position_hashes pb ! unat i" "turn pb' = i"
      using f(2) t by (simp_all add: answered_def pb' position_revealed_def turn_def)
    ultimately show ?thesis
      using f(1) by (simp add: fits_phase committed_def)
  next
    case (Some w)
    then have fin: "bs_winner pb' = Some w" and k: "known_ships pb' = known_ships pb"
      using win p(2) by (simp_all add: reveal_done_fields)
    then have ph: "GetPhase pb' = FINISHED"
      by (simp add: phase_iffs)
    let ?h = "cells \<lparr>bits = hits (known_ships pb ! unat i)\<rparr>"
    have "cells (sc_position g) \<subseteq> ?h" if "w \<noteq> i"
    proof -
      have "18 \<le> card ?h"
        using Some that f(3) t by (auto simp: reveal_result_def Let_def split: if_splits)
      moreover have "?h \<subseteq> cells (sc_position g)"
        using f(2) by (auto simp: answered_def Let_def)
      moreover have "card (cells (sc_position g)) = 18"
        using f(1) assms(6) by (simp add: committed_def client_ok_def legal_card)
      ultimately show ?thesis
        using card_seteq [of "cells (sc_position g)" ?h] by simp
    qed
    then show ?thesis
      using f(1) ph fin k by (simp add: fits_phase committed_def)
  qed
qed

lemma opponent_fits:
  assumes "ApplyMoveProto sha meta pb mv = Some (Some pb')" "board_inv pb" "i = 0 \<or> i = 1"
    "bs_turn pb = Some (1 - i)" "fits sha i pb g" "client_ok g"
  shows "fits sha i pb' g"
  using assms(1)
proof (cases rule: move_cases)
  case (1 m)
  then show ?thesis
    using opponent_commitment [OF _ assms(2-5)] by blast
next
  case (2 m)
  then show ?thesis
    using seed_revealed [OF _ assms(2,3,5)] by blast
next
  case (3 m)
  then show ?thesis
    using shot_fits [OF _ assms(2,3,5)] by blast
next
  case (4 m)
  have "turn pb \<noteq> i"
    using assms(3,4) by (auto simp: turn_def)
  then show ?thesis
    using reply_fits [OF 4(2) assms(2,3,5)] by simp
next
  case (5 m)
  then show ?thesis
    using opponent_reveal [OF _ assms(2-6)] by blast
qed

subsection \<open>Automatic moves\<close>

text \<open>The result of an automatic move \<open>mv\<close> with client data \<open>g'\<close>: it is accepted, it counts as a turn, and
  the data fits again.\<close>

definition move_right ::
    "(string \<Rightarrow> uint256) \<Rightarrow> channel_metadata \<Rightarrow> uint32 \<Rightarrow> board_state \<Rightarrow> board_move \<Rightarrow> ships_channel \<Rightarrow> bool" where
  "move_right sha meta i pb mv g' \<longleftrightarrow>
     \<not> uncounted_reveal mv \<and>
     (\<exists>pb'. ApplyMoveProto sha meta pb mv = Some (Some pb') \<and> fits sha i pb' g')"

lemma ApplyMove_own:
  assumes "board_inv pb" "length (participants meta) = 2" "bs_turn pb = Some i"
  shows "ApplyMoveProto sha meta pb mv =
    (case bm_case mv of
       PositionCommitment m \<Rightarrow> ApplyPositionCommitment m (GetPhase pb) pb
     | SeedReveal m \<Rightarrow> ApplySeedReveal sha m (GetPhase pb) pb
     | Shot m \<Rightarrow> ApplyShot m (GetPhase pb) pb
     | Reply m \<Rightarrow> ApplyReply m (GetPhase pb) pb
     | PositionReveal m \<Rightarrow> ApplyPositionReveal sha m (GetPhase pb) pb
     | MOVE_NOT_SET \<Rightarrow> Some None)"
  using board_inv_WhoseTurn [OF assms(1,2)] assms(3) by (simp add: ApplyMoveProto_def bind_CHECK Let_def)

lemma commit_right:
  assumes inv: "board_inv pb" "length (participants meta) = 2" "bs_turn pb = Some i"
    and hash: "good_hash sha" and set: "IsPositionSet g'"
    and mv: "mv = plain_move (PositionCommitment \<lparr>pc_position_hash = Some (commitment sha g'), pc_seed_hash = sh, pc_seed = sd\<rparr>)"
    and ph: "GetPhase pb = FIRST_COMMITMENT \<and> sh = Some (GetBinaryString (sha (GetBinaryString (sc_seed0 g')))) \<and>
        sd = None \<and> wf_uint256 (sc_seed0 g') \<or>
      GetPhase pb = SECOND_COMMITMENT \<and> sh = None \<and> (\<exists>u. sd = Some (GetBinaryString u) \<and> wf_uint256 u)"
  shows "move_right sha meta i pb mv g'"
proof -
  have len: "length (commitment sha g') = NUM_BYTES" "length (GetBinaryString (sha x)) = NUM_BYTES" for x
    using hash by (simp_all add: commitment_def length_binary good_hash_def)
  have ap: "ApplyMoveProto sha meta pb mv =
      ApplyPositionCommitment \<lparr>pc_position_hash = Some (commitment sha g'), pc_seed_hash = sh, pc_seed = sd\<rparr> (GetPhase pb) pb"
    by (simp add: ApplyMove_own [OF inv] mv plain_move_def)
  have no: "\<not> uncounted_reveal mv"
    by (simp add: mv plain_move_def uncounted_reveal_def)
  from ph show ?thesis
  proof
    assume f: "GetPhase pb = FIRST_COMMITMENT \<and> sh = Some (GetBinaryString (sha (GetBinaryString (sc_seed0 g')))) \<and>
        sd = None \<and> wf_uint256 (sc_seed0 g')"
    then have e: "position_hashes pb = []" "bs_winner pb = None" and i: "i = 0"
      using board_inv_phase(1) [OF inv(1)] inv(3) by (auto simp: phase_iffs)
    then obtain pb' where pb': "ApplyMoveProto sha meta pb mv = Some (Some pb')"
        "pb' = pb\<lparr>bs_turn := Some 1, position_hashes := [commitment sha g'], bs_seed_hash_0 := sh\<rparr>"
      using f len by (simp add: ap ApplyPositionCommitment_def bytes_value_def bind_CHECK)
    moreover have "GetPhase pb' = SECOND_COMMITMENT"
      using e by (simp add: pb'(2) phase_iffs)
    ultimately show ?thesis
      using no set f i by (simp add: move_right_def fits_phase committed_def seeded_def)
  next
    assume f: "GetPhase pb = SECOND_COMMITMENT \<and> sh = None \<and> (\<exists>u. sd = Some (GetBinaryString u) \<and> wf_uint256 u)"
    then have e: "length (position_hashes pb) = 1" "bs_winner pb = None" "known_ships pb = []" and i: "i = 1"
      using board_inv_phase(2) [OF inv(1)] inv(3) by (auto simp: phase_iffs untouched_def)
    then obtain pb' where pb': "ApplyMoveProto sha meta pb mv = Some (Some pb')"
        "pb' = pb\<lparr>bs_turn := Some 0, position_hashes := position_hashes pb @ [commitment sha g'], bs_seed_1 := sd\<rparr>"
      using f len by (auto simp: ap ApplyPositionCommitment_def bytes_value_def bind_CHECK length_binary)
    moreover have "GetPhase pb' = FIRST_REVEAL_SEED"
      using e by (simp add: pb'(2) phase_iffs)
    ultimately show ?thesis
      using no set e i by (simp add: move_right_def fits_phase committed_def nth_append)
  qed
qed

lemma seed_right:
  assumes inv: "board_inv pb" "length (participants meta) = 2" "bs_turn pb = Some i"
    and hash: "good_hash sha" and fit: "fits sha i pb g" and ph: "GetPhase pb = FIRST_REVEAL_SEED"
  shows "move_right sha meta i pb (plain_move (SeedReveal \<lparr>sr_seed = Some (GetBinaryString (sc_seed0 g))\<rparr>)) g"
proof -
  let ?m = "\<lparr>sr_seed = Some (GetBinaryString (sc_seed0 g))\<rparr>"
  have i: "i = 0"
    using board_inv_phase(3) [OF inv(1)] inv(3) ph by simp
  then have s: "seeded sha pb g"
    using fit ph by (simp add: fits_phase)
  obtain b r where "Next_bool sha (Random_Seed (sha (GetBinaryString (sc_seed0 g) @ bytes_value (bs_seed_1 pb)))) = Some (b, r)"
    using Next_bool_seeded [OF hash] by blast
  then obtain pb' where pb': "ApplySeedReveal sha ?m (GetPhase pb) pb = Some (Some pb')"
    using s hash ph by (auto simp: ApplySeedReveal_def seeded_def bytes_value_def length_binary CheckHash_own good_hash_def)
  moreover have "fits sha i pb' g"
    using seed_revealed [OF pb' inv(1) _ fit] i by simp
  ultimately show ?thesis
    by (simp add: move_right_def ApplyMove_own [OF inv] plain_move_def uncounted_reveal_def)
qed

lemma reply_right:
  assumes inv: "board_inv pb" "length (participants meta) = 2" "bs_turn pb = Some i"
    and fit: "fits sha i pb g" and ph: "GetPhase pb = ANSWER"
  shows "move_right sha meta i pb (plain_move (Reply \<lparr>rm_reply =
      Some (if unat (current_shot pb) \<in> cells (sc_position g) then HIT else MISS)\<rparr>)) g"
proof -
  let ?m = "\<lparr>rm_reply = Some (if unat (current_shot pb) \<in> cells (sc_position g) then HIT else MISS)\<rparr>"
  have i: "i = 0 \<or> i = 1"
    using inv_turn_cases [OF inv(1)] inv(3) by auto
  have pt: "player_turn pb" and ko: "known_ok pb" and so: "shot_ok pb"
    using board_inv_phase(5) [OF inv(1) ph] by auto
  from ko obtain k0 k1 where k: "known_ships pb = [k0, k1]"
    by (rule inv_known_pair)
  obtain pb' where pb': "ApplyReply ?m (GetPhase pb) pb = Some (Some pb')"
    using reply_eq [OF ph pt k so, of ?m] ph
    by (cases "unat (current_shot pb) \<in> cells (sc_position g)") (simp_all add: Let_def)
  moreover have "fits sha i pb' g"
    using reply_fits [OF pb' inv(1) i fit] by simp
  ultimately show ?thesis
    by (simp add: move_right_def ApplyMove_own [OF inv] plain_move_def uncounted_reveal_def)
qed

lemma reveal_right:
  assumes inv: "board_inv pb" "length (participants meta) = 2" "bs_turn pb = Some i"
    and hash: "good_hash sha" and fit: "fits sha i pb g" "client_ok g"
    and ph: "GetPhase pb = SECOND_REVEAL_POSITION \<or>
      GetPhase pb = SHOOT \<and> 18 \<le> card (cells \<lparr>bits = hits (known_ships pb ! unat (1 - i))\<rparr>)"
  shows "move_right sha meta i pb (plain_move (PositionReveal
      \<lparr>pr_position = Some (bits (sc_position g)), pr_salt = Some (GetBinaryString (sc_positionSalt g))\<rparr>)) g"
proof -
  let ?p = "bits (sc_position g)"
  let ?m = "\<lparr>pr_position = Some ?p, pr_salt = Some (GetBinaryString (sc_positionSalt g))\<rparr>"
  have grid: "\<lparr>bits = ?p\<rparr> = sc_position g"
    by (cases "sc_position g") simp
  have t: "turn pb = i"
    using inv(3) by (simp add: turn_def)
  have f: "IsPositionSet g" "position_hashes pb ! unat i = commitment sha g" "answered i pb g {}"
    using fit(1) ph by (auto simp: fits_phase committed_def)
  then have pos: "VerifyPositionOfShips (sc_position g) = Some True" "wf_uint256 (sc_positionSalt g)"
    using fit(2) by (simp_all add: client_ok_def)
  have "reveal_accepted sha ?m pb"
    using ph f pos hash t Blob_total [of "sc_position g"]
    by (auto simp: reveal_accepted_def bytes_value_def grid commitment_def length_binary CheckHash_own good_hash_def)
  then have pb': "ApplyPositionReveal sha ?m (GetPhase pb) pb = Some (Some (reveal_done (GetPhase pb) pb ?p))"
    using reveal_eq [OF inv(1), of sha ?m] by simp
  have "reveal_result (GetPhase pb) pb ?p = Some i"
    using ph f(3) pos(1) t Verify_iff_fleet_of [of "sc_position g"]
    by (auto simp: reveal_result_def Let_def grid answered_def)
  then have "bs_winner (reveal_done (GetPhase pb) pb ?p) = Some i"
    using ph by (auto simp: reveal_done_fields phase_iffs)
  then have "fits sha i (reveal_done (GetPhase pb) pb ?p) g"
    using f(1) by (simp add: fits_phase phase_iffs)
  then show ?thesis
    using pb' legal_position_counted [of ?p] pos(1)
    by (simp add: move_right_def ApplyMove_own [OF inv] plain_move_def uncounted_reveal_def grid)
qed

text \<open>What an automatic move may be: none, with nothing changed, or a right one.\<close>

definition auto_result ::
    "(string \<Rightarrow> uint256) \<Rightarrow> channel_metadata \<Rightarrow> uint32 \<Rightarrow> board_state \<Rightarrow> ships_channel \<Rightarrow>
     (board_move option \<times> ships_channel) run \<Rightarrow> bool" where
  "auto_result sha meta i pb g r \<longleftrightarrow>
     (\<exists>mv g'. r = Some (mv, g') \<and> client_ok g' \<and> sc_playerName g' = sc_playerName g \<and>
       (case mv of None \<Rightarrow> g' = g | Some m \<Rightarrow> move_right sha meta i pb m g'))"

lemma auto_resultI:
  "r = Some (None, g) \<Longrightarrow> client_ok g \<Longrightarrow> auto_result sha meta i pb g r"
  "r = Some (Some m, g') \<Longrightarrow> client_ok g' \<Longrightarrow> sc_playerName g' = sc_playerName g \<Longrightarrow> move_right sha meta i pb m g' \<Longrightarrow>
    auto_result sha meta i pb g r"
  by (auto simp: auto_result_def)

lemma AutoPositionCommitment_eq:
  "AutoPositionCommitment ce g =
    Some (if IsPositionSet g then Some (commitment (env_sha (ce_channel ce)) g) else None)"
  by (simp add: AutoPositionCommitment_def Blob_total commitment_def)

lemma auto_commitment:
  assumes ce: "good_hash sha" "\<And>n. wf_uint256 (ce_rnd ce n)" "sha = env_sha (ce_channel ce)"
    and inv: "board_inv pb" "length (participants meta) = 2" "bs_turn pb = Some i"
    and ok: "client_ok g" and ph: "GetPhase pb = FIRST_COMMITMENT \<or> GetPhase pb = SECOND_COMMITMENT"
    and st: "pbs_state st = pb" and idx: "GetPlayerIndex st g = Some (uint i)"
  shows "auto_result sha meta i pb g (InternalAutoMove ce st g)"
proof (cases "IsPositionSet g")
  case False
  then have "InternalAutoMove ce st g = Some (None, g)"
    using ph board_inv_phase(1,2) [OF inv(1)] inv(3)
    by (auto simp: InternalAutoMove_def st idx turn_def AutoPositionCommitment_eq bind_CHECK)
  then show ?thesis
    using ok by (rule auto_resultI)
next
  case True
  let ?u = "ce_rnd ce (sc_draws g)"
  let ?g = "g\<lparr>sc_draws := Suc (sc_draws g)\<rparr>"
  have com: "commitment sha (?g\<lparr>sc_seed0 := s\<rparr>) = commitment sha g" "commitment sha ?g = commitment sha g" for s
    by (simp_all add: commitment_def)
  have ok': "client_ok (?g\<lparr>sc_seed0 := s\<rparr>)" "client_ok ?g" "IsPositionSet ?g" "IsPositionSet (?g\<lparr>sc_seed0 := s\<rparr>)" for s
    using ok True by (simp_all add: client_ok_def IsPositionSet_def)
  from ph show ?thesis
  proof
    assume f: "GetPhase pb = FIRST_COMMITMENT"
    have eq: "InternalAutoMove ce st g = Some (Some (plain_move (PositionCommitment
        \<lparr>pc_position_hash = Some (commitment sha g), pc_seed_hash = Some (GetBinaryString (sha (GetBinaryString ?u))),
         pc_seed = None\<rparr>)), ?g\<lparr>sc_seed0 := ?u\<rparr>)"
      using f True board_inv_phase(1) [OF inv(1)] inv(3)
      by (simp add: InternalAutoMove_def st idx turn_def AutoPositionCommitment_eq bind_CHECK rnd_Get_def Let_def ce(3))
    have "move_right sha meta i pb (plain_move (PositionCommitment
        \<lparr>pc_position_hash = Some (commitment sha g), pc_seed_hash = Some (GetBinaryString (sha (GetBinaryString ?u))),
         pc_seed = None\<rparr>)) (?g\<lparr>sc_seed0 := ?u\<rparr>)"
      using commit_right [OF inv ce(1) ok'(4) [of ?u] refl] f ce(2) [of "sc_draws g"] com(1) by auto
    then show ?thesis
      by (intro auto_resultI(2) [OF eq]) (simp_all add: ok')
  next
    assume f: "GetPhase pb = SECOND_COMMITMENT"
    have eq: "InternalAutoMove ce st g = Some (Some (plain_move (PositionCommitment
        \<lparr>pc_position_hash = Some (commitment sha g), pc_seed_hash = None, pc_seed = Some (GetBinaryString ?u)\<rparr>)), ?g)"
      using f True board_inv_phase(2) [OF inv(1)] inv(3)
      by (simp add: InternalAutoMove_def st idx turn_def AutoPositionCommitment_eq bind_CHECK rnd_Get_def Let_def ce(3))
    have "move_right sha meta i pb (plain_move (PositionCommitment
        \<lparr>pc_position_hash = Some (commitment sha g), pc_seed_hash = None, pc_seed = Some (GetBinaryString ?u)\<rparr>)) ?g"
      using commit_right [OF inv ce(1) ok'(3) refl] f ce(2) [of "sc_draws g"] com(2) by auto
    then show ?thesis
      by (intro auto_resultI(2) [OF eq]) (simp_all add: ok')
  qed
qed

lemma auto_right:
  assumes ce: "good_hash sha" "\<And>n. wf_uint256 (ce_rnd ce n)" "sha = env_sha (ce_channel ce)"
    and inv: "board_inv pb" "players meta (sc_playerName g) i" "bs_turn pb = Some i"
    and ok: "fits sha i pb g" "client_ok g"
    and st: "pbs_meta st = meta" "pbs_state st = pb"
  shows "auto_result sha meta i pb g (InternalAutoMove ce st g)"
proof -
  have two: "length (participants meta) = 2" and i: "i = 0 \<or> i = 1"
    using inv(2) by (simp_all add: players_def)
  note inv' = inv(1) two inv(3)
  have idx: "GetPlayerIndex st g = Some (uint i)" and t: "turn pb = i"
    using GetPlayerIndex_players [of st g i] inv st by (simp_all add: turn_def)
  have reveal: "GetPositionRevealMove g = Some (plain_move (PositionReveal
      \<lparr>pr_position = Some (bits (sc_position g)), pr_salt = Some (GetBinaryString (sc_positionSalt g))\<rparr>))"
    if "IsPositionSet g"
    using that by (simp add: GetPositionRevealMove_def bind_CHECK)
  show ?thesis
  proof (cases "GetPhase pb")
    case FIRST_REVEAL_SEED
    have "i = 0"
      using board_inv_phase(3) [OF inv(1) FIRST_REVEAL_SEED] inv(3) by simp
    then show ?thesis
      using seed_right [OF inv' ce(1) ok(1) FIRST_REVEAL_SEED] ok(2)
      by (intro auto_resultI(2)) (auto simp: InternalAutoMove_def st idx t bind_CHECK FIRST_REVEAL_SEED)
  next
    case SHOOT
    let ?k = "known_ships pb ! unat (1 - i)"
    have "length (known_ships pb) = 2" "IsPositionSet g" and o: "nat (1 - uint i) = unat (1 - i)" "unat (1 - i) < 2"
      using board_inv_phase(4) [OF inv(1) SHOOT] ok(1) SHOOT i by (auto simp: known_ok_def fits_phase committed_def)
    then have "InternalAutoMove ce st g =
      (if 18 \<le> card (cells \<lparr>bits = hits ?k\<rparr>) then map_option (\<lambda>mv. (Some mv, g)) (GetPositionRevealMove g) else Some (None, g))"
      using i by (auto simp: InternalAutoMove_def st idx t bind_CHECK SHOOT at_index_def CountOnes_card TotalShipCells_value
          reveal)
    then show ?thesis
      using reveal_right [OF inv' ce(1) ok] SHOOT reveal [OF \<open>IsPositionSet g\<close>] ok(2)
      by (cases "18 \<le> card (cells \<lparr>bits = hits ?k\<rparr>)") (auto intro: auto_resultI)
  next
    case ANSWER
    have "IsPositionSet g" "unat (current_shot pb) < 64"
      using board_inv_phase(5) [OF inv(1) ANSWER] ok(1) ANSWER by (auto simp: fits_phase committed_def shot_ok_def Let_def)
    then have "InternalAutoMove ce st g = Some (Some (plain_move (Reply \<lparr>rm_reply =
      Some (if unat (current_shot pb) \<in> cells (sc_position g) then HIT else MISS)\<rparr>)), g)"
      by (simp add: InternalAutoMove_def st idx t bind_CHECK ANSWER target_facts Let_def)
    then show ?thesis
      using reply_right [OF inv' ok(1) ANSWER] ok(2) by (intro auto_resultI(2)) auto
  next
    case SECOND_REVEAL_POSITION
    have "IsPositionSet g"
      using ok(1) SECOND_REVEAL_POSITION by (auto simp: fits_phase committed_def)
    then show ?thesis
      using reveal_right [OF inv' ce(1) ok] SECOND_REVEAL_POSITION reveal ok(2)
      by (intro auto_resultI(2)) (auto simp: InternalAutoMove_def st idx t bind_CHECK)
  next
    case FINISHED
    then show ?thesis
      using board_inv_phase(7) [OF inv(1)] inv(3) by simp
  next
    case INVALID
    then show ?thesis
      using board_inv_phase(8) [OF inv(1)] by simp
  qed (use auto_commitment [OF ce inv' ok(2) _ st(2) idx] in simp_all)
qed

subsection \<open>A game played with the client\<close>

text \<open>The states of a board with the data of the client of player \<open>i\<close>: the player may set a position and
  shoot, the client makes its automatic moves, and the opponent any moves that the rules accept.\<close>

inductive honest_play ::
    "client_env \<Rightarrow> uint256 \<Rightarrow> channel_metadata \<Rightarrow> string \<Rightarrow> uint32 \<Rightarrow> board_state \<Rightarrow> ships_channel \<Rightarrow> bool"
  for ce cid meta nm i where
  start: "honest_play ce cid meta nm i InitialBoardState (ShipsChannel_new nm)"
| position: "honest_play ce cid meta nm i pb g \<Longrightarrow> SetPosition ce grid g = Some g' \<Longrightarrow> honest_play ce cid meta nm i pb g'"
| auto: "honest_play ce cid meta nm i pb g \<Longrightarrow> bs_turn pb = Some i \<Longrightarrow>
    InternalAutoMove ce \<lparr>pbs_id = cid, pbs_meta = meta, pbs_state = pb\<rparr> g = Some (Some mv, g') \<Longrightarrow>
    ApplyMoveProto (env_sha (ce_channel ce)) meta pb mv = Some (Some pb') \<Longrightarrow> honest_play ce cid meta nm i pb' g'"
| shot: "honest_play ce cid meta nm i pb g \<Longrightarrow> bs_turn pb = Some i \<Longrightarrow> GetShotMove c = Some mv \<Longrightarrow>
    ApplyMoveProto (env_sha (ce_channel ce)) meta pb mv = Some (Some pb') \<Longrightarrow> honest_play ce cid meta nm i pb' g"
| opponent: "honest_play ce cid meta nm i pb g \<Longrightarrow> bs_turn pb = Some (1 - i) \<Longrightarrow>
    ApplyMoveProto (env_sha (ce_channel ce)) meta pb mv = Some (Some pb') \<Longrightarrow> honest_play ce cid meta nm i pb' g"

lemma SetPosition_cases:
  assumes "SetPosition ce grid g = Some g'"
  obtains "g' = g" | "\<not> IsPositionSet g" "VerifyPositionOfShips grid = Some True"
    "g' = g\<lparr>sc_position := grid, sc_draws := Suc (sc_draws g), sc_positionSalt := ce_rnd ce (sc_draws g)\<rparr>"
  using assms by (auto simp: SetPosition_def bind_CHECK rnd_Get_def Let_def elim!: bind_SomeE split: if_splits)

lemma SetPosition_fits:
  assumes "SetPosition ce grid g = Some g'" "\<And>n. wf_uint256 (ce_rnd ce n)"
  shows "(client_ok g \<longrightarrow> client_ok g') \<and> sc_playerName g' = sc_playerName g \<and> (fits sha i pb g \<longrightarrow> fits sha i pb g')"
  using assms(1)
proof (cases rule: SetPosition_cases)
  case 2
  have "client_ok g'" "sc_playerName g' = sc_playerName g"
    using 2 assms(2) by (simp_all add: client_ok_def)
  moreover have "fits sha i pb g \<longrightarrow> fits sha i pb g'"
    using 2(1) by (cases "GetPhase pb") (simp_all add: fits_def committed_def)
  ultimately show ?thesis
    by simp
qed simp

lemma honest_play_inv:
  assumes "honest_play ce cid meta nm i pb g"
    and ce: "good_hash (env_sha (ce_channel ce))" "\<And>n. wf_uint256 (ce_rnd ce n)" "players meta nm i"
  shows "board_inv pb \<and> fits (env_sha (ce_channel ce)) i pb g \<and> client_ok g \<and> sc_playerName g = nm"
  using assms(1)
proof (induction rule: honest_play.induct)
  case start
  have "GetPhase InitialBoardState = FIRST_COMMITMENT"
    by (simp add: phase_iffs InitialBoardState_def)
  then show ?case
    by (simp add: board_inv_initial fits_phase client_ok_def ShipsChannel_new_def IsPositionSet_def)
next
  case (position pb g grid g')
  then show ?case
    using SetPosition_fits [OF position(2) ce(2)] by simp
next
  case (auto pb g mv g' pb')
  then have "auto_result (env_sha (ce_channel ce)) meta i pb g (Some (Some mv, g'))"
    using auto_right [OF ce(1,2) refl, of pb meta g i "\<lparr>pbs_id = cid, pbs_meta = meta, pbs_state = pb\<rparr>"] ce(3) by simp
  then show ?case
    using auto move_inv [OF auto(4)] by (auto simp: auto_result_def move_right_def)
next
  case (shot pb g c mv pb')
  have "i = 0 \<or> i = 1" "length (participants meta) = 2"
    using ce(3) by (simp_all add: players_def)
  moreover obtain m where "bm_case mv = Shot m"
    using shot(3) by (auto simp: GetShotMove_def bind_CHECK plain_move_def split: if_splits elim!: bind_SomeE)
  ultimately show ?case
    using shot move_inv [OF shot(4)] ApplyMove_own [of pb meta i] shot_fits [of m pb pb' i _ g] by auto
next
  case (opponent pb g mv pb')
  have "i = 0 \<or> i = 1"
    using ce(3) by (simp add: players_def)
  then show ?case
    using opponent move_inv [OF opponent(3)] opponent_fits [OF opponent(3) _ _ opponent(2), of g] by auto
qed


end
