(* ===== verification/Channel_Codec.thy ===== *)
theory Channel_Codec
  imports Ships_Channel
begin

text \<open>
  Codecs for the messages of channels, in the style of \<open>Ships_Codec\<close>: they serve to instantiate the
  parameters that stand for protobuf, with the law that a serialised message parses to itself.
\<close>

definition whole :: "'a decoder \<Rightarrow> string \<Rightarrow> 'a option" where
  "whole d s = do { (x, r) \<leftarrow> d s; if r = [] then Some x else None }"

lemma whole_enc:
  assumes "\<And>r. d (s @ r) = Some (x, r)"
  shows "whole d s = Some x"
  using assms [of "[]"] by (simp add: whole_def)

subsection \<open>Metadata\<close>

definition enc_participant :: "channel_participant \<Rightarrow> string" where
  "enc_participant p = enc_bool (cp_unknown p) @ enc_opt enc_str (cp_name p) @ enc_opt enc_str (cp_address p)"

definition dec_participant :: "channel_participant decoder" where
  "dec_participant s =
     do {
       (u, r1) \<leftarrow> dec_bool s; (n, r2) \<leftarrow> dec_opt dec_str r1; (a, r3) \<leftarrow> dec_opt dec_str r2;
       Some (\<lparr>cp_unknown = u, cp_name = n, cp_address = a\<rparr>, r3)
     }"

lemma dec_enc_participant [codec]: "dec_participant (enc_participant p @ r) = Some (p, r)"
  by (simp add: enc_participant_def dec_participant_def codec)

definition enc_meta :: "channel_metadata \<Rightarrow> string" where
  "enc_meta m = enc_bool (cm_unknown m) @ enc_list enc_participant (participants m) @ enc_opt enc_str (cm_reinit m)
     @ enc_opt enc_str (cm_custom m)"

definition dec_meta :: "channel_metadata decoder" where
  "dec_meta s =
     do {
       (u, r1) \<leftarrow> dec_bool s; (ps, r2) \<leftarrow> dec_list dec_participant r1; (ri, r3) \<leftarrow> dec_opt dec_str r2;
       (c, r4) \<leftarrow> dec_opt dec_str r3;
       Some (\<lparr>cm_unknown = u, participants = ps, cm_reinit = ri, cm_custom = c\<rparr>, r4)
     }"

lemma dec_enc_meta [codec]: "dec_meta (enc_meta m @ r) = Some (m, r)"
  by (simp add: enc_meta_def dec_meta_def codec)

subsection \<open>State proofs\<close>

definition enc_signed :: "signed_data \<Rightarrow> string" where
  "enc_signed d = enc_bool (sd_unknown d) @ enc_opt enc_str (sd_data d) @ enc_list enc_str (signatures d)
     @ enc_opt enc_str (for_testing_version d)"

definition dec_signed :: "signed_data decoder" where
  "dec_signed s =
     do {
       (u, r1) \<leftarrow> dec_bool s; (d, r2) \<leftarrow> dec_opt dec_str r1; (sg, r3) \<leftarrow> dec_list dec_str r2;
       (v, r4) \<leftarrow> dec_opt dec_str r3;
       Some (\<lparr>sd_unknown = u, sd_data = d, signatures = sg, for_testing_version = v\<rparr>, r4)
     }"

lemma dec_enc_signed [codec]: "dec_signed (enc_signed d @ r) = Some (d, r)"
  by (simp add: enc_signed_def dec_signed_def codec)

definition enc_transition :: "state_transition \<Rightarrow> string" where
  "enc_transition t = enc_bool (st_unknown t) @ enc_opt enc_str (st_move t) @ enc_opt enc_signed (st_new_state t)"

definition dec_transition :: "state_transition decoder" where
  "dec_transition s =
     do {
       (u, r1) \<leftarrow> dec_bool s; (m, r2) \<leftarrow> dec_opt dec_str r1; (n, r3) \<leftarrow> dec_opt dec_signed r2;
       Some (\<lparr>st_unknown = u, st_move = m, st_new_state = n\<rparr>, r3)
     }"

lemma dec_enc_transition [codec]: "dec_transition (enc_transition t @ r) = Some (t, r)"
  by (simp add: enc_transition_def dec_transition_def codec)

definition enc_proof :: "state_proof \<Rightarrow> string" where
  "enc_proof p = enc_bool (sp_unknown p) @ enc_opt enc_signed (sp_initial_state p) @ enc_list enc_transition (transitions p)"

definition dec_proof :: "state_proof decoder" where
  "dec_proof s =
     do {
       (u, r1) \<leftarrow> dec_bool s; (i, r2) \<leftarrow> dec_opt dec_signed r1; (ts, r3) \<leftarrow> dec_list dec_transition r2;
       Some (\<lparr>sp_unknown = u, sp_initial_state = i, transitions = ts\<rparr>, r3)
     }"

lemma dec_enc_proof [codec]: "dec_proof (enc_proof p @ r) = Some (p, r)"
  by (simp add: enc_proof_def dec_proof_def codec)

definition wire_channel_codec :: channel_codec where
  "wire_channel_codec =
     \<lparr>ser_meta = enc_meta, par_meta = whole dec_meta, ser_proof = enc_proof, par_proof = whole dec_proof\<rparr>"

lemma wire_channel_codec:
  "par_meta wire_channel_codec (ser_meta wire_channel_codec m) = Some m"
  "par_proof wire_channel_codec (ser_proof wire_channel_codec p) = Some p"
  by (simp_all add: wire_channel_codec_def whole_enc codec)

subsection \<open>Broadcast messages\<close>

definition enc_broadcast :: "broadcast_message \<Rightarrow> string" where
  "enc_broadcast b = enc_opt enc_str (bm_reinit b) @ enc_opt enc_proof (bm_proof b)"

definition dec_broadcast :: "broadcast_message decoder" where
  "dec_broadcast s =
     do {
       (i, r1) \<leftarrow> dec_opt dec_str s; (p, r2) \<leftarrow> dec_opt dec_proof r1;
       Some (\<lparr>bm_reinit = i, bm_proof = p\<rparr>, r2)
     }"

lemma dec_enc_broadcast [codec]: "dec_broadcast (enc_broadcast b @ r) = Some (b, r)"
  by (simp add: enc_broadcast_def dec_broadcast_def codec)

definition wire_broadcast :: broadcast_codec where
  "wire_broadcast = \<lparr>ser_broadcast = enc_broadcast, par_broadcast = whole dec_broadcast\<rparr>"

lemma wire_broadcast: "par_broadcast wire_broadcast (ser_broadcast wire_broadcast b) = Some b"
  by (simp add: wire_broadcast_def whole_enc codec)

subsection \<open>Moves\<close>

definition reply_number :: "ReplyType \<Rightarrow> nat" where
  "reply_number r = (case r of REPLY_INVALID \<Rightarrow> 0 | HIT \<Rightarrow> 1 | MISS \<Rightarrow> 2)"

definition ser_board_move :: "board_move \<Rightarrow> string" where
  "ser_board_move mv =
     (case bm_case mv of
        MOVE_NOT_SET \<Rightarrow> enc_nat 0
      | PositionCommitment m \<Rightarrow> enc_nat 1 @ enc_opt enc_str (pc_position_hash m) @ enc_opt enc_str (pc_seed_hash m)
          @ enc_opt enc_str (pc_seed m)
      | SeedReveal m \<Rightarrow> enc_nat 2 @ enc_opt enc_str (sr_seed m)
      | Shot m \<Rightarrow> enc_nat 3 @ enc_opt enc_word (sh_location m)
      | Reply m \<Rightarrow> enc_nat 4 @ enc_opt enc_nat (map_option reply_number (rm_reply m))
      | PositionReveal m \<Rightarrow> enc_nat 5 @ enc_opt enc_word (pr_position m) @ enc_opt enc_str (pr_salt m))"

lemma reply_number_back:
  "(if reply_number r = 1 then HIT else if reply_number r = 2 then MISS else REPLY_INVALID) = r"
  by (cases r) (simp_all add: reply_number_def)

lemma dec_enc_last:
  "dec_opt dec_str (enc_opt enc_str a) = Some (a, [])"
  "dec_opt dec_word (enc_opt enc_word w) = Some (w, [])"
  "dec_opt dec_nat (enc_opt enc_nat n) = Some (n, [])"
  using dec_enc_opt [of dec_str enc_str a "[]"] dec_enc_opt [of dec_word enc_word w "[]"]
    dec_enc_opt [of dec_nat enc_nat n "[]"]
  by (simp_all add: codec)

lemma par_ser_board_move: "par_board_move (ser_board_move (plain_move c)) = Some (plain_move c)"
proof (cases c)
  case MOVE_NOT_SET
  then show ?thesis
    using dec_enc_nat [of 0 "[]"] by (simp add: par_board_move_def ser_board_move_def plain_move_def)
next
  case (Reply m)
  have "map_option (\<lambda>k. if k = 1 then HIT else if k = 2 then MISS else REPLY_INVALID)
      (map_option reply_number (rm_reply m)) = rm_reply m"
    by (cases "rm_reply m") (simp_all only: option.map reply_number_back)
  then show ?thesis
    using Reply by (simp add: par_board_move_def ser_board_move_def plain_move_def codec dec_enc_last)
qed (simp_all add: par_board_move_def ser_board_move_def plain_move_def codec dec_enc_last)

end
