(* ===== verification/Channel_Client.thy ===== *)
theory Channel_Client
  imports Client_Progress Honest_Player Channel_Codec
begin

text \<open>
  The channel daemon of Xayaships as a whole: the manager of \<open>Channel_Manager\<close> with the player's side
  of \<open>Ships_Channel\<close> and the rules of \<open>Ships_Rules\<close>.  The player's side fulfils the contract
  \<open>playing\<close>, so the manager makes progress, and disputes are answered by states that the game daemon
  accepts.  What the game daemon reports about a channel is what the manager gets.
\<close>

subsection \<open>The player's side fulfils the contract\<close>

definition ships_fit ::
    "(string \<Rightarrow> uint256) \<Rightarrow> channel_metadata \<Rightarrow> string \<Rightarrow> board_state proto_board_state \<Rightarrow> ships_channel \<Rightarrow> bool" where
  "ships_fit sha meta nm p g \<longleftrightarrow>
     (\<exists>i. players meta nm i \<and> fits sha i (pbs_state p) g \<and> client_ok g \<and> sc_playerName g = nm)"

lemma InternalAutoMove_plain:
  assumes "InternalAutoMove ce st g = Some (Some mv, g')"
  shows "mv \<in> range plain_move"
  using assms
  by (cases "GetPhase (pbs_state st)")
    (auto simp: InternalAutoMove_def GetPositionRevealMove_def Let_def bind_CHECK rnd_Get_def LOG_FATAL_def
      elim!: bind_SomeE split: if_splits option.splits)

lemma plain_move_reflect [simp]: "\<not> HasAnyUnknownFields (reflect_board_move (plain_move c))"
  by (cases c) (simp_all add: plain_move_def reflect_board_move_def)

lemma ships_move_accepted:
  assumes "good_hash sha" "good_codec cd" "ships_good cid meta p"
    and "sc_parse_move cd s = Some mv" "\<not> HasAnyUnknownFields (reflect_board_move mv)" "\<not> uncounted_reveal mv"
    and "ApplyMoveProto sha meta (pbs_state p) mv = Some (Some pb')"
  shows "\<exists>s' p' n n'. ApplyMove (ShipsBoardRules sha cd) p s = Some (Some s') \<and>
    ParseState (ShipsBoardRules sha cd) cid meta s' = Some (Some p') \<and> pbs_state p' = pb' \<and>
    TurnCount (ShipsBoardRules sha cd) p = Some n \<and> TurnCount (ShipsBoardRules sha cd) p' = Some n' \<and> n < n'"
proof -
  have p: "pbs_meta p = meta" "length (participants meta) = 2" "board_inv (pbs_state p)" "plain_board (pbs_state p)"
    using assms(3) by (simp_all add: ships_good_def)
  let ?p' = "\<lparr>pbs_id = cid, pbs_meta = meta, pbs_state = pb'\<rparr>"
  have inv: "board_inv pb'" "plain_board pb'"
    using move_inv [OF assms(7) p(3)] plain_board_move [OF assms(7) p(4,3)] by simp_all
  then have "ParseState (ShipsBoardRules sha cd) cid meta (sc_serialise_state cd pb') = Some (Some ?p')"
    using assms(2) board_inv_valid [OF inv(1) p(2)] by (simp add: ships_ParseState_iff good_codec_def)
  moreover have "ApplyMove (ShipsBoardRules sha cd) p s = Some (Some (sc_serialise_state cd pb'))"
    using assms(4,5,7) p(1) by (simp add: ships_rules_simps ProtoBoardState_ApplyMove_def ships_game_def)
  moreover obtain n where n: "Ships_TurnCount meta (pbs_state p) = Some n" "Ships_TurnCount meta pb' = Some (n + 1)"
    using TurnCount_move [OF assms(7) p(3,2)] assms(6) by auto
  moreover have "n < n + 1"
    using TurnCount_bound [OF p(3,2)] n(1) by (auto simp: word_less_nat_alt unat_word_ariths)
  ultimately show ?thesis
    using p(1) by (auto simp: ships_rules_simps)
qed

locale ships_client = signing env for env :: channel_env +
  fixes cd :: ships_codec and ce :: client_env
  assumes hash: "good_hash (env_sha env)"
    and codec: "good_codec cd"
    and moves: "sc_parse_move cd (ce_ser_move ce (plain_move c)) = Some (plain_move c)"
    and client: "ce_channel ce = env" "wf_uint256 (ce_rnd ce n)"
begin

lemma ships_auto_move:
  assumes good: "ships_good cid meta p" and turn: "Ships_WhoseTurn meta (pbs_state p) = Some t" "t \<noteq> NO_TURN"
    and nm: "participant_name (participants meta ! nat t) = nm" and fit: "ships_fit (env_sha env) meta nm p g"
  shows "\<exists>r g'. ShipsChannel_MaybeAutoMove ce p g = Some (r, g') \<and>
    (case r of
       None \<Rightarrow> g' = g
     | Some mv \<Rightarrow> \<exists>s' p' n n'. ApplyMove (ShipsBoardRules (env_sha env) cd) p mv = Some (Some s') \<and>
         ParseState (ShipsBoardRules (env_sha env) cd) cid meta s' = Some (Some p') \<and>
         TurnCount (ShipsBoardRules (env_sha env) cd) p = Some n \<and>
         TurnCount (ShipsBoardRules (env_sha env) cd) p' = Some n' \<and> n < n' \<and> ships_fit (env_sha env) meta nm p' g')"
proof -
  obtain i where i: "players meta nm i" "fits (env_sha env) i (pbs_state p) g" "client_ok g" "sc_playerName g = nm"
    using fit by (auto simp: ships_fit_def)
  have p: "pbs_meta p = meta" "length (participants meta) = 2" "board_inv (pbs_state p)"
    using good by (simp_all add: ships_good_def)
  have "bs_turn (pbs_state p) = Some i"
    using turn nm i(1) inv_turn_cases [OF p(3)] board_inv_WhoseTurn [OF p(3,2)]
    by (auto simp: players_def split: option.splits)
  then have "auto_result (env_sha env) meta i (pbs_state p) g (InternalAutoMove ce p g)"
    using auto_right [OF hash client(2) _ p(3) _ _ i(2,3) p(1) refl] i(1,4) client(1) by simp
  then obtain r g' where r: "InternalAutoMove ce p g = Some (r, g')" "client_ok g'" "sc_playerName g' = nm"
    "case r of None \<Rightarrow> g' = g | Some m \<Rightarrow> move_right (env_sha env) meta i (pbs_state p) m g'"
    using i(4) by (auto simp: auto_result_def)
  show ?thesis
  proof (cases r)
    case None
    then show ?thesis
      using r fit by (simp add: ShipsChannel_MaybeAutoMove_def)
  next
    case (Some m)
    obtain c where c: "m = plain_move c"
      using InternalAutoMove_plain [of ce p g m g'] r(1) Some by auto
    obtain pb' where pb': "ApplyMoveProto (env_sha env) meta (pbs_state p) m = Some (Some pb')"
        "\<not> uncounted_reveal m" "fits (env_sha env) i pb' g'"
      using r(4) Some by (auto simp: move_right_def)
    have "sc_parse_move cd (ce_ser_move ce m) = Some m" "\<not> HasAnyUnknownFields (reflect_board_move m)"
      using c moves by simp_all
    from ships_move_accepted [OF hash codec good this pb'(2,1)] show ?thesis
      using r Some pb'(3) i(1) by (auto simp: ShipsChannel_MaybeAutoMove_def ships_fit_def)
  qed
qed

lemma ships_on_chain_move:
  assumes "ships_good cid meta p" "working_wallet (ce_rpc ce)"
  shows "\<exists>g' s'. ShipsChannel_MaybeOnChainMove ce p (g, s) = Some (g', s') \<and> (\<exists>more. ms_sent s' = ms_sent s @ more)"
proof (cases "GetPhase (pbs_state p) = FINISHED")
  case False
  then show ?thesis
    by (simp add: ShipsChannel_MaybeOnChainMove_def)
next
  case True
  have p: "pbs_meta p = meta" "length (participants meta) = 2" "board_inv (pbs_state p)"
    using assms(1) by (simp_all add: ships_good_def)
  then obtain w where w: "bs_winner (pbs_state p) = Some w" "w = 0 \<or> w = 1"
    using board_inv_phase(7) [OF p(3) True] by auto
  define s1 where "s1 = (if IsNull (sc_txidClose g) then (False, s) else IsPending (ce_rpc ce) (sc_txidClose g) s)"
  have s1: "ms_sent (snd s1) = ms_sent s"
    by (simp add: s1_def IsPending_def)
  obtain r where r: "EncodeBase64 (env_encode (ce_channel ce)) (reinit meta) = Some r"
    using Encode_total client(1) by simp
  obtain txid s2 where s2: "SendMove (ce_rpc ce)
      (JObject [(''l'', JObject [(''id'', JString (ToHex (pbs_id p))), (''r'', JString r)])]) (snd s1) = Some (txid, s2)"
      "\<exists>more. ms_sent s2 = ms_sent s @ more"
    using SendMove_works [OF assms(2), of _ "snd s1"] s1 by metis
  have "0 \<le> sint (1 - w)" "sint (1 - w) < 2"
    using w(2) by auto
  then have "ShipsChannel_MaybeOnChainMove ce p (g, s) =
    (if participant_name (participants meta ! nat (sint (1 - w))) \<noteq> sc_playerName g then Some (g, s)
     else if fst s1 then Some (g, snd s1) else Some (g\<lparr>sc_txidClose := txid\<rparr>, s2))"
    using True w(1) p(1,2) r s2(1)
    by (auto simp: ShipsChannel_MaybeOnChainMove_def Let_def bind_CHECK s1_def case_prod_beta)
  then show ?thesis
    using s1 s2(2) by auto
qed

lemma ships_resolution_move: "\<exists>mv. ShipsChannel_ResolutionMove ce g cid pf = Some mv"
  using Encode_total client(1) by (simp add: ShipsChannel_ResolutionMove_def DisputeResolutionMove_def ProtoToBase64_def)

end

sublocale ships_client \<subseteq> play: playing "ShipsBoardRules (env_sha env) cd" env ships_good "ce_rpc ce" "ShipsChannel ce"
    "ships_fit (env_sha env)"
proof (rule playing.intro)
  show "proof_extension (ShipsBoardRules (env_sha env) cd) env"
    by (rule proof_extension.intro [OF ships_equality signing_axioms])
  show "board_progress (ShipsBoardRules (env_sha env) cd) ships_good"
    by (rule ships_progress [OF hash codec])
  show "playing_axioms (ShipsBoardRules (env_sha env) cd) ships_good (ce_rpc ce) (ShipsChannel ce) (ships_fit (env_sha env))"
  proof (rule playing_axioms.intro)
    fix cid meta p t nm g
    assume "ships_good cid meta p"
      "WhoseTurn (ShipsBoardRules (env_sha env) cd) p = Some t" "t \<noteq> NO_TURN"
      "participant_name (participants meta ! nat t) = nm" "ships_fit (env_sha env) meta nm p g"
    then show "\<exists>r g'. oc_MaybeAutoMove (ShipsChannel ce) p g = Some (r, g') \<and>
        (case r of
           None \<Rightarrow> g' = g
         | Some mv \<Rightarrow> \<exists>s' p' n n'. ApplyMove (ShipsBoardRules (env_sha env) cd) p mv = Some (Some s') \<and>
             ParseState (ShipsBoardRules (env_sha env) cd) cid meta s' = Some (Some p') \<and>
             TurnCount (ShipsBoardRules (env_sha env) cd) p = Some n \<and>
             TurnCount (ShipsBoardRules (env_sha env) cd) p' = Some n' \<and> n < n' \<and> ships_fit (env_sha env) meta nm p' g')"
      using ships_auto_move [of cid meta p t nm g]
      by (simp add: ShipsChannel_def ships_rules_simps ships_good_def)
  next
    fix cid meta p nm g s
    assume "ships_good cid meta p" "working_wallet (ce_rpc ce)"
    then show "\<exists>g' s'. oc_MaybeOnChainMove (ShipsChannel ce) p (g, s) = Some (g', s') \<and>
        (\<exists>more. ms_sent s' = ms_sent s @ more)"
      using ships_on_chain_move by (simp add: ShipsChannel_def)
  next
    fix g cid pf
    show "\<exists>mv. oc_ResolutionMove (ShipsChannel ce) g cid pf = Some mv"
      using ships_resolution_move by (simp add: ShipsChannel_def)
  qed
qed

end
