(* ===== verification/Channel_Daemon.thy ===== *)
theory Channel_Daemon
  imports Channel_Client Ships_Invariant Game
begin

text \<open>
  The channel daemon of Xayaships together with the game daemon: what the manager of
  \<open>Channel_Manager\<close> sends to the chain is understood by the game logic of \<open>Ships_Logic\<close>, and what the
  game daemon reports about a channel (\<open>src/gamechannel/gsprpc.cpp\<close>) is what the manager gets.
\<close>

subsection \<open>The manager of a Xayaships channel\<close>

definition xayaships_env ::
    "channel_env \<Rightarrow> ships_codec \<Rightarrow> client_env \<Rightarrow> broadcast_codec \<Rightarrow>
     (board_state proto_board_state, ships_channel) manager_env" where
  "xayaships_env env cd ce bc =
     \<lparr>me_rules = ShipsBoardRules (env_sha env) cd, me_open = ShipsChannel ce, me_env = env, me_rpc = ce_rpc ce,
      me_broadcast = bc\<rparr>"

lemma xayaships_env_simps [simp]:
  "me_rules (xayaships_env env cd ce bc) = ShipsBoardRules (env_sha env) cd"
  "me_open (xayaships_env env cd ce bc) = ShipsChannel ce"
  "me_env (xayaships_env env cd ce bc) = env" "me_rpc (xayaships_env env cd ce bc) = ce_rpc ce"
  by (simp_all add: xayaships_env_def)

text \<open>The state \<open>d\<close> is one of a real game, the secret data of the player belongs to it, and the wallet signs
  for the player.\<close>

definition client_ready ::
    "channel_env \<Rightarrow> board_state proto_board_state reinit_data \<Rightarrow>
     (board_state proto_board_state, ships_channel) channel_manager \<Rightarrow> bool" where
  "client_ready env d cm \<longleftrightarrow>
     ships_good (cm_channelId cm) (rd_meta d) (rd_latestState d) \<and>
     ships_fit (env_sha env) (rd_meta d) (cm_playerName cm) (rd_latestState d) (cm_game cm) \<and>
     (\<forall>p\<in>set (participants (rd_meta d)). participant_name p = cm_playerName cm \<longrightarrow>
       (\<forall>msg. env_signmessage env (address p) msg \<noteq> None))"

text \<open>A manager that can answer: it is not stopped, both senders are set up, and no resolution is pending.\<close>

definition responsive :: "('ps, 'g) channel_manager \<Rightarrow> bool" where
  "responsive cm \<longleftrightarrow>
     \<not> cm_stopped cm \<and> cm_offChainSender cm \<noteq> None \<and>
     (case cm_onChainSender cm of None \<Rightarrow> False | Some s \<Rightarrow> ms_channelId s = cm_channelId cm) \<and>
     (case cm_dispute cm of None \<Rightarrow> True | Some dd \<Rightarrow> IsNull (dd_pendingResolution dd))"

text \<open>The channel in the database of the game has a dispute against the player of the manager, about a
  state older than the one in \<open>d\<close>.\<close>

definition outdated_dispute ::
    "channel_env \<Rightarrow> 'ps board_rules \<Rightarrow> channel_row \<Rightarrow> 'ps reinit_data \<Rightarrow> ('ps, 'g) channel_manager \<Rightarrow> bool" where
  "outdated_dispute env rules r d cm \<longleftrightarrow>
     rd_meta d = row_metadata r \<and> rd_reinitState d = row_reinit r \<and>
     (case row_disputeHeight r of None \<Rightarrow> False | Some h \<Rightarrow> h \<noteq> 0) \<and>
     (\<exists>p m n t. proven_channel env rules (ChannelData_from_row (cm_channelId cm) r) p m \<and>
        WhoseTurn rules p = Some t \<and> 0 \<le> t \<and> t < 2 \<and>
        participant_name (participants (row_metadata r) ! nat t) = cm_playerName cm \<and>
        TurnCount rules (rd_latestState d) = Some n \<and> m < n)"

context ships_client
begin

lemma ready_iff:
  "play.ready (xayaships_env env cd ce bc) cm d \<longleftrightarrow>
    rolling_inv env (ShipsBoardRules (env_sha env) cd) (cm_channelId cm) (cm_boardStates cm) \<and>
    current_entry (cm_boardStates cm) = Some d \<and> client_ready env d cm"
  unfolding play.ready_defs client_ready_def ships_good_def by auto

lemma auto_moves_complete:
  assumes "manager_inv (xayaships_env env cd ce bc) cm" "\<not> cm_stopped cm" "cm_exists cm"
    and "current_entry (cm_boardStates cm) = Some d" "client_ready env d cm"
  shows "\<exists>found cm' d'. ProcessAutoMoves (xayaships_env env cd ce bc) cm = Some (found, cm') \<and>
    ProcessAutoMoves (xayaships_env env cd ce bc) cm' = Some (False, cm') \<and>
    current_entry (cm_boardStates cm') = Some d' \<and> client_ready env d' cm'"
proof -
  have "play.ready (xayaships_env env cd ce bc) cm d"
    using assms by (simp add: ready_iff manager_inv_def)
  from play.auto_moves_return [OF this assms(2,3), of False] show ?thesis
    unfolding ProcessAutoMoves_def ready_iff by blast
qed

text \<open>A resolution of the client, as a move in a block, is parsed to the same proof and applied.\<close>

lemma resolution_handled:
  assumes senv: "senv = \<lparr>senv_channel = env, senv_codec = cd, senv_parse_proof = par\<rparr>" "par (ce_ser_proof ce pf) = Some pf"
    and db: "distinct (map fst (db_channels db))" "map_of (db_channels db) i = Some r" "wf_uint256 i" "wf_uint256 txid"
    and good: "ships_good i (row_metadata r) q"
      "ParseState (ShipsBoardRules (env_sha env) cd) i (row_metadata r) (UnverifiedProofEndState pf) = Some (Some q)"
    and res: "ProcessResolution env (ShipsBoardRules (env_sha env) cd) (ChannelData_from_row i r) pf =
      Some (True, (ChannelData_from_row i r)\<lparr>cd_dirty := True, cd_proof := pf, cd_disputeHeight := 0\<rparr>)"
    and mv: "ShipsChannel_ResolutionMove ce g i pf = Some mv"
  shows "\<exists>db'. ships_move senv height (JObject [(''name'', JString nm), (''txid'', JString (ToHex txid)), (''move'', mv)]) db
      = Some db' \<and> (\<forall>r'. map_of (db_channels db') i = Some r' \<longrightarrow> row_disputeHeight r' = None)"
proof -
  let ?h = "ChannelData_from_row i r"
  let ?h' = "?h\<lparr>cd_dirty := True, cd_proof := pf, cd_disputeHeight := 0\<rparr>"
  let ?enc = "env_encode env (ce_ser_proof ce pf)"
  let ?obj = "JObject [(''id'', JString (ToHex i)), (''state'', JString ?enc)]"
  have mv': "mv = JObject [(''r'', ?obj)]"
    using mv client(1) by (simp add: ShipsChannel_ResolutionMove_def DisputeResolutionMove_def ProtoToBase64_def Encode_total)
  have "DecodeBase64 (env_decode env) ?enc = Some (Some (ce_ser_proof ce pf))"
    using Decode_Encode [of "ce_ser_proof ce pf"] by (simp add: Encode_total)
  then have parse: "ParseDisputeResolutionMove senv ?obj (db_channels db) = Some (Some (?h, pf))"
    using db senv(2) by (simp add: ParseDisputeResolutionMove_def ExtractProto_def ProtoFromBase64_def senv(1)
        RetrieveChannelFromMove_def json_get_object bind_CHECK GetById_def)
  have two: "length (participants (cd_metadata ?h)) = 2" and inv: "board_inv (pbs_state q)"
    using good by (simp_all add: ships_good_def ChannelData_from_row_def)
  have run: "file_proof senv False height pf ?h = Some (True, ?h')"
    using res by (simp add: file_proof_def senv(1) ships_boardRules_def)
  have id: "cd_id ?h = i" "cd_metadata ?h = row_metadata r" "cd_id ?h' = i"
    by (simp_all add: ChannelData_from_row_def)
  have dest: "ChannelData_destroy ?h' tbl = Some (tbl_put i (ChannelData_row ?h') tbl)" for tbl
    by (simp add: ChannelData_destroy_def ChannelData_from_row_def bind_CHECK)
  have parsed: "parse_proven (ships_boardRules senv) (cd_id ?h) (cd_metadata ?h) (ChannelData_GetLatestState ?h') = Some q"
    using good(2) by (simp add: parse_proven_def id senv(1) ships_boardRules_def ChannelData_GetLatestState_def)
  have handled: "\<exists>db'. HandleDisputeResolution senv ?obj height False db = Some db' \<and>
      (\<forall>r'. map_of (db_channels db') i = Some r' \<longrightarrow> row_disputeHeight r' = None)"
  proof (cases "bs_winner (pbs_state q)")
    case None
    then show ?thesis
      using db(1) by (simp add: Dispute_unfold [OF parse two run] parsed dest map_of_tbl_put ChannelData_row_def)
  next
    case (Some w)
    then have "w = 0 \<or> w = 1"
      using board_inv_phase(7) [OF inv] phase_iffs(1) [of "pbs_state q"] by auto
    then show ?thesis
      using Some two
      by (auto simp: Dispute_unfold [OF parse two run] parsed [unfolded id] dest UpdateStats_def bind_CHECK at_index_in Let_def id
          map_of_tbl_delete)
  qed
  have null: "HandleCreateChannel JNull height nm txid db = Some db" "HandleJoinChannel senv JNull nm txid db = Some db"
    "HandleAbortChannel JNull nm db = Some db" "HandleDeclareLoss senv JNull nm db = Some db"
    "HandleDisputeResolution senv JNull height True db = Some db"
    by (simp_all add: HandleCreateChannel_def ParseCreateChannelMove_def HandleJoinChannel_def ParseJoinChannelMove_def
        HandleAbortChannel_def ParseAbortChannelMove_def HandleDeclareLoss_def HandleDisputeResolution_def
        ParseDisputeResolutionMove_def)
  show ?thesis
    using handled db(4) by (simp add: ships_move_def mv' json_get_object bind_CHECK null)
qed

lemma dispute_handled:
  assumes "\<And>p. par (ce_ser_proof ce p) = Some p" "working_wallet (ce_rpc ce)"
    and "manager_inv (xayaships_env env cd ce bc) cm" "responsive cm" "client_ready env d cm"
    and "map_of (rs_reinits (cm_boardStates cm)) (reinit (row_metadata r)) = Some d"
    and "distinct (map fst (db_channels db))" "map_of (db_channels db) (cm_channelId cm) = Some r" "wf_uint256 (cm_channelId cm)"
    and "outdated_dispute env (ShipsBoardRules (env_sha env) cd) r d cm"
  shows "\<exists>cm' s' mv txid.
    (let ch = ChannelData_from_row (cm_channelId cm) r
     in ProcessOnChain (xayaships_env env cd ce bc) blk h (cd_metadata ch) (cd_reinit ch) (cd_proof ch)
          (cd_disputeHeight ch) cm) = Some cm' \<and>
    cm_onChainSender cm' = Some s' \<and> (mv, txid) \<in> set (ms_sent s') \<and>
    (\<forall>height nm tx. wf_uint256 tx \<longrightarrow>
      (\<exists>db'. ships_move \<lparr>senv_channel = env, senv_codec = cd, senv_parse_proof = par\<rparr> height
          (JObject [(''name'', JString nm), (''txid'', JString (ToHex tx)), (''move'', mv)]) db = Some db' \<and>
        (\<forall>r'. map_of (db_channels db') (cm_channelId cm) = Some r' \<longrightarrow> row_disputeHeight r' = None)))"
proof -
  let ?rules = "ShipsBoardRules (env_sha env) cd" and ?cid = "cm_channelId cm"
  let ?ch = "ChannelData_from_row ?cid r" and ?menv = "xayaships_env env cd ce bc"
  obtain s where s: "cm_onChainSender cm = Some s" "ms_channelId s = ?cid" "\<not> cm_stopped cm" "cm_offChainSender cm \<noteq> None"
      "case cm_dispute cm of None \<Rightarrow> True | Some dd \<Rightarrow> IsNull (dd_pendingResolution dd)"
    using assms(4) by (auto simp: responsive_def split: option.splits)
  obtain p m n t where t: "proven_channel env ?rules ?ch p m" "WhoseTurn ?rules p = Some t" "0 \<le> t" "t < 2"
      "participant_name (participants (row_metadata r) ! nat t) = cm_playerName cm"
      "TurnCount ?rules (rd_latestState d) = Some n" "m < n" and d: "rd_meta d = row_metadata r" "rd_reinitState d = row_reinit r"
    and dh: "row_disputeHeight r \<noteq> None" "row_disputeHeight r \<noteq> Some 0"
    using assms(10) unfolding outdated_dispute_def by (auto split: option.splits)
  have ch: "cd_id ?ch = ?cid" "cd_metadata ?ch = row_metadata r" "cd_reinit ?ch = row_reinit r" "HasDispute ?ch"
    using dh by (auto simp: ChannelData_from_row_def HasDispute_def word_gt_0 split: option.splits)
  have good: "ships_good ?cid (rd_meta d) (rd_latestState d)" "length (participants (row_metadata r)) = 2"
    using assms(5) d(1) by (simp_all add: client_ready_def ships_good_def)
  have signs: "q \<in> set (participants (cd_metadata ?ch)) \<Longrightarrow> participant_name q = cm_playerName cm \<Longrightarrow>
      env_signmessage env (address q) msg \<noteq> None" for q msg
    using assms(5) d(1) ch(2) by (simp add: client_ready_def)
  obtain cm' s' g mv txid pf q where
    run: "ProcessOnChain ?menv blk h (cd_metadata ?ch) (cd_reinit ?ch) (cd_proof ?ch) (cd_disputeHeight ?ch) cm = Some cm'"
      "cm_onChainSender cm' = Some s'" "(mv, txid) \<in> set (ms_sent s')"
    and mv: "oc_ResolutionMove (ShipsChannel ce) g ?cid pf = Some mv"
    and res: "ProcessResolution env ?rules ?ch pf = Some (True, ?ch\<lparr>cd_dirty := True, cd_proof := pf, cd_disputeHeight := 0\<rparr>)"
      "ParseState ?rules ?cid (row_metadata r) (UnverifiedProofEndState pf) = Some (Some q)" "ships_good ?cid (row_metadata r) q"
  proof -
    have "\<exists>cm' s' g mv txid pf q. ProcessOnChain ?menv blk h (cd_metadata ?ch) (cd_reinit ?ch) (cd_proof ?ch)
        (cd_disputeHeight ?ch) cm = Some cm' \<and> cm_onChainSender cm' = Some s' \<and> (mv, txid) \<in> set (ms_sent s') \<and>
      oc_ResolutionMove (ShipsChannel ce) g ?cid pf = Some mv \<and>
      ProcessResolution env ?rules ?ch pf = Some (True, ?ch\<lparr>cd_dirty := True, cd_proof := pf, cd_disputeHeight := 0\<rparr>) \<and>
      ParseState ?rules (cd_id ?ch) (cd_metadata ?ch) (UnverifiedProofEndState pf) = Some (Some q) \<and>
      ships_good (cd_id ?ch) (cd_metadata ?ch) q"
      using assms(2,3,5,6) s d t ch good signs
      by (intro play.on_chain_dispute_answered [where s = s and d = d and p = p and m = m and t = t and n = n])
        (simp_all add: client_ready_def)
    then show thesis
      using that ch by metis
  qed
  have "\<exists>db'. ships_move \<lparr>senv_channel = env, senv_codec = cd, senv_parse_proof = par\<rparr> height
      (JObject [(''name'', JString nm), (''txid'', JString (ToHex tx)), (''move'', mv)]) db = Some db' \<and>
    (\<forall>r'. map_of (db_channels db') ?cid = Some r' \<longrightarrow> row_disputeHeight r' = None)" if "wf_uint256 tx" for height nm tx
    using resolution_handled [OF refl, of par pf db ?cid r tx q g mv height nm] assms(1,7,8,9) that res mv by (simp add: ShipsChannel_def)
  then show ?thesis
    using run by (auto simp: Let_def)
qed

end



subsection \<open>From the game daemon to the manager\<close>

text \<open>\<open>DefaultGetChannel\<close> of \<open>gsprpc.cpp\<close>; \<open>tables\<close> gives the channels table in the database of the
  game for a game state, \<open>Inl\<close> is an error of the RPC interface.\<close>

definition DefaultGetChannel ::
    "('st, 'p) game_env \<Rightarrow> daemon \<Rightarrow> (string \<Rightarrow> channels_table run) \<Rightarrow> (channel_data \<Rightarrow> json run) \<Rightarrow> string \<Rightarrow>
     ('st, 'p) game \<Rightarrow> ((string + json) \<times> ('st, 'p) game) run" where
  "DefaultGetChannel genv d tables toJson channelId g =
     (case FromHex channelId of
        None \<Rightarrow> Some (Inl ''channel ID is not a valid uint256'', g)
      | Some i \<Rightarrow>
          do {
            (res, g) \<leftarrow> GetCustomStateData genv d ''channel''
              (\<lambda>state hash height.
                 do {
                   tbl \<leftarrow> tables state;
                   (case GetById i tbl of None \<Rightarrow> Some JNull | Some h \<Rightarrow> toJson h)
                 }) g;
            Some (Inr res, g)
          })"

lemma DecodeProto_encoded:
  assumes "evp_base64 (env_encode env) (env_decode env)" "par (ser m) = Some m" "ProtoToBase64 env ser m = Some s"
  shows "DecodeProto env par (JString s) = Some m"
  using evp_base64.Decode_Encode [OF assms(1), of "ser m"] assms(2,3)
  by (simp add: DecodeProto_def ProtoToBase64_def bind_CHECK)

lemma BoardStateToJson_fields:
  assumes "BoardStateToJson env rules toJson i meta st = Some j"
  shows "map_of (json_fields j) ''proof'' = None \<and>
    (\<exists>b. json_get j ''base64'' = JString b \<and> EncodeBase64 (env_encode env) st = Some b)"
  using assms unfolding BoardStateToJson_def
  by (auto elim!: bind_SomeE simp: json_get_object)

text \<open>What the manager reads from the JSON of a channel.\<close>

lemma channel_json_fields:
  assumes evp: "evp_base64 (env_encode env) (env_decode env)"
    and codec: "\<And>m. par_meta cc (ser_meta cc m) = Some m" "\<And>p. par_proof cc (ser_proof cc p) = Some p"
    and json: "ChannelToGameStateJson env cc rules toJson ch = Some j"
  shows "\<exists>fs. j = JObject fs" "json_get j ''id'' = JString (ToHex (cd_id ch))"
    "DecodeProto env (par_meta cc) (json_get (json_get j ''meta'') ''proto'') = Some (cd_metadata ch)"
    "DecodeProto env (par_proof cc) (json_get (json_get j ''state'') ''proof'') = Some (cd_proof ch)"
    "DecodeBase64 (env_decode env) (asString (json_get (json_get j ''reinit'') ''base64'')) = Some (Some (cd_reinit ch))"
    "json_get j ''disputeheight'' = (if HasDispute ch then JInt (sint (cd_disputeHeight ch)) else JNull)"
proof -
  define disp where "disp = (if HasDispute ch then [(''disputeheight'', JInt (sint (cd_disputeHeight ch)))] else [])"
  obtain m st pf re where parts:
      "ChannelMetadataToJson env cc (cd_metadata ch) = Some m" "ProtoToBase64 env (ser_proof cc) (cd_proof ch) = Some pf"
      "BoardStateToJson env rules toJson (cd_id ch) (cd_metadata ch) (ChannelData_GetLatestState ch) = Some st"
      "BoardStateToJson env rules toJson (cd_id ch) (cd_metadata ch) (cd_reinit ch) = Some re"
    and j: "j = JObject ((''id'', JString (ToHex (cd_id ch))) # disp @
          [(''meta'', m), (''state'', JObject (json_fields st @ [(''proof'', JString pf)])), (''reinit'', re)])"
    using json unfolding ChannelToGameStateJson_def disp_def
    by (auto simp: Let_def GetDisputeHeight_def bind_CHECK elim!: bind_SomeE split: if_splits)
  have get: "json_get j ''meta'' = m" "json_get j ''state'' = JObject (json_fields st @ [(''proof'', JString pf)])"
    "json_get j ''reinit'' = re"
    by (simp_all add: j json_get_object disp_def)
  obtain b where b: "json_get re ''base64'' = JString b" "EncodeBase64 (env_encode env) (cd_reinit ch) = Some b"
    using BoardStateToJson_fields [OF parts(4)] by auto
  obtain q where q: "json_get m ''proto'' = JString q" "ProtoToBase64 env (ser_meta cc) (cd_metadata ch) = Some q"
    using parts(1) by (auto simp: ChannelMetadataToJson_def json_get_object elim!: bind_SomeE)
  have pf: "json_get (json_get j ''state'') ''proof'' = JString pf"
    using BoardStateToJson_fields [OF parts(3)] by (simp add: get json_get_object map_add_def)
  show "\<exists>fs. j = JObject fs" "json_get j ''id'' = JString (ToHex (cd_id ch))"
    "json_get j ''disputeheight'' = (if HasDispute ch then JInt (sint (cd_disputeHeight ch)) else JNull)"
    by (simp_all add: j json_get_object disp_def)
  show "DecodeProto env (par_meta cc) (json_get (json_get j ''meta'') ''proto'') = Some (cd_metadata ch)"
    using DecodeProto_encoded [OF evp, of "par_meta cc" "ser_meta cc" "cd_metadata ch" q] codec(1) q(2) by (simp add: get q(1))
  show "DecodeProto env (par_proof cc) (json_get (json_get j ''state'') ''proof'') = Some (cd_proof ch)"
    using DecodeProto_encoded [OF evp, of "par_proof cc" "ser_proof cc" "cd_proof ch" pf] codec(2) parts(2) by (simp add: pf)
  show "DecodeBase64 (env_decode env) (asString (json_get (json_get j ''reinit'') ''base64'')) = Some (Some (cd_reinit ch))"
    using evp_base64.Decode_Encode [OF evp, of "cd_reinit ch"] b by (simp add: get)
qed


end
