(* ===== verification/Channel_Instance.thy ===== *)
theory Channel_Instance
  imports Channel_Daemon
begin

text \<open>
  Two channel daemons of Xayaships on concrete instances of all parameters: the contracts are fulfilled,
  and the theorems about the daemons apply to actual runs.
\<close>

definition mock_rpc :: chain_rpc where
  "mock_rpc =
     \<lparr>name_update = (\<lambda>n nm v. Some (ToHex (replicate 32 (of_nat n + 1)))), rpc_getrawmempool = (\<lambda>n. JArray []),
      writeString = (\<lambda>v. [])\<rparr>"

definition mock_client :: client_env where
  "mock_client =
     \<lparr>ce_channel = mock_env, ce_rnd = (\<lambda>n. replicate 32 (of_nat n + 1)), ce_ser_move = ser_board_move,
      ce_ser_proof = enc_proof, ce_rpc = mock_rpc\<rparr>"

lemma mock_wallet: "working_wallet mock_rpc"
  by (simp add: working_wallet_def mock_rpc_def wf_uint256_def NUM_BYTES_def)

interpretation xayaships: ships_client mock_env wire_codec mock_client
proof unfold_locales
  show "sc_parse_move wire_codec (ce_ser_move mock_client (plain_move c)) = Some (plain_move c)" for c
    by (simp add: wire_codec_def mock_client_def par_ser_board_move)
qed (simp_all add: mock_hash_good wire_codec_good mock_client_def wf_uint256_def NUM_BYTES_def)

definition duel_menv :: "(board_state proto_board_state, ships_channel) manager_env" where
  "duel_menv = xayaships_env mock_env wire_codec mock_client wire_broadcast"

definition duel_fleet :: grid where
  "duel_fleet = \<lparr>bits = 0x6F007700DB\<rparr>"

definition duel_player :: "string \<Rightarrow> ships_channel" where
  "duel_player nm = the (SetPosition mock_client duel_fleet (ShipsChannel_new nm))"

definition duel_opened :: manager_event where
  "duel_opened = (let s = ser_board_state InitialBoardState
     in Chain_update (replicate 32 9) 10 example_meta s (bare_proof s) 0)"

definition duel_manager :: "string \<Rightarrow> manager_event list \<Rightarrow> (board_state proto_board_state, ships_channel) channel_manager" where
  "duel_manager nm evs = the (manager_run duel_menv evs (started_manager example_id ''xs'' nm (duel_player nm)))"

text \<open>The first commitment of the first player, as a message.\<close>

definition duel_commitment :: string where
  "duel_commitment = ser_broadcast wire_broadcast \<lparr>bm_reinit = Some [], bm_proof = Some example_extended\<rparr>"

lemma manager_run_append:
  "manager_run env (evs @ evs') cm = Option.bind (manager_run env evs cm) (manager_run env evs')"
  by (induction evs arbitrary: cm) (auto split: Option.bind_splits)

lemma duel_manager_run:
  assumes "\<not> Option.is_none (manager_run duel_menv (evs @ evs') (started_manager example_id ''xs'' nm (duel_player nm)))"
  shows "manager_run duel_menv evs (started_manager example_id ''xs'' nm (duel_player nm)) = Some (duel_manager nm evs)"
    and "manager_run duel_menv evs' (duel_manager nm evs) = Some (duel_manager nm (evs @ evs'))"
  using assms by (auto simp: duel_manager_def manager_run_append Option.is_none_def split: Option.bind_splits)

lemma duel_reply:
  "\<not> Option.is_none (manager_run duel_menv ([duel_opened] @ [Message duel_commitment])
    (started_manager example_id ''xs'' ''b'' (duel_player ''b'')))"
  by code_simp


lemma mock_client_facts: "env_sha (ce_channel mock_client) = env_sha mock_env" "wf_uint256 (ce_rnd mock_client n)"
  by (simp_all add: mock_client_def wf_uint256_def NUM_BYTES_def)

lemma duel_players: "players example_meta ''a'' 0" "players example_meta ''b'' 1"
  by code_simp+

lemma duel_fleet_legal: "VerifyPositionOfShips duel_fleet = Some True"
  by code_simp

lemma duel_position: "SetPosition mock_client duel_fleet (ShipsChannel_new nm) = Some (duel_player nm)"
  by (simp add: duel_player_def SetPosition_def duel_fleet_legal ShipsChannel_new_def IsPositionSet_def rnd_Get_def bind_CHECK)
    (simp add: duel_fleet_def)


lemma duel_signs: "\<forall>p\<in>set (participants example_meta). participant_name p = nm \<longrightarrow> (\<forall>msg. env_signmessage mock_env (address p) msg \<noteq> None)"
  by (simp add: example_meta_def address_def mock_env_def bytes_value_def)

lemma client_readyI:
  assumes "rd_meta d = example_meta" "pbs_id (rd_latestState d) = cm_channelId cm" "pbs_meta (rd_latestState d) = example_meta"
    and "board_inv (pbs_state (rd_latestState d))" "plain_board (pbs_state (rd_latestState d))"
    and "players example_meta (cm_playerName cm) i" "fits (env_sha mock_env) i (pbs_state (rd_latestState d)) (cm_game cm)"
      "client_ok (cm_game cm)" "sc_playerName (cm_game cm) = cm_playerName cm"
  shows "client_ready mock_env d cm"
  using assms duel_signs [of "cm_playerName cm"]
  by (auto simp: client_ready_def ships_good_def ships_fit_def example_meta_def)

lemma cells_code [code]: "cells g = set (filter (bit (bits g)) [0..<64])"
  by (auto simp: cells_def dest: bit_imp_le_length)

text \<open>What has to be evaluated about the daemon \<open>cm\<close> of the first player in its current state \<open>d\<close>.\<close>

definition ready_facts ::
    "board_state proto_board_state reinit_data \<Rightarrow> (board_state proto_board_state, ships_channel) channel_manager \<Rightarrow> bool" where
  "ready_facts d cm \<longleftrightarrow>
     (let p = rd_latestState d; g = cm_game cm
      in rd_meta d = example_meta \<and> pbs_id p = example_id \<and> pbs_meta p = example_meta \<and> plain_board (pbs_state p) \<and>
         board_inv (pbs_state p) \<and> fits (env_sha mock_env) 0 (pbs_state p) g \<and> client_ok g \<and> sc_playerName g = ''a'' \<and>
         cm_channelId cm = example_id \<and> cm_playerName cm = ''a'' \<and> cm_exists cm \<and> responsive cm)"

lemma ready_facts_ready: "ready_facts d cm \<Longrightarrow> client_ready mock_env d cm"
  using duel_players(1) by (intro client_readyI [of _ _ 0]) (simp_all add: ready_facts_def Let_def)

subsection \<open>Automatic moves\<close>

text \<open>The first player sets the position when the channel is already open.\<close>

definition duel_waiting :: "(board_state proto_board_state, ships_channel) channel_manager run" where
  "duel_waiting = manager_run duel_menv [duel_opened] (started_manager example_id ''xs'' ''a'' (ShipsChannel_new ''a''))"

definition duel_placed :: "(board_state proto_board_state, ships_channel) channel_manager" where
  "duel_placed = (the duel_waiting)\<lparr>cm_game := duel_player ''a''\<rparr>"

lemma duel_placed_facts:
  "\<not> Option.is_none duel_waiting \<and>
   (case current_entry (cm_boardStates duel_placed) of None \<Rightarrow> False | Some d \<Rightarrow> ready_facts d duel_placed)"
  by code_simp

lemma duel_placed_inv: "manager_inv duel_menv duel_placed"
proof -
  obtain cm where cm: "duel_waiting = Some cm"
    using duel_placed_facts by (auto simp: Option.is_none_def)
  then have "manager_inv duel_menv cm"
    using good_manager_run [OF cm [unfolded duel_waiting_def]] started_inv [of duel_menv] unfolding good_step_def by blast
  moreover have "good_step duel_menv cm duel_placed"
    by (rule good_inessential) (simp add: inessential_def duel_placed_def cm)
  ultimately show ?thesis
    by (simp add: good_step_def)
qed


subsection \<open>A dispute\<close>

text \<open>The channel with a dispute about its initial state, as the game daemon has it, and the daemon of the
  first player, who has already moved.\<close>

definition duel_row :: channel_row where
  "duel_row = \<lparr>row_metadata = example_meta, row_reinit = ser_board_state InitialBoardState, row_stateproof = None,
     row_disputeHeight = Some 12\<rparr>"

definition duel_db :: ships_db where
  "duel_db = \<lparr>db_channels = [(example_id, duel_row)], db_extra = [], db_stats = []\<rparr>"

definition duel_moved :: "(board_state proto_board_state, ships_channel) channel_manager run" where
  "duel_moved = manager_run duel_menv [duel_opened] (started_manager example_id ''xs'' ''a'' (duel_player ''a''))"

lemma duel_moved_facts:
  "case duel_moved of None \<Rightarrow> False
   | Some cm \<Rightarrow> (case current_entry (cm_boardStates cm) of None \<Rightarrow> False
     | Some d \<Rightarrow> ready_facts d cm \<and> rs_reinitId (cm_boardStates cm) = reinit example_meta \<and>
         rd_reinitState d = ser_board_state InitialBoardState \<and> TurnCount mock_rules (rd_latestState d) = Some 2)"
  by code_simp

lemma duel_row_facts:
  "proven_channel mock_env mock_rules (ChannelData_from_row example_id duel_row) example_start 1 \<and>
   WhoseTurn mock_rules example_start = Some 0 \<and> participant_name (participants example_meta ! nat 0) = ''a''"
  by code_simp


subsection \<open>A message after the end\<close>

lemma duel_closed:
  "\<not> Option.is_none (manager_run duel_menv [duel_opened, Chain_gone (replicate 32 8) 11]
    (started_manager example_id ''xs'' ''b'' (duel_player ''b'')))"
  "Option.is_none (manager_run duel_menv [duel_opened, Chain_gone (replicate 32 8) 11, Message duel_commitment]
    (started_manager example_id ''xs'' ''b'' (duel_player ''b'')))"
  by code_simp+


subsection \<open>What the game daemon reports\<close>

definition duel_genv :: "(memory_storage, unit) game_env" where
  "duel_genv = \<lparr>ge_storage = MemoryStorage, ge_logic = CachingGame (\<lambda>_. None) (\<lambda>_ s _. Some s),
     ge_callbacks = \<lparr>cb_Clear = Some, cb_AddPendingMove = (\<lambda>_ _ _. Some)\<rparr>, ge_sha = env_sha mock_env\<rparr>"

definition duel_daemon :: daemon where
  "duel_daemon = \<lparr>bestblockhash = [], blocks = 12, getblockhash = (\<lambda>_. []), game_sendupdates = (\<lambda>_. ([], [])),
     getblockheader_height = (\<lambda>_. Some 12), getrawmempool = JArray []\<rparr>"

definition duel_game :: "(memory_storage, unit) game" where
  "duel_game = (the (Game_new ''xs'' ''regtest''
     \<lparr>hasState = True, currentBlock = replicate 32 8, currentState = ''s'', undoData = Map.empty, startedTxn = False\<rparr> None))
     \<lparr>g_state := UP_TO_DATE\<rparr>"

definition duel_channel_json :: "channel_data \<Rightarrow> json run" where
  "duel_channel_json = ChannelToGameStateJson (me_env duel_menv) wire_channel_codec (me_rules duel_menv) ShipsBoardState_ToJson"

definition duel_manager_a :: "(board_state proto_board_state, ships_channel) channel_manager" where
  "duel_manager_a = started_manager example_id ''xs'' ''a'' (duel_player ''a'')"

definition duel_answer :: "((string + json) \<times> (memory_storage, unit) game) run" where
  "duel_answer = DefaultGetChannel duel_genv duel_daemon (\<lambda>_. Some (db_channels duel_db)) duel_channel_json (ToHex example_id) duel_game"

lemma duel_answer_json:
  "case duel_answer of Some (Inr j, g) \<Rightarrow> True | _ \<Rightarrow> False"
  by code_simp


end
