(* ===== verification/Channel_Rpc.thy ===== *)
theory Channel_Rpc
  imports Channel_Instance
begin

text \<open>
  The requests of a user to the channel daemon of Xayaships: \<open>src/ships/channelrpc.cpp\<close>, with
  \<open>ReadLatestState\<close> of \<open>src/gamechannel/channelmanager.tpp\<close>.

  The server shares the player's data with the manager, where it is \<open>cm_game\<close>, and is called under its
  mutex; so a run of the daemon is a sequence of events of the manager and of requests.  Requests that
  are refused are logged only.  \<open>stop\<close> sets a flag that ends the main loop.

  Shown: whatever is requested and whatever else happens, the manager stays sound, the position that
  the player commits to is a legal fleet, and neither it nor its salt is ever replaced.
\<close>

type_synonym ships_manager = "(board_state proto_board_state, ships_channel) channel_manager"
type_synonym ships_manager_env = "(board_state proto_board_state, ships_channel) manager_env"

subsection \<open>The requests\<close>

definition ParseAndValidatePosition :: "string \<Rightarrow> grid option run" where
  "ParseAndValidatePosition str =
     do {
       r \<leftarrow> Grid_FromString str;
       (case r of
          None \<Rightarrow> Some None
        | Some g \<Rightarrow> do { ok \<leftarrow> VerifyPositionOfShips g; Some (if ok then Some g else None) })
     }"

definition rpc_setposition :: "ships_manager_env \<Rightarrow> client_env \<Rightarrow> string \<Rightarrow> ships_manager \<Rightarrow> ships_manager run" where
  "rpc_setposition env ce str cm =
     (if IsPositionSet (cm_game cm) then Some cm
      else do {
        r \<leftarrow> ParseAndValidatePosition str;
        (case r of
           None \<Rightarrow> Some cm
         | Some pos \<Rightarrow>
             do {
               channel \<leftarrow> SetPosition ce pos (cm_game cm);
               TriggerAutoMoves env (cm\<lparr>cm_game := channel\<rparr>)
             })
      })"

definition rpc_validateposition :: "string \<Rightarrow> bool run" where
  "rpc_validateposition str = do { r \<leftarrow> ParseAndValidatePosition str; Some (r \<noteq> None) }"

definition rpc_ProcessLocalMove :: "ships_manager_env \<Rightarrow> client_env \<Rightarrow> board_move \<Rightarrow> ships_manager \<Rightarrow> ships_manager run" where
  "rpc_ProcessLocalMove env ce mv cm = ProcessLocalMove env (ce_ser_move ce mv) cm"

definition rpc_shoot :: "ships_manager_env \<Rightarrow> client_env \<Rightarrow> int \<Rightarrow> int \<Rightarrow> ships_manager \<Rightarrow> ships_manager run" where
  "rpc_shoot env ce col rw cm =
     (let target = \<lparr>row = rw, column = col\<rparr>
      in if Coord_IsOnBoard target then do { mv \<leftarrow> GetShotMove target; rpc_ProcessLocalMove env ce mv cm }
         else Some cm)"

definition rpc_revealposition :: "ships_manager_env \<Rightarrow> client_env \<Rightarrow> ships_manager \<Rightarrow> ships_manager run" where
  "rpc_revealposition env ce cm =
     (if IsPositionSet (cm_game cm) then do { mv \<leftarrow> GetPositionRevealMove (cm_game cm); rpc_ProcessLocalMove env ce mv cm }
      else Some cm)"

definition ReadLatestState :: "('ps option \<Rightarrow> 'a) \<Rightarrow> ('ps, 'g) channel_manager \<Rightarrow> 'a run" where
  "ReadLatestState cb cm =
     (if \<not> cm_exists cm then Some (cb None)
      else do { state \<leftarrow> GetLatestState (cm_boardStates cm); Some (cb (Some state)) })"

definition rpc_filedispute :: "ships_manager_env \<Rightarrow> ships_manager \<Rightarrow> (string \<times> ships_manager) run" where
  "rpc_filedispute env cm =
     do {
       hasWinner \<leftarrow> ReadLatestState
         (\<lambda>state. case state of None \<Rightarrow> False | Some s \<Rightarrow> bs_winner (pbs_state s) \<noteq> None) cm;
       (txid, cm) \<leftarrow> (if hasWinner then PutStateOnChain env cm else FileDispute env cm);
       Some (if IsNull txid then [] else ToHex txid, cm)
     }"

definition ExtendStateJson :: "ships_channel \<Rightarrow> json \<Rightarrow> json run" where
  "ExtendStateJson channel state =
     (if IsPositionSet channel then
        do {
          pos \<leftarrow> GetPosition channel;
          str \<leftarrow> Grid_ToString pos;
          Some (JObject (AList.update ''myships'' (JString str) (json_fields state)))
        }
      else Some state)"

definition rpc_getcurrentstate ::
    "ships_manager_env \<Rightarrow> channel_codec \<Rightarrow> (board_state proto_board_state \<Rightarrow> json run) \<Rightarrow> ships_manager \<Rightarrow> json run" where
  "rpc_getcurrentstate env cc toJson cm =
     do { state \<leftarrow> UnlockedToJson env cc toJson cm; ExtendStateJson (cm_game cm) state }"

text \<open>A call that waits goes on with the manager \<open>later\<close>.\<close>

definition rpc_waitforchange ::
    "ships_manager_env \<Rightarrow> channel_codec \<Rightarrow> (board_state proto_board_state \<Rightarrow> json run) \<Rightarrow> ships_manager \<Rightarrow> int \<Rightarrow>
     ships_manager \<Rightarrow> json run" where
  "rpc_waitforchange env cc toJson later knownVersion cm =
     do { state \<leftarrow> CM_WaitForChange env cc toJson later knownVersion cm; ExtendStateJson (cm_game later) state }"

subsection \<open>Runs of the daemon\<close>

datatype rpc_request =
    Rpc_setposition string
  | Rpc_shoot int int
  | Rpc_revealposition
  | Rpc_filedispute

datatype daemon_event = Event manager_event | Request rpc_request

fun daemon_step :: "ships_manager_env \<Rightarrow> client_env \<Rightarrow> daemon_event \<Rightarrow> ships_manager \<Rightarrow> ships_manager run" where
  "daemon_step env ce (Event ev) cm = manager_step env ev cm"
| "daemon_step env ce (Request (Rpc_setposition str)) cm = rpc_setposition env ce str cm"
| "daemon_step env ce (Request (Rpc_shoot col rw)) cm = rpc_shoot env ce col rw cm"
| "daemon_step env ce (Request Rpc_revealposition) cm = rpc_revealposition env ce cm"
| "daemon_step env ce (Request Rpc_filedispute) cm = map_option snd (rpc_filedispute env cm)"

fun daemon_run :: "ships_manager_env \<Rightarrow> client_env \<Rightarrow> daemon_event list \<Rightarrow> ships_manager \<Rightarrow> ships_manager run" where
  "daemon_run env ce [] cm = Some cm"
| "daemon_run env ce (ev # evs) cm = do { cm \<leftarrow> daemon_step env ce ev cm; daemon_run env ce evs cm }"

subsection \<open>What events do to the data of the game\<close>

text \<open>A relation on the data of the game that automatic moves and on-chain moves respect is respected by
  everything that the manager does.\<close>

locale game_relation =
  fixes env :: "('ps, 'g) manager_env" and R :: "'g \<Rightarrow> 'g \<Rightarrow> bool"
  assumes R_refl: "R g g" and R_trans: "R a b \<Longrightarrow> R b c \<Longrightarrow> R a c"
    and auto_R: "oc_MaybeAutoMove (me_open env) state g = Some (mv, g') \<Longrightarrow> R g g'"
    and on_chain_R: "oc_MaybeOnChainMove (me_open env) state (g, sender) = Some (g', sender') \<Longrightarrow> R g g'"
begin

lemma ApplyLocalMove_game: "ApplyLocalMove env mv cm = Some (b, cm') \<Longrightarrow> cm_game cm' = cm_game cm"
  by (auto simp: ApplyLocalMove_def bind_CHECK split: option.splits if_splits elim!: bind_SomeE)

lemma auto_moves_R:
  assumes "auto_moves env found cm = Some (b, cm')"
  shows "R (cm_game cm) (cm_game cm')"
proof -
  have "e = env \<longrightarrow> R (cm_game cm) (cm_game (snd r))" if "auto_moves e found cm = Some r" for e r
    using that
  proof (rule auto_moves.raw_induct [rotated])
    fix rec :: "('ps, 'g) manager_env \<Rightarrow> bool \<Rightarrow> ('ps, 'g) channel_manager \<Rightarrow> (bool \<times> ('ps, 'g) channel_manager) option"
      and e found cm r
    assume IH: "\<And>e found cm r. rec e found cm = Some r \<Longrightarrow> e = env \<longrightarrow> R (cm_game cm) (cm_game (snd r))"
      and body: "Option.bind (GetLatestState (cm_boardStates cm)) (\<lambda>state.
        Option.bind (GetMetadata (cm_boardStates cm)) (\<lambda>meta.
        Option.bind (WhoseTurn (me_rules e) state) (\<lambda>turn.
          if turn = NO_TURN then Some (found, cm)
          else if \<not> (0 \<le> turn \<and> turn < int (length (participants meta))) then None
          else if participant_name (participants meta ! nat turn) \<noteq> cm_playerName cm then Some (found, cm)
          else Option.bind (oc_MaybeAutoMove (me_open e) state (cm_game cm)) (\<lambda>r.
            case fst r of None \<Rightarrow> Some (found, cm\<lparr>cm_game := snd r\<rparr>)
            | Some mv \<Rightarrow> Option.bind (ApplyLocalMove e mv (cm\<lparr>cm_game := snd r\<rparr>))
                (\<lambda>a. if \<not> fst a then None else rec e True (snd a)))))) = Some r"
    show "e = env \<longrightarrow> R (cm_game cm) (cm_game (snd r))"
    proof
      assume e: "e = env"
      from body consider "r = (found, cm)"
        | state q where "oc_MaybeAutoMove (me_open e) state (cm_game cm) = Some q" "r = (found, cm\<lparr>cm_game := snd q\<rparr>)"
        | state q mv a where "oc_MaybeAutoMove (me_open e) state (cm_game cm) = Some q"
            "ApplyLocalMove e mv (cm\<lparr>cm_game := snd q\<rparr>) = Some a" "rec e True (snd a) = Some r"
        by (auto elim!: bind_SomeE split: if_splits option.splits)
      then show "R (cm_game cm) (cm_game (snd r))"
      proof cases
        case (2 state q)
        then show ?thesis
          using auto_R [of state "cm_game cm" "fst q" "snd q"] e by simp
      next
        case (3 state q mv a)
        then have "R (cm_game cm) (snd q)"
          using auto_R [of state "cm_game cm" "fst q" "snd q"] e by simp
        moreover have "cm_game (snd a) = snd q"
          using ApplyLocalMove_game [of mv "cm\<lparr>cm_game := snd q\<rparr>" "fst a" "snd a"] 3(2) e by simp
        moreover have "R (cm_game (snd a)) (cm_game (snd r))"
          using IH [OF 3(3)] e by simp
        ultimately show ?thesis
          using R_trans by simp
      qed (simp add: R_refl)
    qed
  qed
  from this [OF assms] show ?thesis
    by simp
qed

lemma update_R:
  assumes "ProcessStateUpdate env bc cm = Some cm'"
  shows "R (cm_game cm) (cm_game cm')"
proof -
  obtain found cm1 cm2 cm3 cm4 where 1: "ProcessAutoMoves env cm = Some (found, cm1)"
    and 2: "(if found \<or> bc then broadcast_state env cm1 else Some cm1) = Some cm2"
    and 3: "TryResolveDispute env cm2 = Some cm3" "maybe_on_chain_move env cm3 = Some cm4" "CM_NotifyStateChange cm4 = Some cm'"
    using assms by (auto simp: ProcessStateUpdate_def elim!: bind_SomeE)
  have "cm_game cm2 = cm_game cm1"
    using 2 by (auto simp: broadcast_state_def split: if_splits elim!: bind_SomeE)
  moreover have "cm_game cm3 = cm_game cm2"
    using 3(1) by (auto simp: TryResolveDispute_def bind_CHECK split: option.splits if_splits elim!: bind_SomeE)
  moreover have "R (cm_game cm3) (cm_game cm4)"
    using 3(2) on_chain_R R_refl by (auto simp: maybe_on_chain_move_def split: option.splits elim!: bind_SomeE)
  moreover have "cm_game cm' = cm_game cm4"
    using 3(3) by (auto simp: CM_NotifyStateChange_def bind_CHECK split: if_splits)
  ultimately show ?thesis
    using auto_moves_R 1 R_trans unfolding ProcessAutoMoves_def by metis
qed

lemma trigger_R: "TriggerAutoMoves env cm = Some cm' \<Longrightarrow> R (cm_game cm) (cm_game cm')"
  using auto_moves_R update_R R_trans R_refl
  by (auto simp: TriggerAutoMoves_def ProcessAutoMoves_def split: if_splits elim!: bind_SomeE) blast+

lemma local_move_R: "ProcessLocalMove env mv cm = Some cm' \<Longrightarrow> R (cm_game cm) (cm_game cm')"
  using update_R R_refl
  by (auto simp: ProcessLocalMove_def split: if_splits elim!: bind_SomeE dest!: ApplyLocalMove_game) metis+

lemma requests_game:
  "PutStateOnChain env cm = Some (t, cm') \<Longrightarrow> cm_game cm' = cm_game cm"
  "FileDispute env cm = Some (t, cm') \<Longrightarrow> cm_game cm' = cm_game cm"
  by (auto simp: PutStateOnChain_def FileDispute_def bind_CHECK split: if_splits elim!: bind_SomeE)

lemma update_dispute_game: "update_dispute env meta pf h cm = Some cm' \<Longrightarrow> cm_game cm' = cm_game cm"
  by (auto simp: update_dispute_def Let_def split: if_splits elim!: bind_SomeE)

lemma manager_step_R:
  assumes "manager_step env ev cm = Some cm'"
  shows "R (cm_game cm) (cm_game cm')"
proof (cases ev)
  case (Message msg)
  have "R (cm_game cm) (cm_game cm')" if "ProcessOffChain env rid pf cm = Some cm'" for rid pf
    using that R_refl update_R by (auto simp: ProcessOffChain_def Let_def split: if_splits elim!: bind_SomeE) fastforce+
  then show ?thesis
    using assms Message R_refl by (auto simp: FeedMessage_def split: option.splits)
next
  case (Chain_update blk h meta rs pf dh)
  then show ?thesis
    using assms R_refl by (auto simp: ProcessOnChain_def split: if_splits elim!: bind_SomeE dest!: update_R update_dispute_game)
next
  case (Local_move mv)
  then show ?thesis
    using assms local_move_R by simp
next
  case Trigger
  then show ?thesis
    using assms trigger_R by simp
qed (use assms R_refl in \<open>auto simp: ProcessOnChainNonExistant_def StopUpdates_def CM_NotifyStateChange_def bind_CHECK
    split: if_splits dest: requests_game\<close>)

end

subsection \<open>The position of the player\<close>

definition keeps_secret :: "ships_channel \<Rightarrow> ships_channel \<Rightarrow> bool" where
  "keeps_secret g g' \<longleftrightarrow> sc_position g' = sc_position g \<and> sc_positionSalt g' = sc_positionSalt g"

lemma InternalAutoMove_secret: "InternalAutoMove ce state g = Some (mv, g') \<Longrightarrow> keeps_secret g g'"
  by (auto simp: InternalAutoMove_def keeps_secret_def rnd_Get_def Let_def bind_CHECK LOG_FATAL_def
      split: Phase.splits option.splits if_splits elim!: bind_SomeE)

lemma MaybeOnChainMove_secret: "ShipsChannel_MaybeOnChainMove ce state (g, s) = Some (g', s') \<Longrightarrow> keeps_secret g g'"
  by (auto simp: ShipsChannel_MaybeOnChainMove_def keeps_secret_def Let_def bind_CHECK
      split: if_splits prod.splits elim!: bind_SomeE)

interpretation xayaships: game_relation "xayaships_env env cd ce bc" keeps_secret for env cd ce bc
proof unfold_locales
  show "keeps_secret g g" "keeps_secret a b \<Longrightarrow> keeps_secret b c \<Longrightarrow> keeps_secret a c" for g a b c
    by (simp_all add: keeps_secret_def)
qed (auto simp: ShipsChannel_def ShipsChannel_MaybeAutoMove_def elim!: bind_SomeE dest: InternalAutoMove_secret MaybeOnChainMove_secret)

text \<open>A position that is set is a legal fleet and stays.\<close>

definition placed_ok :: "ships_channel \<Rightarrow> bool" where
  "placed_ok g \<longleftrightarrow> (IsPositionSet g \<longrightarrow> VerifyPositionOfShips (sc_position g) = Some True)"

definition position_step :: "ships_channel \<Rightarrow> ships_channel \<Rightarrow> bool" where
  "position_step g g' \<longleftrightarrow> (placed_ok g \<longrightarrow> placed_ok g') \<and> (IsPositionSet g \<longrightarrow> keeps_secret g g')"

lemma position_step_secret: "keeps_secret g g' \<Longrightarrow> position_step g g'"
  by (simp add: position_step_def keeps_secret_def placed_ok_def IsPositionSet_def)

lemma position_step_trans: "position_step a b \<Longrightarrow> position_step b c \<Longrightarrow> position_step a c"
  by (auto simp: position_step_def keeps_secret_def IsPositionSet_def)

lemma SetPosition_step:
  assumes "SetPosition ce pos g = Some g'"
  shows "position_step g g'"
  using assms
  by (auto simp: SetPosition_def position_step_def placed_ok_def keeps_secret_def rnd_Get_def Let_def bind_CHECK split: if_splits elim!: bind_SomeE)

lemma rpc_moves:
  assumes "rpc_ProcessLocalMove (xayaships_env env cd ce bc) ce mv cm = Some cm'"
  shows "good_step (xayaships_env env cd ce bc) cm cm' \<and> position_step (cm_game cm) (cm_game cm')"
  using assms good_ProcessLocalMove xayaships.local_move_R position_step_secret unfolding rpc_ProcessLocalMove_def by blast

lemma daemon_step_ok:
  assumes "daemon_step (xayaships_env env cd ce bc) ce ev cm = Some cm'"
  shows "good_step (xayaships_env env cd ce bc) cm cm' \<and> position_step (cm_game cm) (cm_game cm')"
  using assms
proof (induction "xayaships_env env cd ce bc" ce ev cm rule: daemon_step.induct)
  case (1 ce ev cm)
  then show ?case
    using good_manager_step xayaships.manager_step_R position_step_secret by (metis daemon_step.simps(1))
next
  case (2 ce str cm)
  have same: "good_step (xayaships_env env cd ce bc) cm cm \<and> position_step (cm_game cm) (cm_game cm)"
    using position_step_secret xayaships.R_refl by simp
  show ?case
  proof (cases "cm' = cm")
    case False
    then obtain pos ch where ch: "SetPosition ce pos (cm_game cm) = Some ch"
      "TriggerAutoMoves (xayaships_env env cd ce bc) (cm\<lparr>cm_game := ch\<rparr>) = Some cm'"
      using 2 by (auto simp: rpc_setposition_def split: if_splits option.splits elim!: bind_SomeE)
    have "good_step (xayaships_env env cd ce bc) cm (cm\<lparr>cm_game := ch\<rparr>)"
      by (rule good_inessential) (simp add: inessential_def)
    then show ?thesis
      using good_TriggerAutoMoves [OF ch(2)] good_trans xayaships.trigger_R [OF ch(2)] SetPosition_step [OF ch(1)]
        position_step_trans position_step_secret by fastforce
  qed (use same in simp)
next
  case (3 ce col rw cm)
  then show ?case
    using rpc_moves position_step_secret xayaships.R_refl
    by (fastforce simp: rpc_shoot_def Let_def split: if_splits elim!: bind_SomeE)
next
  case (4 ce cm)
  then show ?case
    using rpc_moves position_step_secret xayaships.R_refl
    by (fastforce simp: rpc_revealposition_def split: if_splits elim!: bind_SomeE)
next
  case (5 ce cm)
  then show ?case
    using good_requests xayaships.requests_game position_step_secret xayaships.R_refl
    by (fastforce simp: rpc_filedispute_def split: if_splits elim!: bind_SomeE)
qed

lemma daemon_run_ok:
  assumes "daemon_run (xayaships_env env cd ce bc) ce evs cm = Some cm'"
  shows "good_step (xayaships_env env cd ce bc) cm cm' \<and> position_step (cm_game cm) (cm_game cm')"
  using assms
proof (induction evs arbitrary: cm)
  case Nil
  then show ?case
    using position_step_secret xayaships.R_refl by simp
next
  case (Cons ev evs)
  then obtain cm1 where "daemon_step (xayaships_env env cd ce bc) ce ev cm = Some cm1"
    "daemon_run (xayaships_env env cd ce bc) ce evs cm1 = Some cm'"
    by (auto elim!: bind_SomeE)
  then show ?case
    using daemon_step_ok Cons.IH good_trans position_step_trans by meson
qed

text \<open>C12. The channel daemon of Xayaships with its user: start it and let messages, blocks and requests of the
  user come in any order.  As long as the process does not abort, all states that are kept and sent
  are proven ones; a position that is set is a legal fleet; and from then on, neither the position nor
  the salt of its commitment changes, so that the player can answer and reveal what was committed
  to.\<close>

theorem channel_daemon_sound:
  assumes "daemon_run (xayaships_env env cd ce bc) ce evs (started_manager i gameId nm (ShipsChannel_new nm)) = Some cm"
    and "daemon_run (xayaships_env env cd ce bc) ce evs' cm = Some cm'"
  shows "rolling_inv env (ShipsBoardRules (env_sha env) cd) i (cm_boardStates cm') \<and>
    (\<forall>b. cm_offChainSender cm' = Some b \<longrightarrow> (\<forall>msg\<in>set (bc_sent b). proven_message (xayaships_env env cd ce bc) cm' msg)) \<and>
    (IsPositionSet (cm_game cm') \<longrightarrow> (\<exists>F. legal_fleet (occupied (sc_position (cm_game cm'))) F)) \<and>
    (IsPositionSet (cm_game cm) \<longrightarrow>
      sc_position (cm_game cm') = sc_position (cm_game cm) \<and> sc_positionSalt (cm_game cm') = sc_positionSalt (cm_game cm))"
proof -
  let ?E = "xayaships_env env cd ce bc"
  have "manager_inv ?E (started_manager i gameId nm (ShipsChannel_new nm))" "placed_ok (ShipsChannel_new nm)"
    by (simp_all add: started_inv placed_ok_def ShipsChannel_new_def IsPositionSet_def)
  then have "manager_inv ?E cm \<and> cm_channelId cm = i \<and> placed_ok (cm_game cm)"
    using daemon_run_ok [OF assms(1)]
    by (auto simp: good_step_def later_manager_def position_step_def started_manager_def ChannelManager_new_def)
  then have cm': "manager_inv ?E cm'" "cm_channelId cm' = i" "placed_ok (cm_game cm')"
    and secret: "IsPositionSet (cm_game cm) \<longrightarrow> keeps_secret (cm_game cm) (cm_game cm')"
    using daemon_run_ok [OF assms(2)] by (auto simp: good_step_def later_manager_def position_step_def)
  moreover have "IsPositionSet (cm_game cm') \<longrightarrow> (\<exists>F. legal_fleet (occupied (sc_position (cm_game cm'))) F)"
    using cm'(3) by (auto simp: placed_ok_def Verify_iff_fleet_of)
  ultimately show ?thesis
    by (auto simp: manager_inv_def keeps_secret_def)
qed

text \<open>The example: the channel is opened, the user sets a position, and tries to set another one.\<close>

definition duel_requests :: "daemon_event list" where
  "duel_requests = [Event duel_opened, Request (Rpc_setposition (the (Grid_ToString duel_fleet)))]"

lemma duel_requests_run:
  "map_option (\<lambda>cm. IsPositionSet (cm_game cm))
     (daemon_run duel_menv mock_client duel_requests (started_manager example_id ''xs'' ''a'' (ShipsChannel_new ''a''))) = Some True"
  by code_simp

theorem channel_daemon_sound_witness:
  "\<exists>cm cm'. daemon_run duel_menv mock_client duel_requests (started_manager example_id ''xs'' ''a'' (ShipsChannel_new ''a'')) = Some cm \<and>
     daemon_run duel_menv mock_client [Request (Rpc_setposition ''x''), Request (Rpc_shoot 8 0)] cm = Some cm' \<and>
     sc_position (cm_game cm') = sc_position (cm_game cm) \<and> (\<exists>F. legal_fleet (occupied (sc_position (cm_game cm'))) F)"
proof -
  obtain cm where cm: "daemon_run duel_menv mock_client duel_requests (started_manager example_id ''xs'' ''a'' (ShipsChannel_new ''a'')) = Some cm"
    "IsPositionSet (cm_game cm)"
    using duel_requests_run by auto
  have run: "daemon_run duel_menv mock_client [Request (Rpc_setposition ''x''), Request (Rpc_shoot 8 0)] cm = Some cm"
    using cm(2) by (simp add: rpc_setposition_def rpc_shoot_def Coord_IsOnBoard_def SIDE_def)
  from channel_daemon_sound [OF cm(1) [unfolded duel_menv_def] run [unfolded duel_menv_def]] show ?thesis
    using cm run by auto
qed

end
