(* ===== verification/Spec2Isabelle.thy ===== *)
theory Spec2Isabelle
  imports Ships_Pending Xaya_Random Nonfungible_Ledger Mover_Undo SQLite_Game LMDB_Storage Rest Channel_Rpc
begin

text \<open>
  A verification of libxayagame: the library \<open>src/xayagame\<close> for games on the Xaya blockchain, the
  framework \<open>src/gamechannel\<close> for game channels (state channels) on top of it, the utilities
  \<open>src/xayautil\<close>, and the games \<open>src/ships\<close>, \<open>src/nonfungible\<close> and \<open>src/mover\<close>.

  \<^bold>\<open>The program.\<close>  A game daemon follows the blockchain.  Xaya Core tells it by ZMQ messages which
  blocks are attached to and detached from the chain and which moves are pending.  The daemon keeps
  the current state of its game in a storage, computes the next state with the rules of the game when
  a block is attached, and restores the previous one from undo data when a block is detached.  In a
  game channel, players exchange moves among themselves.  A state of the channel is proved to others
  by a chain of transitions, signed so that everybody has agreed to it or to a successor.  Only
  disputes and their resolutions go to the blockchain, where the daemon verifies the proofs.

  \<^bold>\<open>How code becomes definitions.\<close>  A class or message is a record, an enumeration a datatype, an
  \<open>unsigned\<close> or \<open>uint64_t\<close> a word of its width.  A function that may fail a \<open>CHECK\<close>, call
  \<open>LOG (FATAL)\<close> or let an exception escape returns \<open>'a run\<close> (an option), where \<open>None\<close> is the abort of
  the process; a function that returns false or an error value does so by a value.  Objects are passed
  through explicitly.  The operations of a storage may throw an exception that asks for a retry;
  there a computation is an \<open>exec\<close>, with this exception as an outcome.  Loops are recursive functions
  on the data they run over; the few loops whose end depends on a parameter (random numbers, the
  retry loop for the genesis state, the automatic moves of a channel, the cursor over a database) are
  \<open>partial_function (option)\<close>, so that not ending is \<open>None\<close>, and that they return is proved.
  No fuel is used in what the properties are about.

  \<^bold>\<open>The theories\<close>, and the code they model:

  \<^item> \<open>Prelude\<close>: the monad of aborting computations and generic lemmas.  \<open>Json\<close>: the values of jsoncpp and
    the accessors that the code uses.
  \<^item> \<open>Uint256\<close> (\<open>xayautil/uint256.cpp\<close>), \<open>Base64\<close> (\<open>xayautil/base64.cpp\<close>), \<open>Xaya_Random\<close>
    (\<open>xayautil/random.cpp\<close>): values, codings and deterministic random numbers, with their round
    trips, orders, bounds and distributions.
  \<^item> \<open>Compression\<close> (\<open>xayautil/compression.cpp\<close>), \<open>Rest\<close> (\<open>xayagame/rest.cpp\<close>): compressed JSON, and JSON
    over the REST interface, arrive unchanged; bytes after a compressed stream abort the process.
  \<^item> \<open>Storage\<close> (\<open>storage.cpp\<close>, \<open>heightcache.cpp\<close>, \<open>transactionmanager.cpp\<close>, \<open>pruningqueue.cpp\<close> of
    \<open>src/xayagame\<close>); \<open>Storage_Contract\<close>: the promises of a storage as a locale, with the phases of a
    transaction and the contents that a rollback or a crash may restore, the layers on top of it
    proved once and for all with Hoare triples, and the interpretation for the in-memory storage;
    \<open>Pruning\<close>: what the pruning queue keeps.
  \<^item> \<open>SQLite_Database\<close>, \<open>SQLite_Storage\<close> (\<open>sqlitestorage.cpp\<close>): columns, prepared statements, and the
    storage in an SQLite database, which keeps the contract; a daemon on it is right also after a
    crash, and a rollback ends durability.  \<open>SQLite_Game\<close> (\<open>sqlitegame.cpp\<close>): games in such a database,
    whose blocks are undone by changesets.  \<open>LMDB_Storage\<close> (\<open>lmdbstorage.cpp\<close>): the storage whose
    operations throw when its map is full, and which keeps the contract as well.
  \<^item> \<open>Game_Logic\<close> (\<open>gamelogic.cpp\<close>) with a locale for games whose blocks can be undone;
    \<open>Pending_Moves\<close> (\<open>pendingmoves.cpp\<close>); \<open>Game\<close> (\<open>game.cpp\<close> and the dispatch in
    \<open>zmqsubscriber.cpp\<close>); \<open>Game_Sync\<close>: the stored state is always the right one, for any storage that
    keeps the contract and any undoable game; \<open>Catch_Up\<close>: synchronisation completes.
  \<^item> \<open>Channel_Protos\<close> (\<open>gamechannel/proto\<close>, \<open>protoversion.cpp\<close>), \<open>Board_Rules\<close> (\<open>boardrules.hpp\<close>,
    \<open>protoboard.tpp\<close>), \<open>Signatures\<close> (\<open>signatures.cpp\<close>), \<open>State_Proof\<close> (\<open>stateproof.cpp\<close>),
    \<open>Rolling_State\<close> (\<open>rollingstate.cpp\<close>), \<open>Channel_Game\<close> (\<open>database.cpp\<close>, \<open>channelgame.cpp\<close>): the
    verification of proofs decides a declarative validity; rows, rolling states and disputes only
    ever hold proven states.
  \<^item> \<open>Channel_Json\<close> (\<open>gamechannel/gamestatejson.cpp\<close>, \<open>ships/gamestatejson.cpp\<close>): channels and boards
    as JSON.  \<open>Channel_Manager\<close> (\<open>channelmanager.cpp\<close>, \<open>movesender.cpp\<close>, \<open>broadcast.cpp\<close>,
    \<open>chaintochannel.cpp\<close>, \<open>gsprpc.cpp\<close>): the client side of a channel; \<open>Manager_Sound\<close>: it holds and
    sends proven states only; \<open>Client_Progress\<close>: it makes progress with every game that keeps the
    contract \<open>playing\<close>.
  \<^item> \<open>Coord\<close>, \<open>Grid\<close>, \<open>Fleet\<close>, \<open>Fleet_Packing\<close> (\<open>ships/coord.cpp\<close>, \<open>grid.cpp\<close>), \<open>Board\<close>
    (\<open>ships/board.cpp\<close>), \<open>Ships_Codec\<close>, \<open>Ships_Rules\<close> (the rules of Xayaships as board rules),
    \<open>Ships_Logic\<close>, \<open>Ships_Invariant\<close>, \<open>Ships_Pending\<close> (\<open>ships/logic.cpp\<close>): legality of fleets, safety
    and bounded length of a game, the invariant of the daemon's database.
  \<^item> \<open>Ships_Channel\<close> (\<open>ships/channel.cpp\<close>), \<open>Honest_Player\<close>, \<open>Channel_Client\<close>, \<open>Channel_Daemon\<close>,
    \<open>Channel_Codec\<close>, \<open>Channel_Instance\<close>: the player's side of Xayaships, which never loses a game it has
    not lost on the board, answers disputes, and fulfils \<open>playing\<close>; and two daemons on concrete
    instances of all parameters.  \<open>Channel_Rpc\<close> (\<open>ships/channelrpc.cpp\<close>): the requests of a user keep the
    daemon sound and never replace a position.
  \<^item> \<open>Nonfungible\<close>, \<open>Nonfungible_Ledger\<close> (\<open>src/nonfungible\<close>): the confirmed and the pending processor
    refine one abstract ledger of assets.
  \<^item> \<open>Mover\<close>, \<open>Mover_Undo\<close> (\<open>src/mover\<close>): undoing a block restores the state.

  \<^bold>\<open>Interfaces\<close> are locales: the promises of a storage (\<open>storage_contract\<close>, interpreted for the three
  storages), games whose blocks can be undone, board rules, the automatic moves of a game (\<open>playing\<close>),
  relations on the data of a game (\<open>game_relation\<close>), and the documented behaviour of SQLite, its session
  extension, LMDB, zlib and jsoncpp (\<open>sqlite_documented\<close>, \<open>session_documented\<close>, \<open>lmdb_documented\<close>,
  \<open>zlib_documented\<close>, \<open>jsoncpp_documented\<close>, each interpreted on a reference implementation).  The daemon
  is verified against the first two, so that its properties hold with every storage and game here.

  \<^bold>\<open>Parameters.\<close>  SHA-256, OpenSSL's block coder for base64, the serialisation of protocol buffers,
  SQLite, its session extension, LMDB, zlib, the text form of JSON, \<open>verifymessage\<close> and \<open>signmessage\<close> of Xaya Core and its other
  answers are arguments of the definitions that use them; what the properties need of them is a
  hypothesis named in their statements, and the witnesses instantiate them by concrete functions.

  \<^bold>\<open>Not modelled\<close>: the libraries and sockets under the HTTP, JSON-RPC and ZMQ interfaces,
  forwarding RPC methods (\<open>gamerpcserver.cpp\<close>, \<open>rpcbroadcast.cpp\<close>), threads and condition variables (handlers run under
  one mutex, and are one function each; a waiting call is given the object at the time it goes on),
  start-up and signals (\<open>defaultmain.cpp\<close>, \<open>mainloop.cpp\<close>, the daemons' \<open>main\<close> functions), hashing,
  crypto randomness and floating-point amounts (wrappers of libraries), and tests.  The
  tables of the games in \<open>src/ships\<close> and \<open>src/nonfungible\<close> are lists of rows.
\<close>

end
